(* ===== verification/Prelude.thy ===== *)
theory Prelude
  imports Complex_Main "HOL-Library.Word" "HOL-Library.Multiset" "HOL-Library.AList"
begin

text \<open>
  What every component shares: the names of the Rust integer types, the saturating and checked
  operations of the Rust standard library on them, a result type with its case lemmas,
  \<open>BTreeMap\<close> as an association list sorted by key, a stable sort driven by a comparator (Rust's
  \<open>sort_by\<close>), and two locales that the components interpret: \<open>ordered_map\<close> (what a client may
  assume of a map) and \<open>op_invariant\<close> (an invariant kept by every operation holds after every run).
\<close>

section \<open>Collections of facts\<close>

named_theorems sat_simps \<open>saturating and checked arithmetic, read through unat\<close>
named_theorems op_defs \<open>definitions of the operations of a component\<close>
named_theorems frame_simps \<open>fields an operation leaves alone\<close>

section \<open>Machine integers\<close>

type_synonym u8 = "8 word"
type_synonym u16 = "16 word"
type_synonym u32 = "32 word"
type_synonym u64 = "64 word"
type_synonym i32 = "32 word"
type_synonym i64 = "64 word"

definition sat_add :: "'a::len word \<Rightarrow> 'a word \<Rightarrow> 'a word" where
  "sat_add x y = (if 2 ^ LENGTH('a) \<le> unat x + unat y then - 1 else x + y)"

definition sat_sub :: "'a::len word \<Rightarrow> 'a word \<Rightarrow> 'a word" where
  "sat_sub x y = (if x < y then 0 else x - y)"

definition sat_mul :: "'a::len word \<Rightarrow> 'a word \<Rightarrow> 'a word" where
  "sat_mul x y = (if 2 ^ LENGTH('a) \<le> unat x * unat y then - 1 else x * y)"

definition checked_add :: "'a::len word \<Rightarrow> 'a word \<Rightarrow> 'a word option" where
  "checked_add x y = (if 2 ^ LENGTH('a) \<le> unat x + unat y then None else Some (x + y))"

definition checked_mul :: "'a::len word \<Rightarrow> 'a word \<Rightarrow> 'a word option" where
  "checked_mul x y = (if 2 ^ LENGTH('a) \<le> unat x * unat y then None else Some (x * y))"

definition try_from :: "'a::len word \<Rightarrow> 'b::len word option" where
  "try_from x = (if unat x < 2 ^ LENGTH('b) then Some (ucast x) else None)"


lemma unat_max_word: "unat (- 1 :: 'a::len word) = 2 ^ LENGTH('a) - 1"
  by (simp add: unsigned_minus_1_eq_mask mask_eq_exp_minus_1)

lemma unat_bound: "unat x < 2 ^ LENGTH('a)" for x :: "'a::len word"
  by simp

lemma unat_sat_add [sat_simps]:
  "unat (sat_add x y) = min (unat x + unat y) (2 ^ LENGTH('a) - 1)" for x y :: "'a::len word"
  by (auto simp: sat_add_def unat_max_word unat_word_ariths min_def)

lemma unat_sat_sub [sat_simps]: "unat (sat_sub x y) = unat x - unat y"
  by (auto simp: sat_sub_def unat_sub_if' word_less_nat_alt word_le_nat_alt)

lemma unat_sat_mul [sat_simps]:
  "unat (sat_mul x y) = min (unat x * unat y) (2 ^ LENGTH('a) - 1)" for x y :: "'a::len word"
proof (cases "2 ^ LENGTH('a) \<le> unat x * unat y")
  case True
  then have "min (unat x * unat y) (2 ^ LENGTH('a) - 1) = 2 ^ LENGTH('a) - 1"
    by (meson diff_le_self le_trans min.absorb2)
  with True show ?thesis by (simp add: sat_mul_def unat_max_word)
next
  case False
  then show ?thesis by (auto simp: sat_mul_def unat_word_ariths min_def)
qed

lemma unat_ucast_up: "LENGTH('a) \<le> LENGTH('b) \<Longrightarrow> unat (ucast x :: 'b::len word) = unat x" for x :: "'a::len word"
proof -
  assume "LENGTH('a) \<le> LENGTH('b)"
  then have "unat x < 2 ^ LENGTH('b)" using unat_bound[of x] by (meson less_le_trans one_le_numeral power_increasing)
  then show ?thesis by (simp add: unsigned_ucast_eq take_bit_nat_eq_self)
qed

lemma checked_add_Some [sat_simps]:
  "checked_add x y = Some z \<longleftrightarrow> unat z = unat x + unat y" for x y z :: "'a::len word"
proof (cases "2 ^ LENGTH('a) \<le> unat x + unat y")
  case True
  then have "unat z \<noteq> unat x + unat y" using unat_bound[of z] by linarith
  with True show ?thesis by (simp add: checked_add_def)
next
  case False
  then show ?thesis by (auto simp: checked_add_def unat_word_ariths word_unat_eq_iff)
qed

lemma try_from_Some [sat_simps]:
  "try_from x = Some y \<longleftrightarrow> unat y = unat x" for x :: "'a::len word" and y :: "'b::len word"
proof (cases "unat x < 2 ^ LENGTH('b)")
  case True
  then show ?thesis by (auto simp: try_from_def word_unat_eq_iff unsigned_ucast_eq take_bit_nat_eq_self)
next
  case False
  then have "unat y \<noteq> unat x" using unat_bound[of y] by linarith
  with False show ?thesis by (simp add: try_from_def)
qed

lemma try_from_back: "try_from x = Some y \<Longrightarrow> ucast y = x" for x :: "'a::len word" and y :: "'b::len word"
proof -
  assume "try_from x = Some y"
  then have "unat y = unat x" by (simp add: try_from_Some)
  moreover have "take_bit LENGTH('a) (unat x) = unat x" by (rule take_bit_nat_eq_self) (rule unat_bound)
  ultimately show ?thesis by (simp add: word_unat_eq_iff unsigned_ucast_eq)
qed

lemma sat_add_mono: "x \<le> sat_add x y"
  unfolding word_le_nat_alt unat_sat_add using unat_bound[of x] by linarith

lemma sat_add_1: "x \<noteq> - 1 \<Longrightarrow> sat_add x 1 = x + 1"
proof -
  assume "x \<noteq> - 1"
  then have "unat x \<noteq> 2 ^ LENGTH('a) - 1" by (metis unat_max_word word_unat_eq_iff)
  then have "unat x + 1 < 2 ^ LENGTH('a)" using unat_bound[of x] by linarith
  then show ?thesis by (simp add: sat_add_def)
qed

section \<open>Results\<close>

lemma Inr_case [simp]: "(case r of Inl e \<Rightarrow> Inl e | Inr x \<Rightarrow> f x) = Inr y \<longleftrightarrow> (\<exists>x. r = Inr x \<and> f x = Inr y)"
  by (cases r) auto

definition bindE :: "'e + 'a \<Rightarrow> ('a \<Rightarrow> 'e + 'b) \<Rightarrow> 'e + 'b" where
  "bindE r f = (case r of Inl e \<Rightarrow> Inl e | Inr x \<Rightarrow> f x)"

lemma bindE_simps [simp]: "bindE (Inl e) f = Inl e" "bindE (Inr x) f = f x"
  by (simp_all add: bindE_def)

lemma bindE_Inr [simp]: "bindE r f = Inr y \<longleftrightarrow> (\<exists>x. r = Inr x \<and> f x = Inr y)"
  by (simp add: bindE_def)

lemma bindE_Inl: "bindE r f = Inl e \<longleftrightarrow> r = Inl e \<or> (\<exists>x. r = Inr x \<and> f x = Inl e)"
  by (cases r) auto

definition map_err :: "('e \<Rightarrow> 'f) \<Rightarrow> 'e + 'a \<Rightarrow> 'f + 'a" where
  "map_err g r = (case r of Inl e \<Rightarrow> Inl (g e) | Inr x \<Rightarrow> Inr x)"

lemma map_err_simps [simp]: "map_err g (Inl e) = Inl (g e)" "map_err g (Inr x) = Inr x"
  by (simp_all add: map_err_def)

lemma map_err_Inr [simp]: "map_err g r = Inr y \<longleftrightarrow> r = Inr y"
  by (cases r) auto

definition ok_or :: "'e \<Rightarrow> 'a option \<Rightarrow> 'e + 'a" where
  "ok_or e x = (case x of None \<Rightarrow> Inl e | Some y \<Rightarrow> Inr y)"

lemma ok_or_simps [simp]: "ok_or e None = Inl e" "ok_or e (Some y) = Inr y"
  by (simp_all add: ok_or_def)

lemma ok_or_Inr [simp]: "ok_or e x = Inr y \<longleftrightarrow> x = Some y"
  by (cases x) auto

definition ensure :: "bool \<Rightarrow> 'e \<Rightarrow> 'e + unit" where
  "ensure b e = (if b then Inr () else Inl e)"

lemma ensure_Inr [simp]: "ensure b e = Inr u \<longleftrightarrow> b"
  by (simp add: ensure_def)

section \<open>Maps with ordered keys: BTreeMap\<close>

text \<open>
  A \<open>BTreeMap\<close> is an association list with strictly increasing keys, so that its length and the
  order of its iteration are the source's.
\<close>

type_synonym ('k, 'v) btree = "('k \<times> 'v) list"

fun bt_insert :: "'k::linorder \<Rightarrow> 'v \<Rightarrow> ('k, 'v) btree \<Rightarrow> ('k, 'v) btree" where
  "bt_insert k v [] = [(k, v)]"
| "bt_insert k v ((a, b) # m) =
     (if k < a then (k, v) # (a, b) # m else if k = a then (k, v) # m else (a, b) # bt_insert k v m)"

definition bt_remove :: "'k \<Rightarrow> ('k, 'v) btree \<Rightarrow> ('k, 'v) btree" where
  "bt_remove k m = filter (\<lambda>p. fst p \<noteq> k) m"

definition bt_map :: "('v \<Rightarrow> 'w) \<Rightarrow> ('k, 'v) btree \<Rightarrow> ('k, 'w) btree" where
  "bt_map f m = map (\<lambda>p. (fst p, f (snd p))) m"

definition bt_keys :: "('k, 'v) btree \<Rightarrow> 'k list" where
  "bt_keys m = map fst m"

definition bt_ok :: "('k::linorder, 'v) btree \<Rightarrow> bool" where
  "bt_ok m \<longleftrightarrow> sorted_wrt (<) (map fst m)"

abbreviation bt_has :: "('k, 'v) btree \<Rightarrow> 'k \<Rightarrow> bool" where
  "bt_has m k \<equiv> map_of m k \<noteq> None"

lemma map_of_bt_insert [simp]: "map_of (bt_insert k v m) = (map_of m)(k \<mapsto> v)"
  by (induction m) (auto simp: fun_eq_iff)

lemma map_of_bt_remove [simp]: "map_of (bt_remove k m) = (map_of m)(k := None)"
  by (induction m) (auto simp: bt_remove_def fun_eq_iff)

lemma map_of_bt_map [simp]: "map_of (bt_map f m) k = map_option f (map_of m k)"
  by (induction m) (auto simp: bt_map_def)

lemma keys_bt_insert: "fst ` set (bt_insert k v m) = insert k (fst ` set m)"
  by (induction k v m rule: bt_insert.induct) auto

lemma bt_ok_Nil [simp]: "bt_ok []"
  by (simp add: bt_ok_def)

lemma bt_ok_insert [simp]: "bt_ok m \<Longrightarrow> bt_ok (bt_insert k v m)"
proof (induction m)
  case (Cons p m)
  then show ?case using keys_bt_insert[of k v m] by (cases p) (auto simp: bt_ok_def)
qed (simp add: bt_ok_def)

lemma sorted_wrt_filter_fst: "sorted_wrt (<) (map fst m) \<Longrightarrow> sorted_wrt (<) (map fst (filter P m))"
  for m :: "('k::linorder, 'v) btree"
  by (induction m) auto

lemma bt_ok_filter [simp]: "bt_ok m \<Longrightarrow> bt_ok (filter P m)"
  unfolding bt_ok_def by (rule sorted_wrt_filter_fst)

lemma bt_ok_remove [simp]: "bt_ok m \<Longrightarrow> bt_ok (bt_remove k m)"
  by (simp add: bt_remove_def)

lemma map_fst_bt_map [simp]: "map fst (bt_map f m) = map fst m"
  by (simp add: bt_map_def)

lemma bt_ok_map [simp]: "bt_ok (bt_map f m) \<longleftrightarrow> bt_ok m"
  by (simp add: bt_ok_def)

lemma bt_ok_distinct: "bt_ok m \<Longrightarrow> distinct (map fst m)"
  by (simp add: bt_ok_def strict_sorted_iff)

lemma length_bt_insert:
  "bt_ok m \<Longrightarrow> length (bt_insert k v m) = (if bt_has m k then length m else Suc (length m))"
proof (induction m)
  case (Cons p m)
  then show ?case
    by (cases p) (force simp: bt_ok_def map_of_eq_None_iff)
qed simp

lemma length_bt_insert_present: "bt_ok m \<Longrightarrow> bt_has m k \<Longrightarrow> length (bt_insert k v m) = length m"
  by (simp add: length_bt_insert)

lemma length_bt_remove_le: "length (bt_remove k m) \<le> length m"
  by (simp add: bt_remove_def)

lemma bt_has_keys: "bt_has m k \<longleftrightarrow> k \<in> set (bt_keys m)"
  by (simp add: bt_keys_def map_of_eq_None_iff)

lemma length_bt_map [simp]: "length (bt_map f m) = length m"
  by (simp add: bt_map_def)

text \<open>What a client relies on: lookups after an update, and the size.\<close>

locale ordered_map =
  fixes ok :: "'m \<Rightarrow> bool"
    and get :: "'m \<Rightarrow> 'k \<Rightarrow> 'v option"
    and put :: "'k \<Rightarrow> 'v \<Rightarrow> 'm \<Rightarrow> 'm"
    and size_of :: "'m \<Rightarrow> nat"
  assumes get_put: "get (put k v m) j = (if j = k then Some v else get m j)"
    and ok_put: "ok m \<Longrightarrow> ok (put k v m)"
    and size_put: "ok m \<Longrightarrow> size_of (put k v m) = (if get m k = None then Suc (size_of m) else size_of m)"
begin

lemma put_within: "ok m \<Longrightarrow> size_of m < n \<or> (get m k \<noteq> None \<and> size_of m \<le> n) \<Longrightarrow> size_of (put k v m) \<le> n"
  by (auto simp: size_put)

lemma get_put_same: "get (put k v m) k = Some v"
  by (simp add: get_put)

end

interpretation bt: ordered_map bt_ok map_of "bt_insert :: 'k::linorder \<Rightarrow> 'v \<Rightarrow> ('k, 'v) btree \<Rightarrow> _" length
  by unfold_locales (auto simp: length_bt_insert)

section \<open>Hash maps\<close>

text \<open>
  A \<open>HashMap\<close> is the association list of its entries in iteration order, with \<open>AList.update\<close> and
  \<open>AList.delete\<close>. What is proved for every list with distinct keys holds in whatever order the map iterates.
\<close>

lemma alist_delete: "AList.delete k m = filter (\<lambda>p. fst p \<noteq> k) m"
  by (auto simp: AList.delete_eq intro!: filter_cong)

lemma set_alist_update:
  "distinct (map fst m) \<Longrightarrow> set (AList.update k v m) = insert (k, v) {x \<in> set m. fst x \<noteq> k}"
  by (induction m) (auto simp: image_iff)

lemma map_of_filter_fst: "map_of (filter (\<lambda>p. P (fst p)) m) k = (if P k then map_of m k else None)"
  by (induction m) auto

lemma map_fst_update: "map_of m k \<noteq> None \<Longrightarrow> map fst (AList.update k v m) = map fst m"
  by (induction m) auto

lemma filter_update:
  "map_of m k \<noteq> None \<Longrightarrow> filter (\<lambda>p. fst p \<noteq> k) (AList.update k v m) = filter (\<lambda>p. fst p \<noteq> k) m"
  by (induction m) auto

section \<open>Sorting and selecting with a comparator\<close>

datatype ordering = Less | Equal | Greater

fun insert_by :: "('a \<Rightarrow> 'a \<Rightarrow> ordering) \<Rightarrow> 'a \<Rightarrow> 'a list \<Rightarrow> 'a list" where
  "insert_by cmp x [] = [x]"
| "insert_by cmp x (y # ys) =
     (if cmp x y = Greater then y # insert_by cmp x ys else x # y # ys)"

fun sort_by :: "('a \<Rightarrow> 'a \<Rightarrow> ordering) \<Rightarrow> 'a list \<Rightarrow> 'a list" where
  "sort_by cmp [] = []"
| "sort_by cmp (x # xs) = insert_by cmp x (sort_by cmp xs)"

definition min_by :: "('a \<Rightarrow> 'a \<Rightarrow> ordering) \<Rightarrow> 'a list \<Rightarrow> 'a option" where
  "min_by cmp xs = (case xs of [] \<Rightarrow> None
     | y # ys \<Rightarrow> Some (foldl (\<lambda>b x. if cmp b x = Greater then x else b) y ys))"

lemma mset_take_subset: "mset (take n xs) \<subseteq># mset xs"
  by (metis append_take_drop_id mset_append mset_subset_eq_add_left)

lemma mset_insert_by [simp]: "mset (insert_by cmp x xs) = add_mset x (mset xs)"
  by (induction xs) auto

lemma mset_sort_by [simp]: "mset (sort_by cmp xs) = mset xs"
  by (induction xs) auto

lemma set_sort_by [simp]: "set (sort_by cmp xs) = set xs"
  by (metis mset_sort_by set_mset_mset)

lemma length_sort_by [simp]: "length (sort_by cmp xs) = length xs"
  by (metis mset_sort_by size_mset)

lemma min_by_mem: "min_by cmp xs = Some x \<Longrightarrow> x \<in> set xs"
proof -
  have "foldl (\<lambda>b x. if cmp b x = Greater then x else b) y ys \<in> insert y (set ys)" for y ys
  proof (induction ys arbitrary: y)
    case (Cons z zs)
    show ?case using Cons[of z] Cons[of y] by (cases "cmp y z = Greater") auto
  qed simp
  then show "min_by cmp xs = Some x \<Longrightarrow> x \<in> set xs"
    by (cases xs) (auto simp: min_by_def)
qed

lemma min_by_None [simp]: "min_by cmp xs = None \<longleftrightarrow> xs = []"
  by (simp add: min_by_def split: list.splits)

text \<open>
  A comparator that is a total preorder on the elements of a carrier: then \<open>sort_by\<close> sorts and
  \<open>min_by\<close> selects a least element.
\<close>

locale comparator_on =
  fixes carrier :: "'a \<Rightarrow> bool"
    and cmp :: "'a \<Rightarrow> 'a \<Rightarrow> ordering"
  assumes cmp_total: "carrier x \<Longrightarrow> carrier y \<Longrightarrow> cmp x y = Greater \<Longrightarrow> cmp y x \<noteq> Greater"
    and cmp_trans: "carrier x \<Longrightarrow> carrier y \<Longrightarrow> carrier z \<Longrightarrow>
      cmp x y \<noteq> Greater \<Longrightarrow> cmp y z \<noteq> Greater \<Longrightarrow> cmp x z \<noteq> Greater"
begin

lemma insert_by_sorted:
  assumes "carrier x" "\<forall>y \<in> set ys. carrier y" "sorted_wrt (\<lambda>a b. cmp a b \<noteq> Greater) ys"
  shows "sorted_wrt (\<lambda>a b. cmp a b \<noteq> Greater) (insert_by cmp x ys)"
  using assms
proof (induction ys)
  case (Cons y ys)
  have "set (insert_by cmp x ys) = insert x (set ys)" by (metis mset_insert_by set_mset_add_mset_insert set_mset_mset)
  with Cons show ?case by (auto dest: cmp_total cmp_trans[of x y])
qed simp

lemma sort_by_sorted:
  "\<forall>x \<in> set xs. carrier x \<Longrightarrow> sorted_wrt (\<lambda>a b. cmp a b \<noteq> Greater) (sort_by cmp xs)"
  by (induction xs) (auto intro!: insert_by_sorted)

lemma fold_min_least:
  assumes "carrier y" "\<forall>x \<in> set ys. carrier x" "z \<in> insert y (set ys)"
  shows "cmp (foldl (\<lambda>b x. if cmp b x = Greater then x else b) y ys) z \<noteq> Greater"
  using assms
proof (induction ys arbitrary: y z)
  case Nil
  then show ?case using cmp_total[of y y] by auto
next
  case (Cons x ys)
  let ?b = "if cmp y x = Greater then x else y"
  let ?r = "foldl (\<lambda>b x. if cmp b x = Greater then x else b) ?b ys"
  have cb: "carrier ?b" using Cons.prems by auto
  have le: "cmp ?r w \<noteq> Greater" if "w \<in> insert ?b (set ys)" for w
    using Cons.IH[OF cb _ that] Cons.prems by simp
  have "?r \<in> insert ?b (set ys)" using min_by_mem[of cmp "?b # ys" ?r] by (simp add: min_by_def)
  then have cr: "carrier ?r" using cb Cons.prems by auto
  have "cmp ?b y \<noteq> Greater" "cmp ?b x \<noteq> Greater"
    using Cons.prems cmp_total[of y x] cmp_total[of y y] cmp_total[of x x] by auto
  then have "cmp ?r y \<noteq> Greater" "cmp ?r x \<noteq> Greater"
    using cmp_trans[OF cr cb, of y] cmp_trans[OF cr cb, of x] le[of ?b] Cons.prems by auto
  with le Cons.prems(3) show ?case by auto
qed

lemma min_by_least:
  assumes "\<forall>x \<in> set xs. carrier x" "min_by cmp xs = Some m" "z \<in> set xs"
  shows "cmp m z \<noteq> Greater"
  using assms fold_min_least by (cases xs) (auto simp: min_by_def)

end

section \<open>Runs of operations\<close>

text \<open>
  A component's operations are one step function over an event type. What every step keeps holds
  after every run; what no step undoes only grows along a run.
\<close>

locale op_invariant =
  fixes step :: "'s \<Rightarrow> 'e \<Rightarrow> 's"
    and inv :: "'s \<Rightarrow> bool"
  assumes step_inv: "inv s \<Longrightarrow> inv (step s e)"
begin

lemma run_inv: "inv s \<Longrightarrow> inv (foldl step s es)"
  by (induction es arbitrary: s) (auto intro: step_inv)

end

locale op_progress = op_invariant +
  fixes le :: "'s \<Rightarrow> 's \<Rightarrow> bool"
  assumes le_refl: "le s s"
    and le_trans: "le s t \<Longrightarrow> le t u \<Longrightarrow> le s u"
    and step_le: "inv s \<Longrightarrow> le s (step s e)"
begin

lemma run_le: "inv s \<Longrightarrow> le s (foldl step s es)"
proof (induction es arbitrary: s)
  case (Cons e es)
  then show ?case using step_le[OF Cons.prems] step_inv[OF Cons.prems]
    by (auto intro: le_trans)
qed (simp add: le_refl)

end

text \<open>
  Operations that may panic, \<open>None\<close>: a run stops at the first panic. An operation that keeps an invariant and does not panic on
  admissible events gives runs that do neither; \<open>le\<close> is what never shrinks along them.
\<close>

fun prun :: "('s \<Rightarrow> 'e \<Rightarrow> 's option) \<Rightarrow> 's \<Rightarrow> 'e list \<Rightarrow> 's option" where
  "prun step s [] = Some s"
| "prun step s (e # es) = Option.bind (step s e) (\<lambda>s'. prun step s' es)"

lemma prun_append: "prun step s (xs @ ys) = Option.bind (prun step s xs) (\<lambda>s'. prun step s' ys)"
  by (induction xs arbitrary: s) (auto split: Option.bind_splits)

lemma prun_cong:
  assumes "\<And>s e. P s \<Longrightarrow> e \<in> set es \<Longrightarrow> step s e = step' s e"
    "\<And>s e s'. P s \<Longrightarrow> e \<in> set es \<Longrightarrow> step s e = Some s' \<Longrightarrow> P s'" "P s"
  shows "prun step s es = prun step' s es"
  using assms
proof (induction es arbitrary: s)
  case (Cons e es)
  show ?case
  proof (cases "step s e")
    case None
    then show ?thesis using Cons.prems(1)[OF Cons.prems(3), of e] by simp
  next
    case (Some t)
    then have "P t" using Cons.prems(2)[OF Cons.prems(3), of e] by simp
    have "prun step t es = prun step' t es"
      by (rule Cons.IH[OF _ _ \<open>P t\<close>]) (meson Cons.prems(1) list.set_intros(2), meson Cons.prems(2) list.set_intros(2))
    then show ?thesis using Some Cons.prems(1)[OF Cons.prems(3), of e] by simp
  qed
qed simp

locale op_total =
  fixes step :: "'s \<Rightarrow> 'e \<Rightarrow> 's option"
    and inv :: "'s \<Rightarrow> bool"
    and ok :: "'e \<Rightarrow> bool"
    and le :: "'s \<Rightarrow> 's \<Rightarrow> bool"
  assumes step_total: "inv s \<Longrightarrow> ok e \<Longrightarrow> \<exists>s'. step s e = Some s' \<and> inv s' \<and> le s s'"
    and le_refl: "le s s"
    and le_trans: "le s t \<Longrightarrow> le t u \<Longrightarrow> le s u"
begin

lemma run_total: "inv s \<Longrightarrow> list_all ok es \<Longrightarrow> \<exists>s'. prun step s es = Some s' \<and> inv s' \<and> le s s'"
proof (induction es arbitrary: s)
  case (Cons e es)
  then obtain t where t: "step s e = Some t" "inv t" "le s t" using step_total[of s e] by auto
  with Cons obtain u where "prun step t es = Some u" "inv u" "le t u" by auto
  with t show ?case using le_trans by auto
qed (simp add: le_refl)

end

end
