(* ===== verification/Ieee.thy ===== *)
theory Ieee
  imports Prelude "HOL-Library.Log_Nat"
begin

text \<open>
  The floating-point numbers of the source: \<open>64 flt\<close> is \<open>f64\<close> and \<open>32 flt\<close> is \<open>f32\<close>. A value is a NaN
  (payloads are not distinguished), an infinity, the negative zero, or a rational number (the
  positive zero is \<open>Fin 0\<close>). Arithmetic is exact arithmetic on the rationals followed by one rounding to
  nearest, ties to even, in the format of the type (24 or 53 bits, with gradual underflow and with
  overflow to an infinity), as IEEE 754 and Rust prescribe. Comparison is the IEEE comparison:
  false when an operand is NaN, and blind to the sign of zero. \<open>valid\<close> says that a value is one
  the format has. The lemmas show that rounding is monotone, keeps representable numbers and
  gives representable numbers.
\<close>

section \<open>Formats and rounding\<close>

datatype 'a flt = NaN | PInf | NInf | NZero | Fin rat

type_synonym f64 = "64 flt"
type_synonym f32 = "32 flt"

definition prec :: "'a::len itself \<Rightarrow> nat" where
  "prec _ = (if LENGTH('a) = 32 then 24 else 53)"

definition emin :: "'a::len itself \<Rightarrow> int" where
  "emin _ = (if LENGTH('a) = 32 then - 149 else - 1074)"

definition emax :: "'a::len itself \<Rightarrow> int" where
  "emax _ = (if LENGTH('a) = 32 then 104 else 971)"

definition max_fin :: "'a::len itself \<Rightarrow> rat" where
  "max_fin t = (2 ^ prec t - 1) * 2 powi emax t"

definition rne :: "rat \<Rightarrow> int" where
  "rne x = (let f = \<lfloor>x\<rfloor>; r = x - of_int f in
     if r < 1/2 then f else if 1/2 < r then f + 1 else if even f then f else f + 1)"

definition ilog2 :: "rat \<Rightarrow> int" where
  "ilog2 x = (let nd = quotient_of x; e = bitlen (fst nd) - bitlen (snd nd)
     in if 2 powi e \<le> x then e else e - 1)"

definition ulp_exp :: "'a::len itself \<Rightarrow> rat \<Rightarrow> int" where
  "ulp_exp t x = max (emin t) (ilog2 \<bar>x\<bar> - int (prec t) + 1)"

definition rnd_rat :: "'a::len itself \<Rightarrow> rat \<Rightarrow> rat" where
  "rnd_rat t x = (if x = 0 then 0
     else let u = ulp_exp t x in of_int (rne (x / 2 powi u)) * 2 powi u)"

definition rnd :: "rat \<Rightarrow> 'a::len flt" where
  "rnd x = (let y = rnd_rat TYPE('a) x in
     if max_fin TYPE('a) < y then PInf
     else if y < - max_fin TYPE('a) then NInf
     else if y = 0 \<and> x < 0 then NZero
     else Fin y)"

lemma powi_le_iff: "(2::rat) powi a \<le> 2 powi b \<longleftrightarrow> a \<le> b"
  by (metis linorder_not_le one_less_numeral_iff power_int_increasing power_int_strict_increasing
      semiring_norm(76) order_less_imp_le)

lemma powi_less_iff: "(2::rat) powi a < 2 powi b \<longleftrightarrow> a < b"
  by (meson linorder_not_le powi_le_iff)

lemma powi_pos [simp]: "0 < (2::rat) powi a"
  by simp

lemma powi_add: "(2::rat) powi (a + b) = 2 powi a * 2 powi b"
  by (simp add: power_int_add)

lemma powi_diff: "(2::rat) powi (a - b) = 2 powi a / 2 powi b"
  by (simp add: power_int_diff)

lemma powi_int_ex: "0 \<le> a \<Longrightarrow> \<exists>k::int. (2::rat) powi a = of_int k"
proof -
  assume "0 \<le> a"
  then have "(2::rat) powi a = 2 ^ nat a" by (simp add: power_int_def)
  also have "\<dots> = of_int (2 ^ nat a)" by simp
  finally show ?thesis by blast
qed

lemma ilog2_spec:
  assumes "0 < x"
  shows "2 powi ilog2 x \<le> x" and "x < 2 powi (ilog2 x + 1)"
proof -
  obtain n d where q: "quotient_of x = (n, d)" by (cases "quotient_of x")
  have d: "0 < d" using q by (rule quotient_of_denom_pos)
  have x: "x = of_int n / of_int d" using q by (rule quotient_of_div)
  have n: "0 < n" using assms x d by (simp add: zero_less_divide_iff)
  define a where "a = nat (bitlen n - 1)"
  define b where "b = nat (bitlen d - 1)"
  have bn: "bitlen n = int a + 1" "bitlen d = int b + 1"
    using n d bitlen_nonneg[of n] bitlen_nonneg[of d] bitlen_eq_zero_iff[of n] bitlen_eq_zero_iff[of d]
    unfolding a_def b_def by linarith+
  have N: "2 ^ a \<le> n" "n < 2 ^ (a + 1)"
    using bitlen_bounds[OF n] bn by (auto simp: nat_add_distrib)
  have D: "2 ^ b \<le> d" "d < 2 ^ (b + 1)"
    using bitlen_bounds[OF d] bn by (auto simp: nat_add_distrib)
  have N': "(2::rat) ^ a \<le> of_int n" "of_int n < (2::rat) ^ (a + 1)"
    using N by (metis of_int_le_iff of_int_numeral of_int_power, metis N(2) of_int_less_iff of_int_numeral of_int_power)
  have D': "(2::rat) ^ b \<le> of_int d" "of_int d < (2::rat) ^ (b + 1)"
    using D by (metis of_int_le_iff of_int_numeral of_int_power, metis D(2) of_int_less_iff of_int_numeral of_int_power)
  define e where "e = bitlen n - bitlen d"
  have e: "e = int a - int b" using bn by (simp add: e_def)
  have up: "x < 2 powi (e + 1)"
  proof -
    have "x \<le> of_int n / 2 ^ b" unfolding x using D'(1) n d by (intro divide_left_mono) auto
    also have "\<dots> < 2 ^ (a + 1) / 2 ^ b" using N'(2) by (intro divide_strict_right_mono) auto
    also have "\<dots> = 2 powi (e + 1)"
      unfolding e by (simp add: power_int_add power_int_diff)
    finally show ?thesis .
  qed
  have lo: "2 powi (e - 1) < x"
  proof -
    have "2 powi (e - 1) = (2::rat) ^ a / 2 ^ (b + 1)"
      unfolding e by (simp add: power_int_diff)
    also have "\<dots> \<le> of_int n / 2 ^ (b + 1)" using N'(1) by (intro divide_right_mono) auto
    also have "\<dots> < x" unfolding x using D'(2) n d by (intro divide_strict_left_mono) auto
    finally show ?thesis .
  qed
  have il: "ilog2 x = (if 2 powi e \<le> x then e else e - 1)"
    unfolding ilog2_def q e_def by simp
  show "2 powi ilog2 x \<le> x" "x < 2 powi (ilog2 x + 1)"
    using up lo by (auto simp: il)
qed

lemma ilog2_unique:
  assumes "2 powi e \<le> x" "x < 2 powi (e + 1)"
  shows "ilog2 x = e"
proof -
  have x: "0 < x" using assms(1) powi_pos[of e] by linarith
  from ilog2_spec[OF x] assms have "(2::rat) powi e < 2 powi (ilog2 x + 1)" "(2::rat) powi ilog2 x < 2 powi (e + 1)"
    by linarith+
  then show ?thesis by (simp add: powi_less_iff)
qed

lemma ilog2_mono:
  assumes "0 < x" "x \<le> y"
  shows "ilog2 x \<le> ilog2 y"
proof -
  have "(2::rat) powi ilog2 x < 2 powi (ilog2 y + 1)"
    using ilog2_spec(1)[of x] ilog2_spec(2)[of y] assms by linarith
  then show ?thesis by (simp add: powi_less_iff)
qed

lemma rne_of_int [simp]: "rne (of_int k) = k"
  by (simp add: rne_def)

lemma rne_bounds: "\<lfloor>x\<rfloor> \<le> rne x" "rne x \<le> \<lfloor>x\<rfloor> + 1"
  by (simp_all add: rne_def Let_def)

lemma rne_near: "\<bar>of_int (rne x) - x\<bar> \<le> 1/2"
  unfolding rne_def Let_def using floor_correct[of x] by auto

lemma rne_mono:
  assumes "x \<le> y"
  shows "rne x \<le> rne y"
proof (cases "\<lfloor>x\<rfloor> = \<lfloor>y\<rfloor>")
  case True
  then show ?thesis using assms unfolding rne_def Let_def by auto
next
  case False
  then have "\<lfloor>x\<rfloor> + 1 \<le> \<lfloor>y\<rfloor>" using floor_mono[OF assms] by simp
  then show ?thesis using rne_bounds[of x] rne_bounds[of y] by linarith
qed

lemma rne_minus: "rne (- x) = - rne x"
proof (cases "x = of_int \<lfloor>x\<rfloor>")
  case True
  then show ?thesis by (metis of_int_minus rne_of_int)
next
  case False
  then have f: "\<lfloor>- x\<rfloor> = - \<lfloor>x\<rfloor> - 1"
    using floor_correct[of x] by (intro floor_unique) (auto simp: less_le)
  show ?thesis unfolding rne_def Let_def f by auto
qed

lemma rne_ge_int: "of_int k \<le> x \<Longrightarrow> k \<le> rne x"
  using rne_mono[of "of_int k" x] by simp

lemma rne_le_int: "x \<le> of_int k \<Longrightarrow> rne x \<le> k"
  using rne_mono[of x "of_int k"] by simp


lemma powi_quotient_int:
  assumes "b \<le> a"
  shows "\<exists>k::int. (2::rat) powi a / 2 powi b = of_int k"
  using powi_int_ex[of "a - b"] assms by (simp add: powi_diff)

lemma rnd_rat_0 [simp]: "rnd_rat t 0 = 0"
  by (simp add: rnd_rat_def)

lemma ulp_exp_minus [simp]: "ulp_exp t (- x) = ulp_exp t x"
  by (simp add: ulp_exp_def)

lemma rnd_rat_minus: "rnd_rat t (- x) = - rnd_rat t x"
  by (simp add: rnd_rat_def Let_def rne_minus)

lemma rnd_rat_nonneg: "0 \<le> x \<Longrightarrow> 0 \<le> rnd_rat t x"
  by (auto simp: rnd_rat_def Let_def intro!: mult_nonneg_nonneg rne_ge_int)

lemma prec_pos: "0 < prec t"
  by (simp add: prec_def)

lemma rnd_rat_ge_binade:
  assumes "2 powi e \<le> x" "emin t \<le> e"
  shows "2 powi e \<le> rnd_rat t x"
proof -
  have x: "0 < x" using assms(1) powi_pos[of e] by linarith
  define u where "u = ulp_exp t x"
  have il: "e \<le> ilog2 x"
    using ilog2_mono[OF powi_pos assms(1)] ilog2_unique[of e "2 powi e"] by (simp add: powi_less_iff)
  show ?thesis
  proof (cases "u \<le> e")
    case True
    obtain k where k: "(2::rat) powi e / 2 powi u = of_int k" using powi_quotient_int[OF True] by blast
    have "of_int k \<le> x / 2 powi u" unfolding k[symmetric] using assms(1) by (intro divide_right_mono) auto
    then have "k \<le> rne (x / 2 powi u)" by (rule rne_ge_int)
    then have "(of_int k :: rat) * 2 powi u \<le> of_int (rne (x / 2 powi u)) * 2 powi u"
      by (intro mult_right_mono) auto
    moreover have "(of_int k :: rat) * 2 powi u = 2 powi e" by (simp flip: k)
    moreover have "rnd_rat t x = of_int (rne (x / 2 powi u)) * 2 powi u"
      using x by (simp add: rnd_rat_def Let_def u_def)
    ultimately show ?thesis by linarith
  next
    case False
    then have u: "u = ilog2 x - int (prec t) + 1" and ux: "u \<le> ilog2 x"
      using assms(2) x prec_pos[of t] unfolding u_def ulp_exp_def by auto
    obtain k where k: "(2::rat) powi ilog2 x / 2 powi u = of_int k" using powi_quotient_int[OF ux] by blast
    have "of_int k \<le> x / 2 powi u" unfolding k[symmetric] using ilog2_spec(1)[OF x] by (intro divide_right_mono) auto
    then have "k \<le> rne (x / 2 powi u)" by (rule rne_ge_int)
    then have "(of_int k :: rat) * 2 powi u \<le> of_int (rne (x / 2 powi u)) * 2 powi u"
      by (intro mult_right_mono) auto
    moreover have "(of_int k :: rat) * 2 powi u = 2 powi ilog2 x" by (simp flip: k)
    moreover have "(2::rat) powi e \<le> 2 powi ilog2 x" using il by (simp add: powi_le_iff)
    moreover have "rnd_rat t x = of_int (rne (x / 2 powi u)) * 2 powi u"
      using x by (simp add: rnd_rat_def Let_def u_def)
    ultimately show ?thesis by linarith
  qed
qed

lemma rnd_rat_le_binade:
  assumes "0 < x" "x \<le> 2 powi e" "ulp_exp t x \<le> e"
  shows "rnd_rat t x \<le> 2 powi e"
proof -
  define u where "u = ulp_exp t x"
  obtain k where k: "(2::rat) powi e / 2 powi u = of_int k"
    using powi_quotient_int assms(3) unfolding u_def by blast
  have "x / 2 powi u \<le> of_int k" unfolding k[symmetric] using assms(2) by (intro divide_right_mono) auto
  then have "rne (x / 2 powi u) \<le> k" by (rule rne_le_int)
  then have "of_int (rne (x / 2 powi u)) * 2 powi u \<le> (of_int k :: rat) * 2 powi u"
    by (intro mult_right_mono) auto
  moreover have "(of_int k :: rat) * 2 powi u = 2 powi e" by (simp flip: k)
  moreover have "rnd_rat t x = of_int (rne (x / 2 powi u)) * 2 powi u"
    using assms(1) by (simp add: rnd_rat_def Let_def u_def)
  ultimately show ?thesis by linarith
qed

lemma rnd_rat_mono_pos:
  assumes "0 < x" "x \<le> y"
  shows "rnd_rat t x \<le> rnd_rat t y"
proof (cases "ulp_exp t x = ulp_exp t y")
  case True
  then show ?thesis using assms
    by (auto simp: rnd_rat_def Let_def intro!: mult_right_mono rne_mono divide_right_mono)
next
  case False
  have "ulp_exp t x \<le> ulp_exp t y"
    using ilog2_mono[OF assms] assms by (simp add: ulp_exp_def)
  with False have lt: "ulp_exp t x < ulp_exp t y" by simp
  define e where "e = ilog2 y"
  have y: "0 < y" using assms by linarith
  have uy: "ulp_exp t y = e - int (prec t) + 1" and emin: "emin t \<le> e" and ix: "ilog2 x < e"
    and ux: "ulp_exp t x \<le> e"
    using lt assms y prec_pos[of t] unfolding ulp_exp_def e_def by auto
  have "x \<le> 2 powi (ilog2 x + 1)" using ilog2_spec(2)[OF assms(1)] by simp
  also have "\<dots> \<le> 2 powi e" using ix by (simp add: powi_le_iff)
  finally have "rnd_rat t x \<le> 2 powi e" using assms(1) ux by (intro rnd_rat_le_binade)
  also have "\<dots> \<le> rnd_rat t y" using ilog2_spec(1)[OF y] emin unfolding e_def by (intro rnd_rat_ge_binade)
  finally show ?thesis .
qed

lemma rnd_rat_mono:
  assumes "x \<le> y"
  shows "rnd_rat t x \<le> rnd_rat t y"
proof -
  consider "0 < x" | "y < 0" | "x \<le> 0" "0 \<le> y" using assms by linarith
  then show ?thesis
  proof cases
    case 1 then show ?thesis using assms by (rule rnd_rat_mono_pos)
  next
    case 2 then show ?thesis
      using rnd_rat_mono_pos[of "- y" "- x" t] assms by (simp add: rnd_rat_minus)
  next
    case 3 then show ?thesis
      using rnd_rat_nonneg[of y t] rnd_rat_nonneg[of "- x" t] by (simp add: rnd_rat_minus)
  qed
qed

definition representable :: "'a::len itself \<Rightarrow> rat \<Rightarrow> bool" where
  "representable t q \<longleftrightarrow> (\<exists>m e. q = of_int m * 2 powi e \<and> \<bar>m\<bar> < 2 ^ prec t \<and> emin t \<le> e \<and> e \<le> emax t)"

lemma rnd_rat_exact_pos:
  assumes "0 < m" "m < 2 ^ prec t" "emin t \<le> e"
  shows "rnd_rat t (of_int m * 2 powi e) = of_int m * 2 powi e"
proof -
  define x :: rat where "x = of_int m * 2 powi e"
  have x: "0 < x" using assms by (simp add: x_def)
  have "(of_int m :: rat) < 2 powi int (prec t)" using assms(2)
    by (metis of_int_less_iff of_int_numeral of_int_power power_int_of_nat)
  then have "x < 2 powi (int (prec t) + e)" unfolding x_def by (simp add: powi_add)
  then have "(2::rat) powi ilog2 x < 2 powi (int (prec t) + e)" using ilog2_spec(1)[OF x] by linarith
  then have "ilog2 x - int (prec t) + 1 \<le> e" by (simp add: powi_less_iff)
  then have u: "ulp_exp t x \<le> e" using assms(3) x by (simp add: ulp_exp_def)
  obtain k where k: "(2::rat) powi e / 2 powi ulp_exp t x = of_int k" using powi_quotient_int[OF u] by blast
  have q: "x / 2 powi ulp_exp t x = of_int (m * k)" by (simp add: x_def k[symmetric])
  have "rnd_rat t x = of_int (m * k) * 2 powi ulp_exp t x"
    using x q rne_of_int[of "m * k"] by (simp add: rnd_rat_def Let_def)
  also have "\<dots> = x" unfolding q[symmetric] by simp
  finally show ?thesis by (simp add: x_def)
qed

lemma rnd_rat_exact:
  assumes "\<bar>m\<bar> < 2 ^ prec t" "emin t \<le> e"
  shows "rnd_rat t (of_int m * 2 powi e) = of_int m * 2 powi e"
proof -
  consider "m = 0" | "0 < m" | "m < 0" by linarith
  then show ?thesis
  proof cases
    case 3
    then show ?thesis using rnd_rat_exact_pos[of "- m" t e] assms
      by (simp add: rnd_rat_minus)
  qed (use rnd_rat_exact_pos assms in auto)
qed

lemma max_fin_pos: "0 < max_fin t"
  using prec_pos[of t] by (simp add: max_fin_def)

lemma representable_bound:
  assumes "representable t q"
  shows "\<bar>q\<bar> \<le> max_fin t"
proof -
  from assms obtain m e where q: "q = of_int m * 2 powi e" "\<bar>m\<bar> < 2 ^ prec t" "e \<le> emax t"
    unfolding representable_def by blast
  have "\<bar>m\<bar> \<le> 2 ^ prec t - 1" using q by simp
  then have "(of_int \<bar>m\<bar> :: rat) \<le> of_int (2 ^ prec t - 1)" by (simp only: of_int_le_iff)
  then have m: "(of_int \<bar>m\<bar> :: rat) \<le> 2 ^ prec t - 1" by simp
  have "\<bar>q\<bar> = of_int \<bar>m\<bar> * 2 powi e" using q by (simp add: abs_mult)
  also have "\<dots> \<le> (2 ^ prec t - 1) * 2 powi emax t"
    using m q(3) by (intro mult_mono) (auto simp: powi_le_iff)
  finally show ?thesis by (simp add: max_fin_def)
qed

lemma rnd_exact:
  assumes "representable TYPE('a::len) q"
  shows "(rnd q :: 'a flt) = Fin q"
proof -
  have "rnd_rat TYPE('a) q = q" using assms unfolding representable_def by (auto simp: rnd_rat_exact)
  then show ?thesis using representable_bound[OF assms] by (auto simp: rnd_def)
qed


lemma rnd_rat_ulp_form: "\<exists>m. rnd_rat t x = of_int m * 2 powi ulp_exp t x \<and> \<bar>m\<bar> \<le> 2 ^ prec t"
proof (cases "x = 0")
  case True
  then show ?thesis by (intro exI[of _ 0]) simp
next
  case False
  define u where "u = ulp_exp t x"
  have "\<bar>x\<bar> < 2 powi (ilog2 \<bar>x\<bar> + 1)" using False by (intro ilog2_spec) simp
  also have "\<dots> \<le> 2 powi (int (prec t) + u)"
    unfolding powi_le_iff u_def ulp_exp_def by linarith
  also have "\<dots> = 2 ^ prec t * 2 powi u" by (simp add: powi_add)
  finally have "\<bar>x / 2 powi u\<bar> \<le> of_int (2 ^ prec t)" by (simp add: abs_divide divide_le_eq)
  then have "- of_int (2 ^ prec t) \<le> x / 2 powi u" "x / 2 powi u \<le> of_int (2 ^ prec t)" by linarith+
  then have "- (2 ^ prec t) \<le> rne (x / 2 powi u)" "rne (x / 2 powi u) \<le> 2 ^ prec t"
    using rne_ge_int[of "- (2 ^ prec t)" "x / 2 powi u"] rne_le_int[of "x / 2 powi u" "2 ^ prec t"] by simp_all
  then have "\<bar>rne (x / 2 powi u)\<bar> \<le> 2 ^ prec t" by linarith
  then show ?thesis using False by (intro exI[of _ "rne (x / 2 powi u)"]) (simp add: rnd_rat_def Let_def u_def)
qed

lemma emin_le_emax: "emin t < emax t"
  by (simp add: emin_def emax_def)

lemma representable_rnd_rat:
  assumes "\<bar>rnd_rat t x\<bar> \<le> max_fin t"
  shows "representable t (rnd_rat t x)"
proof -
  define u where "u = ulp_exp t x"
  obtain m where m: "rnd_rat t x = of_int m * 2 powi u" "\<bar>m\<bar> \<le> 2 ^ prec t"
    using rnd_rat_ulp_form[of t x] unfolding u_def by blast
  have u: "emin t \<le> u" by (simp add: u_def ulp_exp_def)
  have big: "u < emax t" if "\<bar>m\<bar> = 2 ^ prec t"
  proof -
    have "2 ^ prec t * 2 powi u = \<bar>rnd_rat t x\<bar>" using that m(1)
      by (simp add: abs_mult flip: of_int_abs)
    also have "\<dots> \<le> max_fin t" by fact
    also have "\<dots> < 2 ^ prec t * 2 powi emax t" by (simp add: max_fin_def left_diff_distrib)
    finally show ?thesis by (simp add: powi_less_iff)
  qed
  consider "m = 0" | "\<bar>m\<bar> = 2 ^ prec t" | "m \<noteq> 0" "\<bar>m\<bar> < 2 ^ prec t" using m(2) by linarith
  then show ?thesis
  proof cases
    case 1
    then show ?thesis using m emin_le_emax[of t] unfolding representable_def
      by (intro exI[of _ 0] exI[of _ "emin t"]) simp
  next
    case 2
    define k where "k = sgn m * 2 ^ (prec t - 1)"
    have mk: "m = 2 * k"
    proof -
      have "m = sgn m * \<bar>m\<bar>" by (simp add: sgn_mult_abs)
      also have "\<dots> = sgn m * (2 * 2 ^ (prec t - 1))" using 2 prec_pos[of t] by (simp add: power_eq_if)
      finally show ?thesis by (simp add: k_def)
    qed
    have "rnd_rat t x = of_int k * 2 powi (u + 1)" using m(1) mk by (simp add: powi_add)
    moreover have "\<bar>k\<bar> < 2 ^ prec t" using 2 mk zero_less_power[of "2::int" "prec t"] by linarith
    ultimately show ?thesis using big[OF 2] u unfolding representable_def
      by (intro exI[of _ k] exI[of _ "u + 1"]) auto
  next
    case 3
    show ?thesis
    proof (cases "u \<le> emax t")
      case True
      then show ?thesis using 3 m u unfolding representable_def by (intro exI[of _ m] exI[of _ u]) auto
    next
      case False
      have il: "u = ilog2 \<bar>x\<bar> - int (prec t) + 1" using False emin_le_emax[of t] by (auto simp: u_def ulp_exp_def)
      have x: "x \<noteq> 0" using m 3 by auto
      have "2 powi ilog2 \<bar>x\<bar> \<le> rnd_rat t \<bar>x\<bar>"
        using x ilog2_spec(1)[of "\<bar>x\<bar>"] False emin_le_emax[of t] il prec_pos[of t] by (intro rnd_rat_ge_binade) auto
      also have "\<dots> \<le> \<bar>rnd_rat t x\<bar>" by (cases "0 \<le> x") (auto simp: rnd_rat_minus)
      also have "\<dots> \<le> max_fin t" by fact
      also have "\<dots> < 2 powi (int (prec t) + emax t)" by (simp add: max_fin_def left_diff_distrib powi_add)
      finally have False using False il by (simp add: powi_less_iff)
      then show ?thesis ..
    qed
  qed
qed


section \<open>Operations\<close>

fun rval :: "'a flt \<Rightarrow> rat" where
  "rval (Fin q) = q"
| "rval _ = 0"

fun is_nan :: "'a flt \<Rightarrow> bool" where
  "is_nan NaN = True"
| "is_nan _ = False"

fun is_inf :: "'a flt \<Rightarrow> bool" where
  "is_inf PInf = True"
| "is_inf NInf = True"
| "is_inf _ = False"

fun is_finite :: "'a flt \<Rightarrow> bool" where
  "is_finite (Fin q) = True"
| "is_finite NZero = True"
| "is_finite _ = False"

fun neg_bit :: "'a flt \<Rightarrow> bool" where
  "neg_bit NInf = True"
| "neg_bit NZero = True"
| "neg_bit (Fin q) = (q < 0)"
| "neg_bit _ = False"

definition is_zero :: "'a flt \<Rightarrow> bool" where
  "is_zero x \<longleftrightarrow> is_finite x \<and> rval x = 0"

definition signed_zero :: "bool \<Rightarrow> 'a flt" where
  "signed_zero neg = (if neg then NZero else Fin 0)"

definition signed_inf :: "bool \<Rightarrow> 'a flt" where
  "signed_inf neg = (if neg then NInf else PInf)"

definition mk :: "bool \<Rightarrow> rat \<Rightarrow> 'a::len flt" where
  "mk neg q = (if q = 0 then signed_zero neg else rnd q)"

instantiation flt :: (len) "{zero, one, uminus, plus, minus, times, inverse, ord}"
begin

definition zero_flt :: "'a flt" where
  "0 = Fin 0"

definition one_flt :: "'a flt" where
  "1 = Fin 1"

fun uminus_flt :: "'a flt \<Rightarrow> 'a flt" where
  "- NaN = (NaN :: 'a flt)"
| "- PInf = (NInf :: 'a flt)"
| "- NInf = (PInf :: 'a flt)"
| "- NZero = (Fin 0 :: 'a flt)"
| "- Fin q = (if q = 0 then NZero else Fin (- q) :: 'a flt)"

definition plus_flt :: "'a flt \<Rightarrow> 'a flt \<Rightarrow> 'a flt" where
  "x + y =
    (if is_nan x \<or> is_nan y \<or> (is_inf x \<and> is_inf y \<and> x \<noteq> y) then NaN
     else if is_inf x then x
     else if is_inf y then y
     else mk (x = NZero \<and> y = NZero) (rval x + rval y))"

definition minus_flt :: "'a flt \<Rightarrow> 'a flt \<Rightarrow> 'a flt" where
  "x - y = x + (- y :: 'a flt)"

definition times_flt :: "'a flt \<Rightarrow> 'a flt \<Rightarrow> 'a flt" where
  "x * y =
    (if is_nan x \<or> is_nan y \<or> (is_inf x \<and> is_zero y) \<or> (is_zero x \<and> is_inf y) then NaN
     else if is_inf x \<or> is_inf y then signed_inf (neg_bit x \<noteq> neg_bit y)
     else mk (neg_bit x \<noteq> neg_bit y) (rval x * rval y))"

definition divide_flt :: "'a flt \<Rightarrow> 'a flt \<Rightarrow> 'a flt" where
  "divide_flt x y =
    (if is_nan x \<or> is_nan y \<or> (is_inf x \<and> is_inf y) \<or> (is_zero x \<and> is_zero y) then NaN
     else if is_inf x \<or> is_zero y then signed_inf (neg_bit x \<noteq> neg_bit y)
     else if is_inf y then signed_zero (neg_bit x \<noteq> neg_bit y)
     else mk (neg_bit x \<noteq> neg_bit y) (rval x / rval y))"

definition inverse_flt :: "'a flt \<Rightarrow> 'a flt" where
  "inverse_flt x = divide 1 (x :: 'a flt)"

definition less_eq_flt :: "'a flt \<Rightarrow> 'a flt \<Rightarrow> bool" where
  "x \<le> y \<longleftrightarrow> \<not> is_nan x \<and> \<not> is_nan y \<and>
     (x = NInf \<or> y = PInf \<or> (is_finite x \<and> is_finite y \<and> rval x \<le> rval y))"

definition less_flt :: "'a flt \<Rightarrow> 'a flt \<Rightarrow> bool" where
  "x < y \<longleftrightarrow> \<not> is_nan x \<and> \<not> is_nan y \<and>
     (x = NInf \<and> y \<noteq> NInf \<or> y = PInf \<and> x \<noteq> PInf \<or> (is_finite x \<and> is_finite y \<and> rval x < rval y))"

instance ..

end

definition lit :: "rat \<Rightarrow> 'a::len flt" where
  "lit q = rnd q"

definition feq :: "'a::len flt \<Rightarrow> 'a flt \<Rightarrow> bool" where
  "feq x y \<longleftrightarrow> x \<le> y \<and> y \<le> x"

fun fabs :: "'a flt \<Rightarrow> 'a flt" where
  "fabs NInf = PInf"
| "fabs NZero = Fin 0"
| "fabs (Fin q) = Fin \<bar>q\<bar>"
| "fabs x = x"

definition fmax :: "'a::len flt \<Rightarrow> 'a flt \<Rightarrow> 'a flt" where
  "fmax x y = (if is_nan x then y else if is_nan y then x else if x < y then y else x)"

definition fmin :: "'a::len flt \<Rightarrow> 'a flt \<Rightarrow> 'a flt" where
  "fmin x y = (if is_nan x then y else if is_nan y then x else if y < x then y else x)"

definition fclamp :: "'a::len flt \<Rightarrow> 'a flt \<Rightarrow> 'a flt \<Rightarrow> 'a flt option" where
  "fclamp x lo hi = (if \<not> lo \<le> hi then None
     else Some (let y = (if x < lo then lo else x) in if hi < y then hi else y))"

definition in_range :: "'a::len flt \<Rightarrow> 'a flt \<Rightarrow> 'a flt \<Rightarrow> bool" where
  "in_range lo hi x \<longleftrightarrow> lo \<le> x \<and> x \<le> hi"

definition signed_int :: "bool \<Rightarrow> int \<Rightarrow> 'a flt" where
  "signed_int neg k = (if k = 0 then signed_zero neg else Fin (of_int k))"

fun fround :: "'a flt \<Rightarrow> 'a flt" where
  "fround (Fin q) = signed_int (q < 0) (if 0 \<le> q then \<lfloor>q + 1/2\<rfloor> else - \<lfloor>1/2 - q\<rfloor>)"
| "fround x = x"

fun fceil :: "'a flt \<Rightarrow> 'a flt" where
  "fceil (Fin q) = signed_int (q < 0) \<lceil>q\<rceil>"
| "fceil x = x"

definition trunc :: "rat \<Rightarrow> int" where
  "trunc q = (if 0 \<le> q then \<lfloor>q\<rfloor> else \<lceil>q\<rceil>)"

fun as_unsigned :: "'a flt \<Rightarrow> 'b::len word" where
  "as_unsigned (Fin q) =
     (if trunc q < 0 then 0 else if 2 ^ LENGTH('b) \<le> trunc q then - 1 else word_of_int (trunc q))"
| "as_unsigned PInf = - 1"
| "as_unsigned _ = 0"

fun as_signed :: "'a flt \<Rightarrow> 'b::len word" where
  "as_signed (Fin q) =
     (if trunc q < - (2 ^ (LENGTH('b) - 1)) then word_of_int (- (2 ^ (LENGTH('b) - 1)))
      else if 2 ^ (LENGTH('b) - 1) \<le> trunc q then word_of_int (2 ^ (LENGTH('b) - 1) - 1)
      else word_of_int (trunc q))"
| "as_signed PInf = word_of_int (2 ^ (LENGTH('b) - 1) - 1)"
| "as_signed NInf = word_of_int (- (2 ^ (LENGTH('b) - 1)))"
| "as_signed _ = 0"

definition of_unsigned :: "'b::len word \<Rightarrow> 'a::len flt" where
  "of_unsigned w = rnd (of_int (uint w))"

definition of_signed :: "'b::len word \<Rightarrow> 'a::len flt" where
  "of_signed w = rnd (of_int (sint w))"

fun fcast :: "'a flt \<Rightarrow> 'b::len flt" where
  "fcast NaN = NaN"
| "fcast PInf = PInf"
| "fcast NInf = NInf"
| "fcast NZero = NZero"
| "fcast (Fin q) = rnd q"

function isqrt :: "int \<Rightarrow> int" where
  "isqrt n = (if n \<le> 0 then 0 else let r = 2 * isqrt (n div 4) in if (r + 1)\<^sup>2 \<le> n then r + 1 else r)"
  by pat_completeness auto
termination
  by (relation "measure nat") auto

declare isqrt.simps [simp del]

definition sqrt_rat :: "'a::len itself \<Rightarrow> rat \<Rightarrow> rat" where
  "sqrt_rat t q = (let u = max (emin t) (ilog2 q div 2 - int (prec t) + 1);
      y = q / 2 powi (2 * u); s = isqrt \<lfloor>y\<rfloor>; h = (of_int s + 1/2)\<^sup>2;
      m = (if y < h then s else if h < y then s + 1 else if even s then s else s + 1)
    in of_int m * 2 powi u)"

fun fsqrt :: "'a::len flt \<Rightarrow> 'a flt" where
  "fsqrt NaN = NaN"
| "fsqrt PInf = PInf"
| "fsqrt NInf = NaN"
| "fsqrt NZero = NZero"
| "fsqrt (Fin q) = (if q < 0 then NaN else if q = 0 then Fin 0 else Fin (sqrt_rat TYPE('a) q))"

fun valid :: "'a::len flt \<Rightarrow> bool" where
  "valid (Fin q) = representable TYPE('a) q"
| "valid _ = True"



section \<open>Order\<close>

lemmas flt_ord = less_eq_flt_def less_flt_def

lemma zero_flt_simps [simp]:
  "rval (0 :: 'a::len flt) = 0" "is_finite (0 :: 'a flt)" "\<not> is_nan (0 :: 'a flt)" "\<not> is_inf (0 :: 'a flt)"
  "\<not> neg_bit (0 :: 'a flt)" "valid (0 :: 'a flt)"
  using emin_le_emax[of "TYPE('a)"]
  by (auto simp: zero_flt_def representable_def intro!: exI[of _ 0] exI[of _ "emin TYPE('a)"])

lemma Fin_ord [simp]:
  "(Fin p \<le> (Fin q :: 'a::len flt)) = (p \<le> q)" "(Fin p < (Fin q :: 'a::len flt)) = (p < q)"
  by (simp_all add: flt_ord)

lemma flt_le_table [simp]:
  "x \<le> (PInf :: 'a::len flt) \<longleftrightarrow> \<not> is_nan x" "(NInf :: 'a flt) \<le> x \<longleftrightarrow> \<not> is_nan x"
  "(PInf :: 'a flt) \<le> x \<longleftrightarrow> x = PInf" "x \<le> (NInf :: 'a flt) \<longleftrightarrow> x = NInf"
  "(NZero :: 'a flt) \<le> NZero" "(NZero :: 'a flt) \<le> Fin q \<longleftrightarrow> 0 \<le> q" "(Fin q :: 'a flt) \<le> NZero \<longleftrightarrow> q \<le> 0"
  by (cases x; simp add: flt_ord)+

lemma flt_less_table [simp]:
  "x < (PInf :: 'a::len flt) \<longleftrightarrow> \<not> is_nan x \<and> x \<noteq> PInf" "(NInf :: 'a flt) < x \<longleftrightarrow> \<not> is_nan x \<and> x \<noteq> NInf"
  "\<not> (PInf :: 'a flt) < x" "\<not> x < (NInf :: 'a flt)"
  "(NZero :: 'a flt) < Fin q \<longleftrightarrow> 0 < q" "(Fin q :: 'a flt) < NZero \<longleftrightarrow> q < 0"
  by (cases x; auto simp: flt_ord)+

lemma zero_flt_neq [simp]:
  "(0 :: 'a::len flt) \<noteq> NaN" "(0 :: 'a flt) \<noteq> PInf" "(0 :: 'a flt) \<noteq> NInf" "(0 :: 'a flt) \<noteq> NZero"
  "NaN \<noteq> (0 :: 'a flt)" "PInf \<noteq> (0 :: 'a flt)" "NInf \<noteq> (0 :: 'a flt)" "NZero \<noteq> (0 :: 'a flt)"
  "(0 = (Fin q :: 'a flt)) = (q = 0)" "(Fin q = (0 :: 'a flt)) = (q = 0)"
  "(0 :: 'a flt) \<le> NZero" "NZero \<le> (0 :: 'a flt)" "\<not> (0 :: 'a flt) < NZero" "\<not> NZero < (0 :: 'a flt)"
  by (auto simp: zero_flt_def)

lemma Fin_zero_ord [simp]:
  "((0 :: 'a::len flt) \<le> Fin q) = (0 \<le> q)" "((0 :: 'a::len flt) < Fin q) = (0 < q)"
  "(Fin q \<le> (0 :: 'a::len flt)) = (q \<le> 0)" "(Fin q < (0 :: 'a::len flt)) = (q < 0)"
  by (simp_all add: zero_flt_def)

lemma nan_ord [simp]: "\<not> NaN \<le> x" "\<not> x \<le> NaN" "\<not> NaN < x" "\<not> x < NaN" for x :: "'a::len flt"
  by (simp_all add: flt_ord)

lemma flt_le_refl [simp]: "x \<le> x \<longleftrightarrow> \<not> is_nan x" for x :: "'a::len flt"
  by (cases x) (auto simp: flt_ord)

lemma flt_less_irrefl [simp]: "\<not> x < x" for x :: "'a::len flt"
  by (cases x) (auto simp: flt_ord)

lemma flt_le_trans: "x \<le> y \<Longrightarrow> y \<le> z \<Longrightarrow> x \<le> z" for x y z :: "'a::len flt"
  by (cases x; cases y; cases z) (auto simp: flt_ord)

lemma flt_less_le_trans: "x < y \<Longrightarrow> y \<le> z \<Longrightarrow> x < z" for x y z :: "'a::len flt"
  by (cases x; cases y; cases z) (auto simp: flt_ord)

lemma flt_le_less_trans: "x \<le> y \<Longrightarrow> y < z \<Longrightarrow> x < z" for x y z :: "'a::len flt"
  by (cases x; cases y; cases z) (auto simp: flt_ord)

lemma flt_less_imp_le: "x < y \<Longrightarrow> x \<le> y" for x y :: "'a::len flt"
  by (cases x; cases y) (auto simp: flt_ord)

lemma flt_not_less: "\<not> is_nan x \<Longrightarrow> \<not> is_nan y \<Longrightarrow> \<not> x < y \<longleftrightarrow> y \<le> x" for x y :: "'a::len flt"
  by (cases x; cases y) (auto simp: flt_ord)

lemma flt_le_not_less: "x \<le> y \<Longrightarrow> \<not> y < x" for x y :: "'a::len flt"
  by (cases x; cases y) (auto simp: flt_ord)

lemma flt_le_nan: "x \<le> y \<Longrightarrow> \<not> is_nan x \<and> \<not> is_nan y" for x y :: "'a::len flt"
  by (simp add: flt_ord)

lemma flt_less_nan: "x < y \<Longrightarrow> \<not> is_nan x \<and> \<not> is_nan y" for x y :: "'a::len flt"
  by (simp add: flt_ord)

lemma is_finite_not_nan: "is_finite x \<Longrightarrow> \<not> is_nan x"
  by (cases x) auto

lemma is_finite_iff: "is_finite x \<longleftrightarrow> \<not> is_nan x \<and> \<not> is_inf x"
  by (cases x) auto

lemma finite_between: "a \<le> x \<Longrightarrow> x \<le> b \<Longrightarrow> is_finite a \<Longrightarrow> is_finite b \<Longrightarrow> is_finite x"
  for x :: "'a::len flt"
  by (cases x; cases a; cases b) (auto simp: flt_ord)

lemma finite_le_rval: "is_finite x \<Longrightarrow> is_finite y \<Longrightarrow> x \<le> y \<longleftrightarrow> rval x \<le> rval y" for x y :: "'a::len flt"
  by (cases x; cases y) (auto simp: flt_ord)

lemma finite_less_rval: "is_finite x \<Longrightarrow> is_finite y \<Longrightarrow> x < y \<longleftrightarrow> rval x < rval y" for x y :: "'a::len flt"
  by (cases x; cases y) (auto simp: flt_ord)

section \<open>Facts on rounding\<close>

lemma rnd_not_nan [simp]: "\<not> is_nan (rnd q)"
  by (simp add: rnd_def Let_def)

lemma rnd_0 [simp]: "(rnd 0 :: 'a::len flt) = 0"
  using max_fin_pos[of "TYPE('a)"] by (simp add: rnd_def zero_flt_def)

lemma rnd_mono: "p \<le> q \<Longrightarrow> (rnd p :: 'a::len flt) \<le> rnd q"
  using rnd_rat_mono[of p q "TYPE('a)"] max_fin_pos[of "TYPE('a)"]
  by (auto simp: rnd_def Let_def flt_ord)

lemma rnd_nonneg: "0 \<le> q \<Longrightarrow> (0 :: 'a::len flt) \<le> rnd q"
  using rnd_mono[of 0 q] by simp

lemma rnd_nonpos: "q \<le> 0 \<Longrightarrow> (rnd q :: 'a::len flt) \<le> 0"
  using rnd_mono[of q 0] by simp

lemma rnd_not_ninf: "0 \<le> q \<Longrightarrow> (rnd q :: 'a::len flt) \<noteq> NInf"
  using rnd_nonneg[of q, where ?'a = 'a] by (auto simp: flt_ord zero_flt_def)

lemma valid_rnd [simp]: "valid (rnd q :: 'a::len flt)"
proof (cases "(rnd q :: 'a flt)")
  case (Fin y)
  then have "y = rnd_rat TYPE('a) q" "\<bar>y\<bar> \<le> max_fin TYPE('a)"
    by (auto simp: rnd_def Let_def split: if_splits)
  then show ?thesis using representable_rnd_rat[of "TYPE('a)" q] Fin by simp
qed auto

lemma rnd_le_valid: "valid (Fin y :: 'a::len flt) \<Longrightarrow> q \<le> y \<Longrightarrow> (rnd q :: 'a flt) \<le> Fin y"
  using rnd_mono[of q y, where ?'a = 'a] rnd_exact[of y, where ?'a = 'a] by simp

lemma rnd_ge_valid: "valid (Fin y :: 'a::len flt) \<Longrightarrow> y \<le> q \<Longrightarrow> (Fin y :: 'a flt) \<le> rnd q"
  using rnd_mono[of y q, where ?'a = 'a] rnd_exact[of y, where ?'a = 'a] by simp

lemma prec_simps [simp]: "prec TYPE(32) = 24" "prec TYPE(64) = 53"
  by (simp_all add: prec_def)

lemma emin_simps [simp]: "emin TYPE(32) = - 149" "emin TYPE(64) = - 1074"
  by (simp_all add: emin_def)

lemma emax_simps [simp]: "emax TYPE(32) = 104" "emax TYPE(64) = 971"
  by (simp_all add: emax_def)

lemma emin_nonpos: "emin t \<le> - 62" "62 \<le> emax t"
  by (simp_all add: emin_def emax_def)

lemma representable_int: "\<bar>k\<bar> < 2 ^ prec t \<Longrightarrow> representable t (of_int k)"
  unfolding representable_def using emin_nonpos[of t] by (intro exI[of _ k] exI[of _ 0]) simp

lemma dvd_power_two:
  assumes "d dvd (2::int) ^ n" "0 < d"
  shows "\<exists>m \<le> n. d = 2 ^ m"
  using assms
proof (induction n arbitrary: d)
  case 0
  then show ?case by auto
next
  case (Suc n)
  show ?case
  proof (cases "even d")
    case True
    then obtain c where c: "d = 2 * c" by blast
    with Suc.prems have "c dvd 2 ^ n" "0 < c" by auto
    then obtain m where "m \<le> n" "c = 2 ^ m" using Suc.IH by blast
    then show ?thesis using c by (intro exI[of _ "Suc m"]) simp
  next
    case False
    then have "coprime d (2 ^ Suc n)" by (simp add: coprime_right_2_iff_odd)
    with Suc.prems(1) have "is_unit d" by (metis coprime_common_divisor dvd_refl)
    with Suc.prems(2) show ?thesis by (intro exI[of _ 0]) auto
  qed
qed

lemma representable_dyadic:
  assumes "d dvd 2 ^ 62" "0 < d" "\<bar>k\<bar> < 2 ^ prec t"
  shows "representable t (of_int k / of_int d)"
proof -
  obtain n where n: "n \<le> 62" "d = 2 ^ n"
    using dvd_power_two[OF assms(1,2)] by blast
  then have "(of_int k / of_int d :: rat) = of_int k * 2 powi (- int n)"
    by (simp add: power_int_minus field_simps)
  then show ?thesis using n assms(3) emin_nonpos[of t] unfolding representable_def
    by (intro exI[of _ k] exI[of _ "- int n"]) auto
qed

lemma representable_numeral:
  "(numeral k :: int) < 2 ^ prec t \<Longrightarrow> representable t (numeral k)"
  "(numeral k :: int) < 2 ^ prec t \<Longrightarrow> representable t (- numeral k)"
  "representable t 1" "representable t (- 1)" "representable t 0"
  using representable_int[of "numeral k" t] representable_int[of "- numeral k" t]
    representable_int[of 1 t] representable_int[of "- 1" t] representable_int[of 0 t] prec_pos[of t]
  by auto

lemma representable_fraction:
  "(numeral d :: int) dvd 2 ^ 62 \<Longrightarrow> (numeral k :: int) < 2 ^ prec t \<Longrightarrow> representable t (numeral k / numeral d)"
  "(numeral d :: int) dvd 2 ^ 62 \<Longrightarrow> (numeral k :: int) < 2 ^ prec t \<Longrightarrow> representable t (- (numeral k / numeral d))"
  "(numeral d :: int) dvd 2 ^ 62 \<Longrightarrow> representable t (1 / numeral d)"
  "(numeral d :: int) dvd 2 ^ 62 \<Longrightarrow> representable t (- (1 / numeral d))"
  using representable_dyadic[of "numeral d" "numeral k" t] representable_dyadic[of "numeral d" "- numeral k" t]
    representable_dyadic[of "numeral d" 1 t] representable_dyadic[of "numeral d" "- 1" t] prec_pos[of t]
  by auto

lemmas rnd_numerals [simp] =
  representable_numeral [THEN rnd_exact] representable_fraction [THEN rnd_exact]

lemmas lit_simps [simp] = rnd_numerals [folded lit_def] rnd_0 [folded lit_def]


text \<open>
  A decimal literal is evaluated by naming its significand \<open>m\<close> and scale \<open>n\<close>: the nearest
  representable number is \<open>m / 2 ^ n\<close> when the literal is within half a unit of it.
\<close>

lemma rnd_decimal:
  assumes "2 ^ (prec TYPE('a::len) - 1) < m" "m < 2 ^ prec TYPE('a)" "int n \<le> - emin TYPE('a)"
    and near: "\<bar>x * 2 ^ n - of_int m\<bar> < 1/2"
  shows "(rnd x :: 'a flt) = Fin (of_int m / 2 ^ n)"
proof -
  let ?p = "prec TYPE('a)" and ?u = "- int n"
  have m1: "2 ^ (?p - 1) + 1 \<le> m" and m2: "m \<le> 2 ^ ?p - 1" using assms by auto
  have lo: "(2::rat) ^ (?p - 1) + 1 \<le> of_int m"
    using of_int_le_iff[of "2 ^ (?p - 1) + 1" m, where ?'a = rat] m1 by simp
  have hi: "(of_int m :: rat) \<le> 2 ^ ?p - 1"
    using of_int_le_iff[of m "2 ^ ?p - 1", where ?'a = rat] m2 by simp
  have x1: "(2::rat) ^ (?p - 1) \<le> x * 2 ^ n" "x * 2 ^ n < 2 ^ ?p" using near lo hi by linarith+
  have "(0::rat) < 2 ^ (?p - 1)" by simp
  with x1(1) have "0 < x * 2 ^ n" by linarith
  then have x: "0 < x" by (simp add: zero_less_mult_iff)
  have "2 powi (int ?p - 1 + ?u) \<le> x" "x < 2 powi (int ?p - 1 + ?u + 1)"
    using x1 prec_pos[of "TYPE('a)"] by (simp_all add: powi_diff powi_add power_diff field_simps)
  then have "ilog2 x = int ?p - 1 + ?u" by (rule ilog2_unique)
  then have u: "ulp_exp TYPE('a) x = ?u" using x assms(3) by (simp add: ulp_exp_def)
  have r: "rne (x * 2 ^ n) = m"
  proof (cases "of_int m \<le> x * 2 ^ n")
    case True
    then have "\<lfloor>x * 2 ^ n\<rfloor> = m" using near by (intro floor_unique) auto
    moreover have "x * 2 ^ n - of_int m < 1/2" using near by linarith
    ultimately show ?thesis by (simp add: rne_def)
  next
    case False
    then have "\<lfloor>x * 2 ^ n\<rfloor> = m - 1" using near by (intro floor_unique) auto
    moreover have "- (1/2) < x * 2 ^ n - of_int m" using near by linarith
    ultimately show ?thesis unfolding rne_def Let_def by simp
  qed
  then have "rnd_rat TYPE('a) x = of_int m / 2 ^ n"
    using x u r by (simp add: rnd_rat_def Let_def power_int_minus divide_inverse)
  moreover have "representable TYPE('a) (of_int m / 2 ^ n)"
  proof -
    have "0 < m" using m1 zero_less_power[of "2::int" "?p - 1"] by linarith
    then have "of_int m / 2 ^ n = (of_int m :: rat) * 2 powi (- int n) \<and> \<bar>m\<bar> < 2 ^ ?p \<and>
        emin TYPE('a) \<le> - int n \<and> - int n \<le> emax TYPE('a)"
      using assms(2,3) emin_nonpos[of "TYPE('a)"] by (simp add: power_int_minus divide_inverse)
    then show ?thesis unfolding representable_def by blast
  qed
  moreover from this have "\<not> max_fin TYPE('a) < of_int m / 2 ^ n" "\<not> of_int m / 2 ^ n < - max_fin TYPE('a)"
    using representable_bound[of "TYPE('a)" "of_int m / 2 ^ n"] by linarith+
  ultimately show ?thesis using x by (simp add: rnd_def)
qed

section \<open>Facts on arithmetic\<close>

lemma mk_not_nan [simp]: "\<not> is_nan (mk b q)"
  by (simp add: mk_def signed_zero_def)

lemma valid_mk [simp]: "valid (mk b q :: 'a::len flt)"
  using zero_flt_simps(6)[where ?'a = 'a] by (auto simp: mk_def signed_zero_def zero_flt_def)

lemma mk_nonneg: "0 \<le> q \<Longrightarrow> (0 :: 'a::len flt) \<le> mk b q"
  using rnd_nonneg[of q] by (auto simp: mk_def signed_zero_def)

lemma mk_le_rval: "(mk b q :: 'a::len flt) \<le> x \<longleftrightarrow> rnd q \<le> x"
  by (cases x) (auto simp: mk_def signed_zero_def)

lemma mk_ge_rval: "x \<le> (mk b q :: 'a::len flt) \<longleftrightarrow> x \<le> rnd q"
  by (cases x) (auto simp: mk_def signed_zero_def)

lemma flt_nonneg_cases: "(0 :: 'a::len flt) \<le> x \<longleftrightarrow> x = PInf \<or> x = NZero \<or> (\<exists>q \<ge> 0. x = Fin q)"
  by (cases x) auto

lemma finite_no_nan:
  assumes "is_finite x" "is_finite y"
  shows "\<not> is_nan (x + y)" "\<not> is_nan (x - y)" "\<not> is_nan (x * y)"
  using assms by (cases x; cases y; simp add: plus_flt_def minus_flt_def times_flt_def)+

lemma square_nonneg: "\<not> is_nan x \<Longrightarrow> (0 :: 'a::len flt) \<le> x * x"
  by (cases x) (auto simp: times_flt_def is_zero_def signed_inf_def intro!: mk_nonneg)

lemma flt_add_nonneg: "0 \<le> x \<Longrightarrow> 0 \<le> y \<Longrightarrow> (0 :: 'a::len flt) \<le> x + y"
  by (cases x; cases y) (auto simp: plus_flt_def intro!: mk_nonneg)

lemma is_nan_uminus [simp]: "is_nan (- x) = is_nan x" for x :: "'a::len flt"
  by (cases x) auto

lemma nan_arith [simp]:
  "is_nan x \<Longrightarrow> is_nan (x + y)" "is_nan y \<Longrightarrow> is_nan (x + y)"
  "is_nan x \<Longrightarrow> is_nan (x - y)" "is_nan y \<Longrightarrow> is_nan (x - y)"
  "is_nan x \<Longrightarrow> is_nan (x * y)" "is_nan y \<Longrightarrow> is_nan (x * y)" for x y :: "'a::len flt"
  by (simp_all add: plus_flt_def minus_flt_def times_flt_def)

lemma is_nan_fsqrt [simp]: "is_nan x \<Longrightarrow> is_nan (fsqrt x)"
  by (cases x) auto

lemma lit_nat: "n < 2 ^ 53 \<Longrightarrow> (rnd (of_nat n) :: f64) = Fin (of_nat n)"
  using rnd_exact[OF representable_int[of "int n" "TYPE(64)"]] by simp

lemma Fin_add: "(Fin p + Fin q :: 'a::len flt) = mk False (p + q)"
  by (simp add: plus_flt_def)

lemma Fin_sub: "(Fin p - Fin q :: 'a::len flt) = mk False (p - q)"
  by (simp add: minus_flt_def plus_flt_def)

lemma Fin_mult: "(Fin p * Fin q :: 'a::len flt) = mk ((p < 0) \<noteq> (q < 0)) (p * q)"
  by (simp add: times_flt_def is_zero_def)

lemma Fin_div: "q \<noteq> 0 \<Longrightarrow> (Fin p / Fin q :: 'a::len flt) = mk ((p < 0) \<noteq> (q < 0)) (p / q)"
  by (simp add: divide_flt_def is_zero_def)

text \<open>The rules that evaluate arithmetic on finite constants.\<close>

lemmas fin_arith = Fin_add Fin_sub Fin_mult Fin_div zero_flt_def one_flt_def mk_def signed_zero_def

lemma Fin_less_mk: "(Fin p :: 'a::len flt) < mk b q \<longleftrightarrow> (Fin p :: 'a flt) < rnd q"
  by (auto simp: mk_def signed_zero_def)

lemma finite_not_less:
  "is_finite x \<Longrightarrow> \<not> x < Fin q \<Longrightarrow> Fin q \<le> x" "is_finite x \<Longrightarrow> \<not> x \<le> Fin q \<Longrightarrow> Fin q < x"
  for x :: "'a::len flt"
  by (cases x; auto)+

lemma isqrt_nonneg: "0 \<le> isqrt n"
proof (induction n rule: isqrt.induct)
  case (1 n)
  then show ?case by (subst isqrt.simps) (auto simp: Let_def)
qed

lemma sqrt_rat_nonneg: "0 \<le> sqrt_rat t q"
  using isqrt_nonneg by (auto simp: sqrt_rat_def Let_def)

lemma fsqrt_nonneg: "(0 :: 'a::len flt) \<le> x \<Longrightarrow> 0 \<le> fsqrt x"
  using sqrt_rat_nonneg[of "TYPE('a)" "rval x"] by (cases x) auto

lemma isqrt_spec: "0 \<le> n \<Longrightarrow> (isqrt n)\<^sup>2 \<le> n \<and> n < (isqrt n + 1)\<^sup>2"
proof (induction n rule: isqrt.induct)
  case (1 n)
  show ?case
  proof (cases "n = 0")
    case True
    then show ?thesis by (simp add: isqrt.simps[of 0])
  next
    case False
    define s where "s = isqrt (n div 4)"
    have "s\<^sup>2 \<le> n div 4" "n div 4 < (s + 1)\<^sup>2" using 1 False by (simp_all add: s_def)
    then have "(2 * s)\<^sup>2 \<le> n" "n < (2 * s + 1 + 1)\<^sup>2"
      by (auto simp: power2_eq_square algebra_simps)
    moreover have "isqrt n = (if (2 * s + 1)\<^sup>2 \<le> n then 2 * s + 1 else 2 * s)"
      using 1(2) False by (subst isqrt.simps) (simp add: s_def Let_def)
    ultimately show ?thesis by auto
  qed
qed

lemma isqrt_square: "0 \<le> k \<Longrightarrow> isqrt (k\<^sup>2) = k"
  using isqrt_spec[of "k\<^sup>2"] isqrt_nonneg[of "k\<^sup>2"]
  by (smt (verit) power2_le_imp_le power2_less_imp_less zero_le_power2)

lemma ilog2_square: "0 < r \<Longrightarrow> ilog2 (r\<^sup>2) div 2 = ilog2 r"
proof -
  assume r: "0 < r"
  note b = ilog2_spec[OF r]
  have lo: "(2::rat) powi (2 * ilog2 r) \<le> r\<^sup>2"
    using power_mono[OF b(1), of 2] by (simp add: power_int_mult mult.commute power2_eq_square powi_add)
  have hi: "r\<^sup>2 < (2::rat) powi (2 * ilog2 r + 2)"
  proof -
    have "r\<^sup>2 < (2 powi (ilog2 r + 1))\<^sup>2" using b(2) r by (intro power_strict_mono) auto
    also have "\<dots> = 2 powi (2 * ilog2 r + 2)" by (simp add: power2_eq_square powi_add[symmetric])
    finally show ?thesis .
  qed
  have r2: "0 < r\<^sup>2" using r by simp
  have "(2::rat) powi (2 * ilog2 r) < 2 powi (ilog2 (r\<^sup>2) + 1)" using lo ilog2_spec(2)[OF r2] by linarith
  moreover have "(2::rat) powi ilog2 (r\<^sup>2) < 2 powi (2 * ilog2 r + 2)" using hi ilog2_spec(1)[OF r2] by linarith
  ultimately show ?thesis by (simp add: powi_less_iff)
qed

lemma fsqrt_square:
  assumes "representable TYPE('a::len) r" "0 < r"
  shows "fsqrt (Fin (r\<^sup>2) :: 'a flt) = Fin r"
proof -
  define u where "u = max (emin TYPE('a)) (ilog2 (r\<^sup>2) div 2 - int (prec TYPE('a)) + 1)"
  have u: "u = ulp_exp TYPE('a) r" using assms(2) by (simp add: u_def ulp_exp_def ilog2_square)
  obtain m where m: "r = of_int m * 2 powi u"
  proof -
    have "rnd_rat TYPE('a) r = r" using assms(1) unfolding representable_def by (auto simp: rnd_rat_exact)
    then show thesis using rnd_rat_ulp_form[of "TYPE('a)" r] that u by metis
  qed
  then have pos: "0 < m" using assms(2) powi_pos[of u] by (auto simp: zero_less_mult_iff dest: less_asym)
  have y: "r\<^sup>2 / 2 powi (2 * u) = of_int (m\<^sup>2)"
  proof -
    have "(2::rat) powi (2 * u) = (2 powi u)\<^sup>2" by (simp only: power2_eq_square powi_add[symmetric] mult_2)
    moreover have "r\<^sup>2 = of_int (m\<^sup>2) * (2 powi u)\<^sup>2" by (subst m) (simp add: power_mult_distrib)
    ultimately show ?thesis by simp
  qed
  have lt: "(of_int (m\<^sup>2) :: rat) < (of_int m + 1/2)\<^sup>2" using pos by (simp add: power2_eq_square algebra_simps)
  have "sqrt_rat TYPE('a) (r\<^sup>2) = of_int m * 2 powi u"
    unfolding sqrt_rat_def Let_def u_def[symmetric] y floor_of_int
    using lt pos by (simp add: isqrt_square)
  then show ?thesis using assms(2) by (simp add: m[symmetric])
qed

lemma fsqrt_squares:
  "0 < k \<Longrightarrow> k < 2 ^ prec TYPE('a::len) \<Longrightarrow> fsqrt (Fin ((of_int k)\<^sup>2) :: 'a flt) = Fin (of_int k)"
  by (intro fsqrt_square representable_int) auto

lemma flt_div_nonneg: "0 \<le> x \<Longrightarrow> 0 < q \<Longrightarrow> (0 :: 'a::len flt) \<le> x / Fin q"
  unfolding flt_nonneg_cases[of x]
  by (auto simp: divide_flt_def is_zero_def signed_inf_def mk_nonneg mk_def signed_zero_def rnd_nonneg)

lemma flt_mult_nonneg: "0 \<le> x \<Longrightarrow> 0 < q \<Longrightarrow> (0 :: 'a::len flt) \<le> x * Fin q"
  unfolding flt_nonneg_cases[of x]
  by (auto simp: times_flt_def is_zero_def signed_inf_def mk_nonneg mk_def signed_zero_def rnd_nonneg)

lemma flt_sub_nonneg: "x \<le> Fin q \<Longrightarrow> (0 :: 'a::len flt) \<le> Fin q - x"
  by (cases x) (auto simp: minus_flt_def plus_flt_def mk_def signed_zero_def rnd_nonneg)

lemma fcast_nonneg: "0 \<le> (x :: 'b::len flt) \<Longrightarrow> (0 :: 'a::len flt) \<le> fcast x"
  unfolding flt_nonneg_cases[of x] by (auto simp: rnd_nonneg)

text \<open>A literal between two representable constants is a finite number between them.\<close>

lemma lit_between:
  assumes "representable TYPE('a::len) a" "representable TYPE('a) b" "a \<le> q" "q \<le> b"
  shows "\<exists>r. (lit q :: 'a flt) = Fin r \<and> a \<le> r \<and> r \<le> b \<or> a \<le> 0 \<and> (lit q :: 'a flt) = NZero"
proof -
  have "(Fin a :: 'a flt) \<le> lit q" "(lit q :: 'a flt) \<le> Fin b"
    unfolding lit_def rnd_exact[OF assms(1), symmetric] rnd_exact[OF assms(2), symmetric]
    by (simp_all add: rnd_mono assms)
  then show ?thesis by (cases "lit q :: 'a flt") auto
qed

lemma lit_pos:
  assumes "representable TYPE('a::len) a" "representable TYPE('a) b" "a \<le> q" "q \<le> b" "0 < a"
  obtains r where "(lit q :: 'a flt) = Fin r" "0 < r"
  using lit_between[OF assms(1-4)] assms(5) by force


end
