(* ===== verification/Types.thy ===== *)
theory Types
  imports Ieee
begin

text \<open>
  The domain types of \<open>src/types.rs\<close>: identifiers, positions and velocities in the local NED frame,
  the kinematic state of a drone, detections, grid cells and tasks. The identifier newtypes are
  their integer types. Distances and magnitudes are computed in the order of the source, with one
  rounding per operation.
\<close>

type_synonym node_id = u32
type_synonym cluster_id = u32
type_synonym task_id = u64

record position3d =
  px :: f64
  py :: f64
  pz :: f64

definition distance_to :: "position3d \<Rightarrow> position3d \<Rightarrow> f64" where
  "distance_to a b =
    (let dx = px a - px b; dy = py a - py b; dz = pz a - pz b
     in fsqrt (dx * dx + dy * dy + dz * dz))"

definition position_zero :: position3d where
  "position_zero = \<lparr>px = 0, py = 0, pz = 0\<rparr>"

record velocity3d =
  vx :: f64
  vy :: f64
  vz :: f64

definition velocity_default :: velocity3d where
  "velocity_default = \<lparr>vx = 0, vy = 0, vz = 0\<rparr>"

definition magnitude :: "velocity3d \<Rightarrow> f64" where
  "magnitude v = fsqrt (vx v * vx v + vy v * vy v + vz v * vz v)"

fun position_from_tuple :: "f64 \<times> f64 \<times> f64 \<Rightarrow> position3d" where
  "position_from_tuple (a, b, c) = \<lparr>px = a, py = b, pz = c\<rparr>"

definition position_from_velocity :: "velocity3d \<Rightarrow> position3d" where
  "position_from_velocity v = \<lparr>px = vx v, py = vy v, pz = vz v\<rparr>"

record drone_state =
  ds_id :: node_id
  ds_position :: position3d
  ds_velocity :: velocity3d
  heading_rad :: f64
  altitude_agl_m :: f64
  battery_pct :: f32
  link_quality :: f32
  timestamp_ms :: u64

definition default_at_origin :: "node_id \<Rightarrow> drone_state" where
  "default_at_origin i =
    \<lparr>ds_id = i, ds_position = position_zero, ds_velocity = velocity_default, heading_rad = 0,
     altitude_agl_m = 0, battery_pct = lit 100, link_quality = lit 1, timestamp_ms = 0\<rparr>"

record csi_detection =
  det_drone_id :: node_id
  det_confidence :: f32
  victim_position :: "position3d option"
  det_timestamp_ms :: u64

record grid_cell =
  x_idx :: u32
  y_idx :: u32
  victim_probability :: f32
  pheromone_level :: f32
  last_scanned_ms :: u64

datatype task_kind =
    CoverCell u32 u32
  | InvestigateVictim position3d
  | Triangulate "node_id list"
  | TaskReturnToHome
  | HoverRelay
  | LandEmergency

record swarm_task =
  task_ident :: task_id
  kind :: task_kind
  task_priority :: f32
  target :: position3d
  deadline_ms :: "u64 option"
  assigned_to :: "node_id option"

datatype swarm_role = ClusterHead | Worker | RelayNode | GroundControlStation

text \<open>
  The fail-safe enum of this file, which nothing uses (the state machine has its own), and the crate's error type; the errors of the TOML reader
  and of input and output are its parameters.
\<close>

datatype types_fail_safe_state =
    TNominal | TAutonomousHold | TLowBatteryWarn | TReturnToHome | TEmergencyLand | TEmergencyDiverge | TControlledDescent

datatype ('toml, 'io) swarm_error =
    ConsensusError string
  | CommunicationError string
  | NavigationError string
  | SecurityError string
  | GeofenceBreach position3d
  | AllocationError string
  | SensingError string
  | ConfigError 'toml
  | IoError 'io

type_synonym ('a, 'toml, 'io) swarm_result = "('toml, 'io) swarm_error + 'a"

definition finite_position :: "position3d \<Rightarrow> bool" where
  "finite_position p \<longleftrightarrow> is_finite (px p) \<and> is_finite (py p) \<and> is_finite (pz p)"

lemma sum_squares_nonneg:
  "\<not> is_nan a \<Longrightarrow> \<not> is_nan b \<Longrightarrow> \<not> is_nan c \<Longrightarrow> (0 :: f64) \<le> a * a + b * b + c * c"
  by (intro flt_add_nonneg square_nonneg)

lemma distance_to_nonneg:
  "finite_position a \<Longrightarrow> finite_position b \<Longrightarrow> 0 \<le> distance_to a b"
  unfolding distance_to_def Let_def finite_position_def
  by (intro fsqrt_nonneg sum_squares_nonneg finite_no_nan) auto

lemma distance_to_not_nan:
  "finite_position a \<Longrightarrow> finite_position b \<Longrightarrow> \<not> is_nan (distance_to a b)"
  using distance_to_nonneg flt_le_nan by blast

lemma distance_to_nan:
  "is_nan (px b) \<or> is_nan (py b) \<or> is_nan (pz b) \<Longrightarrow> is_nan (distance_to a b)"
  by (auto simp: distance_to_def Let_def)

section \<open>Comparing floats as the source does\<close>

text \<open>\<open>a.partial_cmp(&b).unwrap_or(Equal)\<close>: a total preorder on numbers that are not NaN, and not an order at all on NaN.\<close>

definition partial_cmp_or_equal :: "'a::len flt \<Rightarrow> 'a flt \<Rightarrow> ordering" where
  "partial_cmp_or_equal a b = (if a < b then Less else if b < a then Greater else Equal)"

lemma partial_cmp_not_greater:
  "\<not> is_nan a \<Longrightarrow> \<not> is_nan b \<Longrightarrow> partial_cmp_or_equal a b \<noteq> Greater \<longleftrightarrow> a \<le> b"
  by (auto simp: partial_cmp_or_equal_def flt_not_less flt_less_imp_le dest: flt_le_not_less)

lemma partial_cmp_comparator:
  "comparator_on (\<lambda>x. \<not> is_nan (f x)) (\<lambda>x y. partial_cmp_or_equal (f x) (f y :: 'b::len flt))"
proof
  fix x y z
  assume nn: "\<not> is_nan (f x)" "\<not> is_nan (f y)"
  show "partial_cmp_or_equal (f y) (f x) \<noteq> Greater" if "partial_cmp_or_equal (f x) (f y) = Greater"
    using nn that by (auto simp: partial_cmp_or_equal_def split: if_splits)
  assume "\<not> is_nan (f z)" "partial_cmp_or_equal (f x) (f y) \<noteq> Greater" "partial_cmp_or_equal (f y) (f z) \<noteq> Greater"
  then show "partial_cmp_or_equal (f x) (f z) \<noteq> Greater"
    using nn by (auto simp: partial_cmp_not_greater intro: flt_le_trans)
qed

interpretation fcmp: comparator_on "\<lambda>x::'a::len flt. \<not> is_nan x" partial_cmp_or_equal
  using partial_cmp_comparator[of "\<lambda>x. x"] by simp

end
