(* ===== verification/FailSafe.thy ===== *)
theory FailSafe
  imports Types
begin

text \<open>
  The fail-safe state machine of \<open>src/failsafe/mod.rs\<close>. \<open>tick\<close> reads the monotonic clock at most
  twice: once when a lost link is first seen (\<open>Instant::now\<close>) and once for \<open>elapsed\<close>; both
  readings, in nanoseconds, are arguments. The lemmas give the result of a tick on every branch,
  the transitions a tick can make, and which states a running machine can reach.
\<close>

section \<open>The machine\<close>

datatype fail_safe_state =
    Nominal
  | AutonomousHold
  | LowBatteryWarn
  | ReturnToHome
  | EmergencyLand
  | EmergencyDiverge
  | ControlledDescent

record failsafe_machine =
  fs_state :: fail_safe_state
  link_loss_start :: "nat option"
  link_loss_hold_secs :: f64
  link_loss_rth_secs :: f64
  battery_warn_pct :: f32
  battery_rth_pct :: f32
  collision_dist_m :: f64

definition failsafe_new :: failsafe_machine where
  "failsafe_new =
    \<lparr>fs_state = Nominal, link_loss_start = None, link_loss_hold_secs = lit 3,
     link_loss_rth_secs = lit 30, battery_warn_pct = lit 20, battery_rth_pct = lit 15,
     collision_dist_m = lit (3/2)\<rparr>"

text \<open>\<open>Instant::elapsed\<close> saturates at zero; \<open>Duration::as_secs_f64\<close> adds whole seconds and nanoseconds.\<close>

definition elapsed_secs :: "nat \<Rightarrow> nat \<Rightarrow> f64" where
  "elapsed_secs start now =
    (let d = now - start
     in rnd (of_nat (d div 1000000000)) + rnd (of_nat (d mod 1000000000)) / lit 1000000000)"

definition tick ::
  "nat \<Rightarrow> nat \<Rightarrow> drone_state \<Rightarrow> bool \<Rightarrow> f64 \<Rightarrow> failsafe_machine \<Rightarrow> failsafe_machine \<times> fail_safe_state" where
  "tick now_insert now_read st link_alive nearest_neighbor_dist m =
    (if \<not> is_finite nearest_neighbor_dist \<or> nearest_neighbor_dist < collision_dist_m m
     then (m\<lparr>fs_state := EmergencyDiverge\<rparr>, EmergencyDiverge)
     else if \<not> link_alive then
       let start = (case link_loss_start m of Some t \<Rightarrow> t | None \<Rightarrow> now_insert);
           elapsed = elapsed_secs start now_read;
           s' = (if link_loss_rth_secs m < elapsed then ReturnToHome
                 else if link_loss_hold_secs m < elapsed then AutonomousHold
                 else fs_state m)
       in (m\<lparr>link_loss_start := Some start, fs_state := s'\<rparr>, s')
     else
       let s1 = (if fs_state m = AutonomousHold then Nominal else fs_state m);
           s2 = (if \<not> is_finite (battery_pct st) \<or> battery_pct st \<le> battery_rth_pct m then ReturnToHome
                 else if battery_pct st \<le> battery_warn_pct m then LowBatteryWarn
                 else if s1 = LowBatteryWarn then Nominal
                 else s1)
       in (m\<lparr>link_loss_start := None, fs_state := s2\<rparr>, s2))"

definition current :: "failsafe_machine \<Rightarrow> fail_safe_state" where
  "current m = fs_state m"

definition force_land :: "failsafe_machine \<Rightarrow> failsafe_machine" where
  "force_land m = m\<lparr>fs_state := EmergencyLand\<rparr>"

section \<open>Configuration and result\<close>

lemma tick_result: "snd (tick t0 t1 st l d m) = fs_state (fst (tick t0 t1 st l d m))"
  by (simp add: tick_def Let_def)

lemma tick_config [frame_simps]:
  "link_loss_hold_secs (fst (tick t0 t1 st l d m)) = link_loss_hold_secs m"
  "link_loss_rth_secs (fst (tick t0 t1 st l d m)) = link_loss_rth_secs m"
  "battery_warn_pct (fst (tick t0 t1 st l d m)) = battery_warn_pct m"
  "battery_rth_pct (fst (tick t0 t1 st l d m)) = battery_rth_pct m"
  "collision_dist_m (fst (tick t0 t1 st l d m)) = collision_dist_m m"
  by (simp_all add: tick_def Let_def)

lemma tick_poisoned_distance:
  "\<not> is_finite d \<or> d < collision_dist_m m \<Longrightarrow> tick t0 t1 st l d m = (m\<lparr>fs_state := EmergencyDiverge\<rparr>, EmergencyDiverge)"
  by (simp add: tick_def)

section \<open>Transitions\<close>

text \<open>
  The abstract machine: which state may follow which, and under which observation. The concrete
  tick refines it.
\<close>

datatype observation = Too_Close | Link_Down | Link_Up

inductive fs_step :: "observation \<Rightarrow> fail_safe_state \<Rightarrow> fail_safe_state \<Rightarrow> bool" where
  diverge: "fs_step Too_Close s EmergencyDiverge"
| link_wait: "fs_step Link_Down s s"
| link_hold: "fs_step Link_Down s AutonomousHold"
| link_rth: "fs_step Link_Down s ReturnToHome"
| battery_critical: "fs_step Link_Up s ReturnToHome"
| battery_low: "fs_step Link_Up s LowBatteryWarn"
| recover_hold: "fs_step Link_Up AutonomousHold Nominal"
| recover_battery: "fs_step Link_Up LowBatteryWarn Nominal"
| keep: "s \<noteq> AutonomousHold \<Longrightarrow> s \<noteq> LowBatteryWarn \<Longrightarrow> fs_step Link_Up s s"

inductive_simps fs_step_Nominal: "fs_step ob s Nominal"
inductive_simps fs_step_Descent: "fs_step ob s ControlledDescent"
inductive_simps fs_step_Land: "fs_step ob s EmergencyLand"
inductive_cases fs_step_from: "fs_step ob s s'"

definition observe :: "failsafe_machine \<Rightarrow> bool \<Rightarrow> f64 \<Rightarrow> observation" where
  "observe m link_alive d =
    (if \<not> is_finite d \<or> d < collision_dist_m m then Too_Close
     else if link_alive then Link_Up else Link_Down)"

lemma tick_refines: "fs_step (observe m l d) (fs_state m) (fs_state (fst (tick t0 t1 st l d m)))"
  by (auto simp: tick_def observe_def Let_def intro: fs_step.intros)

section \<open>Runs\<close>

text \<open>One event of a machine's life: a tick with its clock readings and inputs, or \<open>force_land\<close>.\<close>

datatype fs_event = Tick nat nat drone_state bool f64 | Force_Land

fun fs_exec :: "failsafe_machine \<Rightarrow> fs_event \<Rightarrow> failsafe_machine" where
  "fs_exec m (Tick t0 t1 st l d) = fst (tick t0 t1 st l d m)"
| "fs_exec m Force_Land = force_land m"

definition no_descent :: "failsafe_machine \<Rightarrow> bool" where
  "no_descent m \<longleftrightarrow> fs_state m \<noteq> ControlledDescent"

interpretation fs: op_invariant fs_exec no_descent
proof
  fix m e assume "no_descent m"
  then show "no_descent (fs_exec m e)"
    using tick_refines[of m] by (cases e) (auto simp: no_descent_def force_land_def fs_step_Descent, metis fs_step_Descent)
qed


definition config_of :: "failsafe_machine \<Rightarrow> f64 \<times> f64 \<times> f32 \<times> f32 \<times> f64" where
  "config_of m = (link_loss_hold_secs m, link_loss_rth_secs m, battery_warn_pct m, battery_rth_pct m, collision_dist_m m)"

interpretation fsc: op_invariant fs_exec "\<lambda>m. config_of m = c"
proof
  fix m e assume "config_of m = c"
  then show "config_of (fs_exec m e) = c"
    by (cases e) (simp_all add: config_of_def force_land_def tick_config)
qed

lemma run_config:
  "collision_dist_m (foldl fs_exec failsafe_new es) = lit (3/2)"
  "battery_rth_pct (foldl fs_exec failsafe_new es) = lit 15"
  "battery_warn_pct (foldl fs_exec failsafe_new es) = lit 20"
  "link_loss_hold_secs (foldl fs_exec failsafe_new es) = lit 3"
  "link_loss_rth_secs (foldl fs_exec failsafe_new es) = lit 30"
  using fsc.run_inv[of failsafe_new "config_of failsafe_new" es]
  by (simp_all add: config_of_def failsafe_new_def)

section \<open>Clock arithmetic\<close>

text \<open>The clock arithmetic: a whole number of seconds is exceeded exactly when its nanoseconds are.\<close>

lemma fraction_of_second:
  assumes "f < 1000000000"
  obtains \<phi> where "(rnd (of_nat f) :: f64) / lit 1000000000 = Fin \<phi>" "0 \<le> \<phi>" "\<phi> \<le> 1"
    "f = 0 \<Longrightarrow> \<phi> = 0" "f \<noteq> 0 \<Longrightarrow> 1 / 2 ^ 30 \<le> \<phi>"
proof -
  have q: "(rnd (of_nat f) :: f64) / lit 1000000000 = mk False (of_nat f / 1000000000)"
    using assms by (simp add: lit_nat Fin_div)
  show thesis
  proof (cases "f = 0")
    case True
    then show thesis using q that[of 0] by (simp add: mk_def signed_zero_def)
  next
    case False
    have lo: "1 / 2 ^ 30 \<le> (of_nat f / 1000000000 :: rat)" and hi: "(of_nat f / 1000000000 :: rat) \<le> 1"
      using False assms by (simp_all add: divide_simps)
    have "(Fin (1 / 2 ^ 30) :: f64) \<le> rnd (of_nat f / 1000000000)"
      using rnd_mono[OF lo, where ?'a = 64] by simp
    moreover have "(rnd (of_nat f / 1000000000) :: f64) \<le> Fin 1"
      using rnd_mono[OF hi, where ?'a = 64] by simp
    ultimately obtain \<phi> where "(rnd (of_nat f / 1000000000) :: f64) = Fin \<phi>" "1 / 2 ^ 30 \<le> \<phi>" "\<phi> \<le> 1"
      by (cases "rnd (of_nat f / 1000000000) :: f64") (auto simp: zero_flt_def)
    then show thesis using False q that[of \<phi>] by (simp add: mk_def)
  qed
qed

lemma elapsed_exceeds:
  assumes "now - start < 2 ^ 53" "k < 2 ^ 20"
  shows "lit (of_nat k) < elapsed_secs start now \<longleftrightarrow> k * 1000000000 < now - start"
proof -
  define d where "d = now - start"
  define s where "s = d div 1000000000"
  define f where "f = d mod 1000000000"
  have d: "d = s * 1000000000 + f" and f: "f < 1000000000" by (simp_all add: s_def f_def)
  have sb: "s < 2 ^ 53" using assms(1) unfolding s_def d_def[symmetric] by simp
  obtain \<phi> where \<phi>: "(rnd (of_nat f) :: f64) / lit 1000000000 = Fin \<phi>" "0 \<le> \<phi>" "\<phi> \<le> 1"
    "f = 0 \<Longrightarrow> \<phi> = 0" "f \<noteq> 0 \<Longrightarrow> 1 / 2 ^ 30 \<le> \<phi>"
    using fraction_of_second[OF f] by blast
  have e: "elapsed_secs start now = mk False (of_nat s + \<phi>)"
    unfolding elapsed_secs_def Let_def d_def[symmetric] s_def[symmetric] f_def[symmetric] \<phi>(1)
    using sb by (simp add: lit_nat Fin_add)
  have k: "(lit (of_nat k) :: f64) = Fin (of_nat k)" using assms(2) by (simp add: lit_def lit_nat)
  have le: "(rnd (of_nat s + \<phi>) :: f64) \<le> Fin (of_nat k)" if "of_nat s + \<phi> \<le> of_nat k"
    using rnd_mono[OF that, where ?'a = 64] assms(2) by (simp add: lit_nat)
  have ge: "(Fin q :: f64) \<le> rnd (of_nat s + \<phi>)" if "representable TYPE(64) q" "q \<le> of_nat s + \<phi>" for q
    using rnd_ge_valid[of q "of_nat s + \<phi>", where ?'a = 64] that by simp
  show ?thesis
  proof (cases "k < s \<or> (k = s \<and> f \<noteq> 0)")
    case True
    define q where "q = (of_int (int k * 2 ^ 30 + 1) / of_int (2 ^ 30) :: rat)"
    have q: "q = of_nat k + 1 / 2 ^ 30" by (simp add: q_def add_divide_distrib)
    have "\<bar>int k * 2 ^ 30 + 1\<bar> < 2 ^ prec TYPE(64)" using assms(2) by simp
    moreover have "(2::int) ^ 30 dvd 2 ^ 62" by (intro le_imp_power_dvd) simp
    ultimately have "representable TYPE(64) q" unfolding q_def by (intro representable_dyadic) auto
    moreover have "q \<le> of_nat s + \<phi>"
    proof (cases "k < s")
      case True
      then have "(of_nat k + 1 :: rat) \<le> of_nat s" by (metis Suc_eq_plus1 Suc_leI of_nat_1 of_nat_add of_nat_le_iff)
      with \<phi>(2) show ?thesis by (simp add: q)
    qed (use \<open>k < s \<or> (k = s \<and> f \<noteq> 0)\<close> \<phi>(5) in \<open>auto simp: q\<close>)
    ultimately have "(Fin q :: f64) \<le> rnd (of_nat s + \<phi>)" by (rule ge)
    moreover have "(Fin (of_nat k) :: f64) < Fin q" by (simp add: q)
    ultimately have "(Fin (of_nat k) :: f64) < rnd (of_nat s + \<phi>)" by (rule flt_less_le_trans[rotated])
    moreover have "k * 1000000000 < d" using True d by auto
    ultimately show ?thesis by (simp add: e k Fin_less_mk d_def)
  next
    case False
    then have "of_nat s + \<phi> \<le> (of_nat k :: rat)"
    proof (cases "k = s")
      case True
      then have "\<phi> = 0" using False \<phi>(4) by auto
      with True show ?thesis by simp
    next
      case sk: False
      then have "(of_nat s + 1 :: rat) \<le> of_nat k" using False
        by (metis Suc_eq_plus1 Suc_leI linorder_neqE_nat of_nat_1 of_nat_add of_nat_le_iff)
      with \<phi>(3) show ?thesis by simp
    qed
    then have "\<not> (Fin (of_nat k) :: f64) < rnd (of_nat s + \<phi>)" using le flt_le_not_less by blast
    moreover have "\<not> k * 1000000000 < d" using False d f by (cases "k = s") auto
    ultimately show ?thesis by (simp add: e k Fin_less_mk d_def)
  qed
qed

lemma elapsed_long:
  assumes "4 * 1000000000 \<le> now - start"
  shows "lit 3 < elapsed_secs start now"
proof -
  define d where "d = now - start"
  obtain \<phi> where \<phi>: "(rnd (of_nat (d mod 1000000000)) :: f64) / lit 1000000000 = Fin \<phi>" "0 \<le> \<phi>"
    by (rule fraction_of_second[of "d mod 1000000000"]) auto
  have "4 \<le> d div 1000000000" using assms by (simp add: d_def)
  then have "(of_nat 4 :: rat) \<le> of_nat (d div 1000000000)" by (rule of_nat_mono)
  then have "(Fin 4 :: f64) \<le> rnd (of_nat (d div 1000000000))"
    using rnd_mono[of 4 "of_nat (d div 1000000000)", where ?'a = 64] by simp
  then have "(Fin 4 :: f64) \<le> rnd (of_nat (d div 1000000000)) + Fin \<phi>"
    using \<phi>(2) rnd_mono[of 4 "q + \<phi>" for q, where ?'a = 64]
    by (cases "rnd (of_nat (d div 1000000000)) :: f64") (auto simp: Fin_add mk_ge_rval plus_flt_def)
  then have "Fin 4 \<le> elapsed_secs start now" unfolding elapsed_secs_def Let_def d_def[symmetric] \<phi>(1) .
  moreover have "(lit 3 :: f64) < Fin 4" by simp
  ultimately show ?thesis using flt_less_le_trans by blast
qed

lemma elapsed_at_most_3s: "\<not> lit 3 < elapsed_secs start now \<Longrightarrow> now - start \<le> 3000000000"
  using elapsed_exceeds[of now start 3] elapsed_long[of now start]
  by (cases "now - start < 2 ^ 53") (auto simp del: lit_simps)

section \<open>When the mission continues\<close>

text \<open>
  What a history says of the link: the reading of the clock at which the present loss of the link was first seen. A tick too close
  to a neighbour returns before it looks at the link.
\<close>

fun link_seen :: "nat option \<Rightarrow> fs_event \<Rightarrow> nat option" where
  "link_seen since (Tick t0 t1 st l d) =
     (if \<not> is_finite d \<or> d < lit (3/2) then since
      else if l then None
      else case since of None \<Rightarrow> Some t0 | Some t \<Rightarrow> Some t)"
| "link_seen since Force_Land = since"

lemma link_loss_start_run: "link_loss_start (foldl fs_exec failsafe_new es) = foldl link_seen None es"
proof (induction es rule: rev_induct)
  case (snoc e es)
  then show ?case
    by (cases e) (auto simp: tick_def force_land_def run_config Let_def split: option.splits)
qed (simp add: failsafe_new_def)

text \<open>
  C4. When a tick of a machine built by \<open>new\<close>, after any history of ticks and forced landings,
  lets the mission continue (its result is \<open>Nominal\<close> or \<open>LowBatteryWarn\<close>), then the reported neighbour
  distance was a finite number of at least 1.5 m. With the link down, at most 3 s have passed on the clock since the
  present loss of the link was first seen; the battery is not looked at. With the link up, the battery reading was a
  finite number above 15 percent, above 20 percent when the result is \<open>Nominal\<close>. NaN and infinite
  readings never let the mission continue.
\<close>

theorem mission_continues_safely:
  assumes "snd (tick t0 t1 st l d (foldl fs_exec failsafe_new es)) \<in> {Nominal, LowBatteryWarn}"
  shows "is_finite d \<and> lit (3/2) \<le> d \<and>
    (if l then is_finite (battery_pct st) \<and> lit 15 < battery_pct st \<and>
        (snd (tick t0 t1 st l d (foldl fs_exec failsafe_new es)) = Nominal \<longrightarrow> lit 20 < battery_pct st)
     else t1 - (case foldl link_seen None es of Some t \<Rightarrow> t | None \<Rightarrow> t0) \<le> 3000000000)"
proof (cases l)
  case True
  then show ?thesis using assms by (auto simp: tick_def run_config Let_def finite_not_less split: if_splits)
next
  case False
  then have "\<not> lit 3 < elapsed_secs (case foldl link_seen None es of Some t \<Rightarrow> t | None \<Rightarrow> t0) t1"
    using assms by (auto simp: tick_def run_config link_loss_start_run Let_def simp del: lit_simps split: if_splits)
  then show ?thesis
    using assms False elapsed_at_most_3s by (auto simp: tick_def run_config Let_def finite_not_less split: if_splits)
qed

theorem mission_continues_safely_witness:
  "snd (tick 0 0 ((default_at_origin 1)\<lparr>battery_pct := lit 80\<rparr>) True (lit 10) (foldl fs_exec failsafe_new [])) = Nominal \<and>
   lit 20 < (lit 80 :: f32) \<and>
   snd (tick 2000000000 2000000000 (default_at_origin 1) False (lit 10)
     (foldl fs_exec failsafe_new [Tick 1000000000 1000000000 (default_at_origin 1) False (lit 10)])) = Nominal \<and>
   2000000000 - (case foldl link_seen None [Tick 1000000000 1000000000 (default_at_origin 1) False (lit 10)] of Some t \<Rightarrow> t | None \<Rightarrow> 2000000000) \<le> (3000000000 :: nat)"
proof -
  let ?st = "(default_at_origin 1)\<lparr>battery_pct := lit 80\<rparr>"
  let ?es = "[Tick 1000000000 1000000000 (default_at_origin 1) False (lit 10)]"
  have up: "snd (tick 0 0 ?st True (lit 10) (foldl fs_exec failsafe_new [])) = Nominal"
    by (simp add: tick_def failsafe_new_def)
  have down: "snd (tick 2000000000 2000000000 (default_at_origin 1) False (lit 10) (foldl fs_exec failsafe_new ?es)) = Nominal"
    by (simp add: tick_def failsafe_new_def Let_def elapsed_secs_def lit_nat Fin_add Fin_div mk_def signed_zero_def)
  have "lit 20 < (lit 80 :: f32)" using mission_continues_safely[of 0 0 ?st True "lit 10" "[]"] up by simp
  moreover have "2000000000 - (case foldl link_seen None ?es of Some t \<Rightarrow> t | None \<Rightarrow> 2000000000) \<le> (3000000000 :: nat)"
    using mission_continues_safely[of 2000000000 2000000000 "default_at_origin 1" False "lit 10" ?es] unfolding down by simp
  ultimately show ?thesis using up down by blast
qed

section \<open>Latching\<close>

definition healthy_tick :: "failsafe_machine \<Rightarrow> fs_event \<Rightarrow> bool" where
  "healthy_tick m e = (case e of Force_Land \<Rightarrow> False
     | Tick t0 t1 st l d \<Rightarrow> l \<and> is_finite d \<and> \<not> d < collision_dist_m m \<and>
         is_finite (battery_pct st) \<and> battery_warn_pct m < battery_pct st \<and> battery_rth_pct m < battery_pct st)"

lemma healthy_tick_exec:
  "healthy_tick m e \<Longrightarrow> fs_state (fs_exec m e) =
    (if fs_state m = AutonomousHold \<or> fs_state m = LowBatteryWarn then Nominal else fs_state m)"
  by (cases e) (auto simp: healthy_tick_def tick_def Let_def flt_le_not_less)

lemma healthy_tick_config:
  "config_of m' = config_of m \<Longrightarrow> healthy_tick m' e = healthy_tick m e"
  by (cases e) (simp_all add: healthy_tick_def config_of_def)

text \<open>
  Healthy observations (link up, no neighbour too close, battery above both thresholds) return
  a held or battery-warned machine to \<open>Nominal\<close> and keep it there, and leave every other state as
  it is for as long as they last: \<open>ReturnToHome\<close>, \<open>EmergencyLand\<close> and \<open>EmergencyDiverge\<close> are
  latched.
\<close>

theorem healthy_run_result:
  assumes "es \<noteq> []" and "\<forall>e \<in> set es. healthy_tick m e"
  shows "fs_state (foldl fs_exec m es) =
    (if fs_state m = AutonomousHold \<or> fs_state m = LowBatteryWarn then Nominal else fs_state m)"
  using assms
proof (induction es rule: rev_induct)
  case (snoc e es)
  have h: "healthy_tick (foldl fs_exec m es) e"
    using snoc.prems healthy_tick_config[OF fsc.run_inv[of m "config_of m" es]] by simp
  show ?case using snoc healthy_tick_exec[OF h] by (cases "es = []") auto
qed simp

theorem healthy_run_result_witness:
  "fs_state (foldl fs_exec (failsafe_new\<lparr>fs_state := EmergencyDiverge\<rparr>)
     [Tick 0 0 (default_at_origin 1) True (lit 50)]) = EmergencyDiverge"
  by (subst healthy_run_result) (auto simp: healthy_tick_def failsafe_new_def default_at_origin_def)

section \<open>Link loss\<close>

definition link_lost_tick :: "failsafe_machine \<Rightarrow> fs_event \<Rightarrow> bool" where
  "link_lost_tick m e = (case e of Force_Land \<Rightarrow> False
     | Tick t0 t1 st l d \<Rightarrow> \<not> l \<and> is_finite d \<and> \<not> d < collision_dist_m m)"

lemma link_lost_config:
  "config_of m' = config_of m \<Longrightarrow> link_lost_tick m' e = link_lost_tick m e"
  by (cases e) (simp_all add: link_lost_tick_def config_of_def)

lemma link_lost_start:
  "\<forall>e \<in> set es. link_lost_tick m e \<Longrightarrow> link_loss_start m = Some t \<Longrightarrow>
   link_loss_start (foldl fs_exec m es) = Some t"
proof (induction es rule: rev_induct)
  case (snoc e es)
  have "link_lost_tick (foldl fs_exec m es) e"
    using snoc.prems link_lost_config[OF fsc.run_inv[of m "config_of m" es]] by simp
  with snoc show ?case by (cases e) (auto simp: link_lost_tick_def tick_def Let_def)
qed simp

text \<open>
  A link that stays lost: the first tick without the link starts the clock, whatever the machine
  was doing before, and as long as the link stays down and no neighbour is too close the state is
  \<open>AutonomousHold\<close> once more than 3 s and \<open>ReturnToHome\<close> once more than 30 s have passed on the
  clock, to the nanosecond.
\<close>

theorem link_loss_timeline:
  assumes "link_loss_start m = None" "config_of m = config_of failsafe_new"
    and "\<forall>e \<in> set (Tick a0 a1 st l d # es @ [Tick b0 b1 st' l' d']). link_lost_tick m e"
    and "b1 - a0 < 2 ^ 53"
  shows "fs_state (foldl fs_exec m (Tick a0 a1 st l d # es @ [Tick b0 b1 st' l' d'])) =
    (if 30 * 1000000000 < b1 - a0 then ReturnToHome
     else if 3 * 1000000000 < b1 - a0 then AutonomousHold
     else fs_state (foldl fs_exec m (Tick a0 a1 st l d # es)))"
proof -
  let ?m1 = "foldl fs_exec m (Tick a0 a1 st l d # es)"
  have c: "config_of (foldl fs_exec m xs) = config_of m" for xs by (rule fsc.run_inv) simp
  have "link_loss_start (fs_exec m (Tick a0 a1 st l d)) = Some a0"
    using assms(1,3) by (simp add: link_lost_tick_def tick_def Let_def)
  moreover have "\<forall>e \<in> set es. link_lost_tick (fs_exec m (Tick a0 a1 st l d)) e"
    using assms(3) by (simp add: link_lost_config[OF c[of "[Tick a0 a1 st l d]"], simplified])
  ultimately have start: "link_loss_start ?m1 = Some a0" by (simp add: link_lost_start)
  have last: "link_lost_tick ?m1 (Tick b0 b1 st' l' d')"
    using assms(3) by (subst link_lost_config[OF c[of "Tick a0 a1 st l d # es"]]) simp
  have cfg: "link_loss_rth_secs ?m1 = lit 30" "link_loss_hold_secs ?m1 = lit 3"
    using c[of "Tick a0 a1 st l d # es"] assms(2) by (simp_all add: config_of_def failsafe_new_def)
  have ex: "lit 30 < elapsed_secs a0 b1 \<longleftrightarrow> 30 * 1000000000 < b1 - a0"
    "lit 3 < elapsed_secs a0 b1 \<longleftrightarrow> 3 * 1000000000 < b1 - a0"
    using elapsed_exceeds[OF assms(4), of 30, unfolded of_nat_numeral]
      elapsed_exceeds[OF assms(4), of 3, unfolded of_nat_numeral] by (simp_all del: lit_simps)
  have "fs_state (fs_exec m1 (Tick b0 b1 st' l' d')) =
    (if 30 * 1000000000 < b1 - a0 then ReturnToHome
     else if 3 * 1000000000 < b1 - a0 then AutonomousHold else fs_state m1)" if "m1 = ?m1" for m1
    using start last unfolding that[symmetric]
    by (simp add: tick_def Let_def link_lost_tick_def cfg[folded that] ex del: lit_simps)
  then show ?thesis unfolding append_Cons[symmetric] foldl_append foldl_Cons[of _ _ _ "[]"] foldl_Nil by blast
qed

theorem link_loss_timeline_witness:
  "fs_state (foldl fs_exec failsafe_new
    [Tick 0 0 (default_at_origin 1) False (lit 50), Tick 0 31000000000 (default_at_origin 1) False (lit 50)])
   = ReturnToHome"
  using link_loss_timeline[of failsafe_new 0 0 "default_at_origin 1" False "lit 50" "[]" 0 31000000000
      "default_at_origin 1" False "lit 50"]
  by (simp add: failsafe_new_def link_lost_tick_def)

section \<open>Where the code surprises\<close>

text \<open>
  With the link down the battery is never looked at: the tick returns before the battery checks, so
  an empty battery leads neither to a warning nor to a return until the 30 s timeout.
\<close>

theorem link_down_ignores_battery:
  "tick t0 t1 st False d m = tick t0 t1 (st\<lparr>battery_pct := b\<rparr>) False d m"
  by (simp add: tick_def Let_def)

text \<open>
  A forced landing is not final: a battery warning replaces it, and the recovery from the warning
  returns the machine to \<open>Nominal\<close>. So does a link loss of more than 3 s that ends before 30 s.
\<close>

theorem forced_landing_is_cancelled:
  "fs_state (foldl fs_exec failsafe_new
     [Force_Land, Tick 0 0 ((default_at_origin 1)\<lparr>battery_pct := lit 18\<rparr>) True (lit 50),
      Tick 0 0 ((default_at_origin 1)\<lparr>battery_pct := lit 80\<rparr>) True (lit 50)]) = Nominal"
  by (simp add: force_land_def tick_def failsafe_new_def)

end
