(* ===== verification/Raft.thy ===== *)
theory Raft
  imports Types "HOL-Library.Sublist"
begin

text \<open>
  The cluster-head election of \<open>src/topology/raft.rs\<close>: one node's state, its clock tick, its message
  handler and its promotion. Counters keep their width and wrap, as they do in the release profile.
  \<open>Duration\<close> is in nanoseconds. The lemmas show what one operation does to the log, the commit index, the
  term and the vote, and lift it to runs of operations; the last section runs a cluster of three
  nodes through the handlers.
\<close>

section \<open>Node\<close>

record raft_config =
  election_timeout_ms :: u64
  heartbeat_ms :: u64
  min_battery_pct :: f32
  min_link_quality :: f32

definition raft_config_default :: raft_config where
  "raft_config_default =
    \<lparr>election_timeout_ms = 300, heartbeat_ms = 100, min_battery_pct = lit 20, min_link_quality = lit (4/10)\<rparr>"

lemma raft_config_default_simps [simp]:
  "election_timeout_ms raft_config_default = 300" "heartbeat_ms raft_config_default = 100"
  by (simp_all add: raft_config_default_def)

datatype raft_role = Follower | Candidate | Leader

record log_entry =
  entry_term :: u64
  data :: "u8 list"

datatype raft_message =
    RequestVote (rv_term: u64) (candidate_id: node_id) (last_log_index: u64) (last_log_term: u64)
  | VoteGranted (vg_term: u64) (voter_id: node_id) (granted: bool)
  | AppendEntries (ae_term: u64) (leader_id: node_id) (prev_log_index: u64) (prev_log_term: u64)
      (entries: "log_entry list") (leader_commit: u64)
  | AppendEntriesAck (ack_term: u64) (follower_id: node_id) (success: bool) (match_index: u64)

record raft_node =
  rn_id :: node_id
  role :: raft_role
  current_term :: u64
  voted_for :: "node_id option"
  rlog :: "log_entry list"
  commit_index :: u64
  rn_config :: raft_config
  votes_received :: u32
  elapsed_since_last_event_ms :: u64

definition raft_new :: "node_id \<Rightarrow> raft_config \<Rightarrow> raft_node" where
  "raft_new i c =
    \<lparr>rn_id = i, role = Follower, current_term = 0, voted_for = None, rlog = [], commit_index = 0,
     rn_config = c, votes_received = 0, elapsed_since_last_event_ms = 0\<rparr>"

definition is_eligible_leader :: "drone_state \<Rightarrow> raft_config \<Rightarrow> bool" where
  "is_eligible_leader st c \<longleftrightarrow> min_battery_pct c \<le> battery_pct st \<and> min_link_quality c \<le> link_quality st"

definition log_len :: "raft_node \<Rightarrow> u64" where
  "log_len n = of_nat (length (rlog n))"

definition last_term :: "raft_node \<Rightarrow> u64" where
  "last_term n = (case rlog n of [] \<Rightarrow> 0 | e # es \<Rightarrow> entry_term (last (e # es)))"

definition quorum :: "nat \<Rightarrow> u32" where
  "quorum k = of_nat (k div 2 + 1)"

definition raft_tick :: "nat \<Rightarrow> drone_state list \<Rightarrow> raft_node \<Rightarrow> raft_node \<times> raft_message option" where
  "raft_tick elapsed peers n0 =
    (let elapsed_ms = of_nat (elapsed div 1000000);
         n = n0\<lparr>elapsed_since_last_event_ms := elapsed_since_last_event_ms n0 + elapsed_ms\<rparr>
     in case role n of
       Leader \<Rightarrow>
         if heartbeat_ms (rn_config n) \<le> elapsed_since_last_event_ms n then
           (n\<lparr>elapsed_since_last_event_ms := 0\<rparr>,
            Some (AppendEntries (current_term n) (rn_id n) (log_len n) (last_term n) [] (commit_index n)))
         else (n, None)
     | _ \<Rightarrow>
         if election_timeout_ms (rn_config n) \<le> elapsed_since_last_event_ms n then
           let n1 = n\<lparr>elapsed_since_last_event_ms := 0, current_term := current_term n + 1, role := Candidate,
                      voted_for := Some (rn_id n), votes_received := 1\<rparr>;
               n2 = (if quorum (length peers) \<le> 1 then n1\<lparr>role := Leader\<rparr> else n1)
           in (n2, Some (RequestVote (current_term n2) (rn_id n2) (log_len n2) (last_term n2)))
         else (n, None))"

fun handle_message :: "raft_node \<Rightarrow> raft_message \<Rightarrow> raft_node \<times> raft_message option" where
  "handle_message n (RequestVote t c _ _) =
    (let n1 = (if current_term n < t then n\<lparr>current_term := t, role := Follower, voted_for := None\<rparr> else n);
         vote_granted = (current_term n1 \<le> t \<and> (voted_for n1 = None \<or> voted_for n1 = Some c));
         n2 = (if vote_granted then n1\<lparr>voted_for := Some c, elapsed_since_last_event_ms := 0\<rparr> else n1)
     in (n2, Some (VoteGranted (current_term n2) (rn_id n2) vote_granted)))"
| "handle_message n (VoteGranted t _ g) =
    ((if t = current_term n \<and> role n = Candidate \<and> g
      then n\<lparr>votes_received := votes_received n + 1\<rparr> else n), None)"
| "handle_message n (AppendEntries t _ _ _ es lc) =
    (if current_term n \<le> t then
       let n1 = n\<lparr>current_term := t, role := Follower, voted_for := None, elapsed_since_last_event_ms := 0,
                  rlog := rlog n @ es\<rparr>;
           n2 = (if commit_index n1 < lc then n1\<lparr>commit_index := min lc (log_len n1)\<rparr> else n1)
       in (n2, Some (AppendEntriesAck (current_term n2) (rn_id n2) True (log_len n2)))
     else (n, Some (AppendEntriesAck (current_term n) (rn_id n) False (log_len n))))"
| "handle_message n (AppendEntriesAck _ _ _ _) = (n, None)"

definition try_promote :: "nat \<Rightarrow> raft_node \<Rightarrow> raft_node" where
  "try_promote cluster_size n =
    (if role n = Candidate \<and> quorum cluster_size \<le> votes_received n then n\<lparr>role := Leader\<rparr> else n)"

section \<open>Runs\<close>

datatype raft_event = Elapse nat "drone_state list" | Receive raft_message | Promote nat

fun raft_exec :: "raft_node \<Rightarrow> raft_event \<Rightarrow> raft_node" where
  "raft_exec n (Elapse d peers) = fst (raft_tick d peers n)"
| "raft_exec n (Receive m) = fst (handle_message n m)"
| "raft_exec n (Promote k) = try_promote k n"

lemma raft_tick_cases:
  obtains (wait) "fst (raft_tick d ps n) = n\<lparr>elapsed_since_last_event_ms := elapsed_since_last_event_ms n + of_nat (d div 1000000)\<rparr>"
  | (beat) "role n = Leader" "fst (raft_tick d ps n) = n\<lparr>elapsed_since_last_event_ms := 0\<rparr>"
  | (elect) "role n \<noteq> Leader" "fst (raft_tick d ps n) = n\<lparr>elapsed_since_last_event_ms := 0,
      current_term := current_term n + 1, voted_for := Some (rn_id n), votes_received := 1,
      role := (if quorum (length ps) \<le> 1 then Leader else Candidate)\<rparr>"
proof (cases "role n")
  case Leader
  then show ?thesis using wait beat
    by (cases "heartbeat_ms (rn_config n) \<le> elapsed_since_last_event_ms n + of_nat (d div 1000000)")
      (simp_all add: raft_tick_def Let_def)
next
  case Follower
  then show ?thesis using wait elect
    by (cases "election_timeout_ms (rn_config n) \<le> elapsed_since_last_event_ms n + of_nat (d div 1000000)")
      (simp_all add: raft_tick_def Let_def)
next
  case Candidate
  then show ?thesis using wait elect
    by (cases "election_timeout_ms (rn_config n) \<le> elapsed_since_last_event_ms n + of_nat (d div 1000000)")
      (simp_all add: raft_tick_def Let_def)
qed

lemma raft_exec_frame [frame_simps]:
  "rn_id (raft_exec n e) = rn_id n" "rn_config (raft_exec n e) = rn_config n"
proof -
  have "rn_id (raft_exec n e) = rn_id n \<and> rn_config (raft_exec n e) = rn_config n"
  proof (cases e)
    case (Elapse d ps)
    then show ?thesis by (cases rule: raft_tick_cases[of d ps n]) auto
  next
    case (Receive m)
    then show ?thesis by (cases m) (auto simp: Let_def)
  qed (simp add: try_promote_def)
  then show "rn_id (raft_exec n e) = rn_id n" "rn_config (raft_exec n e) = rn_config n" by auto
qed

section \<open>Log and commit index\<close>

definition commit_ok :: "raft_node \<Rightarrow> bool" where
  "commit_ok n \<longleftrightarrow> unat (commit_index n) \<le> length (rlog n)"

definition log_grows :: "raft_node \<Rightarrow> raft_node \<Rightarrow> bool" where
  "log_grows n n' \<longleftrightarrow> prefix (rlog n) (rlog n') \<and>
     (length (rlog n') < 2 ^ 64 \<longrightarrow> commit_index n \<le> commit_index n')"

lemma unat_log_len: "unat (log_len n) \<le> length (rlog n)"
  by (simp add: log_len_def unat_of_nat)

lemma log_unchanged:
  assumes "\<And>t l pi pt es lc. e \<noteq> Receive (AppendEntries t l pi pt es lc)"
  shows "rlog (raft_exec n e) = rlog n" "commit_index (raft_exec n e) = commit_index n"
proof -
  have "rlog (raft_exec n e) = rlog n \<and> commit_index (raft_exec n e) = commit_index n"
  proof (cases e)
    case (Elapse d ps)
    then show ?thesis by (cases rule: raft_tick_cases[of d ps n]) auto
  next
    case (Receive m)
    then show ?thesis using assms by (cases m) (auto simp: Let_def)
  qed (simp add: try_promote_def)
  then show "rlog (raft_exec n e) = rlog n" "commit_index (raft_exec n e) = commit_index n" by auto
qed

lemma log_step:
  assumes "commit_ok n"
  shows "commit_ok (raft_exec n e)" and "log_grows n (raft_exec n e)"
proof -
  have "commit_ok (raft_exec n e) \<and> log_grows n (raft_exec n e)"
  proof (cases "\<exists>t l pi pt es lc. e = Receive (AppendEntries t l pi pt es lc)")
    case True
    then obtain t l pi pt es lc where e: "e = Receive (AppendEntries t l pi pt es lc)" by blast
    let ?len = "of_nat (length (rlog n @ es)) :: u64"
    have len: "unat ?len \<le> length (rlog n @ es)" unfolding unat_of_nat by (rule mod_less_eq_dividend)
    have mono: "commit_index n \<le> ?len" if "length (rlog n @ es) < 2 ^ 64"
    proof -
      have "unat ?len = length (rlog n @ es)" unfolding unat_of_nat using that by (simp add: mod_less)
      then show ?thesis using assms by (simp add: commit_ok_def word_le_nat_alt)
    qed
    let ?ci = "if commit_index n < lc then min lc ?len else commit_index n"
    have commit: "commit_index (raft_exec n e) = (if current_term n \<le> t then ?ci else commit_index n)"
      and "rlog (raft_exec n e) = (if current_term n \<le> t then rlog n @ es else rlog n)"
      by (simp_all add: e Let_def log_len_def del: length_append of_nat_add)
    moreover have "unat ?ci \<le> length (rlog n @ es)"
      using assms len by (auto simp: commit_ok_def min_def word_le_nat_alt simp del: of_nat_add)
    moreover have "commit_index n \<le> ?ci" if "length (rlog n @ es) < 2 ^ 64"
      using mono[OF that] by (auto simp del: of_nat_add length_append)
    ultimately show ?thesis using assms by (simp add: commit_ok_def log_grows_def)
  next
    case False
    then show ?thesis using assms by (simp add: commit_ok_def log_grows_def log_unchanged)
  qed
  then show "commit_ok (raft_exec n e)" "log_grows n (raft_exec n e)" by auto
qed

interpretation raft: op_progress raft_exec commit_ok log_grows
proof
  show "log_grows s u" if "log_grows s t" "log_grows t u" for s t u
    using that prefix_length_le[of "rlog t" "rlog u"] by (auto simp: log_grows_def)
qed (auto simp: log_step, simp add: log_grows_def)

text \<open>
  Whatever ticks, messages and promotions a node built by \<open>new\<close> goes through, its commit index never
  passes the end of its log; and from any moment of a run to any later one the log is only
  extended and the commit index never moves back (for logs a \<open>u64\<close> can index).
\<close>

theorem raft_log_commit_safe:
  "unat (commit_index (foldl raft_exec (raft_new i c) (es @ fs))) \<le> length (rlog (foldl raft_exec (raft_new i c) (es @ fs))) \<and>
   log_grows (foldl raft_exec (raft_new i c) es) (foldl raft_exec (raft_new i c) (es @ fs))"
proof -
  have "commit_ok (raft_new i c)" by (simp add: commit_ok_def raft_new_def)
  then show ?thesis using raft.run_inv raft.run_le unfolding commit_ok_def[symmetric] by simp
qed

section \<open>Votes\<close>

text \<open>The vote an event makes the node cast: its term and the candidate it goes to.\<close>

fun raft_vote :: "raft_node \<Rightarrow> raft_event \<Rightarrow> (u64 \<times> node_id) option" where
  "raft_vote n (Elapse d ps) =
    (case snd (raft_tick d ps n) of Some (RequestVote t c _ _) \<Rightarrow> Some (t, c) | _ \<Rightarrow> None)"
| "raft_vote n (Receive (RequestVote t c i l)) =
    (case snd (handle_message n (RequestVote t c i l)) of
       Some (VoteGranted t' _ True) \<Rightarrow> Some (t', c) | _ \<Rightarrow> None)"
| "raft_vote n (Receive _) = None"
| "raft_vote n (Promote _) = None"

fun raft_votes :: "raft_node \<Rightarrow> raft_event list \<Rightarrow> (u64 \<times> node_id) list" where
  "raft_votes n [] = []"
| "raft_votes n (e # es) =
    (case raft_vote n e of None \<Rightarrow> [] | Some v \<Rightarrow> [v]) @ raft_votes (raft_exec n e) es"

text \<open>Events that carry no replication message and whose terms are far from the end of \<open>u64\<close>.\<close>

fun election_event :: "raft_event \<Rightarrow> bool" where
  "election_event (Receive (RequestVote t _ _ _)) \<longleftrightarrow> unat t < 2 ^ 63"
| "election_event (Receive (AppendEntries _ _ _ _ _ _)) \<longleftrightarrow> False"
| "election_event _ \<longleftrightarrow> True"

definition one_vote_per_term :: "(u64 \<times> node_id) list \<Rightarrow> bool" where
  "one_vote_per_term vs \<longleftrightarrow> (\<forall>t c c'. (t, c) \<in> set vs \<longrightarrow> (t, c') \<in> set vs \<longrightarrow> c = c')"

definition votes_ok :: "raft_node \<Rightarrow> (u64 \<times> node_id) list \<Rightarrow> bool" where
  "votes_ok n vs \<longleftrightarrow> one_vote_per_term vs \<and>
     (\<forall>t c. (t, c) \<in> set vs \<longrightarrow> t \<le> current_term n \<and> (t = current_term n \<longrightarrow> voted_for n = Some c))"

lemma votes_ok_keep:
  "votes_ok n vs \<Longrightarrow> current_term n' = current_term n \<Longrightarrow> voted_for n' = voted_for n \<Longrightarrow> votes_ok n' vs"
  by (simp add: votes_ok_def)

lemma votes_ok_newer:
  assumes "votes_ok n vs" "current_term n < t" "current_term n' = t" "voted_for n' = Some c"
  shows "votes_ok n' (vs @ [(t, c)])"
proof -
  have "t' < t" if "(t', c') \<in> set vs" for t' c'
    using assms(1,2) that unfolding votes_ok_def by (meson le_less_trans)
  then have "(t, c') \<notin> set vs" and "(t', c') \<in> set vs \<Longrightarrow> t' \<le> t" for t' c'
    by (auto simp: less_imp_le)
  then show ?thesis using assms(1,3,4) unfolding votes_ok_def one_vote_per_term_def by auto
qed

lemma votes_ok_same:
  assumes "votes_ok n vs" "voted_for n = None \<or> voted_for n = Some c"
    "current_term n' = current_term n" "voted_for n' = Some c"
  shows "votes_ok n' (vs @ [(current_term n, c)])"
proof -
  have "c' = c" if "(current_term n, c') \<in> set vs" for c'
    using assms(1,2) that unfolding votes_ok_def by (metis option.inject option.distinct(1))
  then show ?thesis using assms(1,3,4) unfolding votes_ok_def one_vote_per_term_def by auto
qed

lemma election_tick:
  assumes "role n \<noteq> Leader" "election_timeout_ms (rn_config n) \<le> elapsed_since_last_event_ms n + of_nat (d div 1000000)"
  shows "raft_vote n (Elapse d ps) = Some (current_term n + 1, rn_id n)"
    "current_term (raft_exec n (Elapse d ps)) = current_term n + 1"
    "voted_for (raft_exec n (Elapse d ps)) = Some (rn_id n)"
proof -
  have *: "snd (raft_tick d ps n) = Some (RequestVote (current_term n + 1) (rn_id n) (log_len n) (last_term n)) \<and>
     current_term (fst (raft_tick d ps n)) = current_term n + 1 \<and> voted_for (fst (raft_tick d ps n)) = Some (rn_id n)"
  proof (cases "role n")
    case Follower
    show ?thesis using assms(2) by (simp add: raft_tick_def Let_def Follower log_len_def last_term_def)
  next
    case Candidate
    show ?thesis using assms(2) by (simp add: raft_tick_def Let_def Candidate log_len_def last_term_def)
  qed (use assms in simp)
  then show "raft_vote n (Elapse d ps) = Some (current_term n + 1, rn_id n)"
    "current_term (raft_exec n (Elapse d ps)) = current_term n + 1"
    "voted_for (raft_exec n (Elapse d ps)) = Some (rn_id n)" by simp_all
qed

lemma quiet_tick:
  assumes "role n = Leader \<or> \<not> election_timeout_ms (rn_config n) \<le> elapsed_since_last_event_ms n + of_nat (d div 1000000)"
  shows "raft_vote n (Elapse d ps) = None"
    "current_term (raft_exec n (Elapse d ps)) = current_term n"
    "voted_for (raft_exec n (Elapse d ps)) = voted_for n"
proof -
  have "raft_vote n (Elapse d ps) = None \<and> current_term (fst (raft_tick d ps n)) = current_term n \<and>
     voted_for (fst (raft_tick d ps n)) = voted_for n"
  proof (cases "role n")
    case Leader
    show ?thesis by (simp add: raft_tick_def Let_def Leader)
  next
    case Follower
    show ?thesis using assms by (simp add: raft_tick_def Let_def Follower)
  next
    case Candidate
    show ?thesis using assms by (simp add: raft_tick_def Let_def Candidate)
  qed
  then show "raft_vote n (Elapse d ps) = None"
    "current_term (raft_exec n (Elapse d ps)) = current_term n"
    "voted_for (raft_exec n (Elapse d ps)) = voted_for n" by simp_all
qed

lemma votes_ok_step:
  assumes "votes_ok n vs" "election_event e" "unat (current_term n) + 1 < 2 ^ 64"
  shows "votes_ok (raft_exec n e) (vs @ (case raft_vote n e of None \<Rightarrow> [] | Some v \<Rightarrow> [v]))"
proof (cases e)
  case (Elapse d ps)
  have less: "current_term n < current_term n + 1"
    using assms(3) by (simp add: word_less_nat_alt unat_word_ariths mod_less)
  consider "role n \<noteq> Leader" "election_timeout_ms (rn_config n) \<le> elapsed_since_last_event_ms n + of_nat (d div 1000000)"
    | "role n = Leader \<or> \<not> election_timeout_ms (rn_config n) \<le> elapsed_since_last_event_ms n + of_nat (d div 1000000)"
    by blast
  then show ?thesis
  proof cases
    case 1
    then show ?thesis using votes_ok_newer[OF assms(1) less] election_tick[OF 1, of ps] by (simp add: Elapse)
  next
    case 2
    then show ?thesis using votes_ok_keep[OF assms(1)] quiet_tick[OF 2, of ps] by (simp add: Elapse)
  qed
next
  case (Receive m)
  show ?thesis
  proof (cases m)
    case (RequestVote t c i l)
    let ?e = "Receive (RequestVote t c i l)"
    have e: "e = ?e" by (simp add: Receive RequestVote)
    consider "current_term n < t" | "t = current_term n" "voted_for n = None \<or> voted_for n = Some c"
      | "t < current_term n \<or> t = current_term n \<and> voted_for n \<noteq> None \<and> voted_for n \<noteq> Some c" by fastforce
    then show ?thesis
    proof cases
      case 1
      then have "raft_vote n ?e = Some (t, c)" "current_term (raft_exec n ?e) = t" "voted_for (raft_exec n ?e) = Some c"
        by (simp_all add: Let_def)
      then show ?thesis using votes_ok_newer[OF assms(1) 1] by (simp add: e del: raft_exec.simps raft_vote.simps)
    next
      case 2
      then have "raft_vote n ?e = Some (current_term n, c)" "current_term (raft_exec n ?e) = current_term n"
        "voted_for (raft_exec n ?e) = Some c"
        by (auto simp: Let_def)
      then show ?thesis using votes_ok_same[OF assms(1) 2(2)] by (simp add: e del: raft_exec.simps raft_vote.simps)
    next
      case 3
      then have "raft_vote n ?e = None" "raft_exec n ?e = n" by (auto simp: Let_def)
      then show ?thesis using assms(1) by (simp add: e del: raft_exec.simps raft_vote.simps)
    qed
  qed (use assms in \<open>simp_all add: Receive votes_ok_def\<close>)
next
  case (Promote k)
  then show ?thesis using assms(1) by (auto simp: try_promote_def votes_ok_def)
qed

lemma term_step:
  assumes "election_event e" "unat (current_term n) < 2 ^ 63 + k" "k < 2 ^ 63"
  shows "unat (current_term (raft_exec n e)) < 2 ^ 63 + Suc k"
proof (cases e)
  case (Elapse d ps)
  have "unat (current_term n + 1) \<le> unat (current_term n) + 1"
    by (simp add: unat_word_ariths)
  then show ?thesis using assms by (cases rule: raft_tick_cases[of d ps n]) (simp_all add: Elapse)
next
  case (Receive m)
  then show ?thesis using assms by (cases m) (auto simp: Let_def)
qed (use assms in \<open>simp add: try_promote_def\<close>)

lemma raft_votes_ok:
  assumes "\<forall>e\<in>set es. election_event e" "votes_ok n vs" "unat (current_term n) < 2 ^ 63 + k" "k + length es < 2 ^ 63"
  shows "one_vote_per_term (vs @ raft_votes n es)"
  using assms
proof (induction es arbitrary: n vs k)
  case Nil
  then show ?case by (simp add: votes_ok_def)
next
  case (Cons e es)
  let ?vs = "vs @ (case raft_vote n e of None \<Rightarrow> [] | Some v \<Rightarrow> [v])"
  have "unat (current_term n) + 1 < 2 ^ 64" using Cons.prems by simp
  then have "votes_ok (raft_exec n e) ?vs" using Cons.prems by (intro votes_ok_step) auto
  moreover have "unat (current_term (raft_exec n e)) < 2 ^ 63 + Suc k" using Cons.prems by (intro term_step) auto
  ultimately have "one_vote_per_term (?vs @ raft_votes (raft_exec n e) es)"
    using Cons.prems by (intro Cons.IH[where k = "Suc k"]) auto
  then show ?case by simp
qed

text \<open>
  C35. As long as a node sees no \<open>AppendEntries\<close>, it never votes for two candidates in one term, counting the
  vote it gives itself when its election timer fires: over every run of ticks, vote requests, vote
  replies and promotions (fewer than \<open>2^63\<close> of them, with request terms below \<open>2^63\<close>, so that the
  term counter cannot wrap) the votes it casts in one term all name the same candidate.
\<close>

theorem raft_votes_once_per_term:
  assumes "\<forall>e\<in>set es. election_event e" "length es < 2 ^ 63"
  shows "one_vote_per_term (raft_votes (raft_new i c) es)"
  using raft_votes_ok[of es "raft_new i c" "[]" 0] assms
  by (simp add: votes_ok_def one_vote_per_term_def raft_new_def)

theorem raft_votes_once_per_term_witness:
  "one_vote_per_term (raft_votes (raft_new 7 raft_config_default)
     [Elapse 400000000 [], Receive (RequestVote 1 8 0 0), Receive (RequestVote 2 8 0 0), Receive (RequestVote 2 9 0 0)]) \<and>
   raft_votes (raft_new 7 raft_config_default)
     [Elapse 400000000 [], Receive (RequestVote 1 8 0 0), Receive (RequestVote 2 8 0 0), Receive (RequestVote 2 9 0 0)] =
     [(1, 7), (2, 8)]"
proof -
  have "raft_votes (raft_new 7 raft_config_default)
     [Elapse 400000000 [], Receive (RequestVote 1 8 0 0), Receive (RequestVote 2 8 0 0), Receive (RequestVote 2 9 0 0)] =
     [(1, 7), (2, 8)]"
    by (simp add: raft_new_def raft_tick_def Let_def)
  moreover have "one_vote_per_term (raft_votes (raft_new 7 raft_config_default)
     [Elapse 400000000 [], Receive (RequestVote 1 8 0 0), Receive (RequestVote 2 8 0 0), Receive (RequestVote 2 9 0 0)])"
    by (rule raft_votes_once_per_term) simp_all
  ultimately show ?thesis by blast
qed

section \<open>Promotion\<close>

text \<open>The replies of term \<open>t\<close> among the delivered messages that grant the vote.\<close>

fun grants :: "u64 \<Rightarrow> raft_event \<Rightarrow> bool" where
  "grants t (Receive (VoteGranted t' _ g)) \<longleftrightarrow> t' = t \<and> g"
| "grants t _ \<longleftrightarrow> False"

fun between_timeouts :: "nat \<Rightarrow> raft_event \<Rightarrow> bool" where
  "between_timeouts k (Receive _) \<longleftrightarrow> True"
| "between_timeouts k (Promote k') \<longleftrightarrow> k' = k"
| "between_timeouts k (Elapse _ _) \<longleftrightarrow> False"

definition tally_ok :: "nat \<Rightarrow> u64 \<Rightarrow> nat \<Rightarrow> raft_node \<Rightarrow> bool" where
  "tally_ok k t g n \<longleftrightarrow> role n = Follower \<or>
     current_term n = t \<and> unat (votes_received n) \<le> 1 + g \<and> (role n = Leader \<longrightarrow> unat (quorum k) \<le> 1 + g)"

lemma tally_step:
  assumes "tally_ok k t g n" "between_timeouts k e"
  shows "tally_ok k t (g + (if grants t e then 1 else 0)) (raft_exec n e)"
proof (cases e)
  case (Receive m)
  have step: "unat (votes_received n + 1) \<le> unat (votes_received n) + 1" by (simp add: unat_word_ariths)
  show ?thesis
  proof (cases m)
    case (RequestVote t' c i l)
    then show ?thesis using assms(1) by (auto simp: Receive tally_ok_def Let_def)
  next
    case (VoteGranted t' v gr)
    then show ?thesis using assms(1) step by (auto simp: Receive tally_ok_def)
  next
    case (AppendEntries t' l pi pt es lc)
    then show ?thesis using assms(1) by (auto simp: Receive tally_ok_def Let_def)
  next
    case AppendEntriesAck
    then show ?thesis using assms(1) by (simp add: Receive tally_ok_def)
  qed
next
  case (Promote k')
  then show ?thesis using assms by (auto simp: try_promote_def tally_ok_def word_le_nat_alt)
qed (use assms(2) in simp)

lemma tally_run:
  assumes "tally_ok k t g n" "\<forall>e\<in>set es. between_timeouts k e"
  shows "tally_ok k t (g + length (filter (grants t) es)) (foldl raft_exec n es)"
  using assms
proof (induction es arbitrary: n g)
  case (Cons e es)
  have "tally_ok k t (g + (if grants t e then 1 else 0)) (raft_exec n e)" using Cons.prems by (intro tally_step) auto
  from Cons.IH[OF this] show ?case using Cons.prems(2) by (cases "grants t e") simp_all
qed simp

lemma half_le: "k div 2 \<le> g \<Longrightarrow> k < 2 * (1 + g)" for k g :: nat
  by presburger

text \<open>
  A candidate that has only its own vote becomes leader before its next clock tick only in the term it
  stands in, and only after replies granting that term's vote which, with its own vote, make a
  strict majority of the cluster size the orchestrator passes to \<open>try_promote\<close>, whatever other
  messages and promotion attempts come in between.
\<close>

theorem raft_leader_has_majority:
  assumes "role n = Candidate" "votes_received n = 1" "\<forall>e\<in>set es. between_timeouts k e" "k < 2 ^ 32"
    and "role (foldl raft_exec n es) = Leader"
  shows "current_term (foldl raft_exec n es) = current_term n \<and>
    k < 2 * (1 + length (filter (grants (current_term n)) es))"
proof -
  have "tally_ok k (current_term n) 0 n" using assms by (simp add: tally_ok_def)
  from tally_run[OF this assms(3)] have t: "current_term (foldl raft_exec n es) = current_term n"
    and g: "k div 2 \<le> length (filter (grants (current_term n)) es)"
    using assms(4,5) by (simp_all add: tally_ok_def quorum_def unat_word_ariths unat_of_nat mod_less del: of_nat_add)
  from t half_le[OF g] show ?thesis by blast
qed

theorem raft_leader_has_majority_witness:
  "let n = raft_new 7 raft_config_default\<lparr>role := Candidate, votes_received := 1, current_term := 1\<rparr>;
       es = [Receive (VoteGranted 1 8 False), Promote 3, Receive (VoteGranted 1 9 True), Promote 3]
   in role (foldl raft_exec n es) = Leader \<and> current_term (foldl raft_exec n es) = 1 \<and>
      3 < 2 * (1 + length (filter (grants 1) es))"
proof -
  let ?n = "raft_new 7 raft_config_default\<lparr>role := Candidate, votes_received := 1, current_term := 1\<rparr>"
  let ?es = "[Receive (VoteGranted 1 8 False), Promote 3, Receive (VoteGranted 1 9 True), Promote 3]"
  have l: "role (foldl raft_exec ?n ?es) = Leader" by (simp add: raft_new_def try_promote_def quorum_def)
  have "current_term (foldl raft_exec ?n ?es) = current_term ?n \<and>
    3 < 2 * (1 + length (filter (grants (current_term ?n)) ?es))"
    by (rule raft_leader_has_majority[OF _ _ _ _ l]) simp_all
  then show ?thesis using l by simp
qed

section \<open>What the handlers do not prevent\<close>

text \<open>
  Two leaders of one term, in a cluster of three nodes, with every message produced by the handlers
  and delivered once: node 0 stands, node 2 grants, node 0 leads and sends its heartbeat to node 2; the
  handler of \<open>AppendEntries\<close> then forgets node 2's vote of the same term, so that node 1, which the
  heartbeat has not reached, gets node 2's vote as well.
\<close>

theorem two_leaders_in_one_term:
  "\<exists>request0 grant0 heartbeat0 request1 grant1.
     let peers = [default_at_origin 0, default_at_origin 1, default_at_origin 2];
         new = (\<lambda>i. raft_new i raft_config_default);
         (a1, m1) = raft_tick 300000000 peers (new 0);
         (c1, m2) = handle_message (new 2) request0;
         a2 = try_promote 3 (fst (handle_message a1 grant0));
         (a3, m3) = raft_tick 100000000 peers a2;
         c2 = fst (handle_message c1 heartbeat0);
         (b1, m4) = raft_tick 300000000 peers (new 1);
         (c3, m5) = handle_message c2 request1;
         b2 = try_promote 3 (fst (handle_message b1 grant1))
     in m1 = Some request0 \<and> m2 = Some grant0 \<and> m3 = Some heartbeat0 \<and> m4 = Some request1 \<and> m5 = Some grant1 \<and>
        role a3 = Leader \<and> role b2 = Leader \<and> current_term a3 = 1 \<and> current_term b2 = 1"
  by (rule exI[of _ "RequestVote 1 0 0 0"], rule exI[of _ "VoteGranted 1 2 True"],
      rule exI[of _ "AppendEntries 1 0 0 0 [] 0"], rule exI[of _ "RequestVote 1 1 0 0"],
      rule exI[of _ "VoteGranted 1 2 True"])
    (simp add: Let_def raft_new_def raft_tick_def quorum_def try_promote_def log_len_def last_term_def)

text \<open>One other node's reply, delivered twice, makes a leader of a cluster of five.\<close>

theorem duplicate_reply_counts_twice:
  "role (foldl raft_exec (raft_new 0 raft_config_default)
     [Elapse 300000000 (map default_at_origin [0, 1, 2, 3, 4]),
      Receive (VoteGranted 1 1 True), Receive (VoteGranted 1 1 True), Promote 5]) = Leader"
  by (simp add: raft_new_def raft_tick_def Let_def quorum_def try_promote_def)

end
