(* ===== verification/Gossip.thy ===== *)
theory Gossip
  imports Types
begin

text \<open>
  The gossip state of \<open>src/topology/gossip.rs\<close>: versioned values, their last-write-wins merge and the
  choice of the peers a value is spread to. The payload is a type variable; the shuffle of the \<open>rand\<close>
  crate is a parameter.
\<close>

record 'a gossip_state =
  gs_value :: 'a
  version :: u64
  origin :: node_id
  gs_timestamp_ms :: u64

definition gossip_new :: "'a \<Rightarrow> node_id \<Rightarrow> u64 \<Rightarrow> 'a gossip_state" where
  "gossip_new v i t = \<lparr>gs_value = v, version = 1, origin = i, gs_timestamp_ms = t\<rparr>"

definition merge :: "'a gossip_state \<Rightarrow> 'a gossip_state \<Rightarrow> 'a gossip_state" where
  "merge a b =
    (if version b < version a then a
     else if version a < version b then b
     else if origin b \<le> origin a then a
     else b)"

definition bump :: "'a gossip_state \<Rightarrow> 'a gossip_state" where
  "bump s = s\<lparr>version := version s + 1\<rparr>"

definition spread ::
  "(node_id list \<Rightarrow> 'g \<Rightarrow> node_id list \<times> 'g) \<Rightarrow> 'a gossip_state \<Rightarrow> nat \<Rightarrow> node_id list \<Rightarrow> node_id \<Rightarrow> 'g \<Rightarrow> node_id list \<times> 'g" where
  "spread shuffle s fanout all_peers local_id rng =
    (let candidates = filter (\<lambda>n. n \<noteq> local_id \<and> n \<noteq> origin s) all_peers;
         (shuffled, rng') = shuffle candidates rng
     in (take fanout shuffled, rng'))"

text \<open>What the source relies on in \<open>SliceRandom::shuffle\<close>: it permutes the slice.\<close>

definition shuffles :: "(node_id list \<Rightarrow> 'g \<Rightarrow> node_id list \<times> 'g) \<Rightarrow> bool" where
  "shuffles shuffle \<longleftrightarrow> (\<forall>xs g. mset (fst (shuffle xs g)) = mset xs)"

section \<open>Merging by rank\<close>

text \<open>
  The contract of a last-write-wins merge: the result is one of the arguments, and no argument ranks
  above it. A replica that folds updates into its state then ends at an update of the highest rank,
  whatever the order and however often they arrive.
\<close>

locale ranked_merge =
  fixes mrg :: "'s \<Rightarrow> 's \<Rightarrow> 's"
    and rank :: "'s \<Rightarrow> 'r::linorder"
  assumes mrg_cases: "mrg a b = a \<or> mrg a b = b"
    and mrg_left: "rank a \<le> rank (mrg a b)"
    and mrg_right: "rank b \<le> rank (mrg a b)"
begin

lemma fold_mem: "foldl mrg a xs \<in> insert a (set xs)"
proof (induction xs arbitrary: a)
  case (Cons x xs)
  show ?case using Cons[of "mrg a x"] mrg_cases[of a x] by auto
qed simp

lemma fold_start: "rank a \<le> rank (foldl mrg a xs)"
  by (induction xs arbitrary: a) (auto intro: order_trans mrg_left)

lemma fold_top: "b \<in> insert a (set xs) \<Longrightarrow> rank b \<le> rank (foldl mrg a xs)"
proof (induction xs arbitrary: a)
  case (Cons x xs)
  have "rank a \<le> rank (foldl mrg (mrg a x) xs)" "rank x \<le> rank (foldl mrg (mrg a x) xs)"
    using fold_start[of "mrg a x" xs] mrg_left[of a x] mrg_right[of x a] by (auto intro: order_trans)
  then show ?case using Cons.IH[of "mrg a x"] Cons.prems by auto
qed simp

lemma fold_converges:
  assumes same: "insert a (set xs) = insert b (set ys)" and inj: "inj_on rank (insert a (set xs))"
  shows "foldl mrg a xs = foldl mrg b ys"
proof (rule inj_onD[OF inj])
  show mem: "foldl mrg a xs \<in> insert a (set xs)" "foldl mrg b ys \<in> insert a (set xs)"
    using fold_mem[of a xs] fold_mem[of b ys] same by auto
  show "rank (foldl mrg a xs) = rank (foldl mrg b ys)"
    using mem same by (intro antisym fold_top) auto
qed

end

definition rank_of :: "'a gossip_state \<Rightarrow> nat" where
  "rank_of s = unat (version s) * 2 ^ 32 + unat (origin s)"

lemma rank_of_le:
  "rank_of a \<le> rank_of b \<longleftrightarrow> version a < version b \<or> version a = version b \<and> origin a \<le> origin b"
proof -
  have o: "unat (origin a) < 2 ^ 32" "unat (origin b) < 2 ^ 32"
    using unat_bound[of "origin a"] unat_bound[of "origin b"] by simp_all
  consider "unat (version a) < unat (version b)" | "unat (version a) = unat (version b)"
    | "unat (version b) < unat (version a)" by linarith
  then show ?thesis
    using o unfolding rank_of_def by cases (auto simp: word_less_nat_alt word_le_nat_alt word_unat_eq_iff dest: less_imp_Suc_add)
qed

interpretation gossip: ranked_merge merge rank_of
  by unfold_locales (auto simp: merge_def rank_of_le)

text \<open>
  C36. Two replicas that have merged the same gossip updates hold the same state, whatever the order in
  which the updates reached them and however often each was repeated, provided version and origin
  identify an update: gossip converges.
\<close>

theorem gossip_converges:
  assumes "insert a (set xs) = insert b (set ys)"
    and "\<forall>s \<in> insert a (set xs). \<forall>t \<in> insert a (set xs). version s = version t \<and> origin s = origin t \<longrightarrow> s = t"
  shows "foldl merge a xs = foldl merge b ys"
proof (rule gossip.fold_converges[OF assms(1)], rule inj_onI)
  fix s t
  assume st: "s \<in> insert a (set xs)" "t \<in> insert a (set xs)" "rank_of s = rank_of t"
  have "version s = version t \<and> origin s = origin t"
    using st(3) rank_of_le[of s t] rank_of_le[of t s] by auto
  then show "s = t" using st assms(2) by blast
qed

theorem gossip_converges_witness:
  "let u = gossip_new ''a'' 1 10; v = gossip_new ''b'' 2 11; w = bump (gossip_new ''c'' 1 12)
   in foldl merge u [v, w, v] = foldl merge w [u, w, v, u] \<and> foldl merge u [v, w, v] = w"
proof -
  let ?u = "gossip_new ''a'' 1 10" and ?v = "gossip_new ''b'' 2 11" and ?w = "bump (gossip_new ''c'' 1 12)"
  have "foldl merge ?u [?v, ?w, ?v] = foldl merge ?w [?u, ?w, ?v, ?u]"
    by (rule gossip_converges) (auto simp: gossip_new_def bump_def)
  moreover have "foldl merge ?u [?v, ?w, ?v] = ?w" by (simp add: merge_def gossip_new_def bump_def)
  ultimately show ?thesis unfolding Let_def by blast
qed

lemma merge_newest:
  "version (merge a b) = max (version a) (version b)"
  by (auto simp: merge_def max_def)

lemma bump_wins: "version s \<noteq> - 1 \<Longrightarrow> merge s (bump s) = bump s \<and> merge (bump s) s = bump s"
proof -
  assume "version s \<noteq> - 1"
  then have "1 + version s \<noteq> 0" by (metis add_eq_0_iff)
  then have "version s < version s + 1" by (simp add: word_less_nat_alt unatSuc add.commute)
  then show ?thesis by (auto simp: merge_def bump_def)
qed

text \<open>
  A state is spread to at most \<open>fanout\<close> of the known peers, and exactly that many when there are enough,
  never to the local node and never back to the node the state comes from, and no peer is chosen more often than it
  is listed.
\<close>

theorem spread_targets:
  assumes "shuffles shuffle"
  shows "mset (fst (spread shuffle s fanout peers me rng)) \<subseteq># mset (filter (\<lambda>n. n \<noteq> me \<and> n \<noteq> origin s) peers) \<and>
    length (fst (spread shuffle s fanout peers me rng)) = min fanout (length (filter (\<lambda>n. n \<noteq> me \<and> n \<noteq> origin s) peers))"
proof -
  let ?c = "filter (\<lambda>n. n \<noteq> me \<and> n \<noteq> origin s) peers"
  have m: "mset (fst (shuffle ?c rng)) = mset ?c" using assms by (auto simp: shuffles_def)
  have "mset (take fanout (fst (shuffle ?c rng))) \<subseteq># mset ?c"
    unfolding m[symmetric] by (rule mset_take_subset)
  moreover have "length (fst (shuffle ?c rng)) = length ?c" using arg_cong[OF m, of size] by (simp only: size_mset)
  moreover have "fst (spread shuffle s fanout peers me rng) = take fanout (fst (shuffle ?c rng))"
    by (simp add: spread_def case_prod_beta Let_def)
  ultimately show ?thesis by simp
qed

lemma mset_rotate: "mset (rotate k xs) = mset xs" for xs :: "'a list"
proof (induction k)
  case (Suc k)
  have "mset (rotate1 ys) = mset ys" for ys :: "'a list" by (cases ys) auto
  with Suc show ?case by (simp add: rotate_def)
qed simp

theorem spread_targets_witness:
  "let rotate_rng = (\<lambda>(xs :: node_id list) (g :: nat). (rotate g xs, g + 1));
       s = gossip_new ''map'' 3 0
   in mset (fst (spread rotate_rng s 2 [1, 2, 3, 4, 5] 1 1)) \<subseteq># mset (filter (\<lambda>n. n \<noteq> 1 \<and> n \<noteq> origin s) [1, 2, 3, 4, 5]) \<and>
      fst (spread rotate_rng s 2 [1, 2, 3, 4, 5] 1 1) = [4, 5]"
proof -
  let ?rotate = "\<lambda>(xs :: node_id list) (g :: nat). (rotate g xs, g + 1)"
  have "shuffles ?rotate" by (simp add: shuffles_def mset_rotate)
  from spread_targets[OF this, of "gossip_new ''map'' 3 0" 2 "[1, 2, 3, 4, 5]" 1 1]
  show ?thesis by (simp add: spread_def gossip_new_def Let_def rotate1_def)
qed

end
