(* ===== verification/Mesh.thy ===== *)
theory Mesh
  imports Types
begin

text \<open>
  The live view of the swarm of \<open>src/topology/mesh.rs\<close>. The \<open>HashMap\<close> of nodes is the association list
  of its entries in iteration order: the source iterates in an order it does not choose, so the
  lemmas hold for every such list with distinct keys.
\<close>

record mesh_topology =
  nodes :: "(node_id \<times> drone_state) list"
  cluster_head :: "node_id option"

definition mesh_new :: mesh_topology where
  "mesh_new = \<lparr>nodes = [], cluster_head = None\<rparr>"

definition update_node :: "drone_state \<Rightarrow> mesh_topology \<Rightarrow> mesh_topology" where
  "update_node st m = m\<lparr>nodes := AList.update (ds_id st) st (nodes m)\<rparr>"

definition remove_node :: "node_id \<Rightarrow> mesh_topology \<Rightarrow> mesh_topology" where
  "remove_node i m =
    (let m1 = m\<lparr>nodes := AList.delete i (nodes m)\<rparr>
     in if cluster_head m1 = Some i then m1\<lparr>cluster_head := None\<rparr> else m1)"

definition active_nodes :: "mesh_topology \<Rightarrow> drone_state list" where
  "active_nodes m = sort_key ds_id (map snd (nodes m))"

definition by_distance :: "f64 \<times> node_id \<Rightarrow> f64 \<times> node_id \<Rightarrow> ordering" where
  "by_distance a b = partial_cmp_or_equal (fst a) (fst b)"

definition nearest_k :: "mesh_topology \<Rightarrow> node_id \<Rightarrow> nat \<Rightarrow> node_id list" where
  "nearest_k m from_id k =
    (case map_of (nodes m) from_id of
       Some st \<Rightarrow>
         let distances = map (\<lambda>(i, s). (distance_to (ds_position st) (ds_position s), i))
               (filter (\<lambda>(i, _). i \<noteq> from_id) (nodes m))
         in map snd (take k (sort_by by_distance distances))
     | None \<Rightarrow> [])"

section \<open>The view is consistent\<close>

datatype mesh_event = Update drone_state | Remove node_id | Elect node_id

text \<open>The orchestrator sets \<open>cluster_head\<close> itself; \<open>Elect\<close> stands for such an assignment to a listed node.\<close>

fun mesh_exec :: "mesh_topology \<Rightarrow> mesh_event \<Rightarrow> mesh_topology" where
  "mesh_exec m (Update st) = update_node st m"
| "mesh_exec m (Remove i) = remove_node i m"
| "mesh_exec m (Elect i) = (if map_of (nodes m) i \<noteq> None then m\<lparr>cluster_head := Some i\<rparr> else m)"

definition mesh_ok :: "mesh_topology \<Rightarrow> bool" where
  "mesh_ok m \<longleftrightarrow> distinct (map fst (nodes m)) \<and> (\<forall>(i, st) \<in> set (nodes m). ds_id st = i) \<and>
     (\<forall>i. cluster_head m = Some i \<longrightarrow> i \<in> fst ` set (nodes m))"

lemma mesh_ok_new: "mesh_ok mesh_new"
  by (simp add: mesh_ok_def mesh_new_def)

lemma mesh_ok_step: "mesh_ok m \<Longrightarrow> mesh_ok (mesh_exec m e)"
proof (cases e)
  case (Update st)
  assume ok: "mesh_ok m"
  let ?n = "AList.update (ds_id st) st (nodes m)"
  have d: "distinct (map fst (nodes m))" using ok by (simp add: mesh_ok_def)
  then have "distinct (map fst ?n)" by (rule distinct_update)
  moreover have "\<forall>(i, s) \<in> set ?n. ds_id s = i" using ok set_alist_update[OF d] by (auto simp: mesh_ok_def)
  moreover have "fst ` set (nodes m) \<subseteq> fst ` set ?n" unfolding dom_map_of_conv_image_fst[symmetric] by (auto simp: update_conv')
  ultimately show ?thesis using ok by (auto simp: Update mesh_ok_def update_node_def)
next
  case (Remove i)
  assume ok: "mesh_ok m"
  let ?n = "filter (\<lambda>p. fst p \<noteq> i) (nodes m)"
  have "distinct (map fst ?n)" using ok by (simp add: mesh_ok_def distinct_map_filter)
  moreover have "j \<in> fst ` set ?n" if "j \<in> fst ` set (nodes m)" "j \<noteq> i" for j using that by auto
  moreover have "\<forall>(j, s) \<in> set ?n. ds_id s = j" using ok by (auto simp: mesh_ok_def)
  ultimately show ?thesis using ok
    by (cases "cluster_head m = Some i"; cases "cluster_head m")
      (simp_all add: Remove mesh_ok_def remove_node_def Let_def alist_delete)
next
  case (Elect i)
  assume "mesh_ok m"
  then show ?thesis by (auto simp: Elect mesh_ok_def dest: map_of_SomeD intro: rev_image_eqI)
qed

interpretation mesh: op_invariant mesh_exec mesh_ok
  by unfold_locales (rule mesh_ok_step)

text \<open>
  After any sequence of updates, removals and elections starting from an empty view, the recorded cluster
  head is always a node of the view (a removed head is forgotten), each entry is stored under the
  id of its own state, and \<open>active_nodes\<close> lists each node once, in ascending order of id.
\<close>

theorem mesh_view_consistent:
  "let m = foldl mesh_exec mesh_new es
   in mesh_ok m \<and> mset (active_nodes m) = mset (map snd (nodes m)) \<and> sorted_wrt (<) (map ds_id (active_nodes m))"
proof -
  let ?m = "foldl mesh_exec mesh_new es"
  have ok: "mesh_ok ?m" by (rule mesh.run_inv[OF mesh_ok_new])
  have ids: "map ds_id (map snd (nodes ?m)) = map fst (nodes ?m)"
    using ok by (auto simp: mesh_ok_def)
  have "distinct (map ds_id (map snd (nodes ?m)))"
    using ok unfolding ids by (simp add: mesh_ok_def)
  then have "distinct (map ds_id (active_nodes ?m))"
    unfolding active_nodes_def by (metis mset_map mset_sort distinct_count_atmost_1 mset_eq_imp_distinct_iff)
  then have "sorted_wrt (<) (map ds_id (active_nodes ?m))"
    by (simp add: strict_sorted_iff active_nodes_def)
  with ok show ?thesis by (simp add: Let_def active_nodes_def)
qed

section \<open>Nearest neighbours\<close>

interpretation dist: comparator_on "\<lambda>x. \<not> is_nan (fst x)" by_distance
  unfolding by_distance_def by (rule partial_cmp_comparator)

definition gap :: "mesh_topology \<Rightarrow> node_id \<Rightarrow> node_id \<Rightarrow> f64" where
  "gap m i j = distance_to (ds_position (the (map_of (nodes m) i))) (ds_position (the (map_of (nodes m) j)))"

definition finite_positions :: "mesh_topology \<Rightarrow> bool" where
  "finite_positions m \<longleftrightarrow> (\<forall>(i, st) \<in> set (nodes m). finite_position (ds_position st))"

definition others :: "mesh_topology \<Rightarrow> node_id \<Rightarrow> (f64 \<times> node_id) list" where
  "others m from_id = map (\<lambda>(i, s). (gap m from_id i, i)) (filter (\<lambda>(i, _). i \<noteq> from_id) (nodes m))"

lemma others_eq:
  assumes "distinct (map fst (nodes m))" "map_of (nodes m) from_id = Some st"
  shows "nearest_k m from_id k = map snd (take k (sort_by by_distance (others m from_id)))"
  unfolding nearest_k_def others_def assms(2) using assms(1)
  by (auto simp: gap_def assms(2) intro!: arg_cong[of _ _ "\<lambda>l. map snd (take k (sort_by by_distance l))"])

lemma others_keys:
  assumes "distinct (map fst (nodes m))" "map_of (nodes m) from_id = Some st"
  shows "distinct (map snd (others m from_id))" "set (map snd (others m from_id)) = fst ` set (nodes m) - {from_id}"
    "length (others m from_id) = length (nodes m) - 1"
proof -
  have o: "map snd (others m from_id) = filter (\<lambda>i. i \<noteq> from_id) (map fst (nodes m))"
    by (simp add: others_def filter_map comp_def case_prod_beta')
  show d: "distinct (map snd (others m from_id))" using assms(1) by (simp add: o)
  show st: "set (map snd (others m from_id)) = fst ` set (nodes m) - {from_id}" by (auto simp: o)
  have "from_id \<in> fst ` set (nodes m)" using assms(2) by (force dest: map_of_SomeD)
  moreover have "length (others m from_id) = card (fst ` set (nodes m) - {from_id})"
    using distinct_card[OF d] unfolding st by simp
  moreover have "length (nodes m) = card (fst ` set (nodes m))" using distinct_card[OF assms(1)] by simp
  ultimately show "length (others m from_id) = length (nodes m) - 1" by simp
qed

lemma gap_not_nan:
  assumes "finite_positions m" "i \<in> fst ` set (nodes m)" "j \<in> fst ` set (nodes m)"
  shows "\<not> is_nan (gap m i j)"
proof -
  have "finite_position (ds_position (the (map_of (nodes m) x)))" if "x \<in> fst ` set (nodes m)" for x
  proof -
    have "map_of (nodes m) x \<noteq> None" using that by (simp add: map_of_eq_None_iff)
    then obtain st where "map_of (nodes m) x = Some st" by blast
    then show ?thesis using assms(1) by (auto simp: finite_positions_def dest!: map_of_SomeD)
  qed
  then show ?thesis using assms by (simp add: gap_def distance_to_not_nan)
qed

text \<open>
  C32. \<open>nearest_k\<close> returns, for a node of a consistent view with finite positions, \<open>k\<close> distinct other nodes of the view (all of
  them when there are fewer), in ascending order of distance, and every node it leaves out is at
  least as far away as every node it returns, in whatever order the hash map iterates.
\<close>

theorem nearest_k_nearest:
  assumes "mesh_ok m" "finite_positions m" "map_of (nodes m) from_id \<noteq> None"
  shows "distinct (nearest_k m from_id k) \<and> set (nearest_k m from_id k) \<subseteq> fst ` set (nodes m) - {from_id} \<and>
    length (nearest_k m from_id k) = min k (length (nodes m) - 1) \<and>
    sorted_wrt (\<lambda>i j. gap m from_id i \<le> gap m from_id j) (nearest_k m from_id k) \<and>
    (\<forall>i \<in> set (nearest_k m from_id k). \<forall>j \<in> fst ` set (nodes m) - {from_id} - set (nearest_k m from_id k).
       gap m from_id i \<le> gap m from_id j)"
proof -
  from assms(3) obtain st where st: "map_of (nodes m) from_id = Some st" by blast
  have d: "distinct (map fst (nodes m))" using assms(1) by (simp add: mesh_ok_def)
  let ?S = "sort_by by_distance (others m from_id)"
  note keys = others_keys[OF d st]
  have from_in: "from_id \<in> fst ` set (nodes m)" using st by (force dest: map_of_SomeD)
  have el: "x = (gap m from_id (snd x), snd x) \<and> snd x \<in> fst ` set (nodes m)" if "x \<in> set ?S" for x
    using that by (force simp: others_def)
  have nn: "\<not> is_nan (fst x)" if "x \<in> set ?S" for x
    using el[OF that] gap_not_nan[OF assms(2) from_in] by (metis fst_conv)
  have "sorted_wrt (\<lambda>x y. by_distance x y \<noteq> Greater) ?S" using nn by (intro dist.sort_by_sorted) simp
  then have "sorted_wrt (\<lambda>x y. gap m from_id (snd x) \<le> gap m from_id (snd y)) ?S"
    by (rule sorted_wrt_mono_rel[rotated])
      (metis by_distance_def el fst_conv nn partial_cmp_not_greater)
  then have srt: "sorted_wrt (\<lambda>i j. gap m from_id i \<le> gap m from_id j) (map snd ?S)" by (simp add: sorted_wrt_map)
  have ms: "mset (map snd ?S) = mset (map snd (others m from_id))" by simp
  have ds: "distinct (map snd ?S)" using keys(1) mset_eq_imp_distinct_iff[OF ms] by simp
  have ss: "set (map snd ?S) = fst ` set (nodes m) - {from_id}" using keys(2) by simp
  have r: "nearest_k m from_id k = take k (map snd ?S)" by (simp add: others_eq[OF d st] take_map)
  have "set (take k (map snd ?S)) \<union> set (drop k (map snd ?S)) = fst ` set (nodes m) - {from_id}"
    using ss by (metis append_take_drop_id set_append)
  moreover have "sorted_wrt (\<lambda>i j. gap m from_id i \<le> gap m from_id j) (take k (map snd ?S) @ drop k (map snd ?S))"
    using srt by simp
  ultimately show ?thesis unfolding r using ds keys(3)
    by (auto simp: sorted_wrt_append distinct_take simp del: append_take_drop_id dest: in_set_takeD)
qed

theorem nearest_k_nearest_witness:
  "let put = (\<lambda>i x. (default_at_origin i)\<lparr>ds_position := \<lparr>px = lit x, py = 0, pz = 0\<rparr>\<rparr>);
       m = foldl mesh_exec mesh_new (map Update [put 1 0, put 2 9, put 3 2, put 4 5])
   in nearest_k m 1 2 = [3, 4] \<and> distinct (nearest_k m 1 2) \<and> gap m 1 4 \<le> gap m 1 2"
proof -
  let ?put = "\<lambda>i x. (default_at_origin i)\<lparr>ds_position := \<lparr>px = lit x, py = 0, pz = 0\<rparr>\<rparr>"
  let ?m = "foldl mesh_exec mesh_new (map Update [?put 1 0, ?put 2 9, ?put 3 2, ?put 4 5])"
  have m: "nodes ?m = [(1, ?put 1 0), (2, ?put 2 9), (3, ?put 3 2), (4, ?put 4 5)]"
    by (simp add: mesh_new_def update_node_def default_at_origin_def)
  have ok: "mesh_ok ?m" by (rule mesh.run_inv[OF mesh_ok_new])
  have fin: "finite_positions ?m" unfolding finite_positions_def m by (simp add: finite_position_def)
  have mem: "map_of (nodes ?m) 1 \<noteq> None" unfolding m by simp
  note claim = nearest_k_nearest[OF ok fin mem, of 2]
  have d: "distance_to \<lparr>px = Fin 0, py = 0, pz = 0\<rparr> \<lparr>px = Fin x, py = 0, pz = 0\<rparr> = Fin x"
    if "x \<in> {2, 5, 9}" for x
    using that fsqrt_squares[of 9, where ?'a = 64] fsqrt_squares[of 2, where ?'a = 64] fsqrt_squares[of 5, where ?'a = 64]
    by (auto simp: distance_to_def Let_def fin_arith)
  have near: "nearest_k ?m 1 2 = [3, 4]"
    unfolding nearest_k_def m
    by (simp add: d[of 2] d[of 5] d[of 9] by_distance_def partial_cmp_or_equal_def)
  have "gap ?m 1 4 \<le> gap ?m 1 2" using claim unfolding near m by auto
  with claim near show ?thesis unfolding Let_def by blast
qed

end
