(* ===== verification/Allocation.thy ===== *)
theory Allocation
  imports Types
begin

text \<open>
  Task allocation: the contract-net auction of \<open>src/allocation/auction.rs\<close> and the feed-forward bid scorer
  of \<open>src/allocation/fnn.rs\<close>. Both hash maps are association lists in iteration order; the exponential
  function of the scorer's sigmoid is a parameter.
\<close>

section \<open>The auction\<close>

record bid =
  bid_node :: node_id
  bid_task :: task_id
  score :: f32

record auction_allocator =
  pending_tasks :: "(task_id \<times> swarm_task) list"
  bids :: "(task_id \<times> bid list) list"
  timeout_ms :: u64

definition auction_new :: "u64 \<Rightarrow> auction_allocator" where
  "auction_new t = \<lparr>pending_tasks = [], bids = [], timeout_ms = t\<rparr>"

definition or_default :: "task_id \<Rightarrow> (task_id \<times> bid list) list \<Rightarrow> (task_id \<times> bid list) list" where
  "or_default t m = (case map_of m t of Some _ \<Rightarrow> m | None \<Rightarrow> AList.update t [] m)"

definition announce_task :: "swarm_task \<Rightarrow> auction_allocator \<Rightarrow> auction_allocator" where
  "announce_task task a =
    a\<lparr>pending_tasks := AList.update (task_ident task) task (pending_tasks a), bids := or_default (task_ident task) (bids a)\<rparr>"

definition submit_bid :: "bid \<Rightarrow> auction_allocator \<Rightarrow> auction_allocator" where
  "submit_bid b a =
    (if map_of (pending_tasks a) (bid_task b) \<noteq> None then
       let m = or_default (bid_task b) (bids a)
       in a\<lparr>bids := AList.update (bid_task b) (the (map_of m (bid_task b)) @ [b]) m\<rparr>
     else a)"

definition by_score :: "bid \<Rightarrow> bid \<Rightarrow> ordering" where
  "by_score a b = partial_cmp_or_equal (score a) (score b)"

definition winner :: "(task_id \<times> bid list) list \<Rightarrow> task_id \<Rightarrow> node_id option" where
  "winner m t = Option.bind (map_of m t) (\<lambda>bs. map_option bid_node (min_by by_score bs))"

definition resolve_one :: "auction_allocator \<times> (task_id \<times> node_id) list \<Rightarrow> task_id \<Rightarrow> auction_allocator \<times> (task_id \<times> node_id) list" where
  "resolve_one ar t =
    (let (a, results) = ar in
     case winner (bids a) t of
       Some w \<Rightarrow>
         let pending = (case map_of (pending_tasks a) t of
               Some task \<Rightarrow> AList.update t (task\<lparr>assigned_to := Some w\<rparr>) (pending_tasks a)
             | None \<Rightarrow> pending_tasks a)
         in (a\<lparr>pending_tasks := pending, bids := AList.delete t (bids a)\<rparr>, results @ [(t, w)])
     | None \<Rightarrow> (a, results))"

definition resolve :: "auction_allocator \<Rightarrow> auction_allocator \<times> (task_id \<times> node_id) list" where
  "resolve a =
    (let (a1, results) = foldl resolve_one (a, []) (map fst (pending_tasks a))
     in (a1\<lparr>pending_tasks := foldl (\<lambda>m (t, _). AList.delete t m) (pending_tasks a1) results\<rparr>, results))"

definition compute_bid_score :: "drone_state \<Rightarrow> swarm_task \<Rightarrow> f32 option" where
  "compute_bid_score node task =
    (let dist = fcast (distance_to (ds_position node) (target task)) :: f32;
         battery_penalty = (lit 100 - battery_pct node) / lit 100;
         link_penalty = lit 1 - link_quality node
     in case fclamp (task_priority task) (lit 0) (lit 1) of
          None \<Rightarrow> None
        | Some p \<Rightarrow>
            let priority_bonus = lit 1 - p
            in Some (dist / lit 100 + battery_penalty * lit (3/10) + link_penalty * lit (2/10) + priority_bonus * lit (1/10)))"

section \<open>Resolution as one pass\<close>

text \<open>What \<open>resolve\<close> does, without the loop: the tasks with a winner leave, the others stay untouched.\<close>

definition resolved :: "auction_allocator \<Rightarrow> (task_id \<times> node_id) list" where
  "resolved a = concat (map (\<lambda>(t, _). case winner (bids a) t of Some w \<Rightarrow> [(t, w)] | None \<Rightarrow> []) (pending_tasks a))"

definition filed :: "(task_id \<times> bid list) list \<Rightarrow> bool" where
  "filed m \<longleftrightarrow> (\<forall>p \<in> set m. \<forall>b \<in> set (snd p). bid_task b = fst p)"

definition auction_ok :: "auction_allocator \<Rightarrow> bool" where
  "auction_ok a \<longleftrightarrow> distinct (map fst (pending_tasks a)) \<and> distinct (map fst (bids a)) \<and> filed (bids a)"

lemma winner_delete: "winner (filter (\<lambda>p. P (fst p)) m) t = (if P t then winner m t else None)"
  by (simp add: winner_def map_of_filter_fst)

lemma winner_delete_key: "winner (filter (\<lambda>p. fst p \<noteq> k) m) t = (if t = k then None else winner m t)"
  using winner_delete[of "\<lambda>x. x \<noteq> k"] by simp

definition hit :: "auction_allocator \<Rightarrow> task_id list \<Rightarrow> (task_id \<times> node_id) list" where
  "hit a ts = concat (map (\<lambda>t. case winner (bids a) t of Some w \<Rightarrow> [(t, w)] | None \<Rightarrow> []) ts)"

lemma set_hit: "set (hit a ts) = {(t, w). t \<in> set ts \<and> winner (bids a) t = Some w}"
  by (auto simp: hit_def split: option.splits)

lemma hit_keys: "t \<in> fst ` set (hit a ts) \<longleftrightarrow> t \<in> set ts \<and> winner (bids a) t \<noteq> None"
  by (force simp: set_hit)

lemma fold_delete: "foldl (\<lambda>m (t, _). AList.delete t m) m rs = filter (\<lambda>p. fst p \<notin> fst ` set rs) m"
proof (induction rs arbitrary: m)
  case (Cons r rs)
  then show ?case by (cases r) (auto simp: alist_delete intro!: filter_cong)
qed simp

lemma resolve_loop:
  assumes "distinct ts" "set ts \<subseteq> fst ` set (pending_tasks a)"
  shows "\<exists>p. foldl resolve_one (a, rs) ts =
      (a\<lparr>pending_tasks := p, bids := filter (\<lambda>q. fst q \<notin> fst ` set (hit a ts)) (bids a)\<rparr>, rs @ hit a ts) \<and>
      filter (\<lambda>q. fst q \<notin> fst ` set (hit a ts)) p = filter (\<lambda>q. fst q \<notin> fst ` set (hit a ts)) (pending_tasks a) \<and>
      map fst p = map fst (pending_tasks a)"
  using assms
proof (induction ts arbitrary: a rs)
  case Nil
  show ?case by (rule exI[of _ "pending_tasks a"]) (simp add: hit_def)
next
  case (Cons t ts)
  show ?case
  proof (cases "winner (bids a) t")
    case None
    then have "foldl resolve_one (a, rs) (t # ts) = foldl resolve_one (a, rs) ts" "hit a (t # ts) = hit a ts"
      by (simp_all add: resolve_one_def hit_def)
    with Cons show ?thesis by simp
  next
    case (Some w)
    have "map_of (pending_tasks a) t \<noteq> None" using Cons.prems by (simp add: map_of_eq_None_iff)
    then obtain task where task: "map_of (pending_tasks a) t = Some task" by blast
    let ?p = "AList.update t (task\<lparr>assigned_to := Some w\<rparr>) (pending_tasks a)"
    let ?a = "a\<lparr>pending_tasks := ?p, bids := filter (\<lambda>q. fst q \<noteq> t) (bids a)\<rparr>"
    have step: "foldl resolve_one (a, rs) (t # ts) = foldl resolve_one (?a, rs @ [(t, w)]) ts"
      using Some task by (simp add: resolve_one_def alist_delete)
    have keys: "map fst ?p = map fst (pending_tasks a)" using task by (simp add: map_fst_update)
    have rest: "hit ?a ts = hit a ts"
      using Cons.prems(1) by (auto simp: hit_def winner_delete_key intro!: arg_cong[of _ _ concat])
    have h: "hit a (t # ts) = (t, w) # hit a ts" using Some by (simp add: hit_def)
    have "set ts \<subseteq> fst ` set (pending_tasks ?a)" "distinct ts"
      using Cons.prems keys by (simp_all add: set_map[symmetric] del: set_map)
    from Cons.IH[OF this(2,1), of "rs @ [(t, w)]"] obtain p where
      p: "foldl resolve_one (?a, rs @ [(t, w)]) ts =
            (?a\<lparr>pending_tasks := p, bids := filter (\<lambda>q. fst q \<notin> fst ` set (hit a ts)) (bids ?a)\<rparr>, (rs @ [(t, w)]) @ hit a ts)"
         "filter (\<lambda>q. fst q \<notin> fst ` set (hit a ts)) p = filter (\<lambda>q. fst q \<notin> fst ` set (hit a ts)) ?p"
         "map fst p = map fst ?p"
      unfolding rest by auto
    have "filter (\<lambda>q. fst q \<notin> fst ` set (hit a (t # ts))) p = filter (\<lambda>q. fst q \<noteq> t) (filter (\<lambda>q. fst q \<notin> fst ` set (hit a ts)) p)"
      unfolding h by (auto intro!: filter_cong)
    also have "\<dots> = filter (\<lambda>q. fst q \<notin> fst ` set (hit a ts)) (filter (\<lambda>q. fst q \<noteq> t) ?p)"
      unfolding p(2) by (auto intro!: filter_cong)
    also have "\<dots> = filter (\<lambda>q. fst q \<notin> fst ` set (hit a (t # ts))) (pending_tasks a)"
      unfolding h filter_update[OF \<open>map_of (pending_tasks a) t \<noteq> None\<close>] by (auto intro!: filter_cong)
    finally show ?thesis unfolding step p(1) h
      by (intro exI[of _ p]) (use p(3) keys in \<open>auto intro!: filter_cong\<close>)
  qed
qed

lemma resolved_hit: "hit a (map fst (pending_tasks a)) = resolved a"
  by (auto simp: hit_def resolved_def comp_def case_prod_beta intro!: arg_cong[of _ _ concat])

lemma set_resolved: "set (resolved a) = {(t, w). t \<in> fst ` set (pending_tasks a) \<and> winner (bids a) t = Some w}"
  using set_hit[of a "map fst (pending_tasks a)"] by (simp add: resolved_hit)

lemma resolved_keys: "t \<in> fst ` set (resolved a) \<longleftrightarrow> t \<in> fst ` set (pending_tasks a) \<and> winner (bids a) t \<noteq> None"
  using hit_keys[of t a "map fst (pending_tasks a)"] by (simp add: resolved_hit)

lemma resolve_refines:
  assumes "auction_ok a"
  shows "resolve a =
    (a\<lparr>pending_tasks := filter (\<lambda>p. winner (bids a) (fst p) = None) (pending_tasks a),
       bids := filter (\<lambda>p. fst p \<notin> fst ` set (resolved a)) (bids a)\<rparr>, resolved a)"
proof -
  note r = resolved_hit[of a]
  obtain p where p: "foldl resolve_one (a, []) (map fst (pending_tasks a)) =
      (a\<lparr>pending_tasks := p, bids := filter (\<lambda>q. fst q \<notin> fst ` set (resolved a)) (bids a)\<rparr>, resolved a)"
    "filter (\<lambda>q. fst q \<notin> fst ` set (resolved a)) p = filter (\<lambda>q. fst q \<notin> fst ` set (resolved a)) (pending_tasks a)"
    using resolve_loop[of "map fst (pending_tasks a)" a "[]"] assms unfolding r by (auto simp: auction_ok_def)
  have "filter (\<lambda>q. fst q \<notin> fst ` set (resolved a)) (pending_tasks a) =
      filter (\<lambda>p. winner (bids a) (fst p) = None) (pending_tasks a)"
    by (rule filter_cong) (auto simp: resolved_keys)
  then show ?thesis using p by (simp add: resolve_def fold_delete)
qed

section \<open>Runs of the allocator\<close>

datatype auction_event = Announce swarm_task | Submit bid | Resolve

fun auction_exec :: "auction_allocator \<Rightarrow> auction_event \<Rightarrow> auction_allocator" where
  "auction_exec a (Announce t) = announce_task t a"
| "auction_exec a (Submit b) = submit_bid b a"
| "auction_exec a Resolve = fst (resolve a)"

definition same_keys :: "auction_allocator \<Rightarrow> bool" where
  "same_keys a \<longleftrightarrow> fst ` set (bids a) = fst ` set (pending_tasks a)"

lemma keys_update: "fst ` set (AList.update k v m) = insert k (fst ` set m)"
  by (simp add: dom_map_of_conv_image_fst[symmetric] update_conv')

lemma filed_update:
  "distinct (map fst m) \<Longrightarrow> filed m \<Longrightarrow> \<forall>b \<in> set bs. bid_task b = k \<Longrightarrow> filed (AList.update k bs m)"
  by (auto simp: filed_def set_alist_update)

lemma filed_lookup: "filed m \<Longrightarrow> map_of m k = Some bs \<Longrightarrow> \<forall>b \<in> set bs. bid_task b = k"
  unfolding filed_def by (auto dest!: map_of_SomeD)

lemma or_default_facts:
  assumes "distinct (map fst m)" "filed m"
  shows "distinct (map fst (or_default k m)) \<and> fst ` set (or_default k m) = insert k (fst ` set m) \<and>
    filed (or_default k m) \<and> (\<exists>bs. map_of (or_default k m) k = Some bs)"
proof (cases "map_of m k")
  case None
  then have "or_default k m = AList.update k [] m" by (simp add: or_default_def)
  then show ?thesis using assms by (simp add: distinct_update keys_update filed_update update_conv')
next
  case (Some bs)
  then have "k \<in> fst ` set m" by (force dest: map_of_SomeD)
  then show ?thesis using assms Some by (simp add: or_default_def insert_absorb)
qed

lemma auction_step: "auction_ok a \<and> same_keys a \<Longrightarrow> auction_ok (auction_exec a e) \<and> same_keys (auction_exec a e)"
proof (cases e)
  case (Announce t)
  assume a: "auction_ok a \<and> same_keys a"
  then have "distinct (map fst (bids a))" "filed (bids a)" by (auto simp: auction_ok_def)
  from or_default_facts[OF this, of "task_ident t"] show ?thesis using a
    by (simp add: Announce announce_task_def auction_ok_def same_keys_def distinct_update keys_update)
next
  case (Submit b)
  assume a: "auction_ok a \<and> same_keys a"
  then have "distinct (map fst (bids a))" "filed (bids a)" by (auto simp: auction_ok_def)
  note d = or_default_facts[OF this, of "bid_task b"]
  let ?m = "or_default (bid_task b) (bids a)"
  obtain bs where bs: "map_of ?m (bid_task b) = Some bs" using d by blast
  have f: "filed (AList.update (bid_task b) (bs @ [b]) ?m)"
    using d filed_lookup[OF _ bs] by (intro filed_update) auto
  show ?thesis
  proof (cases "map_of (pending_tasks a) (bid_task b) = None")
    case True
    then show ?thesis using a by (simp add: Submit submit_bid_def)
  next
    case False
    then have "bid_task b \<in> fst ` set (pending_tasks a)" by (simp add: map_of_eq_None_iff)
    moreover have "auction_exec a e = a\<lparr>bids := AList.update (bid_task b) (bs @ [b]) ?m\<rparr>"
      using False bs by (simp add: Submit submit_bid_def)
    ultimately show ?thesis using a d f
      by (simp add: auction_ok_def same_keys_def distinct_update keys_update insert_absorb)
  qed
next
  case Resolve
  assume a: "auction_ok a \<and> same_keys a"
  have "auction_ok (fst (resolve a))"
    using a by (simp add: resolve_refines auction_ok_def distinct_map_filter filed_def)
  moreover have "same_keys (fst (resolve a))"
  proof -
    have img: "fst ` set (filter (\<lambda>p. P (fst p)) m) = {t \<in> fst ` set m. P t}" for P and m :: "(task_id \<times> 'z) list"
      by auto
    have "fst ` set (pending_tasks (fst (resolve a))) = {t \<in> fst ` set (pending_tasks a). winner (bids a) t = None}"
      using a img[of "\<lambda>t. winner (bids a) t = None" "pending_tasks a"] by (simp add: resolve_refines)
    moreover have "fst ` set (bids (fst (resolve a))) = {t \<in> fst ` set (bids a). t \<notin> fst ` set (resolved a)}"
      using a img[of "\<lambda>t. t \<notin> fst ` set (resolved a)" "bids a"] by (simp add: resolve_refines)
    ultimately show ?thesis using a unfolding same_keys_def by (auto simp: resolved_keys)
  qed
  ultimately show ?thesis by (simp add: Resolve)
qed

interpretation auction: op_invariant auction_exec "\<lambda>a. auction_ok a \<and> same_keys a"
  by unfold_locales (rule auction_step)

text \<open>
  Whatever tasks are announced, bids submitted and rounds resolved, the allocator keeps one entry per task, holds
  bids for exactly the tasks that are pending, and files every bid under the task it names.
\<close>

theorem auction_bookkeeping:
  "let a = foldl auction_exec (auction_new T) es
   in distinct (map fst (pending_tasks a)) \<and> distinct (map fst (bids a)) \<and>
      fst ` set (bids a) = fst ` set (pending_tasks a) \<and> filed (bids a)"
proof -
  have "auction_ok (auction_new T) \<and> same_keys (auction_new T)"
    by (simp add: auction_new_def auction_ok_def same_keys_def filed_def)
  from auction.run_inv[OF this, of es] show ?thesis
    by (simp add: Let_def auction_ok_def same_keys_def)
qed

section \<open>The winning bids\<close>

definition has_bid :: "auction_allocator \<Rightarrow> task_id \<Rightarrow> bid \<Rightarrow> bool" where
  "has_bid a t b \<longleftrightarrow> (\<exists>bs. map_of (bids a) t = Some bs \<and> b \<in> set bs)"

definition numeric_bids :: "auction_allocator \<Rightarrow> bool" where
  "numeric_bids a \<longleftrightarrow> (\<forall>p \<in> set (bids a). \<forall>b \<in> set (snd p). \<not> is_nan (score b))"

interpretation scores: comparator_on "\<lambda>b. \<not> is_nan (score b)" by_score
  unfolding by_score_def by (rule partial_cmp_comparator)

lemma winner_None: "winner (bids a) t = None \<longleftrightarrow> (\<nexists>b. has_bid a t b)"
  by (cases "map_of (bids a) t") (auto simp: winner_def has_bid_def)

lemma winner_best:
  assumes "winner (bids a) t = Some w" "numeric_bids a"
  shows "\<exists>b. has_bid a t b \<and> bid_node b = w \<and> (\<forall>b'. has_bid a t b' \<longrightarrow> score b \<le> score b')"
proof -
  obtain bs b where bs: "map_of (bids a) t = Some bs" "min_by by_score bs = Some b" "bid_node b = w"
    using assms(1) by (auto simp: winner_def bind_eq_Some_conv)
  have num: "\<forall>b \<in> set bs. \<not> is_nan (score b)" using assms(2) map_of_SomeD[OF bs(1)] by (auto simp: numeric_bids_def)
  have mem: "b \<in> set bs" using bs(2) by (rule min_by_mem)
  have "score b \<le> score b'" if "b' \<in> set bs" for b'
    using scores.min_by_least[OF num bs(2) that] num mem that by (simp add: by_score_def partial_cmp_not_greater)
  then show ?thesis using bs mem by (auto simp: has_bid_def)
qed

lemma resolved_once: "auction_ok a \<Longrightarrow> distinct (map fst (resolved a))"
proof -
  have "distinct (map fst (hit a ts))" if "distinct ts" for ts
    using that
  proof (induction ts)
    case (Cons t ts)
    then show ?case using hit_keys[of t a ts] by (auto simp: hit_def split: option.splits)
  qed (simp add: hit_def)
  then show "auction_ok a \<Longrightarrow> distinct (map fst (resolved a))"
    by (simp add: resolved_hit[symmetric] auction_ok_def)
qed

text \<open>
  C37. In an allocator with one entry per task and every bid filed under its task, resolving a round assigns exactly the pending tasks that have a bid, each once, to a node that bid for it with a score no
  other bid for the task undercuts; those tasks and their bids leave the allocator and everything else in it
  stays as it was. No score may be NaN.
\<close>

theorem resolve_assigns_best_bid:
  assumes "auction_ok a" "numeric_bids a"
  shows "let (a', results) = resolve a
    in distinct (map fst results) \<and>
       (\<forall>t. t \<in> fst ` set results \<longleftrightarrow> t \<in> fst ` set (pending_tasks a) \<and> (\<exists>b. has_bid a t b)) \<and>
       (\<forall>(t, w) \<in> set results. \<exists>b. has_bid a t b \<and> bid_node b = w \<and> (\<forall>b'. has_bid a t b' \<longrightarrow> score b \<le> score b')) \<and>
       pending_tasks a' = filter (\<lambda>p. fst p \<notin> fst ` set results) (pending_tasks a) \<and>
       bids a' = filter (\<lambda>p. fst p \<notin> fst ` set results) (bids a) \<and> timeout_ms a' = timeout_ms a"
proof -
  have "filter (\<lambda>p. winner (bids a) (fst p) = None) (pending_tasks a) =
      filter (\<lambda>p. fst p \<notin> fst ` set (resolved a)) (pending_tasks a)"
    by (rule filter_cong) (auto simp: resolved_keys)
  moreover have "t \<in> fst ` set (resolved a) \<longleftrightarrow> t \<in> fst ` set (pending_tasks a) \<and> (\<exists>b. has_bid a t b)" for t
    using winner_None[of a t] by (auto simp: resolved_keys)
  moreover have "\<forall>(t, w) \<in> set (resolved a). \<exists>b. has_bid a t b \<and> bid_node b = w \<and> (\<forall>b'. has_bid a t b' \<longrightarrow> score b \<le> score b')"
    using winner_best[OF _ assms(2)] by (auto simp: set_resolved)
  ultimately show ?thesis using resolve_refines[OF assms(1)] resolved_once[OF assms(1)] by simp
qed

definition task_at :: "task_id \<Rightarrow> swarm_task" where
  "task_at t = \<lparr>task_ident = t, kind = HoverRelay, task_priority = lit (1/2), target = position_zero,
     deadline_ms = None, assigned_to = None\<rparr>"

theorem resolve_assigns_best_bid_witness:
  "let a = foldl auction_exec (auction_new 500)
       [Announce (task_at 1), Announce (task_at 2), Submit \<lparr>bid_node = 7, bid_task = 1, score = lit 3\<rparr>,
        Submit \<lparr>bid_node = 8, bid_task = 1, score = lit (3/2)\<rparr>, Submit \<lparr>bid_node = 9, bid_task = 4, score = 0\<rparr>]
   in snd (resolve a) = [(1, 8)] \<and> pending_tasks (fst (resolve a)) = [(2, task_at 2)]"
proof -
  define a where "a = foldl auction_exec (auction_new 500)
       [Announce (task_at 1), Announce (task_at 2), Submit \<lparr>bid_node = 7, bid_task = 1, score = lit 3\<rparr>,
        Submit \<lparr>bid_node = 8, bid_task = 1, score = lit (3/2)\<rparr>, Submit \<lparr>bid_node = 9, bid_task = 4, score = 0\<rparr>]"
  have b: "bids a = [(1, [\<lparr>bid_node = 7, bid_task = 1, score = lit 3\<rparr>, \<lparr>bid_node = 8, bid_task = 1, score = lit (3/2)\<rparr>]), (2, [])]"
    and p: "pending_tasks a = [(1, task_at 1), (2, task_at 2)]"
    by (simp_all add: a_def auction_new_def announce_task_def submit_bid_def or_default_def task_at_def)
  have ok: "auction_ok a" "numeric_bids a"
    by (simp_all add: auction_ok_def numeric_bids_def filed_def b p)
  have r: "snd (resolve a) = [(1, 8)]"
    unfolding resolve_refines[OF ok(1)] by (simp add: resolved_def winner_def b p min_by_def by_score_def partial_cmp_or_equal_def)
  have "pending_tasks (fst (resolve a)) = [(2, task_at 2)]"
    using resolve_assigns_best_bid[OF ok] r by (simp add: case_prod_beta Let_def p)
  with r show ?thesis unfolding a_def Let_def by blast
qed

text \<open>A bid whose score is NaN wins its task against every bid that arrives after it.\<close>

theorem first_nan_bid_wins:
  "min_by by_score (b\<lparr>score := NaN\<rparr> # bs) = Some (b\<lparr>score := NaN\<rparr>)"
proof -
  have "foldl (\<lambda>b x. if by_score b x = Greater then x else b) (b\<lparr>score := NaN\<rparr>) bs = b\<lparr>score := NaN\<rparr>"
    by (induction bs) (simp_all add: by_score_def partial_cmp_or_equal_def)
  then show ?thesis by (simp add: min_by_def)
qed

section \<open>Bid scores\<close>

text \<open>
  For a drone and a task with finite positions, a battery of at most 100 percent and a link quality of at most 1, the bid score
  is computed without a panic and is a number that is not negative, whatever the task's priority (unless it is NaN): every
  such bid can be compared when a round is resolved.
\<close>

theorem bid_score_nonneg:
  assumes "finite_position (ds_position node)" "finite_position (target task)"
    and "battery_pct node \<le> lit 100" "link_quality node \<le> lit 1" "\<not> is_nan (task_priority task)"
  shows "\<exists>s. compute_bid_score node task = Some s \<and> 0 \<le> s"
proof -
  obtain r3 where r3: "(lit (3/10) :: f32) = Fin r3" "0 < r3"
    by (rule lit_pos[of "1/4" "1/2" "3/10"]) (auto intro: representable_fraction)
  obtain r2 where r2: "(lit (2/10) :: f32) = Fin r2" "0 < r2"
    by (rule lit_pos[of "1/8" "1/4" "2/10"]) (auto intro: representable_fraction)
  obtain r1 where r1: "(lit (1/10) :: f32) = Fin r1" "0 < r1"
    by (rule lit_pos[of "1/16" "1/8" "1/10"]) (auto intro: representable_fraction)
  obtain p where p: "fclamp (task_priority task) (lit 0) (lit 1) = Some p" "p \<le> lit 1"
    using assms(5) by (auto simp: fclamp_def Let_def flt_not_less)
  have "(0 :: f32) \<le> fcast (distance_to (ds_position node) (target task))"
    by (rule fcast_nonneg[OF distance_to_nonneg[OF assms(1,2)]])
  then have "(0 :: f32) \<le> fcast (distance_to (ds_position node) (target task)) / lit 100"
    by (simp add: flt_div_nonneg)
  moreover have "0 \<le> (lit 100 - battery_pct node) / lit 100 * lit (3/10)"
    unfolding r3(1) using assms(3) r3(2) by (intro flt_mult_nonneg) (simp_all add: flt_div_nonneg flt_sub_nonneg)
  moreover have "0 \<le> (lit 1 - link_quality node) * lit (2/10)"
    unfolding r2(1) using assms(4) r2(2) by (intro flt_mult_nonneg) (simp_all add: flt_sub_nonneg)
  moreover have "0 \<le> (lit 1 - p) * lit (1/10)"
    unfolding r1(1) using p(2) r1(2) by (intro flt_mult_nonneg) (simp_all add: flt_sub_nonneg)
  ultimately have "0 \<le> fcast (distance_to (ds_position node) (target task)) / lit 100 +
      (lit 100 - battery_pct node) / lit 100 * lit (3/10) + (lit 1 - link_quality node) * lit (2/10) + (lit 1 - p) * (lit (1/10) :: f32)"
    by (intro flt_add_nonneg)
  then show ?thesis using p(1) unfolding compute_bid_score_def Let_def by auto
qed

theorem bid_score_nonneg_witness:
  "\<exists>s. compute_bid_score (default_at_origin 3) (task_at 1) = Some s \<and> 0 \<le> s"
  by (rule bid_score_nonneg) (simp_all add: default_at_origin_def task_at_def finite_position_def position_zero_def)

section \<open>The feed-forward scorer\<close>

record fnn_scorer =
  w1 :: "f32 list list"
  b1 :: "f32 list"
  w2 :: "f32 list list"
  b2 :: "f32 list"
  w3 :: "f32 list"
  b3 :: f32

definition relu :: "f32 \<Rightarrow> f32" where
  "relu x = fmax x (lit 0)"

definition sigmoid :: "(f32 \<Rightarrow> f32) \<Rightarrow> f32 \<Rightarrow> f32" where
  "sigmoid exp_f32 x = lit 1 / (lit 1 + exp_f32 (- x))"

definition dot :: "f32 list \<Rightarrow> f32 list \<Rightarrow> f32" where
  "dot ws xs = foldl (+) NZero (map (\<lambda>(w, x). w * x) (zip ws xs))"

definition layer :: "f32 list list \<Rightarrow> f32 list \<Rightarrow> f32 list \<Rightarrow> f32 list" where
  "layer w b xs = map (\<lambda>(row, bias). relu (dot row xs + bias)) (zip w b)"

definition fnn_score :: "(f32 \<Rightarrow> f32) \<Rightarrow> fnn_scorer \<Rightarrow> f32 list \<Rightarrow> f32" where
  "fnn_score exp_f32 s features =
    (let h1 = layer (w1 s) (b1 s) features;
         h2 = layer (w2 s) (b2 s) h1;
         z3 = dot (w3 s) h2 + b3 s
     in sigmoid exp_f32 z3)"

definition default_weights :: fnn_scorer where
  "default_weights =
    \<lparr>w1 = map (\<lambda>i. map (\<lambda>j. if i < 5 then (if i = j then lit 1 else lit 0) else if j = 0 then lit (1/10) else lit 0) [0..<5]) [0..<16],
     b1 = replicate 16 (lit 0),
     w2 = map (\<lambda>i. map (\<lambda>j. if j = i * 2 then lit 1 else lit 0) [0..<16]) [0..<8],
     b2 = replicate 8 (lit 0), w3 = replicate 8 (lit (1/8)), b3 = lit 0\<rparr>"

lemma relu_nonneg: "0 \<le> relu x"
  by (cases x) (auto simp: relu_def fmax_def)

lemma layer_nonneg: "h \<in> set (layer w b xs) \<Longrightarrow> 0 \<le> h"
  by (auto simp: layer_def relu_nonneg)

text \<open>What the scorer relies on in \<open>f32::exp\<close>: a number has an exponential that is not negative, and NaN has NaN.\<close>

definition exp_laws :: "(f32 \<Rightarrow> f32) \<Rightarrow> bool" where
  "exp_laws e \<longleftrightarrow> (\<forall>x. if is_nan x then is_nan (e x) else 0 \<le> e x)"

lemma sigmoid_unit:
  assumes "0 \<le> e (- x)"
  shows "0 \<le> sigmoid e x \<and> sigmoid e x \<le> 1"
proof -
  consider "e (- x) = PInf" | "e (- x) = NZero" | q where "e (- x) = Fin q" "0 \<le> q"
    using assms unfolding flt_nonneg_cases by blast
  then show ?thesis
  proof cases
    case (3 q)
    have one: "(Fin 1 :: f32) \<le> rnd (1 + q)"
      using rnd_mono[of 1 "1 + q", where ?'a = 32] 3(2) by simp
    show ?thesis
    proof (cases "rnd (1 + q) :: f32")
      case (Fin r)
      then have r: "1 \<le> r" using one by simp
      have "(0 :: f32) \<le> rnd (1 / r)" "(rnd (1 / r) :: f32) \<le> Fin 1"
        using r rnd_mono[of "1 / r" 1, where ?'a = 32] by (simp_all add: rnd_nonneg)
      then show ?thesis using 3 r Fin by (simp add: sigmoid_def Fin_add Fin_div mk_def one_flt_def)
    qed (use one 3 in \<open>auto simp: sigmoid_def Fin_add mk_def divide_flt_def signed_zero_def is_zero_def one_flt_def\<close>)
  qed (auto simp: sigmoid_def plus_flt_def divide_flt_def signed_zero_def is_zero_def mk_def one_flt_def)
qed

text \<open>
  For all weights and features, the activations of both hidden layers are not negative (and never NaN: \<open>max\<close> drops it), and the score lies in the unit
  interval or is NaN, the latter only when the output layer's sum is; this rests on the documented range of \<open>f32::exp\<close>.
\<close>

theorem fnn_score_unit_interval:
  assumes "exp_laws e"
  shows "(\<forall>h \<in> set (layer (w1 s) (b1 s) xs) \<union> set (layer (w2 s) (b2 s) (layer (w1 s) (b1 s) xs)). 0 \<le> h) \<and>
    (if is_nan (dot (w3 s) (layer (w2 s) (b2 s) (layer (w1 s) (b1 s) xs)) + b3 s) then is_nan (fnn_score e s xs)
     else 0 \<le> fnn_score e s xs \<and> fnn_score e s xs \<le> 1)"
proof -
  let ?z = "dot (w3 s) (layer (w2 s) (b2 s) (layer (w1 s) (b1 s) xs)) + b3 s"
  have score: "fnn_score e s xs = sigmoid e ?z" by (simp add: fnn_score_def Let_def)
  have "is_nan (sigmoid e ?z)" if "is_nan ?z"
  proof -
    have "is_nan (e (- ?z))" using assms that unfolding exp_laws_def by (metis is_nan_uminus)
    then show ?thesis by (simp add: sigmoid_def plus_flt_def divide_flt_def)
  qed
  moreover have "0 \<le> sigmoid e ?z \<and> sigmoid e ?z \<le> 1" if "\<not> is_nan ?z"
    using assms that by (intro sigmoid_unit) (auto simp: exp_laws_def)
  ultimately show ?thesis using layer_nonneg unfolding score by auto
qed

lemma from_nzero: "(NZero + Fin q :: f32) = mk False q"
  by (simp add: plus_flt_def)

theorem fnn_score_unit_interval_witness:
  "let e = (\<lambda>x :: f32. if is_nan x then NaN else if x < 0 then 0 else 1);
       s = default_weights\<lparr>w1 := replicate 16 (replicate 5 1), w2 := replicate 8 (replicate 16 0), b3 := lit 2\<rparr>
   in 0 \<le> fnn_score e s [1, 0, 1, 0, 1] \<and> fnn_score e s [1, 0, 1, 0, 1] \<le> 1"
proof -
  let ?e = "\<lambda>x :: f32. if is_nan x then NaN else if x < 0 then 0 else 1"
  let ?s = "default_weights\<lparr>w1 := replicate 16 (replicate 5 1), w2 := replicate 8 (replicate 16 0), b3 := lit 2\<rparr>"
  have "exp_laws ?e" by (simp add: exp_laws_def one_flt_def zero_flt_def)
  note claim = fnn_score_unit_interval[OF this, of ?s "[1, 0, 1, 0, 1]"]
  have h1: "layer (w1 ?s) (b1 ?s) [1, 0, 1, 0, 1] = replicate 16 (lit 3)"
    by (simp add: layer_def dot_def default_weights_def numeral_eq_Suc relu_def fmax_def fin_arith from_nzero)
  have h2: "layer (w2 ?s) (b2 ?s) (replicate 16 (lit 3)) = replicate 8 0"
    by (simp add: layer_def dot_def default_weights_def numeral_eq_Suc relu_def fmax_def fin_arith from_nzero)
  have "dot (w3 ?s) (replicate 8 0) + b3 ?s = lit 2"
    by (simp add: dot_def default_weights_def numeral_eq_Suc fin_arith from_nzero)
  with claim show ?thesis unfolding h1 h2 Let_def by simp
qed

end
