(* ===== verification/AirState.thy ===== *)
theory AirState
  imports FailSafe
begin

text \<open>
  The canonical advisory telemetry of \<open>src/latentmesh/state.rs\<close>: validation of a drone's state, its conversion to
  signed Q16.16 symbols and the reconstruction from the symbols of a peer. The symbol store
  \<open>CriticalState\<close> of the crate \<open>latentmesh_air_core\<close> is a parameter: a record of the operations the source calls.
\<close>

section \<open>Symbols and their store\<close>

datatype 'o symbol_value = SymU64 u64 | SymQ16 i32 | SymOther 'o

record ('cs, 'o, 'e) critical_ops =
  cs_new :: 'cs
  cs_set :: "'cs \<Rightarrow> u16 \<Rightarrow> 'o symbol_value \<Rightarrow> 'e + 'cs"
  cs_get :: "'cs \<Rightarrow> u16 \<Rightarrow> 'o symbol_value option"
  cs_fields :: "'cs \<Rightarrow> u16 list"

text \<open>What the source relies on: a new state is empty, a set that succeeds changes its own field only, and the iteration lists the fields that are set.\<close>

definition critical_laws :: "('cs, 'o, 'e) critical_ops \<Rightarrow> bool" where
  "critical_laws A \<longleftrightarrow>
     (\<forall>k. cs_get A (cs_new A) k = None) \<and>
     (\<forall>s k v s'. cs_set A s k v = Inr s' \<longrightarrow> (\<forall>k'. cs_get A s' k' = (if k' = k then Some v else cs_get A s k'))) \<and>
     (\<forall>s. set (cs_fields A s) = {k. cs_get A s k \<noteq> None})"

definition critical_state_schema_version :: u64 where "critical_state_schema_version = 1"

definition field_schema_version :: u16 where "field_schema_version = 0x0001"
definition field_node_id :: u16 where "field_node_id = 0x0010"
definition field_position_north_m :: u16 where "field_position_north_m = 0x0100"
definition field_position_east_m :: u16 where "field_position_east_m = 0x0101"
definition field_position_down_m :: u16 where "field_position_down_m = 0x0102"
definition field_velocity_north_mps :: u16 where "field_velocity_north_mps = 0x0200"
definition field_velocity_east_mps :: u16 where "field_velocity_east_mps = 0x0201"
definition field_velocity_down_mps :: u16 where "field_velocity_down_mps = 0x0202"
definition field_heading_rad :: u16 where "field_heading_rad = 0x0300"
definition field_altitude_agl_m :: u16 where "field_altitude_agl_m = 0x0301"
definition field_battery_pct :: u16 where "field_battery_pct = 0x0400"
definition field_link_quality :: u16 where "field_link_quality = 0x0401"
definition field_timestamp_ms :: u16 where "field_timestamp_ms = 0x0402"
definition field_failsafe_state :: u16 where "field_failsafe_state = 0x0403"

lemmas field_defs = field_schema_version_def field_node_id_def field_position_north_m_def field_position_east_m_def
  field_position_down_m_def field_velocity_north_mps_def field_velocity_east_mps_def field_velocity_down_mps_def
  field_heading_rad_def field_altitude_agl_m_def field_battery_pct_def field_link_quality_def field_timestamp_ms_def
  field_failsafe_state_def

definition required_fields :: "u16 list" where
  "required_fields =
    [field_schema_version, field_node_id, field_position_north_m, field_position_east_m, field_position_down_m,
     field_velocity_north_mps, field_velocity_east_mps, field_velocity_down_mps, field_heading_rad,
     field_altitude_agl_m, field_battery_pct, field_link_quality, field_timestamp_ms, field_failsafe_state]"

definition q16_16_scale :: f64 where "q16_16_scale = lit 65536"
definition q16_16_min :: f64 where "q16_16_min = lit (- 2147483648) / q16_16_scale"
definition q16_16_max :: f64 where "q16_16_max = lit 2147483647 / q16_16_scale"
definition tau :: f64 where "tau = lit (628318530717958647692528676655900577 / 100000000000000000000000000000000000)"

datatype 'e state_error =
    NonFinite string
  | OutOfRange string string string
  | MissingField u16
  | WrongType u16
  | UnknownField u16
  | UnsupportedSchema u64
  | UnknownFailsafe u64
  | StateAir 'e

record advisory_peer_snapshot =
  snap_drone :: drone_state
  snap_failsafe :: fail_safe_state

section \<open>Validation\<close>

definition validate_q16 :: "string \<Rightarrow> f64 \<Rightarrow> 'e state_error + unit" where
  "validate_q16 field v =
    (if \<not> is_finite v then Inl (NonFinite field)
     else if \<not> in_range q16_16_min q16_16_max v then Inl (OutOfRange field ''-32768'' ''32767.99998'')
     else Inr ())"

definition validate_bounded :: "string \<Rightarrow> f64 \<Rightarrow> f64 \<Rightarrow> f64 \<Rightarrow> string \<Rightarrow> string \<Rightarrow> 'e state_error + unit" where
  "validate_bounded field v lo hi lo_label hi_label =
    (if \<not> is_finite v then Inl (NonFinite field)
     else if \<not> in_range lo hi v then Inl (OutOfRange field lo_label hi_label)
     else validate_q16 field v)"

fun validate_each :: "(string \<times> f64) list \<Rightarrow> 'e state_error + unit" where
  "validate_each [] = Inr ()"
| "validate_each ((name, v) # xs) = bindE (validate_q16 name v) (\<lambda>_. validate_each xs)"

definition validate_domain_ranges :: "drone_state \<Rightarrow> 'e state_error + unit" where
  "validate_domain_ranges d =
    bindE (validate_each
      [(''position.x'', px (ds_position d)), (''position.y'', py (ds_position d)), (''position.z'', pz (ds_position d)),
       (''velocity.vx'', vx (ds_velocity d)), (''velocity.vy'', vy (ds_velocity d)), (''velocity.vz'', vz (ds_velocity d))])
    (\<lambda>_. bindE (validate_bounded ''heading_rad'' (heading_rad d) (- tau) tau ''-2*pi'' ''2*pi'')
    (\<lambda>_. bindE (validate_bounded ''altitude_agl_m'' (altitude_agl_m d) (lit 0) q16_16_max ''0'' ''32767.99998'')
    (\<lambda>_. bindE (validate_bounded ''battery_pct'' (fcast (battery_pct d)) (lit 0) (lit 100) ''0'' ''100'')
    (\<lambda>_. validate_bounded ''link_quality'' (fcast (link_quality d)) (lit 0) (lit 1) ''0'' ''1''))))"

section \<open>Encoding\<close>

fun failsafe_code :: "fail_safe_state \<Rightarrow> u64" where
  "failsafe_code Nominal = 0"
| "failsafe_code AutonomousHold = 1"
| "failsafe_code LowBatteryWarn = 2"
| "failsafe_code ReturnToHome = 3"
| "failsafe_code EmergencyLand = 4"
| "failsafe_code EmergencyDiverge = 5"
| "failsafe_code ControlledDescent = 6"

definition failsafe_from_code :: "u64 \<Rightarrow> 'e state_error + fail_safe_state" where
  "failsafe_from_code c =
    (if c = 0 then Inr Nominal else if c = 1 then Inr AutonomousHold else if c = 2 then Inr LowBatteryWarn
     else if c = 3 then Inr ReturnToHome else if c = 4 then Inr EmergencyLand else if c = 5 then Inr EmergencyDiverge
     else if c = 6 then Inr ControlledDescent else Inl (UnknownFailsafe c))"

definition q16_scaled :: "f64 \<Rightarrow> f64" where
  "q16_scaled v = fround (v * q16_16_scale)"

definition set_q16 :: "('cs, 'o, 'e) critical_ops \<Rightarrow> 'cs \<Rightarrow> u16 \<Rightarrow> string \<Rightarrow> f64 \<Rightarrow> 'e state_error + 'cs" where
  "set_q16 A st field name v =
    bindE (validate_q16 name v) (\<lambda>_.
      let scaled = q16_scaled v in
      if \<not> in_range (lit (- 2147483648)) (lit 2147483647) scaled then Inl (OutOfRange name ''-32768'' ''32767.99998'')
      else map_err StateAir (cs_set A st field (SymQ16 (as_signed scaled))))"

text \<open>The assignments of \<open>to_critical_state\<close>, each followed by \<open>?\<close>.\<close>

datatype assignment = PutU64 u16 u64 | PutQ16 u16 string f64

fun put :: "('cs, 'o, 'e) critical_ops \<Rightarrow> 'cs \<Rightarrow> assignment \<Rightarrow> 'e state_error + 'cs" where
  "put A st (PutU64 k v) = map_err StateAir (cs_set A st k (SymU64 v))"
| "put A st (PutQ16 k name v) = set_q16 A st k name v"

fun put_all :: "('cs, 'o, 'e) critical_ops \<Rightarrow> 'cs \<Rightarrow> assignment list \<Rightarrow> 'e state_error + 'cs" where
  "put_all A st [] = Inr st"
| "put_all A st (a # as) = bindE (put A st a) (\<lambda>st'. put_all A st' as)"

definition assignments :: "drone_state \<Rightarrow> fail_safe_state \<Rightarrow> assignment list" where
  "assignments d fs =
    [PutU64 field_schema_version critical_state_schema_version,
     PutU64 field_node_id (ucast (ds_id d)),
     PutQ16 field_position_north_m ''position.x'' (px (ds_position d)),
     PutQ16 field_position_east_m ''position.y'' (py (ds_position d)),
     PutQ16 field_position_down_m ''position.z'' (pz (ds_position d)),
     PutQ16 field_velocity_north_mps ''velocity.vx'' (vx (ds_velocity d)),
     PutQ16 field_velocity_east_mps ''velocity.vy'' (vy (ds_velocity d)),
     PutQ16 field_velocity_down_mps ''velocity.vz'' (vz (ds_velocity d)),
     PutQ16 field_heading_rad ''heading_rad'' (heading_rad d),
     PutQ16 field_altitude_agl_m ''altitude_agl_m'' (altitude_agl_m d),
     PutQ16 field_battery_pct ''battery_pct'' (fcast (battery_pct d)),
     PutQ16 field_link_quality ''link_quality'' (fcast (link_quality d)),
     PutU64 field_timestamp_ms (timestamp_ms d),
     PutU64 field_failsafe_state (failsafe_code fs)]"

definition to_critical_state ::
  "('cs, 'o, 'e) critical_ops \<Rightarrow> drone_state \<Rightarrow> fail_safe_state \<Rightarrow> 'e state_error + 'cs" where
  "to_critical_state A d fs =
    bindE (validate_domain_ranges d) (\<lambda>_. put_all A (cs_new A) (assignments d fs))"

section \<open>Decoding\<close>

definition required_u64 :: "('cs, 'o, 'e) critical_ops \<Rightarrow> 'cs \<Rightarrow> u16 \<Rightarrow> 'e state_error + u64" where
  "required_u64 A st k = (case cs_get A st k of
     Some (SymU64 v) \<Rightarrow> Inr v
   | Some _ \<Rightarrow> Inl (WrongType k)
   | None \<Rightarrow> Inl (MissingField k))"

definition required_q16 :: "('cs, 'o, 'e) critical_ops \<Rightarrow> 'cs \<Rightarrow> u16 \<Rightarrow> 'e state_error + f64" where
  "required_q16 A st k = (case cs_get A st k of
     Some (SymQ16 v) \<Rightarrow> Inr (of_signed v / q16_16_scale)
   | Some _ \<Rightarrow> Inl (WrongType k)
   | None \<Rightarrow> Inl (MissingField k))"

definition validate_field_set :: "('cs, 'o, 'e) critical_ops \<Rightarrow> 'cs \<Rightarrow> 'e state_error + unit" where
  "validate_field_set A st =
    (case find (\<lambda>k. cs_get A st k = None) required_fields of
       Some k \<Rightarrow> Inl (MissingField k)
     | None \<Rightarrow>
        (case find (\<lambda>k. k \<notin> set required_fields) (cs_fields A st) of
           Some k \<Rightarrow> Inl (UnknownField k)
         | None \<Rightarrow> Inr ()))"

definition from_critical_state :: "('cs, 'o, 'e) critical_ops \<Rightarrow> 'cs \<Rightarrow> 'e state_error + advisory_peer_snapshot" where
  "from_critical_state A st =
    bindE (validate_field_set A st) (\<lambda>_.
    bindE (required_u64 A st field_schema_version) (\<lambda>schema.
    if schema \<noteq> critical_state_schema_version then Inl (UnsupportedSchema schema) else
    bindE (required_u64 A st field_node_id) (\<lambda>node64.
    bindE (ok_or (OutOfRange ''node_id'' ''0'' ''u32::MAX'') (try_from node64)) (\<lambda>node.
    bindE (bindE (required_u64 A st field_failsafe_state) failsafe_from_code) (\<lambda>fs.
    bindE (required_q16 A st field_position_north_m) (\<lambda>x.
    bindE (required_q16 A st field_position_east_m) (\<lambda>y.
    bindE (required_q16 A st field_position_down_m) (\<lambda>z.
    bindE (required_q16 A st field_velocity_north_mps) (\<lambda>vn.
    bindE (required_q16 A st field_velocity_east_mps) (\<lambda>ve.
    bindE (required_q16 A st field_velocity_down_mps) (\<lambda>vd.
    bindE (required_q16 A st field_heading_rad) (\<lambda>hd.
    bindE (required_q16 A st field_altitude_agl_m) (\<lambda>alt.
    bindE (required_q16 A st field_battery_pct) (\<lambda>bat.
    bindE (required_q16 A st field_link_quality) (\<lambda>lq.
    bindE (required_u64 A st field_timestamp_ms) (\<lambda>ts.
    let d = \<lparr>ds_id = node, ds_position = \<lparr>px = x, py = y, pz = z\<rparr>, ds_velocity = \<lparr>vx = vn, vy = ve, vz = vd\<rparr>,
             heading_rad = hd, altitude_agl_m = alt, battery_pct = fcast bat, link_quality = fcast lq, timestamp_ms = ts\<rparr>
    in bindE (validate_domain_ranges d) (\<lambda>_. Inr \<lparr>snap_drone = d, snap_failsafe = fs\<rparr>)))))))))))))))))"

section \<open>The constants\<close>

lemma q16_consts [simp]:
  "q16_16_scale = Fin 65536" "q16_16_min = Fin (- 32768)" "q16_16_max = Fin (2147483647 / 65536)"
  by (simp_all add: q16_16_scale_def q16_16_min_def q16_16_max_def Fin_div mk_def)

lemma tau_value: "tau = Fin (7074237752028440 / 2 ^ 50)"
  unfolding tau_def lit_def
  using rnd_decimal[where ?'a = 64, of 7074237752028440 50 "628318530717958647692528676655900577 / 100000000000000000000000000000000000"]
  by simp

lemma in_range_finite: "in_range (Fin a) (Fin b) x \<longleftrightarrow> is_finite x \<and> a \<le> rval x \<and> rval x \<le> b"
  by (cases x) (auto simp: in_range_def)

lemma minus_tau: "- tau = Fin (- (7074237752028440 / 2 ^ 50))"
  by (simp add: tau_value)

lemma validate_q16_ok [simp]: "validate_q16 n v = Inr u \<longleftrightarrow> in_range q16_16_min q16_16_max v"
  by (auto simp: validate_q16_def in_range_finite)

lemma validate_bounded_ok [simp]:
  "validate_bounded n v (Fin a) (Fin b) l h = Inr u \<longleftrightarrow> in_range (Fin a) (Fin b) v \<and> in_range q16_16_min q16_16_max v"
  by (auto simp: validate_bounded_def in_range_finite)

text \<open>What every validated state satisfies, in rational numbers.\<close>

definition telemetry_ok :: "drone_state \<Rightarrow> bool" where
  "telemetry_ok d \<longleftrightarrow>
     (\<forall>v \<in> {px (ds_position d), py (ds_position d), pz (ds_position d), vx (ds_velocity d), vy (ds_velocity d), vz (ds_velocity d)}.
        in_range (Fin (- 32768)) (Fin (2147483647 / 65536)) v) \<and>
     in_range (- tau) tau (heading_rad d) \<and>
     in_range (Fin 0) (Fin (2147483647 / 65536)) (altitude_agl_m d) \<and>
     in_range (Fin 0) (Fin 100) (fcast (battery_pct d) :: f64) \<and>
     in_range (Fin 0) (Fin 1) (fcast (link_quality d) :: f64)"

lemma validate_domain_ranges_ok: "validate_domain_ranges d = Inr u \<longleftrightarrow> telemetry_ok d"
  unfolding validate_domain_ranges_def telemetry_ok_def minus_tau unfolding tau_value
  by (auto simp: in_range_finite)

section \<open>Q16.16 conversion\<close>

definition q16_of :: "f64 \<Rightarrow> i32" where
  "q16_of v = as_signed (q16_scaled v)"

definition q16_val :: "i32 \<Rightarrow> f64" where
  "q16_val w = of_signed w / q16_16_scale"

lemma fround_int:
  "\<exists>k::int. (fround (Fin q) :: f64) \<in> {Fin (of_int k), NZero} \<and> rval (fround (Fin q) :: f64) = of_int k \<and> \<bar>of_int k - q\<bar> \<le> 1/2"
proof -
  let ?k = "if 0 \<le> q then \<lfloor>q + 1/2\<rfloor> else - \<lfloor>1/2 - q\<rfloor>"
  have "\<bar>of_int ?k - q\<bar> \<le> 1/2"
  proof -
    define a b where "a = (of_int \<lfloor>q + 1/2\<rfloor> :: rat)" and "b = (of_int \<lfloor>1/2 - q\<rfloor> :: rat)"
    have "a \<le> q + 1/2" "q + 1/2 < a + 1" "b \<le> 1/2 - q" "1/2 - q < b + 1"
      using floor_correct[of "q + 1/2"] floor_correct[of "1/2 - q"] unfolding a_def b_def of_int_add of_int_1 by blast+
    then have "\<bar>a - q\<bar> \<le> 1/2" "\<bar>- b - q\<bar> \<le> 1/2" unfolding abs_le_iff by linarith+
    then show ?thesis by (cases "0 \<le> q") (simp_all only: a_def b_def if_True if_False of_int_minus)
  qed
  then show ?thesis by (intro exI[of _ ?k]) (auto simp: signed_int_def signed_zero_def)
qed

lemma representable_scale:
  assumes "representable TYPE(64) q" "\<bar>q\<bar> \<le> 2 ^ 16"
  shows "representable TYPE(64) (q * 65536)"
proof (cases "q = 0")
  case True
  then show ?thesis using representable_numeral(5) by simp
next
  case False
  obtain m e where q: "q = of_int m * 2 powi e" "\<bar>m\<bar> < 2 ^ prec TYPE(64)" "emin TYPE(64) \<le> e"
    using assms(1) unfolding representable_def by blast
  have "1 \<le> \<bar>m\<bar>" using False q(1) by auto
  then have "(1::rat) \<le> \<bar>of_int m\<bar>" by (metis of_int_abs of_int_1_le_iff)
  then have "2 powi e \<le> \<bar>q\<bar>" unfolding q(1) by (simp add: abs_mult)
  then have "(2::rat) powi e \<le> 2 powi 16" using assms(2) by simp
  then have "e \<le> 16" by (simp only: powi_le_iff)
  then have "e + 16 \<le> emax TYPE(64)" by simp
  moreover have "q * 65536 = of_int m * 2 powi (e + 16)" by (simp add: q(1) powi_add)
  ultimately show ?thesis using q unfolding representable_def by (intro exI[of _ m] exI[of _ "e + 16"]) auto
qed

lemma q16_scaled_near:
  assumes "valid v" "in_range q16_16_min q16_16_max v"
  obtains k where "rval (q16_scaled v) = of_int k" "is_finite (q16_scaled v)"
    "\<bar>of_int k - rval v * 65536\<bar> \<le> 1/2" "- 2147483648 \<le> k" "k \<le> 2147483647" "as_signed (q16_scaled v) = (word_of_int k :: i32)"
proof -
  have fin: "is_finite v" and lo: "- 32768 \<le> rval v" and hi: "rval v \<le> 2147483647 / 65536"
    using assms(2) by (auto simp: in_range_finite)
  have "\<exists>q. v * Fin 65536 = (if q = 0 \<and> neg_bit v then NZero else Fin q) \<and> q = rval v * 65536"
  proof (cases v)
    case (Fin q)
    have "representable TYPE(64) (q * 65536)" using assms(1) lo hi Fin by (intro representable_scale) auto
    then show ?thesis using Fin by (auto simp: Fin_mult mk_def signed_zero_def rnd_exact)
  qed (use fin in \<open>auto simp: times_flt_def is_zero_def mk_def signed_zero_def\<close>)
  then obtain q where q: "v * Fin 65536 = (if q = 0 \<and> neg_bit v then NZero else Fin q)" "q = rval v * 65536" by blast
  obtain k :: int where k: "(fround (Fin q) :: f64) \<in> {Fin (of_int k), NZero}" "rval (fround (Fin q) :: f64) = of_int k" "\<bar>of_int k - q\<bar> \<le> 1/2"
    using fround_int[of q] by blast
  have sc: "is_finite (q16_scaled v) \<and> rval (q16_scaled v) = of_int k \<and> q16_scaled v \<in> {Fin (of_int k), NZero}"
  proof (cases "q = 0 \<and> neg_bit v")
    case True
    then have "(of_int k :: rat) \<le> 1/2" "- (1/2) \<le> (of_int k :: rat)" using k(3) by (simp_all add: abs_le_iff)
    then have "k = 0" by linarith
    then show ?thesis using True q(1) by (simp add: q16_scaled_def)
  next
    case False
    then show ?thesis using q(1) k(1,2) by (auto simp: q16_scaled_def)
  qed
  have "(of_int k :: rat) \<le> 2147483647 + 1/2" "- 2147483648 - 1/2 \<le> (of_int k :: rat)"
    using k(3) lo hi unfolding q(2) by linarith+
  then have b: "k \<le> 2147483647" "- 2147483648 \<le> k" by linarith+
  have "k = 0" if "q16_scaled v = NZero" using sc that by auto
  moreover have "trunc (of_int k) = k" by (simp add: trunc_def)
  ultimately have "as_signed (q16_scaled v) = (word_of_int k :: i32)" using sc b by auto
  then show thesis using that sc k(3) b unfolding q(2) by blast
qed

lemma q16_val_eq: "q16_val w = Fin (of_int (sint w) / 65536)"
proof -
  have w: "- 2147483648 \<le> sint w" "sint w < 2147483648"
    using sint_greater_eq[of w] sint_less[of w] by simp_all
  have "(rnd (of_int (sint w)) :: f64) = Fin (of_int (sint w))"
    using w by (intro rnd_exact representable_int) auto
  moreover have "(rnd (of_int (sint w) / of_int 65536) :: f64) = Fin (of_int (sint w) / of_int 65536)"
    using w by (intro rnd_exact representable_dyadic) auto
  ultimately show ?thesis by (simp add: q16_val_def of_signed_def Fin_div mk_def signed_zero_def)
qed

lemma q16_round_trip:
  assumes "valid v" "in_range q16_16_min q16_16_max v"
  shows "\<exists>k. q16_val (q16_of v) = Fin (of_int k / 65536) \<and> \<bar>of_int k / 65536 - rval v\<bar> \<le> 1 / 2 ^ 17 \<and>
     - 2147483648 \<le> k \<and> k \<le> 2147483647 \<and> (\<forall>c. of_int c \<le> 65536 * rval v \<longrightarrow> c \<le> k) \<and> (\<forall>c. 65536 * rval v \<le> of_int c \<longrightarrow> k \<le> c)"
proof -
  obtain k where k: "\<bar>of_int k - rval v * 65536\<bar> \<le> 1/2" "- 2147483648 \<le> k" "k \<le> 2147483647"
    "as_signed (q16_scaled v) = (word_of_int k :: i32)" by (rule q16_scaled_near[OF assms])
  have "sint (word_of_int k :: i32) = k" using k(2,3) by (simp add: sint_sbintrunc' signed_take_bit_int_eq_self)
  then have "q16_val (q16_of v) = Fin (of_int k / 65536)" unfolding q16_of_def k(4) q16_val_eq by simp
  moreover have "\<bar>of_int k / 65536 - rval v\<bar> \<le> 1 / 2 ^ 17" using k(1) by (simp add: abs_le_iff field_simps)
  moreover have "c \<le> k" if "of_int c \<le> 65536 * rval v" for c
    using k(1) that unfolding abs_le_iff by linarith
  moreover have "k \<le> c" if "65536 * rval v \<le> of_int c" for c
    using k(1) that unfolding abs_le_iff by linarith
  ultimately show ?thesis using k(2,3) by blast
qed

section \<open>What is stored\<close>

fun field_of :: "assignment \<Rightarrow> u16" where
  "field_of (PutU64 k _) = k"
| "field_of (PutQ16 k _ _) = k"

fun symbol_of :: "assignment \<Rightarrow> 'o symbol_value" where
  "symbol_of (PutU64 _ v) = SymU64 v"
| "symbol_of (PutQ16 _ _ v) = SymQ16 (q16_of v)"

lemma put_get:
  assumes "critical_laws A" "put A st a = Inr st'"
  shows "cs_get A st' k = (if k = field_of a then Some (symbol_of a) else cs_get A st k)"
proof (cases a)
  case (PutU64 k' v)
  then have "cs_set A st k' (SymU64 v) = Inr st'" using assms(2) by simp
  then show ?thesis using assms(1) PutU64 by (simp add: critical_laws_def)
next
  case (PutQ16 k' n v)
  then have "cs_set A st k' (SymQ16 (q16_of v)) = Inr st'"
    using assms(2) by (auto simp: set_q16_def Let_def q16_of_def split: if_splits)
  then show ?thesis using assms(1) PutQ16 by (simp add: critical_laws_def)
qed

lemma put_all_get:
  assumes "critical_laws A" "put_all A st as = Inr st'" "distinct (map field_of as)"
  shows "(\<forall>a \<in> set as. cs_get A st' (field_of a) = Some (symbol_of a)) \<and>
    (\<forall>k. k \<notin> field_of ` set as \<longrightarrow> cs_get A st' k = cs_get A st k)"
  using assms(2,3)
proof (induction as arbitrary: st)
  case (Cons a as)
  then obtain st1 where "put A st a = Inr st1" "put_all A st1 as = Inr st'" by auto
  with Cons show ?case using put_get[OF assms(1)] by auto
qed simp

lemma assignments_fields: "map field_of (assignments d fs) = required_fields"
  by (simp add: assignments_def required_fields_def)

lemma required_distinct: "distinct required_fields"
  by (simp add: required_fields_def field_defs)

lemma stored:
  assumes "critical_laws A" "to_critical_state A d fs = Inr st"
  shows "\<forall>a \<in> set (assignments d fs). cs_get A st (field_of a) = Some (symbol_of a)"
    and "set (cs_fields A st) = set required_fields" and "telemetry_ok d"
proof -
  have r: "put_all A (cs_new A) (assignments d fs) = Inr st" "telemetry_ok d"
    using assms(2) by (auto simp: to_critical_state_def validate_domain_ranges_ok)
  have "distinct (map field_of (assignments d fs))" by (simp only: assignments_fields required_distinct)
  note g = put_all_get[OF assms(1) r(1) this]
  then show "\<forall>a \<in> set (assignments d fs). cs_get A st (field_of a) = Some (symbol_of a)" by blast
  have "field_of ` set (assignments d fs) = set required_fields" by (simp only: set_map[symmetric] assignments_fields)
  then have "cs_get A st k \<noteq> None \<longleftrightarrow> k \<in> set required_fields" for k
    using g assms(1) unfolding critical_laws_def by (metis (no_types, lifting) imageE option.distinct(1))
  then show "set (cs_fields A st) = set required_fields" using assms(1) by (auto simp: critical_laws_def)
  show "telemetry_ok d" by (rule r(2))
qed

lemma field_set_ok:
  assumes "set (cs_fields A st) = set required_fields" "critical_laws A"
  shows "validate_field_set A st = Inr ()"
proof -
  have "find (\<lambda>k. cs_get A st k = None) required_fields = None"
    using assms by (auto simp: find_None_iff critical_laws_def)
  moreover have "find (\<lambda>k. k \<notin> set required_fields) (cs_fields A st) = None"
    using assms(1) by (auto simp: find_None_iff)
  ultimately show ?thesis by (simp add: validate_field_set_def)
qed

lemma failsafe_code_inverse [simp]: "failsafe_from_code (failsafe_code fs) = Inr fs"
  by (cases fs) (simp_all add: failsafe_from_code_def)

text \<open>The state a peer reconstructs: every float is replaced by its Q16.16 neighbour.\<close>

definition quantised :: "drone_state \<Rightarrow> drone_state" where
  "quantised d =
    (let q = (\<lambda>v. q16_val (q16_of v)) in
     \<lparr>ds_id = ds_id d,
      ds_position = \<lparr>px = q (px (ds_position d)), py = q (py (ds_position d)), pz = q (pz (ds_position d))\<rparr>,
      ds_velocity = \<lparr>vx = q (vx (ds_velocity d)), vy = q (vy (ds_velocity d)), vz = q (vz (ds_velocity d))\<rparr>,
      heading_rad = q (heading_rad d), altitude_agl_m = q (altitude_agl_m d),
      battery_pct = fcast (q (fcast (battery_pct d))), link_quality = fcast (q (fcast (link_quality d))),
      timestamp_ms = timestamp_ms d\<rparr>)"

lemma try_from_ucast: "try_from (ucast w :: u64) = Some (w :: u32)"
proof -
  have "unat w < 2 ^ 32" using unat_bound[of w] by simp
  then show ?thesis unfolding try_from_Some by (simp add: unsigned_ucast_eq take_bit_nat_eq_self)
qed

lemma from_to:
  assumes "critical_laws A" "to_critical_state A d fs = Inr st"
  shows "from_critical_state A st = bindE (validate_domain_ranges (quantised d)) (\<lambda>_. Inr \<lparr>snap_drone = quantised d, snap_failsafe = fs\<rparr>)"
proof -
  note g = stored(1)[OF assms]
  have eqs: "required_u64 A st field_schema_version = Inr critical_state_schema_version"
    "required_u64 A st field_node_id = Inr (ucast (ds_id d))"
    "required_u64 A st field_timestamp_ms = Inr (timestamp_ms d)"
    "required_u64 A st field_failsafe_state = Inr (failsafe_code fs)"
    "required_q16 A st field_position_north_m = Inr (q16_val (q16_of (px (ds_position d))))"
    "required_q16 A st field_position_east_m = Inr (q16_val (q16_of (py (ds_position d))))"
    "required_q16 A st field_position_down_m = Inr (q16_val (q16_of (pz (ds_position d))))"
    "required_q16 A st field_velocity_north_mps = Inr (q16_val (q16_of (vx (ds_velocity d))))"
    "required_q16 A st field_velocity_east_mps = Inr (q16_val (q16_of (vy (ds_velocity d))))"
    "required_q16 A st field_velocity_down_mps = Inr (q16_val (q16_of (vz (ds_velocity d))))"
    "required_q16 A st field_heading_rad = Inr (q16_val (q16_of (heading_rad d)))"
    "required_q16 A st field_altitude_agl_m = Inr (q16_val (q16_of (altitude_agl_m d)))"
    "required_q16 A st field_battery_pct = Inr (q16_val (q16_of (fcast (battery_pct d))))"
    "required_q16 A st field_link_quality = Inr (q16_val (q16_of (fcast (link_quality d))))"
    using g by (simp_all add: assignments_def required_u64_def required_q16_def q16_val_def)
  show ?thesis
    unfolding from_critical_state_def eqs field_set_ok[OF stored(2)[OF assms] assms(1)]
    by (simp add: try_from_ucast quantised_def Let_def)
qed

section \<open>Round trip\<close>

definition valid_drone :: "drone_state \<Rightarrow> bool" where
  "valid_drone d \<longleftrightarrow>
     (\<forall>v \<in> {px (ds_position d), py (ds_position d), pz (ds_position d), vx (ds_velocity d), vy (ds_velocity d),
        vz (ds_velocity d), heading_rad d, altitude_agl_m d}. valid v) \<and> valid (battery_pct d) \<and> valid (link_quality d)"

text \<open>Two finite values that differ by at most half of the Q16.16 unit.\<close>

definition half_unit :: "'a::len flt \<Rightarrow> 'a flt \<Rightarrow> bool" where
  "half_unit a b \<longleftrightarrow> is_finite a \<and> is_finite b \<and> \<bar>rval a - rval b\<bar> \<le> 1 / 2 ^ 17"

definition half_unit_drone :: "drone_state \<Rightarrow> drone_state \<Rightarrow> bool" where
  "half_unit_drone c d \<longleftrightarrow>
     half_unit (px (ds_position c)) (px (ds_position d)) \<and> half_unit (py (ds_position c)) (py (ds_position d)) \<and>
     half_unit (pz (ds_position c)) (pz (ds_position d)) \<and> half_unit (vx (ds_velocity c)) (vx (ds_velocity d)) \<and>
     half_unit (vy (ds_velocity c)) (vy (ds_velocity d)) \<and> half_unit (vz (ds_velocity c)) (vz (ds_velocity d)) \<and>
     half_unit (heading_rad c) (heading_rad d) \<and> half_unit (altitude_agl_m c) (altitude_agl_m d) \<and>
     half_unit (battery_pct c) (battery_pct d) \<and> half_unit (link_quality c) (link_quality d)"

lemma widen_f32: "valid (b :: f32) \<Longrightarrow> valid (fcast b :: f64) \<and> (is_finite b \<longrightarrow> rval (fcast b :: f64) = rval b) \<and> (is_finite (fcast b :: f64) \<longleftrightarrow> is_finite b)"
proof (cases b)
  case (Fin q)
  assume "valid b"
  then have "representable TYPE(32) q" using Fin by simp
  then obtain m e where "q = of_int m * 2 powi e" "\<bar>m\<bar> < 2 ^ 24" "- 149 \<le> e" "e \<le> 104"
    unfolding representable_def prec_simps emin_simps emax_simps by blast
  then have "representable TYPE(64) q" unfolding representable_def by (intro exI[of _ m] exI[of _ e]) auto
  then show ?thesis using Fin by (simp add: rnd_exact)
qed auto

lemma q16_between:
  assumes "valid v" "in_range (Fin (of_int a / 65536)) (Fin (of_int b / 65536)) v" "- 2147483648 \<le> a" "b \<le> 2147483647"
  shows "in_range (Fin (of_int a / 65536)) (Fin (of_int b / 65536)) (q16_val (q16_of v)) \<and> half_unit (q16_val (q16_of v)) v"
proof -
  have fin: "is_finite v" and lo: "of_int a / 65536 \<le> rval v" and hi: "rval v \<le> of_int b / 65536"
    using assms(2) by (auto simp: in_range_finite)
  have ab: "(- 2147483648 :: rat) \<le> of_int a" "of_int b \<le> (2147483647 :: rat)" using assms(3,4) by linarith+
  have "in_range q16_16_min q16_16_max v" using fin lo hi ab unfolding q16_consts in_range_finite by (simp add: field_simps)
  from q16_round_trip[OF assms(1) this] obtain k where k: "q16_val (q16_of v) = Fin (of_int k / 65536)"
    "\<bar>of_int k / 65536 - rval v\<bar> \<le> 1 / 2 ^ 17" "of_int a \<le> 65536 * rval v \<longrightarrow> a \<le> k" "65536 * rval v \<le> of_int b \<longrightarrow> k \<le> b"
    by blast
  have "a \<le> k" "k \<le> b" using k(3,4) lo hi by (simp_all add: field_simps)
  then show ?thesis using k(1,2) fin by (simp add: in_range_finite half_unit_def divide_right_mono)
qed

lemma q16_between_f32:
  assumes "valid (b :: f32)" "in_range (Fin 0) (Fin (of_int c)) (fcast b :: f64)" "0 \<le> c" "c \<le> 100"
  shows "in_range (Fin 0) (Fin (of_int c)) (fcast (fcast (q16_val (q16_of (fcast b))) :: f32) :: f64) \<and>
    half_unit (fcast (q16_val (q16_of (fcast b)))) b"
proof -
  let ?v = "fcast b :: f64"
  note w = widen_f32[OF assms(1)]
  have r: "in_range (Fin (of_int 0 / 65536)) (Fin (of_int (65536 * c) / 65536)) ?v" using assms(2) by simp
  have qb: "in_range (Fin (of_int 0 / 65536)) (Fin (of_int (65536 * c) / 65536)) (q16_val (q16_of ?v)) \<and> half_unit (q16_val (q16_of ?v)) ?v"
    using assms(3,4) w by (intro q16_between[OF _ r]) auto
  define k where "k = sint (q16_of ?v)"
  have k: "q16_val (q16_of ?v) = Fin (of_int k / 65536)" by (simp add: k_def q16_val_eq)
  then have "0 \<le> (of_int k :: rat)" "(of_int k :: rat) \<le> of_int (65536 * c)" using qb by (auto simp: in_range_finite field_simps)
  then have kb: "0 \<le> k" "k \<le> 65536 * c" by linarith+
  have "k < 2 ^ 24" using kb assms(4) by simp
  then have "representable TYPE(32) (of_int k / of_int 65536)" "representable TYPE(64) (of_int k / of_int 65536)"
    by - (rule representable_dyadic; use kb in simp)+
  then have "(fcast (q16_val (q16_of ?v)) :: f32) = Fin (of_int k / 65536)" "(rnd (of_int k / 65536) :: f64) = Fin (of_int k / 65536)"
    by (simp_all add: k rnd_exact)
  then show ?thesis using qb k w assms(2) by (auto simp: in_range_finite half_unit_def)
qed

lemma quantised_ok:
  assumes "valid_drone d" "telemetry_ok d" "in_range (Fin (- 411774 / 65536)) (Fin (411774 / 65536)) (heading_rad d)"
  shows "telemetry_ok (quantised d) \<and> half_unit_drone (quantised d) d"
proof -
  have pos: "in_range (Fin (- 32768)) (Fin (2147483647 / 65536)) (q16_val (q16_of v)) \<and> half_unit (q16_val (q16_of v)) v"
    if "valid v" "in_range (Fin (- 32768)) (Fin (2147483647 / 65536)) v" for v
    using q16_between[of v "- 2147483648" 2147483647] that by simp
  have hd: "in_range (Fin (- 411774 / 65536)) (Fin (411774 / 65536)) (q16_val (q16_of (heading_rad d))) \<and>
      half_unit (q16_val (q16_of (heading_rad d))) (heading_rad d)"
    using q16_between[of "heading_rad d" "- 411774" 411774] assms by (simp add: valid_drone_def)
  then have hd2: "in_range (- tau) tau (q16_val (q16_of (heading_rad d)))"
    unfolding minus_tau unfolding tau_value in_range_finite by auto
  have alt: "in_range (Fin 0) (Fin (2147483647 / 65536)) (q16_val (q16_of (altitude_agl_m d))) \<and>
      half_unit (q16_val (q16_of (altitude_agl_m d))) (altitude_agl_m d)"
    using q16_between[of "altitude_agl_m d" 0 2147483647] assms by (simp add: valid_drone_def telemetry_ok_def)
  have bat: "in_range (Fin 0) (Fin 100) (fcast (fcast (q16_val (q16_of (fcast (battery_pct d)))) :: f32) :: f64) \<and>
      half_unit (fcast (q16_val (q16_of (fcast (battery_pct d))))) (battery_pct d)"
    using q16_between_f32[of "battery_pct d" 100] assms by (simp add: valid_drone_def telemetry_ok_def)
  have lnk: "in_range (Fin 0) (Fin 1) (fcast (fcast (q16_val (q16_of (fcast (link_quality d)))) :: f32) :: f64) \<and>
      half_unit (fcast (q16_val (q16_of (fcast (link_quality d))))) (link_quality d)"
    using q16_between_f32[of "link_quality d" 1] assms by (simp add: valid_drone_def telemetry_ok_def)
  show ?thesis using assms(1,2) hd hd2 alt bat lnk
    by (simp add: telemetry_ok_def half_unit_drone_def quantised_def Let_def valid_drone_def pos)
qed

text \<open>
  C6. Over a symbol store that gives back what was put, what a drone encodes, its peers decode: the fail-safe state, the node id and the timestamp come back
  exactly, and every float within half a Q16.16 unit, for every state of valid floats that encodes at all and
  whose heading is at most 411774/65536 (about 0.00001 below a full turn) in either direction.
\<close>

theorem advisory_state_round_trip:
  assumes "critical_laws A" "valid_drone d" "to_critical_state A d fs = Inr st"
    and "in_range (Fin (- 411774 / 65536)) (Fin (411774 / 65536)) (heading_rad d)"
  shows "\<exists>d'. from_critical_state A st = Inr \<lparr>snap_drone = d', snap_failsafe = fs\<rparr> \<and>
    ds_id d' = ds_id d \<and> timestamp_ms d' = timestamp_ms d \<and> half_unit_drone d' d"
proof -
  have "telemetry_ok d" by (rule stored(3)[OF assms(1,3)])
  note q = quantised_ok[OF assms(2) this assms(4)]
  then have "validate_domain_ranges (quantised d) = (Inr () :: 'c state_error + unit)" by (simp add: validate_domain_ranges_ok)
  then have "from_critical_state A st = Inr \<lparr>snap_drone = quantised d, snap_failsafe = fs\<rparr>"
    by (simp add: from_to[OF assms(1,3)])
  then show ?thesis using q by (intro exI[of _ "quantised d"]) (simp add: quantised_def Let_def)
qed

lemma put_all_total:
  assumes "\<And>s k v. \<exists>s'. cs_set A s k v = Inr s'"
    and "\<forall>a \<in> set as. case a of PutU64 _ _ \<Rightarrow> True | PutQ16 _ _ v \<Rightarrow> valid v \<and> in_range q16_16_min q16_16_max v"
  shows "\<exists>st'. put_all A st as = Inr st'"
  using assms(2)
proof (induction as arbitrary: st)
  case (Cons a as)
  have "\<exists>st'. put A st a = Inr st'"
  proof (cases a)
    case (PutU64 k v)
    then show ?thesis using assms(1)[of st k "SymU64 v"] by auto
  next
    case (PutQ16 k n v)
    then have v: "valid v" "in_range q16_16_min q16_16_max v" using Cons.prems by auto
    obtain c where "rval (q16_scaled v) = of_int c" "is_finite (q16_scaled v)" "- 2147483648 \<le> c" "c \<le> 2147483647"
      by (rule q16_scaled_near[OF v]) blast
    moreover from this have "(- 2147483648 :: rat) \<le> of_int c" "of_int c \<le> (2147483647 :: rat)" by linarith+
    ultimately have "in_range (lit (- 2147483648)) (lit 2147483647) (q16_scaled v)" by (simp add: in_range_finite)
    then show ?thesis using v assms(1)[of st k "SymQ16 (as_signed (q16_scaled v))"] PutQ16
      by (auto simp: set_q16_def Let_def)
  qed
  then obtain st1 where "put A st a = Inr st1" by blast
  then show ?case using Cons.IH[of st1] Cons.prems by simp
qed simp

text \<open>
  With a symbol store that never refuses a field, a state of valid floats is encoded exactly when its position,
  velocity and altitude fit Q16.16, the altitude is not negative, the heading is within one turn, the battery within
  [0, 100] and the link quality within [0, 1]; in particular no NaN and no infinity ever reaches the wire.
\<close>

theorem encoding_succeeds_iff_in_range:
  assumes "\<forall>s k v. \<exists>s'. cs_set A s k v = Inr s'" "valid_drone d"
  shows "(\<exists>st. to_critical_state A d fs = Inr st) \<longleftrightarrow> telemetry_ok d"
proof
  assume "\<exists>st. to_critical_state A d fs = Inr st"
  then show "telemetry_ok d" by (auto simp: to_critical_state_def validate_domain_ranges_ok)
next
  assume ok: "telemetry_ok d"
  have narrow: "in_range q16_16_min q16_16_max v" if "in_range (Fin a) (Fin b) v" "- 32768 \<le> a" "b \<le> 2147483647 / 65536" for a b v
    using that by (auto simp: in_range_finite)
  have "in_range q16_16_min q16_16_max (heading_rad d)"
    using ok unfolding telemetry_ok_def minus_tau unfolding tau_value by (intro narrow) auto
  moreover have "in_range q16_16_min q16_16_max (altitude_agl_m d)"
    using ok unfolding telemetry_ok_def by (intro narrow) auto
  moreover have "in_range q16_16_min q16_16_max (fcast (battery_pct d))" "in_range q16_16_min q16_16_max (fcast (link_quality d))"
    using ok narrow[of 0 100 "fcast (battery_pct d)"] narrow[of 0 1 "fcast (link_quality d)"] unfolding telemetry_ok_def by auto
  ultimately have "\<exists>st'. put_all A (cs_new A) (assignments d fs) = Inr st'"
    using assms ok widen_f32 by (intro put_all_total) (auto simp: assignments_def valid_drone_def telemetry_ok_def)
  then show "\<exists>st. to_critical_state A d fs = Inr st"
    using ok validate_domain_ranges_ok[of d "()", where ?'a = 'c] by (simp add: to_critical_state_def)
qed

text \<open>A store on which the source's calls behave as documented: the sorted list of the fields that are set.\<close>

definition list_ops :: "((u16, 'o symbol_value) btree, 'o, 'e) critical_ops" where
  "list_ops = \<lparr>cs_new = [], cs_set = (\<lambda>s k v. Inr (bt_insert k v s)), cs_get = map_of, cs_fields = map fst\<rparr>"

lemma list_ops_laws: "critical_laws list_ops" "\<forall>s k v. \<exists>s'. cs_set list_ops s k v = Inr s'"
  by (auto simp: critical_laws_def list_ops_def map_of_eq_None_iff dest: map_of_SomeD)

lemma origin_ok: "valid_drone (default_at_origin i)" "telemetry_ok (default_at_origin i)"
  by (simp_all add: valid_drone_def telemetry_ok_def default_at_origin_def position_zero_def velocity_default_def
      zero_flt_def representable_numeral tau_value minus_tau[unfolded tau_value] in_range_finite)

theorem encoding_succeeds_iff_in_range_witness:
  "(\<exists>st. to_critical_state (list_ops :: (_, unit, unit) critical_ops) (default_at_origin 7) LowBatteryWarn = Inr st) \<and>
   (\<nexists>st. to_critical_state (list_ops :: (_, unit, unit) critical_ops) ((default_at_origin 7)\<lparr>battery_pct := NaN\<rparr>) LowBatteryWarn = Inr st)"
  using encoding_succeeds_iff_in_range[OF list_ops_laws(2) origin_ok(1)[of 7], of LowBatteryWarn] origin_ok(2)[of 7]
    encoding_succeeds_iff_in_range[OF list_ops_laws(2), of "(default_at_origin 7)\<lparr>battery_pct := NaN\<rparr>" LowBatteryWarn]
    origin_ok(1)[of 7]
  by (simp add: valid_drone_def telemetry_ok_def in_range_finite)

lemma sample_state: "\<exists>st. to_critical_state (list_ops :: (_, unit, 'e) critical_ops) (default_at_origin 7) EmergencyLand = Inr st"
proof -
  let ?A = "list_ops :: (_, unit, 'e) critical_ops" and ?d = "default_at_origin 7"
  have "\<exists>st. put_all ?A (cs_new ?A) (assignments ?d EmergencyLand) = Inr st"
    using list_ops_laws(2)
    by (intro put_all_total) (auto simp: assignments_def default_at_origin_def position_zero_def velocity_default_def zero_flt_def
        representable_numeral in_range_finite)
  then show ?thesis using origin_ok(2)[of 7] validate_domain_ranges_ok[of ?d "()", where ?'a = 'e] by (simp add: to_critical_state_def)
qed

lemma sample_snapshot:
  "\<exists>st d. from_critical_state (list_ops :: (_, unit, 'e) critical_ops) st = Inr \<lparr>snap_drone = d, snap_failsafe = EmergencyLand\<rparr> \<and>
     ds_id d = 7 \<and> timestamp_ms d = 0"
proof -
  obtain st where st: "to_critical_state (list_ops :: (_, unit, 'e) critical_ops) (default_at_origin 7) EmergencyLand = Inr st"
    using sample_state by blast
  have "in_range (Fin (- 411774 / 65536)) (Fin (411774 / 65536)) (heading_rad (default_at_origin 7))"
    by (simp add: default_at_origin_def zero_flt_def in_range_finite)
  note q = quantised_ok[OF origin_ok this]
  have "ds_id (quantised (default_at_origin 7)) = 7" "timestamp_ms (quantised (default_at_origin 7)) = 0"
    by (simp_all add: quantised_def Let_def default_at_origin_def)
  then show ?thesis using q from_to[OF list_ops_laws(1) st] validate_domain_ranges_ok[of "quantised (default_at_origin 7)" "()", where ?'a = 'e]
    by auto
qed

theorem advisory_state_round_trip_witness:
  "\<exists>st d'. to_critical_state (list_ops :: (_, unit, unit) critical_ops) (default_at_origin 7) EmergencyLand = Inr st \<and>
     from_critical_state (list_ops :: (_, unit, unit) critical_ops) st = Inr \<lparr>snap_drone = d', snap_failsafe = EmergencyLand\<rparr> \<and>
     ds_id d' = 7 \<and> half_unit (battery_pct d') (lit 100)"
proof -
  let ?A = "list_ops :: (_, unit, unit) critical_ops" and ?d = "default_at_origin 7"
  obtain st where st: "to_critical_state ?A ?d EmergencyLand = Inr st" using sample_state by blast
  have "in_range (Fin (- 411774 / 65536)) (Fin (411774 / 65536)) (heading_rad ?d)"
    by (simp add: default_at_origin_def zero_flt_def in_range_finite)
  from advisory_state_round_trip[OF list_ops_laws(1) origin_ok(1) st this] obtain d' where
    "from_critical_state ?A st = Inr \<lparr>snap_drone = d', snap_failsafe = EmergencyLand\<rparr>" "ds_id d' = ds_id ?d" "half_unit_drone d' ?d"
    by blast
  moreover from this(3) have "half_unit (battery_pct d') (lit 100)"
    unfolding half_unit_drone_def by (simp add: default_at_origin_def)
  moreover have "ds_id ?d = 7" by (simp add: default_at_origin_def)
  ultimately show ?thesis using st by auto
qed

lemma decoded_in_range: "from_critical_state A st = Inr s \<Longrightarrow> telemetry_ok (snap_drone s)"
  unfolding from_critical_state_def Let_def by (auto simp: validate_domain_ranges_ok split: if_splits)

text \<open>
  Whatever symbols a peer sends, a snapshot that is reconstructed from them carries exactly the fields of
  schema 1 and is in range: no NaN, no infinity, no battery above 100 percent can enter the receiver this way.
\<close>

theorem decoded_state_in_range:
  assumes "from_critical_state A st = Inr s"
  shows "telemetry_ok (snap_drone s) \<and> cs_get A st field_schema_version = Some (SymU64 1) \<and>
    cs_get A st field_node_id = Some (SymU64 (ucast (ds_id (snap_drone s)))) \<and>
    cs_get A st field_timestamp_ms = Some (SymU64 (timestamp_ms (snap_drone s))) \<and>
    (\<forall>k \<in> set required_fields. cs_get A st k \<noteq> None) \<and> set (cs_fields A st) \<subseteq> set required_fields"
proof -
  have u: "required_u64 A st k = Inr v \<longleftrightarrow> cs_get A st k = Some (SymU64 v)" for k v
    by (auto simp: required_u64_def split: option.splits symbol_value.splits)
  have "validate_field_set A st = Inr ()" using assms by (auto simp: from_critical_state_def)
  then have fields: "(\<forall>k \<in> set required_fields. cs_get A st k \<noteq> None) \<and> set (cs_fields A st) \<subseteq> set required_fields"
    by (auto simp: validate_field_set_def find_None_iff split: option.splits)
  obtain node64 where n: "required_u64 A st field_node_id = Inr node64" "try_from node64 = Some (ds_id (snap_drone s))"
    "required_u64 A st field_schema_version = Inr critical_state_schema_version"
    "required_u64 A st field_timestamp_ms = Inr (timestamp_ms (snap_drone s))"
    "telemetry_ok (snap_drone s)"
    using assms unfolding from_critical_state_def Let_def by (auto simp: validate_domain_ranges_ok split: if_splits)
  have "node64 = ucast (ds_id (snap_drone s))" using try_from_back[OF n(2)] by simp
  then show ?thesis using n fields unfolding u by (simp add: critical_state_schema_version_def)
qed

theorem decoded_state_in_range_witness:
  "\<exists>st s. from_critical_state (list_ops :: (_, unit, unit) critical_ops) st = Inr s \<and> telemetry_ok (snap_drone s) \<and>
     cs_get (list_ops :: (_, unit, unit) critical_ops) st field_node_id = Some (SymU64 7)"
proof -
  obtain st d' where s: "from_critical_state (list_ops :: (_, unit, unit) critical_ops) st = Inr \<lparr>snap_drone = d', snap_failsafe = EmergencyLand\<rparr>" "ds_id d' = 7"
    using sample_snapshot[where ?'e = unit] by blast
  note claim = decoded_state_in_range[OF s(1)]
  then have "telemetry_ok d'" "cs_get (list_ops :: (_, unit, unit) critical_ops) st field_node_id = Some (SymU64 7)"
    using s(2) by simp_all
  then show ?thesis using s(1) by (metis advisory_peer_snapshot.select_convs(1))
qed

text \<open>
  A heading of exactly one turn passes the sender's validation, rounds up to 411775/65536, and is refused by every
  receiver, whose bound is again the unrounded full turn.
\<close>

theorem full_turn_heading_is_refused:
  "\<exists>st. to_critical_state (list_ops :: (_, unit, unit) critical_ops) ((default_at_origin 7)\<lparr>heading_rad := tau\<rparr>) Nominal = Inr st \<and>
     from_critical_state (list_ops :: (_, unit, unit) critical_ops) st = Inl (OutOfRange ''heading_rad'' ''-2*pi'' ''2*pi'')"
proof -
  let ?d = "(default_at_origin 7)\<lparr>heading_rad := tau\<rparr>"
  have t: "representable TYPE(64) (884279719003555 / 140737488355328)" by (rule representable_fraction(1)) simp_all
  then have vt: "valid tau" by (simp add: tau_value)
  have "telemetry_ok ?d" "valid_drone ?d"
    using origin_ok[of 7] vt minus_tau by (simp_all add: telemetry_ok_def valid_drone_def in_range_finite tau_value)
  then obtain st where st: "to_critical_state (list_ops :: (_, unit, unit) critical_ops) ?d Nominal = Inr st"
    using encoding_succeeds_iff_in_range[OF list_ops_laws(2)] by blast
  have "in_range q16_16_min q16_16_max tau" unfolding q16_consts tau_value in_range_finite by simp
  from q16_round_trip[OF vt this] obtain k where k: "q16_val (q16_of tau) = Fin (of_int k / 65536)"
    "\<bar>of_int k / 65536 - rval tau\<bar> \<le> 1 / 2 ^ 17" by blast
  have "k = 411775" using k(2) unfolding tau_value abs_le_iff by (simp add: field_simps)
  then have hd: "heading_rad (quantised ?d) = Fin (411775 / 65536)" using k(1) by (simp add: quantised_def Let_def)
  have zero: "q16_val (q16_of 0) = Fin 0"
    using q16_between[of 0 0 0] by (auto simp: zero_flt_def in_range_finite representable_numeral q16_val_eq)
  have "validate_domain_ranges (quantised ?d) = (Inl (OutOfRange ''heading_rad'' ''-2*pi'' ''2*pi'') :: unit state_error + unit)"
    unfolding validate_domain_ranges_def validate_bounded_def hd minus_tau unfolding tau_value
    by (simp add: in_range_finite quantised_def Let_def zero default_at_origin_def position_zero_def velocity_default_def bindE_def validate_q16_def)
  then show ?thesis using st from_to[OF list_ops_laws(1) st] by auto
qed

end
