(* ===== verification/AirLink.thy ===== *)
theory AirLink
  imports AirState
begin

text \<open>
  What both advisory sessions of \<open>src/latentmesh/protocol.rs\<close> share: the errors, the trusted keys, the stream
  routing, and the crates \<open>latentmesh_air_core\<close> and \<open>ed25519_dalek\<close>, which are parameters. The record \<open>air_ops\<close>
  holds the operations the source calls; envelopes, deltas, frames and messages are records of the fields the source
  names plus an opaque rest; values the source only passes on or compares (profiles, flags, classes, tags) have
  the opaque type \<open>'x\<close>.
\<close>

section \<open>The crates' interface\<close>

datatype 'e air_error = InvalidLength | ReassemblyFull | CrcMismatch | OtherAir 'e

datatype replay_decision = ReplayAccept | ReplayDuplicate | ReplayTooOld

record reassembler_config =
  max_contexts :: nat
  max_message_bytes :: nat
  max_fragments :: nat

record 'x semantic_delta =
  base_hash :: "u8 list"
  result_hash :: "u8 list"
  residuals :: "'x list"
  delta_rest :: 'x

record 'x semantic_envelope =
  env_source_id :: u32
  env_epoch :: u32
  env_message_id :: u32
  env_logical_sequence :: u64
  env_class :: 'x
  env_priority :: u8
  env_state_hash :: "u8 list"
  env_signature :: "u8 list option"
  env_rest :: 'x

record 'x fragment_meta =
  fm_profile :: 'x
  fm_flags :: 'x
  fm_stream_id :: u16
  fm_sequence :: u16
  fm_class :: 'x
  fm_priority :: u8
  fm_state_tag :: 'x

record 'x sparse_frame =
  frame_profile :: 'x
  frame_flags :: 'x
  frame_stream_id :: u16
  frame_sequence :: u16
  fragment_count :: u8
  frame_rest :: 'x

record 'x message =
  msg_bytes :: "u8 list"
  msg_class :: 'x
  msg_priority :: u8
  msg_state_tag :: 'x
  msg_stream_id :: u16
  msg_sequence :: u16

record ('cs, 'o, 'e, 'k, 'rw, 're, 'x) air_ops =
  crit :: "('cs, 'o, 'e air_error) critical_ops"
  critical_hash :: "'cs \<Rightarrow> u8 list"
  delta_between :: "u32 \<Rightarrow> u32 \<Rightarrow> u32 \<Rightarrow> 'cs \<Rightarrow> 'cs \<Rightarrow> 'x list \<Rightarrow> 'e air_error + 'x semantic_delta"
  delta_apply :: "'x semantic_delta \<Rightarrow> 'cs \<Rightarrow> 'e air_error + 'cs"
  wrap_delta :: "'x semantic_delta \<Rightarrow> u8 \<Rightarrow> u64 \<Rightarrow> u8 list option \<Rightarrow> 'e air_error + 'x semantic_envelope"
  unwrap_delta :: "'x semantic_envelope \<Rightarrow> 'e air_error + 'x semantic_delta"
  authentication_bytes :: "'x semantic_envelope \<Rightarrow> 'e air_error + u8 list"
  encode_envelope :: "'x semantic_envelope \<Rightarrow> 'e air_error + u8 list"
  decode_envelope :: "u8 list \<Rightarrow> 'e air_error + 'x semantic_envelope"
  fragment_message :: "'x fragment_meta \<Rightarrow> u8 list \<Rightarrow> nat \<Rightarrow> 'e air_error + 'x sparse_frame list"
  encode_frame :: "'x sparse_frame \<Rightarrow> 'e air_error + u8 list"
  decode_frame :: "u8 list \<Rightarrow> 'e air_error + 'x sparse_frame"
  state_hash_tag :: "u8 list \<Rightarrow> 'x"
  flags_none :: 'x
  flags_signed_envelope :: 'x
  flags_union :: "'x \<Rightarrow> 'x \<Rightarrow> 'x"
  flags_contains :: "'x \<Rightarrow> 'x \<Rightarrow> bool"
  flags_bits :: "'x \<Rightarrow> nat"
  flags_from_bits :: "nat \<Rightarrow> 'e air_error + 'x"
  profile_wifi :: 'x
  class_state_delta :: 'x
  frame_min_bytes :: nat
  frame_max_bytes :: nat
  reassembler_new :: "reassembler_config \<Rightarrow> 'e air_error + 're"
  reassembler_clear :: "'re \<Rightarrow> u16 \<Rightarrow> u16 \<Rightarrow> 're"
  has_in_flight :: "'re \<Rightarrow> u16 \<Rightarrow> u16 \<Rightarrow> bool"
  reassembler_push :: "'re \<Rightarrow> 'x sparse_frame \<Rightarrow> 're \<times> ('e air_error + 'x message option)"
  replay_new :: 'rw
  replay_classify :: "'rw \<Rightarrow> u16 \<Rightarrow> replay_decision"
  replay_commit :: "'rw \<Rightarrow> u16 \<Rightarrow> 'e air_error + 'rw"
  verify_strict :: "'k \<Rightarrow> u8 list \<Rightarrow> u8 list \<Rightarrow> bool"

section \<open>Errors and keys\<close>

datatype 'e protocol_error =
    PAir "'e air_error"
  | PState "'e air_error state_error"
  | UntrustedPeer u32
  | AuthenticationFailed
  | SignatureRequired
  | MetadataMismatch string
  | SourceMismatch u32 u32
  | Replay u32 u32
  | TooOld u32 u32
  | StaleEpoch u32 u32 u32
  | StaleLogical u32 u64 u64
  | InvalidEpochStart u32 u32
  | StaleTimestamp u32 u64 u64
  | LearnedResidualForbidden
  | PeerCapacity nat
  | SequenceExhausted
  | SigningFailed
  | SourceHintMismatch u32 u32
  | RateLimited u32
  | ReceiveClockRegression u32
  | SnapshotTooOld u32
  | SnapshotFromFuture u32
  | KeyframeRequired u32 u32
  | CheckpointRollback u32
  | InvalidEpochRotation u32 u32
  | IngressUnavailable u32

type_synonym 'e envelope_signer = "u8 list \<Rightarrow> 'e protocol_error + u8 list"

definition signing_key_signer :: "(u8 list \<Rightarrow> u8 list) \<Rightarrow> 'e envelope_signer" where
  "signing_key_signer sign bytes = Inr (sign bytes)"

type_synonym 'k trusted_keys = "(u32, 'k) btree"

definition keys_insert :: "u32 \<Rightarrow> 'k \<Rightarrow> 'k trusted_keys \<Rightarrow> 'k trusted_keys \<times> 'k option" where
  "keys_insert i key ks = (bt_insert i key ks, map_of ks i)"

definition keys_remove :: "u32 \<Rightarrow> 'k trusted_keys \<Rightarrow> 'k trusted_keys \<times> 'k option" where
  "keys_remove i ks = (bt_remove i ks, map_of ks i)"

definition key_for_source :: "'k trusted_keys \<Rightarrow> u32 \<Rightarrow> 'k option" where
  "key_for_source ks i = map_of ks i"

definition stream_id_for_source :: "u32 \<Rightarrow> u16" where
  "stream_id_for_source i = xor (ucast i) (ucast (drop_bit 16 i))"

end
