(* ===== verification/Transmit.thy ===== *)
theory Transmit
  imports AirLink
begin

text \<open>
  The transmit session of \<open>src/latentmesh/protocol.rs\<close>: its configuration, the batch it produces, the rotation of
  its epoch and the encoding of a state, which commits the state and the counter only when the whole envelope
  has been signed, encoded and fragmented. A method that mutates \<open>self\<close> returns the session beside its result.
\<close>

section \<open>The transmit session\<close>

record 'x tx_config =
  tx_profile :: 'x
  frame_mtu :: nat
  tx_priority :: u8
  keyframe_interval :: u32
  tx_transport_flags :: 'x

definition tx_config_default :: "('cs, 'o, 'e, 'k, 'rw, 're, 'x) air_ops \<Rightarrow> 'x tx_config" where
  "tx_config_default A =
    \<lparr>tx_profile = profile_wifi A, frame_mtu = frame_max_bytes A, tx_priority = 12, keyframe_interval = 16,
     tx_transport_flags = flags_none A\<rparr>"

definition tx_validate :: "('cs, 'o, 'e, 'k, 'rw, 're, 'x) air_ops \<Rightarrow> 'x tx_config \<Rightarrow> 'e protocol_error + unit" where
  "tx_validate A c =
    (if \<not> (frame_min_bytes A \<le> frame_mtu c \<and> frame_mtu c \<le> frame_max_bytes A) then Inl (PAir InvalidLength)
     else if 15 < tx_priority c \<or> keyframe_interval c = 0 then Inl (PAir InvalidLength)
     else bindE (map_err PAir (flags_from_bits A (flags_bits A (tx_transport_flags c)))) (\<lambda>_.
       if flags_contains A (tx_transport_flags c) (flags_signed_envelope A) then Inl (MetadataMismatch ''transport_flags'')
       else Inr ()))"

record 'x transmit_batch =
  tb_source_id :: u32
  tb_epoch :: u32
  tb_message_id :: u32
  tb_logical_sequence :: u64
  tb_wire_sequence :: u16
  tb_state_hash :: "u8 list"
  tb_keyframe :: bool
  tb_envelope :: "'x semantic_envelope"
  tb_frames :: "'x sparse_frame list"

fun collect :: "('a \<Rightarrow> 'e + 'b) \<Rightarrow> 'a list \<Rightarrow> 'e + 'b list" where
  "collect f [] = Inr []"
| "collect f (x # xs) = bindE (f x) (\<lambda>y. bindE (collect f xs) (\<lambda>ys. Inr (y # ys)))"

definition encoded_frames :: "('cs, 'o, 'e, 'k, 'rw, 're, 'x) air_ops \<Rightarrow> 'x transmit_batch \<Rightarrow> 'e protocol_error + u8 list list" where
  "encoded_frames A b = map_err PAir (collect (encode_frame A) (tb_frames b))"

record ('cs, 'e, 'x) tx_session =
  tx_source_id :: u32
  tx_epoch :: u32
  next_logical_sequence :: u64
  last_state :: 'cs
  signer :: "'e envelope_signer"
  tx_config :: "'x tx_config"

definition tx_new ::
  "('cs, 'o, 'e, 'k, 'rw, 're, 'x) air_ops \<Rightarrow> u32 \<Rightarrow> u32 \<Rightarrow> 'e envelope_signer \<Rightarrow> 'x tx_config \<Rightarrow> 'e protocol_error + ('cs, 'e, 'x) tx_session" where
  "tx_new A source epoch sg c =
    bindE (tx_validate A c) (\<lambda>_.
      Inr \<lparr>tx_source_id = source, tx_epoch = epoch, next_logical_sequence = 0, last_state = cs_new (crit A),
           signer = sg, tx_config = c\<rparr>)"

definition rotate_epoch ::
  "('cs, 'o, 'e, 'k, 'rw, 're, 'x) air_ops \<Rightarrow> u32 \<Rightarrow> ('cs, 'e, 'x) tx_session \<Rightarrow> ('cs, 'e, 'x) tx_session \<times> ('e protocol_error + unit)" where
  "rotate_epoch A new_epoch t =
    (if new_epoch \<le> tx_epoch t then (t, Inl (InvalidEpochRotation (tx_epoch t) new_epoch))
     else (t\<lparr>tx_epoch := new_epoch, next_logical_sequence := 0, last_state := cs_new (crit A)\<rparr>, Inr ()))"

text \<open>Everything before the commit of \<open>encode_advisory_state\<close>: the batch and the new \<open>last_state\<close>.\<close>

definition build_batch ::
  "('cs, 'o, 'e, 'k, 'rw, 're, 'x) air_ops \<Rightarrow> ('cs, 'e, 'x) tx_session \<Rightarrow> drone_state \<Rightarrow> fail_safe_state
     \<Rightarrow> 'e protocol_error + ('cs \<times> u64 \<times> 'x transmit_batch)" where
  "build_batch A t d fs =
    (if ds_id d \<noteq> tx_source_id t then Inl (SourceMismatch (tx_source_id t) (ds_id d)) else
     let logical_sequence = next_logical_sequence t in
     bindE (ok_or SequenceExhausted (try_from logical_sequence)) (\<lambda>message_id.
     bindE (ok_or SequenceExhausted (checked_add logical_sequence 1)) (\<lambda>next_sequence.
     bindE (map_err PState (to_critical_state (crit A) d fs)) (\<lambda>target_state.
     let keyframe = (logical_sequence mod ucast (keyframe_interval (tx_config t)) = 0);
         base = (if keyframe then cs_new (crit A) else last_state t)
     in bindE (map_err PAir (delta_between A (tx_source_id t) (tx_epoch t) message_id base target_state [])) (\<lambda>delta.
     bindE (map_err PAir (wrap_delta A delta (tx_priority (tx_config t)) logical_sequence (Some (replicate 64 0)))) (\<lambda>envelope0.
     bindE (map_err PAir (authentication_bytes A envelope0)) (\<lambda>bytes.
     bindE (signer t bytes) (\<lambda>signature.
     let envelope = envelope0\<lparr>env_signature := Some signature\<rparr>
     in bindE (map_err PAir (encode_envelope A envelope)) (\<lambda>encoded.
     let wire_sequence = ucast logical_sequence;
         flags = flags_union A (tx_transport_flags (tx_config t)) (flags_signed_envelope A)
     in bindE (map_err PAir (fragment_message A
         \<lparr>fm_profile = tx_profile (tx_config t), fm_flags = flags, fm_stream_id = stream_id_for_source (tx_source_id t),
          fm_sequence = wire_sequence, fm_class = class_state_delta A, fm_priority = tx_priority (tx_config t),
          fm_state_tag = state_hash_tag A (result_hash delta)\<rparr> encoded (frame_mtu (tx_config t)))) (\<lambda>frames.
     Inr (target_state, next_sequence,
       \<lparr>tb_source_id = tx_source_id t, tb_epoch = tx_epoch t, tb_message_id = message_id,
        tb_logical_sequence = logical_sequence, tb_wire_sequence = wire_sequence, tb_state_hash = result_hash delta,
        tb_keyframe = keyframe, tb_envelope = envelope, tb_frames = frames\<rparr>)))))))))))"

definition encode_advisory_state ::
  "('cs, 'o, 'e, 'k, 'rw, 're, 'x) air_ops \<Rightarrow> drone_state \<Rightarrow> fail_safe_state \<Rightarrow> ('cs, 'e, 'x) tx_session
     \<Rightarrow> ('cs, 'e, 'x) tx_session \<times> ('e protocol_error + 'x transmit_batch)" where
  "encode_advisory_state A d fs t =
    (case build_batch A t d fs of
       Inl e \<Rightarrow> (t, Inl e)
     | Inr (target_state, next_sequence, batch) \<Rightarrow>
         (t\<lparr>last_state := target_state, next_logical_sequence := next_sequence\<rparr>, Inr batch))"

end
