(* ===== verification/TransmitSafety.thy ===== *)
theory TransmitSafety
  imports Transmit "HOL-Library.Product_Lexorder"
begin

text \<open>
  What the transmit session of \<open>Transmit\<close> guarantees over any run of encodings and epoch rotations, whatever the
  crates return: a failed call changes nothing, and no pair of epoch and logical sequence is ever signed twice.
\<close>

section \<open>One encoding\<close>

lemma build_batch_Inr:
  assumes "build_batch A t d fs = Inr (target_state, next_sequence, b)"
  obtains delta envelope0 bytes signature encoded where
    "ds_id d = tx_source_id t" "unat (tb_message_id b) = unat (next_logical_sequence t)"
    "unat next_sequence = unat (next_logical_sequence t) + 1"
    "to_critical_state (crit A) d fs = Inr target_state"
    "tb_keyframe b \<longleftrightarrow> next_logical_sequence t mod ucast (keyframe_interval (tx_config t)) = 0"
    "delta_between A (tx_source_id t) (tx_epoch t) (tb_message_id b)
       (if tb_keyframe b then cs_new (crit A) else last_state t) target_state [] = Inr delta"
    "wrap_delta A delta (tx_priority (tx_config t)) (next_logical_sequence t) (Some (replicate 64 0)) = Inr envelope0"
    "authentication_bytes A envelope0 = Inr bytes" "signer t bytes = Inr signature"
    "tb_envelope b = envelope0\<lparr>env_signature := Some signature\<rparr>" "encode_envelope A (tb_envelope b) = Inr encoded"
    "tb_source_id b = tx_source_id t" "tb_epoch b = tx_epoch t" "tb_logical_sequence b = next_logical_sequence t"
    "tb_wire_sequence b = ucast (next_logical_sequence t)" "tb_state_hash b = result_hash delta"
  using assms unfolding build_batch_def Let_def
  by (auto simp: try_from_Some checked_add_Some split: if_splits)

lemma encode_outcomes:
  assumes "encode_advisory_state A d fs t = (t', r)"
  shows "(\<exists>e. r = Inl e \<and> t' = t) \<or>
    (\<exists>b target_state next_sequence. r = Inr b \<and> build_batch A t d fs = Inr (target_state, next_sequence, b) \<and>
       t' = t\<lparr>last_state := target_state, next_logical_sequence := next_sequence\<rparr>)"
  using assms by (auto simp: encode_advisory_state_def split: sum.splits prod.splits)

text \<open>
  An encoding that fails, even one that has already signed its envelope, leaves the session as it was: the next encoding signs
  under the same epoch and logical sequence.
\<close>

lemma failed_encoding_keeps_the_marks: "encode_advisory_state A d fs t = (t', Inl e) \<Longrightarrow> t' = t"
  using encode_outcomes by fastforce

section \<open>Runs\<close>

datatype tx_event = TxEncode drone_state fail_safe_state | TxRotate u32

fun tx_step ::
  "('cs, 'o, 'e, 'k, 'rw, 're, 'x) air_ops \<Rightarrow> ('cs, 'e, 'x) tx_session \<Rightarrow> tx_event
     \<Rightarrow> ('cs, 'e, 'x) tx_session \<times> 'x transmit_batch option" where
  "tx_step A t (TxEncode d fs) =
     (let (t', r) = encode_advisory_state A d fs t in (t', case r of Inl _ \<Rightarrow> None | Inr b \<Rightarrow> Some b))"
| "tx_step A t (TxRotate epoch) = (fst (rotate_epoch A epoch t), None)"

fun sent ::
  "('cs, 'o, 'e, 'k, 'rw, 're, 'x) air_ops \<Rightarrow> ('cs, 'e, 'x) tx_session \<Rightarrow> tx_event list \<Rightarrow> 'x transmit_batch list" where
  "sent A t [] = []"
| "sent A t (e # es) = (let (t', b) = tx_step A t e in (case b of None \<Rightarrow> [] | Some b \<Rightarrow> [b]) @ sent A t' es)"

definition tx_position :: "('cs, 'e, 'x) tx_session \<Rightarrow> u32 \<times> u64" where
  "tx_position t = (tx_epoch t, next_logical_sequence t)"

definition batch_mark :: "'x transmit_batch \<Rightarrow> u32 \<times> u64" where
  "batch_mark b = (tb_epoch b, tb_logical_sequence b)"

text \<open>A batch is signed by the session's signer over its own envelope and carries the session's source.\<close>

definition signed_by ::
  "('cs, 'o, 'e, 'k, 'rw, 're, 'x) air_ops \<Rightarrow> ('cs, 'e, 'x) tx_session \<Rightarrow> 'x transmit_batch \<Rightarrow> bool" where
  "signed_by A t b \<longleftrightarrow> tb_source_id b = tx_source_id t \<and> unat (tb_message_id b) = unat (tb_logical_sequence b) \<and>
     tb_wire_sequence b = ucast (tb_logical_sequence b) \<and>
     tb_keyframe b = (tb_logical_sequence b mod ucast (keyframe_interval (tx_config t)) = 0) \<and>
     (\<exists>envelope0 bytes signature. authentication_bytes A envelope0 = Inr bytes \<and> signer t bytes = Inr signature \<and>
        tb_envelope b = envelope0\<lparr>env_signature := Some signature\<rparr>)"

lemma tx_step_outcomes:
  assumes "tx_step A t e = (t', b)"
  shows "tx_position t \<le> tx_position t'" "tx_source_id t' = tx_source_id t" "signer t' = signer t" "tx_config t' = tx_config t"
    "b = Some b' \<Longrightarrow> batch_mark b' = tx_position t \<and> tx_position t < tx_position t' \<and> signed_by A t b'"
proof -
  have "tx_position t \<le> tx_position t' \<and> tx_source_id t' = tx_source_id t \<and> signer t' = signer t \<and> tx_config t' = tx_config t \<and>
    (\<forall>b'. b = Some b' \<longrightarrow> batch_mark b' = tx_position t \<and> tx_position t < tx_position t' \<and> signed_by A t b')"
  proof (cases e)
    case (TxRotate epoch)
    with assms show ?thesis by (auto simp: rotate_epoch_def tx_position_def less_eq_prod_def)
  next
    case (TxEncode d fs)
    obtain r where r: "encode_advisory_state A d fs t = (t', r)" "b = (case r of Inl _ \<Rightarrow> None | Inr b \<Rightarrow> Some b)"
      using assms TxEncode by (auto split: prod.splits)
    from encode_outcomes[OF r(1)] show ?thesis
    proof (elim disjE exE conjE)
      fix b' target_state next_sequence
      assume ok: "r = Inr b'" and bb: "build_batch A t d fs = Inr (target_state, next_sequence, b')"
        and t': "t' = t\<lparr>last_state := target_state, next_logical_sequence := next_sequence\<rparr>"
      have "unat next_sequence = unat (next_logical_sequence t) + 1" "batch_mark b' = tx_position t" "signed_by A t b'"
        using bb by (elim build_batch_Inr, force simp: batch_mark_def tx_position_def signed_by_def)+
      then have "next_logical_sequence t < next_sequence" by (simp add: word_less_nat_alt)
      then show ?thesis using ok r(2) t' \<open>batch_mark b' = tx_position t\<close> \<open>signed_by A t b'\<close>
        by (auto simp: tx_position_def)
    qed (use r in auto)
  qed
  then show "tx_position t \<le> tx_position t'" "tx_source_id t' = tx_source_id t" "signer t' = signer t" "tx_config t' = tx_config t"
    "b = Some b' \<Longrightarrow> batch_mark b' = tx_position t \<and> tx_position t < tx_position t' \<and> signed_by A t b'" by blast+
qed

lemma signed_by_cong:
  "tx_source_id t' = tx_source_id t \<Longrightarrow> signer t' = signer t \<Longrightarrow> tx_config t' = tx_config t \<Longrightarrow> signed_by A t' b = signed_by A t b"
  by (simp add: signed_by_def)

lemma sent_after:
  "\<forall>b \<in> set (sent A t es). tx_position t \<le> batch_mark b \<and> signed_by A t b"
proof (induction es arbitrary: t)
  case (Cons e es)
  obtain t' b where e: "tx_step A t e = (t', b)" by (cases "tx_step A t e") auto
  note out = tx_step_outcomes[OF e]
  have tail: "tx_position t \<le> batch_mark c \<and> signed_by A t c" if "c \<in> set (sent A t' es)" for c
    using Cons[of t'] that out(1) signed_by_cong[OF out(2-4)] by (meson order_trans)
  show ?case
  proof (cases b)
    case (Some b')
    with e tail out(5)[OF Some] show ?thesis by auto
  qed (use e tail in auto)
qed simp

text \<open>
  C8. Over every run of encodings and rotations a transmit session never returns two batches with the same epoch and
  logical sequence: the marks of what it returns strictly increase, every batch carries the session's source, the
  message id and wire sequence of its logical sequence, its keyframe schedule and a signature of the session's signer.
  (An encoding that fails after it has signed returns no batch and leaves the session as it was.)
\<close>
theorem sequence_numbers_are_never_reused:
  "sorted_wrt (<) (map batch_mark (sent A t es)) \<and> list_all (signed_by A t) (sent A t es)"
proof -
  have "sorted_wrt (<) (map batch_mark (sent A t es))"
  proof (induction es arbitrary: t)
    case (Cons e es)
    obtain t' b where e: "tx_step A t e = (t', b)" by (cases "tx_step A t e") auto
    show ?case
    proof (cases b)
      case (Some b')
      have "batch_mark b' < batch_mark c" if "c \<in> set (sent A t' es)" for c
        using tx_step_outcomes(5)[OF e Some] sent_after[of A t' es] that by (metis order_less_le_trans)
      with e Some Cons[of t'] show ?thesis by auto
    qed (use e Cons[of t'] in auto)
  qed simp
  then show ?thesis using sent_after[of A t es] by (simp add: list_all_iff)
qed

end
