(* ===== verification/Receive.thy ===== *)
theory Receive
  imports AirLink "HOL-Library.Product_Lexorder"
begin

text \<open>
  The receive session of \<open>src/latentmesh/protocol.rs\<close>: bounded ingress per source hint, reassembly, authentication,
  the replay high-water marks and the snapshots. A method that mutates \<open>self\<close> returns the session beside its
  result, on the error paths too.
\<close>

section \<open>The receive session\<close>

record 'x rx_config =
  rx_profile :: 'x
  rx_transport_flags :: 'x
  reassembly :: reassembler_config
  max_peers :: nat
  max_frames_per_window :: u32
  frame_window_ms :: u64
  reassembly_timeout_ms :: u64
  max_snapshot_age_ms :: u64
  max_future_skew_ms :: u64
  advisory_ttl_ms :: u64

definition rx_config_default :: "('cs, 'o, 'e, 'k, 'rw, 're, 'x) air_ops \<Rightarrow> nat \<Rightarrow> 'x rx_config" where
  "rx_config_default A max_frags =
    \<lparr>rx_profile = profile_wifi A, rx_transport_flags = flags_none A,
     reassembly = \<lparr>max_contexts = 4, max_message_bytes = 4096, max_fragments = max_frags\<rparr>,
     max_peers = 32, max_frames_per_window = 128, frame_window_ms = 1000, reassembly_timeout_ms = 2000,
     max_snapshot_age_ms = 5000, max_future_skew_ms = 500, advisory_ttl_ms = 5000\<rparr>"

definition rx_validate :: "('cs, 'o, 'e, 'k, 'rw, 're, 'x) air_ops \<Rightarrow> 'x rx_config \<Rightarrow> 'e protocol_error + unit" where
  "rx_validate A c =
    (if max_peers c = 0 \<or> 256 < max_peers c \<or> max_frames_per_window c = 0 \<or> 65536 < max_frames_per_window c
        \<or> frame_window_ms c = 0 \<or> reassembly_timeout_ms c = 0 \<or> max_snapshot_age_ms c = 0 \<or> advisory_ttl_ms c = 0
     then Inl (PAir InvalidLength)
     else bindE (map_err PAir (flags_from_bits A (flags_bits A (rx_transport_flags c)))) (\<lambda>_.
       if flags_contains A (rx_transport_flags c) (flags_signed_envelope A) then Inl (MetadataMismatch ''transport_flags'')
       else bindE (map_err PAir (reassembler_new A (reassembly c))) (\<lambda>_. Inr ())))"

record protocol_metrics =
  frames_seen :: u64
  completed_envelopes :: u64
  accepted_snapshots :: u64
  crc_rejections :: u64
  authentication_rejections :: u64
  replay_rejections :: u64
  semantic_rejections :: u64

definition metrics_zero :: protocol_metrics where
  "metrics_zero =
    \<lparr>frames_seen = 0, completed_envelopes = 0, accepted_snapshots = 0, crc_rejections = 0,
     authentication_rejections = 0, replay_rejections = 0, semantic_rejections = 0\<rparr>"

record receive_metadata =
  md_source_id :: u32
  md_epoch :: u32
  md_message_id :: u32
  md_logical_sequence :: u64
  md_wire_sequence :: u16
  md_stream_id :: u16
  md_priority :: u8
  md_state_hash :: "u8 list"
  md_encoded_message_bytes :: nat
  md_fragment_count :: u8
  md_keyframe :: bool
  md_learned_residuals :: nat

record received_snapshot =
  rs_snapshot :: advisory_peer_snapshot
  rs_metadata :: receive_metadata

record ('cs, 'rw) peer_runtime =
  pr_epoch :: u32
  pr_replay :: 'rw
  last_logical_sequence :: u64
  last_timestamp_ms :: u64
  accepted_at_ms :: u64
  critical :: "'cs option"
  snapshot :: "advisory_peer_snapshot option"
  requires_keyframe :: bool

record replay_checkpoint =
  cp_source_id :: u32
  cp_epoch :: u32
  cp_last_logical_sequence :: u64
  cp_last_timestamp_ms :: u64

record 're peer_ingress =
  reassembler :: 're
  context_started_ms :: "(u16 \<times> u16, u64) btree"
  last_received_ms :: "u64 option"
  window_started_ms :: u64
  frames_in_window :: u32

definition ingress_new :: "('cs, 'o, 'e, 'k, 'rw, 're, 'x) air_ops \<Rightarrow> reassembler_config \<Rightarrow> u64 \<Rightarrow> 'e protocol_error + 're peer_ingress" where
  "ingress_new A c now =
    bindE (map_err PAir (reassembler_new A c)) (\<lambda>re.
      Inr \<lparr>reassembler = re, context_started_ms = [], last_received_ms = None, window_started_ms = now, frames_in_window = 0\<rparr>)"

record ('cs, 'k, 'rw, 're, 'x) rx_session =
  rx_keys :: "u32 \<Rightarrow> 'k option"
  rx_config :: "'x rx_config"
  ingress :: "(u32, 're peer_ingress) btree"
  peers :: "(u32, ('cs, 'rw) peer_runtime) btree"
  rx_metrics :: protocol_metrics

definition rx_new ::
  "('cs, 'o, 'e, 'k, 'rw, 're, 'x) air_ops \<Rightarrow> (u32 \<Rightarrow> 'k option) \<Rightarrow> 'x rx_config \<Rightarrow> 'e protocol_error + ('cs, 'k, 'rw, 're, 'x) rx_session" where
  "rx_new A keys c =
    bindE (rx_validate A c) (\<lambda>_.
      Inr \<lparr>rx_keys = keys, rx_config = c, ingress = [], peers = [], rx_metrics = metrics_zero\<rparr>)"

definition peer_snapshot :: "('cs, 'k, 'rw, 're, 'x) rx_session \<Rightarrow> u32 \<Rightarrow> advisory_peer_snapshot option" where
  "peer_snapshot s i = Option.bind (map_of (peers s) i) snapshot"

definition replay_checkpoints :: "('cs, 'k, 'rw, 're, 'x) rx_session \<Rightarrow> replay_checkpoint list" where
  "replay_checkpoints s =
    map (\<lambda>(i, p). \<lparr>cp_source_id = i, cp_epoch = pr_epoch p, cp_last_logical_sequence = last_logical_sequence p,
                   cp_last_timestamp_ms = last_timestamp_ms p\<rparr>) (peers s)"

definition active_source_count :: "('cs, 'k, 'rw, 're, 'x) rx_session \<Rightarrow> nat" where
  "active_source_count s = length (peers s) + length (filter (\<lambda>i. \<not> bt_has (peers s) i) (bt_keys (ingress s)))"

definition restore_replay_checkpoint ::
  "('cs, 'o, 'e, 'k, 'rw, 're, 'x) air_ops \<Rightarrow> replay_checkpoint \<Rightarrow> ('cs, 'k, 'rw, 're, 'x) rx_session
     \<Rightarrow> ('cs, 'k, 'rw, 're, 'x) rx_session \<times> ('e protocol_error + unit)" where
  "restore_replay_checkpoint A cp s =
    (let src = cp_source_id cp;
         restored = \<lparr>pr_epoch = cp_epoch cp, pr_replay = replay_new A, last_logical_sequence = cp_last_logical_sequence cp,
           last_timestamp_ms = cp_last_timestamp_ms cp, accepted_at_ms = 0, critical = None, snapshot = None,
           requires_keyframe = True\<rparr>
     in if rx_keys s src = None then (s, Inl (UntrustedPeer src))
        else if (try_from (cp_last_logical_sequence cp) :: u32 option) = None then (s, Inl SequenceExhausted)
        else (case map_of (peers s) src of
          Some peer \<Rightarrow>
            if cp_epoch cp < pr_epoch peer
               \<or> (cp_epoch cp = pr_epoch peer \<and> cp_last_logical_sequence cp \<le> last_logical_sequence peer)
            then (s, Inl (CheckpointRollback src))
            else (s\<lparr>peers := bt_insert src restored (peers s)\<rparr>, Inr ())
        | None \<Rightarrow>
            if active_source_count s = max_peers (rx_config s) then (s, Inl (PeerCapacity (max_peers (rx_config s))))
            else (s\<lparr>peers := bt_insert src restored (peers s)\<rparr>, Inr ())))"

definition is_stale :: "u64 \<Rightarrow> u64 \<Rightarrow> ('cs, 'rw) peer_runtime \<Rightarrow> bool" where
  "is_stale now ttl p \<longleftrightarrow> snapshot p \<noteq> None \<and> ttl < sat_sub now (accepted_at_ms p)"

definition expire_stale :: "u64 \<Rightarrow> ('cs, 'k, 'rw, 're, 'x) rx_session \<Rightarrow> ('cs, 'k, 'rw, 're, 'x) rx_session \<times> nat" where
  "expire_stale now s =
    (let ttl = advisory_ttl_ms (rx_config s);
         expire = (\<lambda>p. if is_stale now ttl p then p\<lparr>snapshot := None, critical := None, requires_keyframe := True\<rparr> else p)
     in (s\<lparr>peers := bt_map expire (peers s)\<rparr>, length (filter (\<lambda>(_, p). is_stale now ttl p) (peers s))))"

section \<open>Admission of a complete message\<close>

text \<open>The metadata binding, the signature and the delta: the part of \<open>admit_complete\<close> that reads no peer state.\<close>

definition authenticated_delta ::
  "('cs, 'o, 'e, 'k, 'rw, 're, 'x) air_ops \<Rightarrow> (u32 \<Rightarrow> 'k option) \<Rightarrow> u32 \<Rightarrow> 'x message
     \<Rightarrow> 'e protocol_error + 'x semantic_envelope \<times> 'x semantic_delta" where
  "authenticated_delta A keys expected_source m =
    bindE (map_err PAir (decode_envelope A (msg_bytes m))) (\<lambda>env.
    if env_source_id env \<noteq> expected_source then Inl (SourceHintMismatch expected_source (env_source_id env)) else
    if env_class env \<noteq> msg_class m then Inl (MetadataMismatch ''class'') else
    if env_priority env \<noteq> msg_priority m then Inl (MetadataMismatch ''priority'') else
    if state_hash_tag A (env_state_hash env) \<noteq> msg_state_tag m then Inl (MetadataMismatch ''state_tag'') else
    if msg_stream_id m \<noteq> stream_id_for_source (env_source_id env) then Inl (MetadataMismatch ''stream_id'') else
    if msg_sequence m \<noteq> ucast (env_logical_sequence env) then Inl (MetadataMismatch ''sequence'') else
    bindE (ok_or SequenceExhausted (try_from (env_logical_sequence env))) (\<lambda>expected_message_id.
    if env_message_id env \<noteq> expected_message_id then Inl (MetadataMismatch ''message_id'') else
    bindE (ok_or SignatureRequired (env_signature env)) (\<lambda>signature.
    bindE (ok_or (UntrustedPeer (env_source_id env)) (keys (env_source_id env))) (\<lambda>key.
    bindE (map_err PAir (authentication_bytes A env)) (\<lambda>bytes.
    if \<not> verify_strict A key bytes signature then Inl AuthenticationFailed else
    bindE (map_err PAir (unwrap_delta A env)) (\<lambda>delta.
    if residuals delta \<noteq> [] then Inl LearnedResidualForbidden else Inr (env, delta)))))))"

text \<open>The base state and the replay window the delta is checked against.\<close>

definition base_for ::
  "('cs, 'o, 'e, 'k, 'rw, 're, 'x) air_ops \<Rightarrow> ('cs, 'rw) peer_runtime option \<Rightarrow> 'x semantic_envelope \<Rightarrow> bool
     \<Rightarrow> 'e protocol_error + 'cs \<times> 'rw" where
  "base_for A existing env keyframe =
    (let src = env_source_id env; start =
       (if env_logical_sequence env \<noteq> 0 \<or> \<not> keyframe then Inl (InvalidEpochStart src (env_epoch env))
        else Inr (cs_new (crit A), replay_new A))
     in case existing of
       Some peer \<Rightarrow>
         if env_epoch env < pr_epoch peer then Inl (StaleEpoch src (env_epoch env) (pr_epoch peer))
         else if env_epoch env = pr_epoch peer then
           if requires_keyframe peer \<and> \<not> keyframe then Inl (KeyframeRequired src (env_epoch env))
           else bindE (if keyframe then Inr (cs_new (crit A)) else ok_or (KeyframeRequired src (env_epoch env)) (critical peer))
             (\<lambda>base. Inr (base, pr_replay peer))
         else start
     | None \<Rightarrow> start)"

definition replay_check :: "('cs, 'o, 'e, 'k, 'rw, 're, 'x) air_ops \<Rightarrow> 'rw \<Rightarrow> u16 \<Rightarrow> 'x semantic_envelope \<Rightarrow> 'e protocol_error + unit" where
  "replay_check A replay sequence env =
    (case replay_classify A replay sequence of
       ReplayAccept \<Rightarrow> Inr ()
     | ReplayDuplicate \<Rightarrow> Inl (Replay (env_source_id env) (env_epoch env))
     | ReplayTooOld \<Rightarrow> Inl (TooOld (env_source_id env) (env_epoch env)))"

definition logical_check :: "('cs, 'rw) peer_runtime option \<Rightarrow> 'x semantic_envelope \<Rightarrow> 'e protocol_error + unit" where
  "logical_check existing env = (case existing of
     Some peer \<Rightarrow>
       if env_epoch env = pr_epoch peer \<and> env_logical_sequence env \<le> last_logical_sequence peer
       then Inl (StaleLogical (env_source_id env) (env_logical_sequence env) (last_logical_sequence peer)) else Inr ()
   | None \<Rightarrow> Inr ())"

definition snapshot_check ::
  "'x rx_config \<Rightarrow> ('cs, 'rw) peer_runtime option \<Rightarrow> u64 \<Rightarrow> 'x semantic_envelope \<Rightarrow> advisory_peer_snapshot \<Rightarrow> 'e protocol_error + unit" where
  "snapshot_check c existing now env snap =
    (let src = env_source_id env; ts = timestamp_ms (snap_drone snap) in
     if ds_id (snap_drone snap) \<noteq> src then Inl (SourceMismatch src (ds_id (snap_drone snap)))
     else if sat_add now (max_future_skew_ms c) < ts then Inl (SnapshotFromFuture src)
     else if max_snapshot_age_ms c < sat_sub now ts then Inl (SnapshotTooOld src)
     else (case existing of
       Some peer \<Rightarrow>
         if env_epoch env = pr_epoch peer \<and> ts < last_timestamp_ms peer
         then Inl (StaleTimestamp src ts (last_timestamp_ms peer)) else Inr ()
     | None \<Rightarrow> Inr ()))"

text \<open>Everything \<open>admit_complete\<close> does before its commit: the peer state it will store and what it returns.\<close>

definition admission ::
  "('cs, 'o, 'e, 'k, 'rw, 're, 'x) air_ops \<Rightarrow> u32 \<Rightarrow> u64 \<Rightarrow> u8 \<Rightarrow> 'x message \<Rightarrow> ('cs, 'k, 'rw, 're, 'x) rx_session
     \<Rightarrow> 'e protocol_error + ('cs, 'rw) peer_runtime \<times> received_snapshot" where
  "admission A expected_source now fragments m s =
    bindE (authenticated_delta A (rx_keys s) expected_source m) (\<lambda>(env, delta).
    let existing = map_of (peers s) (env_source_id env);
        keyframe = (base_hash delta = critical_hash A (cs_new (crit A)))
    in bindE (base_for A existing env keyframe) (\<lambda>(base, replay).
    bindE (replay_check A replay (msg_sequence m) env) (\<lambda>_.
    bindE (logical_check existing env) (\<lambda>_.
    bindE (map_err PAir (delta_apply A delta base)) (\<lambda>state.
    bindE (map_err PState (from_critical_state (crit A) state)) (\<lambda>snap.
    bindE (snapshot_check (rx_config s) existing now env snap) (\<lambda>_.
    bindE (map_err PAir (replay_commit A replay (msg_sequence m))) (\<lambda>replay'.
    if existing = None \<and> max_peers (rx_config s) < active_source_count s
    then Inl (PeerCapacity (max_peers (rx_config s)))
    else Inr
      (\<lparr>pr_epoch = env_epoch env, pr_replay = replay', last_logical_sequence = env_logical_sequence env,
        last_timestamp_ms = timestamp_ms (snap_drone snap), accepted_at_ms = now, critical = Some state,
        snapshot = Some snap, requires_keyframe = False\<rparr>,
       \<lparr>rs_snapshot = snap, rs_metadata =
         \<lparr>md_source_id = env_source_id env, md_epoch = env_epoch env, md_message_id = env_message_id env,
          md_logical_sequence = env_logical_sequence env, md_wire_sequence = msg_sequence m,
          md_stream_id = msg_stream_id m, md_priority = env_priority env, md_state_hash = result_hash delta,
          md_encoded_message_bytes = length (msg_bytes m), md_fragment_count = fragments, md_keyframe = keyframe,
          md_learned_residuals = 0\<rparr>\<rparr>)))))))))"

definition admit_complete ::
  "('cs, 'o, 'e, 'k, 'rw, 're, 'x) air_ops \<Rightarrow> u32 \<Rightarrow> u64 \<Rightarrow> u8 \<Rightarrow> 'x message \<Rightarrow> ('cs, 'k, 'rw, 're, 'x) rx_session
     \<Rightarrow> ('cs, 'k, 'rw, 're, 'x) rx_session \<times> ('e protocol_error + received_snapshot)" where
  "admit_complete A expected_source now fragments m s =
    (case admission A expected_source now fragments m s of
       Inl e \<Rightarrow> (s, Inl e)
     | Inr (peer, received) \<Rightarrow>
         (s\<lparr>peers := bt_insert (md_source_id (rs_metadata received)) peer (peers s),
            rx_metrics := (rx_metrics s)\<lparr>accepted_snapshots := sat_add (accepted_snapshots (rx_metrics s)) 1\<rparr>\<rparr>,
          Inr received))"

section \<open>Ingress of a frame\<close>

definition expire_contexts :: "('cs, 'o, 'e, 'k, 'rw, 're, 'x) air_ops \<Rightarrow> 'x rx_config \<Rightarrow> u64 \<Rightarrow> 're peer_ingress \<Rightarrow> 're peer_ingress" where
  "expire_contexts A c now g =
    foldl (\<lambda>g (stream, sequence). g\<lparr>reassembler := reassembler_clear A (reassembler g) stream sequence,
        context_started_ms := bt_remove (stream, sequence) (context_started_ms g)\<rparr>) g
      (map fst (filter (\<lambda>(_, started). reassembly_timeout_ms c < sat_sub now started) (context_started_ms g)))"

definition reset_window :: "'x rx_config \<Rightarrow> u64 \<Rightarrow> 're peer_ingress \<Rightarrow> 're peer_ingress" where
  "reset_window c now g =
    (if frame_window_ms c \<le> sat_sub now (window_started_ms g)
     then g\<lparr>window_started_ms := now, frames_in_window := 0\<rparr> else g)"

text \<open>The reassembly of an admitted frame, with the bookkeeping of the open contexts.\<close>

definition push_frame ::
  "('cs, 'o, 'e, 'k, 'rw, 're, 'x) air_ops \<Rightarrow> 'x rx_config \<Rightarrow> u64 \<Rightarrow> 'x sparse_frame \<Rightarrow> 're peer_ingress
     \<Rightarrow> 're peer_ingress \<times> ('e protocol_error + 'x message option)" where
  "push_frame A c now f g =
    (let context_key = (frame_stream_id f, frame_sequence f);
         is_new_context = (\<not> has_in_flight A (reassembler g) (frame_stream_id f) (frame_sequence f))
     in if is_new_context \<and> length (context_started_ms g) = max_contexts (reassembly c)
        then (g, Inl (PAir ReassemblyFull)) else
     let g1 = (if is_new_context then g\<lparr>context_started_ms := bt_insert context_key now (context_started_ms g)\<rparr> else g);
         (re, pushed) = reassembler_push A (reassembler g1) f;
         g2 = g1\<lparr>reassembler := re\<rparr>
     in case pushed of
          Inl e \<Rightarrow> (if is_new_context then g2\<lparr>context_started_ms := bt_remove context_key (context_started_ms g2)\<rparr> else g2,
                   Inl (PAir e))
        | Inr None \<Rightarrow> (g2, Inr None)
        | Inr (Some m) \<Rightarrow> (g2\<lparr>context_started_ms := bt_remove context_key (context_started_ms g2)\<rparr>, Inr (Some m)))"

definition ingress_frame ::
  "('cs, 'o, 'e, 'k, 'rw, 're, 'x) air_ops \<Rightarrow> 'x rx_config \<Rightarrow> u32 \<Rightarrow> u64 \<Rightarrow> 'x sparse_frame \<Rightarrow> 're peer_ingress
     \<Rightarrow> 're peer_ingress \<times> ('e protocol_error + 'x message option)" where
  "ingress_frame A c source now f g =
    (if (case last_received_ms g of Some t \<Rightarrow> now < t | None \<Rightarrow> False) then (g, Inl (ReceiveClockRegression source)) else
     let g2 = reset_window c now (expire_contexts A c now g)
     in if max_frames_per_window c \<le> frames_in_window g2 then (g2, Inl (RateLimited source))
        else push_frame A c now f (g2\<lparr>frames_in_window := frames_in_window g2 + 1, last_received_ms := Some now\<rparr>))"

definition open_ingress ::
  "('cs, 'o, 'e, 'k, 'rw, 're, 'x) air_ops \<Rightarrow> u32 \<Rightarrow> u64 \<Rightarrow> ('cs, 'k, 'rw, 're, 'x) rx_session
     \<Rightarrow> 'e protocol_error + ('cs, 'k, 'rw, 're, 'x) rx_session" where
  "open_ingress A source now s =
    (if bt_has (ingress s) source then Inr s
     else if \<not> bt_has (peers s) source \<and> active_source_count s = max_peers (rx_config s)
     then Inl (PeerCapacity (max_peers (rx_config s)))
     else bindE (ingress_new A (reassembly (rx_config s)) now) (\<lambda>g.
       Inr (s\<lparr>ingress := bt_insert source g (ingress s)\<rparr>)))"

definition ingest_decoded_frame ::
  "('cs, 'o, 'e, 'k, 'rw, 're, 'x) air_ops \<Rightarrow> u32 \<Rightarrow> u64 \<Rightarrow> 'x sparse_frame \<Rightarrow> ('cs, 'k, 'rw, 're, 'x) rx_session
     \<Rightarrow> ('cs, 'k, 'rw, 're, 'x) rx_session \<times> ('e protocol_error + received_snapshot option)" where
  "ingest_decoded_frame A source now f s =
    (let c = rx_config s; expected_flags = flags_union A (rx_transport_flags c) (flags_signed_envelope A) in
     if frame_profile f \<noteq> rx_profile c then (s, Inl (MetadataMismatch ''profile'')) else
     if flags_bits A (frame_flags f) \<noteq> flags_bits A expected_flags then (s, Inl (MetadataMismatch ''flags'')) else
     if frame_stream_id f \<noteq> stream_id_for_source source then (s, Inl (MetadataMismatch ''source_hint_stream_id'')) else
     if rx_keys s source = None then (s, Inl (UntrustedPeer source)) else
     case open_ingress A source now s of
       Inl e \<Rightarrow> (s, Inl e)
     | Inr s1 \<Rightarrow>
       (case map_of (ingress s1) source of
          None \<Rightarrow> (s1, Inl (IngressUnavailable source))
        | Some g \<Rightarrow>
          let (g', outcome) = ingress_frame A c source now f g;
              s2 = s1\<lparr>ingress := bt_insert source g' (ingress s1)\<rparr>
          in case outcome of
               Inl e \<Rightarrow> (s2, Inl e)
             | Inr None \<Rightarrow> (s2, Inr None)
             | Inr (Some m) \<Rightarrow>
                 let s3 = s2\<lparr>rx_metrics := (rx_metrics s2)\<lparr>completed_envelopes := sat_add (completed_envelopes (rx_metrics s2)) 1\<rparr>\<rparr>;
                     (s4, result) = admit_complete A source now (fragment_count f) m s3
                 in (s4, bindE result (\<lambda>r. Inr (Some r)))))"

fun rejection :: "'e protocol_error \<Rightarrow> protocol_metrics \<Rightarrow> protocol_metrics" where
  "rejection (PAir CrcMismatch) mt = mt\<lparr>crc_rejections := sat_add (crc_rejections mt) 1\<rparr>"
| "rejection AuthenticationFailed mt = mt\<lparr>authentication_rejections := sat_add (authentication_rejections mt) 1\<rparr>"
| "rejection SignatureRequired mt = mt\<lparr>authentication_rejections := sat_add (authentication_rejections mt) 1\<rparr>"
| "rejection (UntrustedPeer _) mt = mt\<lparr>authentication_rejections := sat_add (authentication_rejections mt) 1\<rparr>"
| "rejection (Replay _ _) mt = mt\<lparr>replay_rejections := sat_add (replay_rejections mt) 1\<rparr>"
| "rejection (TooOld _ _) mt = mt\<lparr>replay_rejections := sat_add (replay_rejections mt) 1\<rparr>"
| "rejection (StaleEpoch _ _ _) mt = mt\<lparr>replay_rejections := sat_add (replay_rejections mt) 1\<rparr>"
| "rejection (StaleLogical _ _ _) mt = mt\<lparr>replay_rejections := sat_add (replay_rejections mt) 1\<rparr>"
| "rejection _ mt = mt\<lparr>semantic_rejections := sat_add (semantic_rejections mt) 1\<rparr>"

definition record_result :: "'e protocol_error + 'a \<Rightarrow> protocol_metrics \<Rightarrow> protocol_metrics" where
  "record_result r mt = (case r of Inl e \<Rightarrow> rejection e mt | Inr _ \<Rightarrow> mt)"

definition count_frame :: "('cs, 'k, 'rw, 're, 'x) rx_session \<Rightarrow> ('cs, 'k, 'rw, 're, 'x) rx_session" where
  "count_frame s = s\<lparr>rx_metrics := (rx_metrics s)\<lparr>frames_seen := sat_add (frames_seen (rx_metrics s)) 1\<rparr>\<rparr>"

definition ingest_frame ::
  "('cs, 'o, 'e, 'k, 'rw, 're, 'x) air_ops \<Rightarrow> u32 \<Rightarrow> u64 \<Rightarrow> 'x sparse_frame \<Rightarrow> ('cs, 'k, 'rw, 're, 'x) rx_session
     \<Rightarrow> ('cs, 'k, 'rw, 're, 'x) rx_session \<times> ('e protocol_error + received_snapshot option)" where
  "ingest_frame A source now f s =
    (let (s1, result) = ingest_decoded_frame A source now f (count_frame s)
     in (s1\<lparr>rx_metrics := record_result result (rx_metrics s1)\<rparr>, result))"

definition ingest_frame_bytes ::
  "('cs, 'o, 'e, 'k, 'rw, 're, 'x) air_ops \<Rightarrow> u32 \<Rightarrow> u64 \<Rightarrow> u8 list \<Rightarrow> ('cs, 'k, 'rw, 're, 'x) rx_session
     \<Rightarrow> ('cs, 'k, 'rw, 're, 'x) rx_session \<times> ('e protocol_error + received_snapshot option)" where
  "ingest_frame_bytes A source now bytes s =
    (let s0 = count_frame s;
         (s1, result) = (case map_err PAir (decode_frame A bytes) of
            Inl e \<Rightarrow> (s0, Inl e)
          | Inr f \<Rightarrow> ingest_decoded_frame A source now f s0)
     in (s1\<lparr>rx_metrics := record_result result (rx_metrics s1)\<rparr>, result))"

end
