(* ===== verification/ReceiveSafety.thy ===== *)
theory ReceiveSafety
  imports Receive
begin

text \<open>
  What the receive session of \<open>Receive\<close> guarantees over any run of frames, expirations and restored checkpoints,
  whatever the crates return: nothing is accepted twice, the high-water marks only move forward, a message that is not
  accepted changes no peer, the resources stay within their bounds, and the counters add up.
\<close>

section \<open>Runs\<close>

datatype 'x rx_event =
    Ingest u32 u64 "'x sparse_frame"
  | IngestBytes u32 u64 "u8 list"
  | Expire u64
  | Restore replay_checkpoint

definition outcome :: "'e protocol_error + received_snapshot option \<Rightarrow> received_snapshot option" where
  "outcome r = (case r of Inr x \<Rightarrow> x | Inl _ \<Rightarrow> None)"

fun rx_step ::
  "('cs, 'o, 'e, 'k, 'rw, 're, 'x) air_ops \<Rightarrow> ('cs, 'k, 'rw, 're, 'x) rx_session \<Rightarrow> 'x rx_event
     \<Rightarrow> ('cs, 'k, 'rw, 're, 'x) rx_session \<times> received_snapshot option" where
  "rx_step A s (Ingest source now f) = (let (s', r) = ingest_frame A source now f s in (s', outcome r))"
| "rx_step A s (IngestBytes source now bs) = (let (s', r) = ingest_frame_bytes A source now bs s in (s', outcome r))"
| "rx_step A s (Expire now) = (fst (expire_stale now s), None)"
| "rx_step A s (Restore cp) = (fst (restore_replay_checkpoint A cp s), None)"

definition rx_exec ::
  "('cs, 'o, 'e, 'k, 'rw, 're, 'x) air_ops \<Rightarrow> ('cs, 'k, 'rw, 're, 'x) rx_session \<Rightarrow> 'x rx_event \<Rightarrow> ('cs, 'k, 'rw, 're, 'x) rx_session" where
  "rx_exec A s e = fst (rx_step A s e)"

fun accepted ::
  "('cs, 'o, 'e, 'k, 'rw, 're, 'x) air_ops \<Rightarrow> ('cs, 'k, 'rw, 're, 'x) rx_session \<Rightarrow> 'x rx_event list \<Rightarrow> received_snapshot list" where
  "accepted A s [] = []"
| "accepted A s (e # es) =
    (case snd (rx_step A s e) of Some r \<Rightarrow> [r] | None \<Rightarrow> []) @ accepted A (rx_exec A s e) es"

section \<open>What an admission has checked\<close>

lemma authenticated_delta_facts:
  assumes "authenticated_delta A keys source m = Inr (env, delta)"
  shows "decode_envelope A (msg_bytes m) = Inr env" "env_source_id env = source" "residuals delta = []"
    "unwrap_delta A env = Inr delta" "msg_sequence m = ucast (env_logical_sequence env)"
    "msg_class m = env_class env" "msg_priority m = env_priority env" "msg_state_tag m = state_hash_tag A (env_state_hash env)"
    "msg_stream_id m = stream_id_for_source source" "ucast (env_message_id env) = env_logical_sequence env"
    "\<exists>signature key bytes. env_signature env = Some signature \<and> keys source = Some key \<and>
       authentication_bytes A env = Inr bytes \<and> verify_strict A key bytes signature"
proof -
  have facts: "decode_envelope A (msg_bytes m) = Inr env \<and> env_source_id env = source \<and> residuals delta = [] \<and>
      unwrap_delta A env = Inr delta \<and> msg_sequence m = ucast (env_logical_sequence env) \<and>
      msg_class m = env_class env \<and> msg_priority m = env_priority env \<and> msg_state_tag m = state_hash_tag A (env_state_hash env) \<and>
      msg_stream_id m = stream_id_for_source source \<and> try_from (env_logical_sequence env) = Some (env_message_id env) \<and>
      (\<exists>signature key bytes. env_signature env = Some signature \<and> keys source = Some key \<and>
         authentication_bytes A env = Inr bytes \<and> verify_strict A key bytes signature)"
    using assms unfolding authenticated_delta_def by (auto split: if_splits)
  then have "ucast (env_message_id env) = env_logical_sequence env" by (intro try_from_back) blast
  with facts show "decode_envelope A (msg_bytes m) = Inr env" "env_source_id env = source" "residuals delta = []"
    "unwrap_delta A env = Inr delta" "msg_sequence m = ucast (env_logical_sequence env)"
    "msg_class m = env_class env" "msg_priority m = env_priority env" "msg_state_tag m = state_hash_tag A (env_state_hash env)"
    "msg_stream_id m = stream_id_for_source source" "ucast (env_message_id env) = env_logical_sequence env"
    "\<exists>signature key bytes. env_signature env = Some signature \<and> keys source = Some key \<and>
       authentication_bytes A env = Inr bytes \<and> verify_strict A key bytes signature"
    by blast+
qed

lemma admission_facts:
  fixes A :: "('cs, 'o, 'e, 'k, 'rw, 're, 'x) air_ops"
  assumes "admission A source now fr m s = Inr (p, r)"
  obtains env delta base replay state where
    "authenticated_delta A (rx_keys s) source m = Inr (env, delta)"
    "base_for A (map_of (peers s) source) env (base_hash delta = critical_hash A (cs_new (crit A))) = Inr (base, replay)"
    "replay_check A replay (msg_sequence m) env = (Inr () :: 'e protocol_error + unit)"
    "logical_check (map_of (peers s) source) env = (Inr () :: 'e protocol_error + unit)"
    "delta_apply A delta base = Inr state"
    "from_critical_state (crit A) state = Inr (rs_snapshot r)"
    "snapshot_check (rx_config s) (map_of (peers s) source) now env (rs_snapshot r) = (Inr () :: 'e protocol_error + unit)"
    "replay_commit A replay (msg_sequence m) = Inr (pr_replay p)"
    "pr_epoch p = env_epoch env" "last_logical_sequence p = env_logical_sequence env"
    "last_timestamp_ms p = timestamp_ms (snap_drone (rs_snapshot r))" "accepted_at_ms p = now" "critical p = Some state"
    "snapshot p = Some (rs_snapshot r)" "\<not> requires_keyframe p"
    "md_source_id (rs_metadata r) = source" "md_epoch (rs_metadata r) = env_epoch env"
    "md_message_id (rs_metadata r) = env_message_id env" "md_logical_sequence (rs_metadata r) = env_logical_sequence env"
    "md_state_hash (rs_metadata r) = result_hash delta" "md_learned_residuals (rs_metadata r) = 0"
    "md_keyframe (rs_metadata r) = (base_hash delta = critical_hash A (cs_new (crit A)))"
proof -
  obtain env delta where a: "authenticated_delta A (rx_keys s) source m = Inr (env, delta)"
    using assms unfolding admission_def by auto
  have src: "env_source_id env = source" by (rule authenticated_delta_facts(2)[OF a])
  show thesis
    using assms that a unfolding admission_def a bindE_simps split Let_def src
    by (auto split: if_splits prod.splits)
qed

text \<open>The high-water mark of a peer, ordered by epoch and then by logical sequence.\<close>

definition hw :: "('cs, 'rw) peer_runtime \<Rightarrow> u32 \<times> u64" where
  "hw p = (pr_epoch p, last_logical_sequence p)"

lemma hw_less: "hw p < hw q \<longleftrightarrow> pr_epoch p < pr_epoch q \<or> pr_epoch p = pr_epoch q \<and> last_logical_sequence p < last_logical_sequence q"
  by (auto simp: hw_def less_prod_def)

lemma admission_advances:
  assumes "admission A source now fr m s = Inr (p, r)" "map_of (peers s) source = Some q"
  shows "hw q < hw p"
  by (rule admission_facts[OF assms(1)])
    (auto simp: assms(2) hw_less base_for_def logical_check_def Let_def not_less not_le split: if_splits)

lemma admission_mark:
  assumes "admission A source now fr m s = Inr (p, r)"
  shows "md_source_id (rs_metadata r) = source" "hw p = (md_epoch (rs_metadata r), md_logical_sequence (rs_metadata r))"
proof -
  show "md_source_id (rs_metadata r) = source" by (rule admission_facts[OF assms])
  show "hw p = (md_epoch (rs_metadata r), md_logical_sequence (rs_metadata r))"
    by (rule admission_facts[OF assms]) (simp add: hw_def)
qed

section \<open>The two outcomes of a frame\<close>

text \<open>Either nothing is accepted and no peer changes, or exactly the admitted source's entry is replaced.\<close>

definition unchanged :: "('cs, 'k, 'rw, 're, 'x) rx_session \<Rightarrow> ('cs, 'k, 'rw, 're, 'x) rx_session \<Rightarrow> bool" where
  "unchanged s s' \<longleftrightarrow> peers s' = peers s \<and> rx_keys s' = rx_keys s \<and> rx_config s' = rx_config s"

definition admitted ::
  "('cs, 'o, 'e, 'k, 'rw, 're, 'x) air_ops \<Rightarrow> ('cs, 'k, 'rw, 're, 'x) rx_session \<Rightarrow> u32 \<Rightarrow> u64 \<Rightarrow> received_snapshot
     \<Rightarrow> ('cs, 'k, 'rw, 're, 'x) rx_session \<Rightarrow> bool" where
  "admitted A s source now r s' \<longleftrightarrow>
     (\<exists>p m fr s0. admission A source now fr m s0 = Inr (p, r) \<and> unchanged s s0 \<and>
        peers s' = bt_insert source p (peers s) \<and> rx_keys s' = rx_keys s \<and> rx_config s' = rx_config s)"

lemma open_ingress_frame: "open_ingress A source now s = Inr s1 \<Longrightarrow> unchanged s s1"
  by (auto simp: open_ingress_def unchanged_def split: if_splits)

lemma ingest_decoded_outcomes:
  assumes "ingest_decoded_frame A source now f s = (s', result)"
  shows "outcome result = None \<and> unchanged s s' \<or> (\<exists>r. result = Inr (Some r) \<and> admitted A s source now r s')"
proof -
  have early: ?thesis if "s' = s" "result = Inl e" for e
    using that by (simp add: outcome_def unchanged_def)
  show ?thesis
  proof (cases "open_ingress A source now s")
    case (Inl e)
    then show ?thesis using assms early unfolding ingest_decoded_frame_def Let_def by (auto split: if_splits)
  next
    case (Inr s1)
    note u1 = open_ingress_frame[OF Inr]
    show ?thesis
    proof (cases "map_of (ingress s1) source")
      case None
      then show ?thesis using assms early Inr u1 unfolding ingest_decoded_frame_def Let_def
        by (auto simp: outcome_def split: if_splits)
    next
      case (Some g)
      obtain g' out where g: "ingress_frame A (rx_config s) source now f g = (g', out)" by fastforce
      let ?s2 = "s1\<lparr>ingress := bt_insert source g' (ingress s1)\<rparr>"
      let ?s3 = "?s2\<lparr>rx_metrics := (rx_metrics ?s2)\<lparr>completed_envelopes := sat_add (completed_envelopes (rx_metrics ?s2)) 1\<rparr>\<rparr>"
      have u: "unchanged s ?s2" "unchanged s ?s3" using u1 by (simp_all add: unchanged_def)
      consider e where "result = Inl e" "s' = s" | e where "out = Inl e" "s' = ?s2" "result = Inl e"
        | "out = Inr None" "s' = ?s2" "result = Inr None"
        | m s4 res where "out = Inr (Some m)" "admit_complete A source now (fragment_count f) m ?s3 = (s4, res)"
            "s' = s4" "result = bindE res (\<lambda>r. Inr (Some r))"
        using assms Inr Some g unfolding ingest_decoded_frame_def Let_def
        by (auto split: if_splits sum.splits option.splits prod.splits)
      then show ?thesis
      proof cases
        case (4 m s4 res)
        show ?thesis
        proof (cases "admission A source now (fragment_count f) m ?s3")
          case (Inl e)
          then show ?thesis using 4 u by (auto simp: admit_complete_def outcome_def unchanged_def)
        next
          case (Inr pr)
          obtain p r where pr: "pr = (p, r)" by fastforce
          then have "s4 = ?s3\<lparr>peers := bt_insert source p (peers ?s3),
              rx_metrics := (rx_metrics ?s3)\<lparr>accepted_snapshots := sat_add (accepted_snapshots (rx_metrics ?s3)) 1\<rparr>\<rparr> \<and> res = Inr r"
            using 4(2) Inr admission_mark(1)[of A source now "fragment_count f" m ?s3 p r] by (simp add: admit_complete_def)
          then show ?thesis using 4 u1 Inr pr unfolding admitted_def
            by (intro disjI2 exI[of _ r] conjI exI[of _ p] exI[of _ m] exI[of _ "fragment_count f"] exI[of _ ?s3])
              (simp_all add: unchanged_def)
        qed
      qed (use early u in \<open>auto simp: outcome_def\<close>)
    qed
  qed
qed

lemma count_frame_unchanged: "unchanged (count_frame s) s' \<longleftrightarrow> unchanged s s'"
  by (simp add: unchanged_def count_frame_def)

lemma admitted_count_frame: "admitted A (count_frame s) source now r s' \<longleftrightarrow> admitted A s source now r s'"
  by (simp add: admitted_def unchanged_def count_frame_def)

lemma ingest_frame_outcomes:
  assumes "ingest_frame A source now f s = (s', result)"
  shows "outcome result = None \<and> unchanged s s' \<or> (\<exists>r. result = Inr (Some r) \<and> admitted A s source now r s')"
proof -
  obtain s1 where s1: "ingest_decoded_frame A source now f (count_frame s) = (s1, result)"
    "s' = s1\<lparr>rx_metrics := record_result result (rx_metrics s1)\<rparr>"
    using assms by (auto simp: ingest_frame_def split: prod.splits)
  from ingest_decoded_outcomes[OF s1(1)] show ?thesis
    by (auto simp: count_frame_unchanged admitted_count_frame s1(2)) (auto simp: unchanged_def admitted_def)
qed

lemma ingest_frame_bytes_outcomes:
  assumes "ingest_frame_bytes A source now bs s = (s', result)"
  shows "outcome result = None \<and> unchanged s s' \<or> (\<exists>r. result = Inr (Some r) \<and> admitted A s source now r s')"
proof (cases "decode_frame A bs")
  case (Inl e)
  then show ?thesis using assms by (auto simp: ingest_frame_bytes_def Let_def outcome_def unchanged_def count_frame_def)
next
  case (Inr f)
  then have "ingest_frame A source now f s = (s', result)"
    using assms by (simp add: ingest_frame_bytes_def ingest_frame_def Let_def)
  then show ?thesis by (rule ingest_frame_outcomes)
qed

section \<open>Monotone high-water marks\<close>

definition marks_grow :: "('cs, 'k, 'rw, 're, 'x) rx_session \<Rightarrow> ('cs, 'k, 'rw, 're, 'x) rx_session \<Rightarrow> bool" where
  "marks_grow s t \<longleftrightarrow>
     (\<forall>i p. map_of (peers s) i = Some p \<longrightarrow> (\<exists>q. map_of (peers t) i = Some q \<and> hw p \<le> hw q))"

lemma marks_grow_refl: "marks_grow s s"
  by (simp add: marks_grow_def)

lemma marks_grow_trans: "marks_grow s t \<Longrightarrow> marks_grow t u \<Longrightarrow> marks_grow s u"
  unfolding marks_grow_def by (meson order_trans)

lemma unchanged_marks: "unchanged s s' \<Longrightarrow> marks_grow s s'"
  by (simp add: unchanged_def marks_grow_def)

lemma admitted_marks:
  assumes "admitted A s source now r s'"
  shows "marks_grow s s'" "\<exists>q. map_of (peers s') source = Some q \<and> hw q = (md_epoch (rs_metadata r), md_logical_sequence (rs_metadata r))"
    "md_source_id (rs_metadata r) = source"
    "map_of (peers s) source = Some p \<Longrightarrow> hw p < (md_epoch (rs_metadata r), md_logical_sequence (rs_metadata r))"
proof -
  obtain q m fr s0 where q: "admission A source now fr m s0 = Inr (q, r)" "unchanged s s0" "peers s' = bt_insert source q (peers s)"
    using assms by (auto simp: admitted_def)
  note mark = admission_mark[OF q(1)]
  have adv: "hw p < hw q" if "map_of (peers s) source = Some p" for p
    using admission_advances[OF q(1)] that q(2) by (simp add: unchanged_def)
  then show "marks_grow s s'" by (auto simp: marks_grow_def q(3) less_imp_le)
  show "\<exists>q. map_of (peers s') source = Some q \<and> hw q = (md_epoch (rs_metadata r), md_logical_sequence (rs_metadata r))"
    using mark(2) by (simp add: q(3))
  show "md_source_id (rs_metadata r) = source" by (rule mark(1))
  show "hw p < (md_epoch (rs_metadata r), md_logical_sequence (rs_metadata r))" if "map_of (peers s) source = Some p"
    using adv[OF that] mark(2) by simp
qed

lemma expire_marks: "marks_grow s (fst (expire_stale now s))"
  by (auto simp: marks_grow_def expire_stale_def Let_def hw_def)

lemma restore_marks: "marks_grow s (fst (restore_replay_checkpoint A cp s))"
  by (auto simp: marks_grow_def restore_replay_checkpoint_def Let_def hw_def less_eq_prod_def not_less not_le split: option.splits)

text \<open>The mark of an accepted message, and what one step does to the marks.\<close>

definition mark_of :: "received_snapshot \<Rightarrow> u32 \<times> u32 \<times> u64" where
  "mark_of r = (md_source_id (rs_metadata r), md_epoch (rs_metadata r), md_logical_sequence (rs_metadata r))"

lemma rx_step_outcomes:
  "snd (rx_step A s e) = None \<and> marks_grow s (rx_exec A s e) \<or>
   (\<exists>r source now. snd (rx_step A s e) = Some r \<and> admitted A s source now r (rx_exec A s e))"
proof (cases e)
  case (Ingest source now f)
  obtain s' res where i: "ingest_frame A source now f s = (s', res)" by fastforce
  from ingest_frame_outcomes[OF i] show ?thesis
    by (auto simp: Ingest rx_exec_def i outcome_def unchanged_marks)
next
  case (IngestBytes source now bs)
  obtain s' res where i: "ingest_frame_bytes A source now bs s = (s', res)" by fastforce
  from ingest_frame_bytes_outcomes[OF i] show ?thesis
    by (auto simp: IngestBytes rx_exec_def i outcome_def unchanged_marks)
qed (simp_all add: rx_exec_def expire_marks restore_marks)

lemma rx_step_marks: "marks_grow s (rx_exec A s e)"
  using rx_step_outcomes[of A s e] admitted_marks(1) by blast

interpretation marks: op_progress "rx_exec A" "\<lambda>_. True" marks_grow
  by unfold_locales (auto intro: marks_grow_refl marks_grow_trans rx_step_marks)

definition marks_cover :: "('cs, 'k, 'rw, 're, 'x) rx_session \<Rightarrow> (u32 \<times> u32 \<times> u64) list \<Rightarrow> bool" where
  "marks_cover s xs \<longleftrightarrow> distinct xs \<and> (\<forall>(i, h) \<in> set xs. \<exists>p. map_of (peers s) i = Some p \<and> h \<le> hw p)"

lemma marks_cover_grow: "marks_cover s xs \<Longrightarrow> marks_grow s t \<Longrightarrow> marks_cover t xs"
  unfolding marks_cover_def marks_grow_def by (fastforce intro: order_trans)

lemma marks_cover_admitted:
  assumes "marks_cover s xs" "admitted A s source now r s'"
  shows "marks_cover s' (xs @ [mark_of r])"
proof -
  note am = admitted_marks[OF assms(2)]
  have "mark_of r \<notin> set xs"
  proof
    assume "mark_of r \<in> set xs"
    then obtain p where "map_of (peers s) source = Some p" "(md_epoch (rs_metadata r), md_logical_sequence (rs_metadata r)) \<le> hw p"
      using assms(1) am(3) by (auto simp: marks_cover_def mark_of_def)
    then show False using am(4) by (meson leD)
  qed
  then show ?thesis using marks_cover_grow[OF assms(1) am(1)] am(2,3)
    by (auto simp: marks_cover_def mark_of_def)
qed

lemma accepted_cover:
  "marks_cover s xs \<Longrightarrow> marks_cover (foldl (rx_exec A) s es) (xs @ map mark_of (accepted A s es))"
proof (induction es arbitrary: s xs)
  case (Cons e es)
  from rx_step_outcomes[of A s e] show ?case
  proof
    assume "snd (rx_step A s e) = None \<and> marks_grow s (rx_exec A s e)"
    then show ?thesis using Cons.IH[OF marks_cover_grow[OF Cons.prems]] by auto
  next
    assume "\<exists>r source now. snd (rx_step A s e) = Some r \<and> admitted A s source now r (rx_exec A s e)"
    then obtain r source now where r: "snd (rx_step A s e) = Some r" "admitted A s source now r (rx_exec A s e)" by blast
    show ?thesis using Cons.IH[OF marks_cover_admitted[OF Cons.prems r(2)]] r(1) by simp
  qed
qed simp

text \<open>
  C1. No message is accepted twice: over any run of frames (raw or decoded), expirations and checkpoint restorations,
  from any session, the accepted snapshots all differ in source, epoch or logical sequence. Nothing is assumed of the
  crates, not even of the replay window; the session's own high-water check suffices.
\<close>

theorem no_replay_is_accepted:
  "distinct (map mark_of (accepted A s es))"
  using accepted_cover[of s "[]" A es] by (simp add: marks_cover_def)

definition between_marks :: "('cs, 'k, 'rw, 're, 'x) rx_session \<Rightarrow> ('cs, 'k, 'rw, 're, 'x) rx_session \<Rightarrow> u32 \<times> u32 \<times> u64 \<Rightarrow> bool" where
  "between_marks s t m \<longleftrightarrow>
     (\<forall>p. map_of (peers s) (fst m) = Some p \<longrightarrow> hw p < snd m) \<and>
     (\<exists>q. map_of (peers t) (fst m) = Some q \<and> snd m \<le> hw q)"

lemma between_marks_mono: "between_marks t u m \<Longrightarrow> marks_grow s t \<Longrightarrow> marks_grow u v \<Longrightarrow> between_marks s v m"
  unfolding between_marks_def marks_grow_def by (meson order.trans order.strict_trans1)

lemma accepted_between:
  "r \<in> set (accepted A s es) \<Longrightarrow> between_marks s (foldl (rx_exec A) s es) (mark_of r)"
proof (induction es arbitrary: s)
  case (Cons e es)
  let ?t = "rx_exec A s e"
  have run: "marks_grow ?t (foldl (rx_exec A) ?t es)" by (rule marks.run_le) simp
  consider "snd (rx_step A s e) = Some r" | "r \<in> set (accepted A ?t es)"
    using Cons.prems by (auto split: option.splits)
  then show ?case
  proof cases
    case 1
    then obtain source now where ad: "admitted A s source now r ?t" using rx_step_outcomes[of A s e] by auto
    have "between_marks s ?t (mark_of r)"
      using admitted_marks[OF ad] by (auto simp: between_marks_def mark_of_def)
    then show ?thesis using between_marks_mono[OF _ marks_grow_refl run] by simp
  next
    case 2
    then show ?thesis using between_marks_mono[OF Cons.IH[OF 2] rx_step_marks marks_grow_refl] by simp
  qed
qed simp

text \<open>
  Over any part of a run no peer's entry disappears and no high-water mark (epoch, then logical sequence) moves back; every
  message accepted in it lies above the mark its source had before, and not above the mark it has after.
\<close>

theorem high_water_marks_are_monotone:
  "marks_grow s (foldl (rx_exec A) s es) \<and>
   list_all (\<lambda>r. between_marks s (foldl (rx_exec A) s es) (mark_of r)) (accepted A s es)"
proof -
  have "marks_grow s (foldl (rx_exec A) s es)" by (rule marks.run_le) simp
  then show ?thesis using accepted_between[of _ A s es] by (simp add: list_all_iff)
qed

section \<open>What an accepted message was checked against\<close>

text \<open>The state the delta was applied to: the empty state for a keyframe, the peer's own last state otherwise.\<close>

definition base_of ::
  "('cs, 'o, 'e, 'k, 'rw, 're, 'x) air_ops \<Rightarrow> ('cs, 'rw) peer_runtime option \<Rightarrow> 'x semantic_envelope \<Rightarrow> 'x semantic_delta \<Rightarrow> 'cs \<Rightarrow> bool" where
  "base_of A existing env delta base \<longleftrightarrow>
     base_hash delta = critical_hash A (cs_new (crit A)) \<and> base = cs_new (crit A) \<or>
     (\<exists>p. existing = Some p \<and> env_epoch env = pr_epoch p \<and> \<not> requires_keyframe p \<and> critical p = Some base)"

lemma base_for_base_of:
  "base_for A existing env (base_hash delta = critical_hash A (cs_new (crit A))) = Inr (base, replay) \<Longrightarrow> base_of A existing env delta base"
  by (auto simp: base_for_def base_of_def Let_def split: option.splits if_splits)

text \<open>
  C2. An accepted snapshot is authentic: the message it came in carries a signature that verifies, with the key trusted for
  the source the caller expected, over the signed bytes of its envelope; the delta has no learned residual, was applied to
  the empty state (a keyframe) or to the last state accepted from that source in that epoch, and the snapshot is what the
  state schema decodes from the result, with the metadata of the signed envelope.
\<close>

theorem accepted_snapshot_is_authentic:
  assumes "ingest_frame_bytes A source now bs s = (s', Inr (Some r))"
  shows "\<exists>encoded env delta key signature bytes base state.
    decode_envelope A encoded = Inr env \<and> env_source_id env = source \<and>
    rx_keys s source = Some key \<and> env_signature env = Some signature \<and>
    authentication_bytes A env = Inr bytes \<and> verify_strict A key bytes signature \<and>
    unwrap_delta A env = Inr delta \<and> residuals delta = [] \<and>
    base_of A (map_of (peers s) source) env delta base \<and> delta_apply A delta base = Inr state \<and>
    from_critical_state (crit A) state = Inr (rs_snapshot r) \<and>
    mark_of r = (source, env_epoch env, env_logical_sequence env) \<and>
    ucast (md_message_id (rs_metadata r)) = md_logical_sequence (rs_metadata r) \<and> md_learned_residuals (rs_metadata r) = 0"
proof -
  obtain p m fr s0 where ad: "admission A source now fr m s0 = Inr (p, r)" "unchanged s s0"
    using ingest_frame_bytes_outcomes[OF assms] by (auto simp: outcome_def admitted_def)
  obtain env delta base replay state where f: "authenticated_delta A (rx_keys s0) source m = Inr (env, delta)"
    "base_for A (map_of (peers s0) source) env (base_hash delta = critical_hash A (cs_new (crit A))) = Inr (base, replay)"
    "delta_apply A delta base = Inr state" "from_critical_state (crit A) state = Inr (rs_snapshot r)"
    "mark_of r = (source, env_epoch env, env_logical_sequence env)" "md_message_id (rs_metadata r) = env_message_id env"
    "md_learned_residuals (rs_metadata r) = 0"
    by (rule admission_facts[OF ad(1)]) (simp add: mark_of_def)
  note auth = authenticated_delta_facts[OF f(1)]
  obtain signature key bytes where k: "env_signature env = Some signature" "rx_keys s0 source = Some key"
    "authentication_bytes A env = Inr bytes" "verify_strict A key bytes signature" using auth(11) by blast
  have "ucast (md_message_id (rs_metadata r)) = md_logical_sequence (rs_metadata r)"
    using auth(10) f(5,6) by (simp add: mark_of_def)
  moreover have "base_of A (map_of (peers s) source) env delta base"
    using base_for_base_of[OF f(2)] ad(2) by (simp add: unchanged_def)
  moreover have "rx_keys s source = Some key" using k(2) ad(2) by (simp add: unchanged_def)
  ultimately have "decode_envelope A (msg_bytes m) = Inr env \<and> env_source_id env = source \<and>
    rx_keys s source = Some key \<and> env_signature env = Some signature \<and>
    authentication_bytes A env = Inr bytes \<and> verify_strict A key bytes signature \<and>
    unwrap_delta A env = Inr delta \<and> residuals delta = [] \<and>
    base_of A (map_of (peers s) source) env delta base \<and> delta_apply A delta base = Inr state \<and>
    from_critical_state (crit A) state = Inr (rs_snapshot r) \<and>
    mark_of r = (source, env_epoch env, env_logical_sequence env) \<and>
    ucast (md_message_id (rs_metadata r)) = md_logical_sequence (rs_metadata r) \<and> md_learned_residuals (rs_metadata r) = 0"
    using auth(1,2,3,4) k(1,3,4) f(3,4,5,7) by (intro conjI)
  then show ?thesis by (intro exI)
qed

text \<open>How an accepted message relates to what was known of its source before.\<close>

definition fresh_after :: "('cs, 'rw) peer_runtime option \<Rightarrow> received_snapshot \<Rightarrow> bool" where
  "fresh_after existing r = (let md = rs_metadata r; ts = timestamp_ms (snap_drone (rs_snapshot r)) in
     case existing of
       None \<Rightarrow> md_logical_sequence md = 0 \<and> md_keyframe md
     | Some p \<Rightarrow>
         pr_epoch p < md_epoch md \<and> md_logical_sequence md = 0 \<and> md_keyframe md \<or>
         pr_epoch p = md_epoch md \<and> last_logical_sequence p < md_logical_sequence md \<and> last_timestamp_ms p \<le> ts \<and>
           (md_keyframe md \<or> \<not> requires_keyframe p))"

text \<open>
  C3. An accepted snapshot is fresh and in range: it is its source's own, its values satisfy the telemetry ranges, its timestamp is neither older
  than the receive window nor further ahead than the allowed skew, and it starts a new epoch with a keyframe at
  sequence zero or continues the current epoch with a higher sequence and no earlier timestamp (with a keyframe where one is
  required). The peer's new entry records exactly this.
\<close>

theorem accepted_snapshot_is_fresh:
  fixes A :: "('cs, 'o, 'e, 'k, 'rw, 're, 'x) air_ops"
  assumes "ingest_frame A source now f s = (s', Inr (Some r))"
  shows "ds_id (snap_drone (rs_snapshot r)) = source \<and> telemetry_ok (snap_drone (rs_snapshot r)) \<and>
    timestamp_ms (snap_drone (rs_snapshot r)) \<le> sat_add now (max_future_skew_ms (rx_config s)) \<and>
    sat_sub now (timestamp_ms (snap_drone (rs_snapshot r))) \<le> max_snapshot_age_ms (rx_config s) \<and>
    fresh_after (map_of (peers s) source) r \<and> peer_snapshot s' source = Some (rs_snapshot r) \<and>
    (\<exists>p. peers s' = bt_insert source p (peers s) \<and> hw p = (md_epoch (rs_metadata r), md_logical_sequence (rs_metadata r)) \<and>
       last_timestamp_ms p = timestamp_ms (snap_drone (rs_snapshot r)) \<and> accepted_at_ms p = now \<and> \<not> requires_keyframe p)"
proof -
  obtain p m fr s0 where ad: "admission A source now fr m s0 = Inr (p, r)" "unchanged s s0" "peers s' = bt_insert source p (peers s)"
    using ingest_frame_outcomes[OF assms] by (auto simp: outcome_def admitted_def)
  have s0: "peers s0 = peers s" "rx_config s0 = rx_config s" using ad(2) by (simp_all add: unchanged_def)
  obtain env delta base replay state where f0: "authenticated_delta A (rx_keys s0) source m = Inr (env, delta)"
    "base_for A (map_of (peers s0) source) env (base_hash delta = critical_hash A (cs_new (crit A))) = Inr (base, replay)"
    "logical_check (map_of (peers s0) source) env = (Inr () :: 'e protocol_error + unit)"
    "snapshot_check (rx_config s0) (map_of (peers s0) source) now env (rs_snapshot r) = (Inr () :: 'e protocol_error + unit)"
    "from_critical_state (crit A) state = Inr (rs_snapshot r)"
    "last_timestamp_ms p = timestamp_ms (snap_drone (rs_snapshot r))" "accepted_at_ms p = now" "\<not> requires_keyframe p"
    "snapshot p = Some (rs_snapshot r)"
    "md_epoch (rs_metadata r) = env_epoch env" "md_logical_sequence (rs_metadata r) = env_logical_sequence env"
    "md_keyframe (rs_metadata r) = (base_hash delta = critical_hash A (cs_new (crit A)))"
    by (rule admission_facts[OF ad(1)])
  note f = f0[unfolded s0]
  have src: "env_source_id env = source" by (rule authenticated_delta_facts(2)[OF f(1)])
  have "fresh_after (map_of (peers s) source) r"
    using f(2,3,4) unfolding fresh_after_def Let_def f(10,11,12)
    by (auto simp: base_for_def logical_check_def snapshot_check_def Let_def not_less not_le split: option.splits if_splits)
  moreover have "ds_id (snap_drone (rs_snapshot r)) = source"
    "timestamp_ms (snap_drone (rs_snapshot r)) \<le> sat_add now (max_future_skew_ms (rx_config s))"
    "sat_sub now (timestamp_ms (snap_drone (rs_snapshot r))) \<le> max_snapshot_age_ms (rx_config s)"
    using f(4) src unfolding snapshot_check_def Let_def by (auto simp: not_less split: if_splits)
  moreover have "telemetry_ok (snap_drone (rs_snapshot r))" using decoded_in_range[OF f(5)] .
  moreover have "hw p = (md_epoch (rs_metadata r), md_logical_sequence (rs_metadata r))" by (rule admission_mark(2)[OF ad(1)])
  ultimately show ?thesis using f(6-9) ad(3) by (auto simp: peer_snapshot_def)
qed

text \<open>
  C9. A frame that does not complete an acceptable message changes no peer: rejected or incomplete input, however malformed,
  leaves every entry (epoch, marks, snapshot, base state) as it was; and an accepted one changes the entry of its own source only.
\<close>

theorem frame_isolation:
  assumes "ingest_frame_bytes A source now bs s = (s', result)"
  shows "(if outcome result = None then peers s' = peers s
          else \<forall>i. i \<noteq> source \<longrightarrow> map_of (peers s') i = map_of (peers s) i) \<and>
    rx_keys s' = rx_keys s \<and> rx_config s' = rx_config s"
  using ingest_frame_bytes_outcomes[OF assms] by (auto simp: unchanged_def admitted_def outcome_def)

section \<open>Bounds\<close>

definition ingress_bounded :: "'x rx_config \<Rightarrow> 're peer_ingress \<Rightarrow> bool" where
  "ingress_bounded c g \<longleftrightarrow> bt_ok (context_started_ms g) \<and> length (context_started_ms g) \<le> max_contexts (reassembly c) \<and>
     frames_in_window g \<le> max_frames_per_window c"

lemma expire_contexts_bounded:
  "ingress_bounded c g \<Longrightarrow> ingress_bounded c (expire_contexts A c' now g)"
proof -
  have "ingress_bounded c (foldl (\<lambda>g (stream, sequence). g\<lparr>reassembler := reassembler_clear A (reassembler g) stream sequence,
        context_started_ms := bt_remove (stream, sequence) (context_started_ms g)\<rparr>) g ks)" if "ingress_bounded c g" for ks
    using that
  proof (induction ks arbitrary: g)
    case (Cons k ks)
    then show ?case using length_bt_remove_le[of k "context_started_ms g"]
      by (cases k) (auto simp: ingress_bounded_def intro!: Cons.IH elim: order_trans)
  qed simp
  then show "ingress_bounded c g \<Longrightarrow> ingress_bounded c (expire_contexts A c' now g)" by (simp add: expire_contexts_def)
qed

lemma reset_window_bounded: "ingress_bounded c g \<Longrightarrow> ingress_bounded c (reset_window c' now g)"
  by (simp add: ingress_bounded_def reset_window_def)

lemma push_frame_bounded:
  assumes "ingress_bounded c g"
  shows "ingress_bounded c (fst (push_frame A c now f g))"
proof -
  let ?k = "(frame_stream_id f, frame_sequence f)"
  let ?new = "\<not> has_in_flight A (reassembler g) (frame_stream_id f) (frame_sequence f)"
  show ?thesis
  proof (cases "?new \<and> length (context_started_ms g) = max_contexts (reassembly c)")
    case True
    then show ?thesis using assms by (simp add: push_frame_def)
  next
    case False
    let ?g1 = "if ?new then g\<lparr>context_started_ms := bt_insert ?k now (context_started_ms g)\<rparr> else g"
    have g1: "ingress_bounded c ?g1"
      using assms False length_bt_insert[of "context_started_ms g" ?k now] by (auto simp: ingress_bounded_def)
    have rem: "ingress_bounded c (h\<lparr>context_started_ms := bt_remove ?k (context_started_ms h)\<rparr>)" if "ingress_bounded c h" for h :: "'y peer_ingress"
      using that length_bt_remove_le[of ?k "context_started_ms h"] by (auto simp: ingress_bounded_def intro: order_trans)
    obtain re out where re: "reassembler_push A (reassembler ?g1) f = (re, out)" by fastforce
    have g2: "ingress_bounded c (?g1\<lparr>reassembler := re\<rparr>)" using g1 by (simp add: ingress_bounded_def)
    have "fst (push_frame A c now f g) \<in> {?g1\<lparr>reassembler := re\<rparr>,
        ?g1\<lparr>reassembler := re, context_started_ms := bt_remove ?k (context_started_ms ?g1)\<rparr>}"
      using re unfolding push_frame_def Let_def if_not_P[OF False] by (simp split: sum.splits option.splits)
    then show ?thesis using g2 rem[OF g2] by auto
  qed
qed

lemma ingress_frame_bounded:
  assumes "ingress_bounded c g"
  shows "ingress_bounded c (fst (ingress_frame A c source now f g))"
proof -
  let ?g2 = "reset_window c now (expire_contexts A c now g)"
  have g2: "ingress_bounded c ?g2" using assms by (intro reset_window_bounded expire_contexts_bounded)
  have "ingress_bounded c (?g2\<lparr>frames_in_window := frames_in_window ?g2 + 1, last_received_ms := Some now\<rparr>)"
    if "\<not> max_frames_per_window c \<le> frames_in_window ?g2"
    using g2 that by (simp add: ingress_bounded_def inc_le not_le)
  then show ?thesis using assms g2 by (auto simp: ingress_frame_def Let_def intro: push_frame_bounded)
qed

text \<open>The active sources are the sources with a peer entry or an ingress.\<close>

definition sources :: "('cs, 'k, 'rw, 're, 'x) rx_session \<Rightarrow> u32 set" where
  "sources s = fst ` set (peers s) \<union> fst ` set (ingress s)"

lemma active_source_count_card:
  assumes "bt_ok (peers s)" "bt_ok (ingress s)"
  shows "active_source_count s = card (sources s)"
proof -
  let ?new = "filter (\<lambda>i. \<not> bt_has (peers s) i) (bt_keys (ingress s))"
  have d: "distinct ?new" "distinct (map fst (peers s))"
    using bt_ok_distinct[OF assms(2)] bt_ok_distinct[OF assms(1)] by (simp_all add: bt_keys_def)
  have "set ?new = fst ` set (ingress s) - set (map fst (peers s))"
    by (auto simp: bt_keys_def map_of_eq_None_iff)
  then have "length ?new = card (fst ` set (ingress s) - set (map fst (peers s)))" using distinct_card[OF d(1)] by metis
  moreover have "length (peers s) = card (set (map fst (peers s)))" using distinct_card[OF d(2)] by (metis length_map)
  ultimately have "active_source_count s = card (set (map fst (peers s)) \<union> (fst ` set (ingress s) - set (map fst (peers s))))"
    unfolding active_source_count_def by (subst card_Un_disjoint) auto
  then show ?thesis by (simp add: sources_def)
qed

lemma sources_insert:
  "sources (s\<lparr>peers := bt_insert i p (peers s)\<rparr>) = insert i (sources s)"
  "sources (s\<lparr>ingress := bt_insert i g (ingress s)\<rparr>) = insert i (sources s)"
  by (auto simp: sources_def keys_bt_insert)

lemma finite_sources [simp]: "finite (sources s)"
  by (simp add: sources_def)

definition rx_bounded :: "'x rx_config \<Rightarrow> ('cs, 'k, 'rw, 're, 'x) rx_session \<Rightarrow> bool" where
  "rx_bounded c s \<longleftrightarrow> rx_config s = c \<and> bt_ok (peers s) \<and> bt_ok (ingress s) \<and> card (sources s) \<le> max_peers c \<and>
     (\<forall>i g. map_of (ingress s) i = Some g \<longrightarrow> ingress_bounded c g)"

lemma rx_bounded_metrics: "rx_bounded c (s\<lparr>rx_metrics := mt\<rparr>) = rx_bounded c s"
  by (simp add: rx_bounded_def sources_def)

lemma insert_within:
  assumes "bt_ok (peers s)" "bt_ok (ingress s)" "card (sources s) \<le> n" "i \<in> sources s \<or> active_source_count s \<noteq> n"
  shows "card (insert i (sources s)) \<le> n"
  using assms active_source_count_card[OF assms(1,2)] by (auto simp: insert_absorb card_insert_if)

lemma open_ingress_bounded:
  assumes "rx_bounded c s" "open_ingress A source now s = Inr s1"
  shows "rx_bounded c s1" "\<exists>g. map_of (ingress s1) source = Some g"
proof -
  have "rx_bounded c s1 \<and> (\<exists>g. map_of (ingress s1) source = Some g)"
  proof (cases "bt_has (ingress s) source")
    case True
    then show ?thesis using assms by (auto simp: open_ingress_def)
  next
    case False
    then obtain g where g: "ingress_new A (reassembly c) now = Inr g" "s1 = s\<lparr>ingress := bt_insert source g (ingress s)\<rparr>"
      and cap: "bt_has (peers s) source \<or> active_source_count s \<noteq> max_peers c"
      using assms by (auto simp: open_ingress_def rx_bounded_def split: if_splits)
    have "source \<in> sources s \<or> active_source_count s \<noteq> max_peers c"
      using cap by (auto simp: sources_def map_of_eq_None_iff)
    then have "card (sources s1) \<le> max_peers c"
      using assms(1) unfolding g(2) sources_insert rx_bounded_def by (intro insert_within) auto
    moreover have "ingress_bounded c g" using g(1) by (auto simp: ingress_new_def ingress_bounded_def)
    ultimately show ?thesis using assms(1) by (auto simp: g(2) rx_bounded_def)
  qed
  then show "rx_bounded c s1" "\<exists>g. map_of (ingress s1) source = Some g" by auto
qed

lemma put_ingress_bounded:
  "rx_bounded c s \<Longrightarrow> map_of (ingress s) source \<noteq> None \<Longrightarrow> ingress_bounded c g \<Longrightarrow>
   rx_bounded c (s\<lparr>ingress := bt_insert source g (ingress s)\<rparr>)"
  unfolding rx_bounded_def sources_insert
  by (auto simp: sources_def map_of_eq_None_iff insert_absorb)

lemma put_peer_bounded:
  "rx_bounded c s \<Longrightarrow> source \<in> sources s \<or> active_source_count s \<noteq> max_peers c \<Longrightarrow>
   rx_bounded c (s\<lparr>peers := bt_insert source p (peers s)\<rparr>)"
  using insert_within[of s "max_peers c" source] unfolding rx_bounded_def sources_insert by auto

lemma admit_complete_bounded:
  assumes "rx_bounded c s" "source \<in> sources s"
  shows "rx_bounded c (fst (admit_complete A source now fr m s))"
proof (cases "admission A source now fr m s")
  case (Inr pr)
  obtain p r where pr: "pr = (p, r)" by fastforce
  then show ?thesis
    using put_peer_bounded[OF assms(1), of source p] assms(2) admission_mark(1)[of A source now fr m s p r] Inr
      rx_bounded_metrics[where s = "s\<lparr>peers := bt_insert source p (peers s)\<rparr>"]
    by (simp add: admit_complete_def)
qed (use assms in \<open>simp add: admit_complete_def\<close>)

lemma ingest_decoded_bounded:
  assumes "rx_bounded c s"
  shows "rx_bounded c (fst (ingest_decoded_frame A source now f s))"
proof (cases "open_ingress A source now s")
  case (Inl e)
  then show ?thesis using assms by (simp add: ingest_decoded_frame_def Let_def)
next
  case (Inr s1)
  note b1 = open_ingress_bounded[OF assms Inr]
  then obtain g where g: "map_of (ingress s1) source = Some g" by blast
  have c: "rx_config s = c" using assms by (simp add: rx_bounded_def)
  obtain g' out where gf: "ingress_frame A c source now f g = (g', out)" by fastforce
  let ?s2 = "s1\<lparr>ingress := bt_insert source g' (ingress s1)\<rparr>"
  have "ingress_bounded c g" using b1(1) g by (auto simp: rx_bounded_def)
  then have "ingress_bounded c g'" using ingress_frame_bounded[of c g A source now f] gf by simp
  then have b2: "rx_bounded c ?s2" using g by (intro put_ingress_bounded[OF b1(1)]) auto
  have src: "source \<in> sources ?s2" by (simp add: sources_insert)
  have b3: "rx_bounded c (?s2\<lparr>rx_metrics := mt\<rparr>)" "source \<in> sources (?s2\<lparr>rx_metrics := mt\<rparr>)" for mt
    using b2 src by (simp_all add: rx_bounded_metrics sources_def)
  have b4: "rx_bounded c (fst (admit_complete A source now (fragment_count f) m (?s2\<lparr>rx_metrics := mt\<rparr>)))" for m mt
    by (rule admit_complete_bounded[OF b3])
  show ?thesis
  proof (cases out)
    case (Inl e)
    then show ?thesis using assms b2 Inr g gf c by (simp add: ingest_decoded_frame_def Let_def)
  next
    case (Inr mo)
    then show ?thesis using assms b2 \<open>open_ingress A source now s = Inr s1\<close> g gf c b4
      by (cases mo) (simp_all add: ingest_decoded_frame_def Let_def case_prod_beta)
  qed
qed

lemma rx_step_bounded: "rx_bounded c s \<Longrightarrow> rx_bounded c (rx_exec A s e)"
proof (cases e)
  case (Ingest source now f)
  assume "rx_bounded c s"
  then have "rx_bounded c (count_frame s)" by (simp add: count_frame_def rx_bounded_metrics)
  then show ?thesis using ingest_decoded_bounded[of c "count_frame s" A source now f]
    by (simp add: Ingest rx_exec_def ingest_frame_def Let_def case_prod_beta rx_bounded_metrics)
next
  case (IngestBytes source now bs)
  assume "rx_bounded c s"
  then have "rx_bounded c (count_frame s)" by (simp add: count_frame_def rx_bounded_metrics)
  then show ?thesis using ingest_decoded_bounded[of c "count_frame s" A source now]
    by (cases "decode_frame A bs")
      (simp_all add: IngestBytes rx_exec_def ingest_frame_bytes_def Let_def case_prod_beta rx_bounded_metrics)
next
  case (Expire now)
  assume "rx_bounded c s"
  then show ?thesis by (simp add: Expire rx_exec_def expire_stale_def Let_def rx_bounded_def sources_def set_map[symmetric] del: set_map)
next
  case (Restore cp)
  assume b: "rx_bounded c s"
  have "cp_source_id cp \<in> sources s" if "map_of (peers s) (cp_source_id cp) = Some p" for p
    using map_of_SomeD[OF that] by (force simp: sources_def)
  then show ?thesis using b put_peer_bounded[OF b, of "cp_source_id cp"]
    by (auto simp: Restore rx_exec_def restore_replay_checkpoint_def Let_def rx_bounded_def split: option.splits)
qed

interpretation bounds: op_invariant "rx_exec A" "rx_bounded c"
  by unfold_locales (rule rx_step_bounded)

text \<open>
  C5. The resources of a receive session stay within its configuration over every run from a new session, whatever arrives: at most
  \<open>max_peers\<close> sources are held, and each ingress has at most \<open>max_contexts\<close> open reassembly contexts and has counted at
  most \<open>max_frames_per_window\<close> frames in its window.
\<close>

theorem receiver_resources_bounded:
  assumes "rx_new A keys c = Inr s" "map_of (ingress (foldl (rx_exec A) s es)) i = Some g"
  shows "active_source_count (foldl (rx_exec A) s es) \<le> max_peers c \<and>
    length (context_started_ms g) \<le> max_contexts (reassembly c) \<and> frames_in_window g \<le> max_frames_per_window c"
proof -
  have "rx_bounded c s" using assms(1) by (auto simp: rx_new_def rx_bounded_def sources_def)
  then have b: "rx_bounded c (foldl (rx_exec A) s es)" by (rule bounds.run_inv)
  then show ?thesis using assms(2) active_source_count_card[of "foldl (rx_exec A) s es"]
    by (auto simp: rx_bounded_def ingress_bounded_def)
qed

section \<open>A receiver at work\<close>

text \<open>
  An instance of the crates on which one keyframe of source 7 is decoded, authenticated and accepted; the witnesses of
  this theory run the session on it. \<open>st\<close> is the symbol state the delta carries.
\<close>

definition demo_delta :: "unit semantic_delta" where
  "demo_delta = \<lparr>base_hash = [], result_hash = [1], residuals = [], delta_rest = ()\<rparr>"

definition demo_envelope :: "unit semantic_envelope" where
  "demo_envelope = \<lparr>env_source_id = 7, env_epoch = 1, env_message_id = 0, env_logical_sequence = 0, env_class = (),
     env_priority = 12, env_state_hash = [1], env_signature = Some [9], env_rest = ()\<rparr>"

definition demo_message :: "unit message" where
  "demo_message = \<lparr>msg_bytes = [1], msg_class = (), msg_priority = 12, msg_state_tag = (),
     msg_stream_id = stream_id_for_source 7, msg_sequence = 0\<rparr>"

definition demo_frame :: "unit sparse_frame" where
  "demo_frame = \<lparr>frame_profile = (), frame_flags = (), frame_stream_id = stream_id_for_source 7, frame_sequence = 0,
     fragment_count = 1, frame_rest = ()\<rparr>"

type_synonym demo_state = "(u16, unit symbol_value) btree"

definition demo_ops :: "demo_state \<Rightarrow> (demo_state, unit, unit, unit, unit, unit, unit) air_ops" where
  "demo_ops st =
    \<lparr>crit = list_ops, critical_hash = (\<lambda>s. if s = [] then [] else [1]),
     delta_between = (\<lambda>_ _ _ _ _ _. Inr demo_delta), delta_apply = (\<lambda>_ _. Inr st),
     wrap_delta = (\<lambda>_ _ _ _. Inr demo_envelope), unwrap_delta = (\<lambda>_. Inr demo_delta),
     authentication_bytes = (\<lambda>_. Inr [5]), encode_envelope = (\<lambda>_. Inr [1]), decode_envelope = (\<lambda>_. Inr demo_envelope),
     fragment_message = (\<lambda>_ _ _. Inr [demo_frame]), encode_frame = (\<lambda>_. Inr [1]),
     decode_frame = (\<lambda>bs. if bs = [1] then Inr demo_frame else Inl CrcMismatch),
     state_hash_tag = (\<lambda>_. ()), flags_none = (), flags_signed_envelope = (), flags_union = (\<lambda>_ _. ()),
     flags_contains = (\<lambda>_ _. False), flags_bits = (\<lambda>_. 0), flags_from_bits = (\<lambda>_. Inr ()), profile_wifi = (),
     class_state_delta = (), frame_min_bytes = 17, frame_max_bytes = 255,
     reassembler_new = (\<lambda>_. Inr ()), reassembler_clear = (\<lambda>_ _ _. ()), has_in_flight = (\<lambda>_ _ _. False),
     reassembler_push = (\<lambda>_ _. ((), Inr (Some demo_message))), replay_new = (),
     replay_classify = (\<lambda>_ _. ReplayAccept), replay_commit = (\<lambda>_ _. Inr ()),
     verify_strict = (\<lambda>_ bs sg. bs = [5] \<and> sg = [9])\<rparr>"

definition demo_session :: "(demo_state, unit, unit, unit, unit) rx_session" where
  "demo_session = \<lparr>rx_keys = (\<lambda>i. if i = 7 then Some () else None), rx_config = rx_config_default (demo_ops []) 16,
     ingress = [], peers = [], rx_metrics = metrics_zero\<rparr>"

lemma demo_new: "rx_new (demo_ops st) (\<lambda>i. if i = 7 then Some () else None) (rx_config_default (demo_ops []) 16) = Inr demo_session"
  by (simp add: rx_new_def rx_validate_def rx_config_default_def demo_ops_def demo_session_def)

lemma demo_ops_simps [simp]:
  "crit (demo_ops st) = list_ops" "critical_hash (demo_ops st) [] = []" "delta_apply (demo_ops st) d b = Inr st"
  "unwrap_delta (demo_ops st) e = Inr demo_delta" "authentication_bytes (demo_ops st) e = Inr [5]"
  "decode_envelope (demo_ops st) bs = Inr demo_envelope" "decode_frame (demo_ops st) [1] = Inr demo_frame"
  "flags_bits (demo_ops st) fl = 0" "reassembler_new (demo_ops st) rc = Inr ()" "\<not> has_in_flight (demo_ops st) re i j"
  "reassembler_push (demo_ops st) re fr = ((), Inr (Some demo_message))" "replay_new (demo_ops st) = ()"
  "replay_classify (demo_ops st) w i = ReplayAccept" "replay_commit (demo_ops st) w i = Inr ()"
  "verify_strict (demo_ops st) k [5] [9]" "state_hash_tag (demo_ops st) h = ()"
  by (simp_all add: demo_ops_def)

lemma demo_session_simps [simp]:
  "rx_keys demo_session 7 = Some ()" "peers demo_session = []" "ingress demo_session = []"
  "max_peers (rx_config demo_session) = 32" "max_future_skew_ms (rx_config demo_session) = 500"
  "max_snapshot_age_ms (rx_config demo_session) = 5000" "frame_window_ms (rx_config demo_session) = 1000"
  "max_frames_per_window (rx_config demo_session) = 128" "max_contexts (reassembly (rx_config demo_session)) = 4"
  by (simp_all add: demo_session_def rx_config_default_def)

lemma list_ops_new [simp]: "cs_new list_ops = []"
  by (simp add: list_ops_def)

lemma demo_admission:
  assumes "from_critical_state (list_ops :: (_, unit, unit air_error) critical_ops) st = Inr snap"
    "ds_id (snap_drone snap) = 7" "timestamp_ms (snap_drone snap) = 0"
    "rx_keys s = rx_keys demo_session" "peers s = []" "rx_config s = rx_config demo_session"
    "active_source_count s \<le> 32"
  shows "\<exists>p r. admission (demo_ops st) 7 0 1 demo_message s = Inr (p, r) \<and> mark_of r = (7, 1, 0)"
proof -
  have auth: "authenticated_delta (demo_ops st) (rx_keys s) 7 demo_message = Inr (demo_envelope, demo_delta)"
    by (simp add: assms(4) authenticated_delta_def demo_envelope_def demo_delta_def demo_message_def try_from_def)
  show ?thesis using assms
    unfolding admission_def auth bindE_simps split Let_def
    by (simp add: base_for_def replay_check_def logical_check_def snapshot_check_def mark_of_def
        demo_envelope_def demo_delta_def sat_sub_def)
qed

lemma demo_accepts:
  "\<exists>st s' r. ingest_frame_bytes (demo_ops st) 7 0 [1] demo_session = (s', Inr (Some r)) \<and>
     ingest_frame (demo_ops st) 7 0 demo_frame demo_session = (s', Inr (Some r)) \<and> mark_of r = (7, 1, 0) \<and>
     (\<exists>g. map_of (ingress s') 7 = Some g)"
proof -
  obtain st d where st: "from_critical_state (list_ops :: (_, unit, unit air_error) critical_ops) st = Inr \<lparr>snap_drone = d, snap_failsafe = EmergencyLand\<rparr>"
    "ds_id d = 7" "timestamp_ms d = 0" using sample_snapshot[where ?'e = "unit air_error"] by blast
  define g where "g = \<lparr>reassembler = (), context_started_ms = [], last_received_ms = None, window_started_ms = 0, frames_in_window = 0\<rparr>"
  define s1 where "s1 = (count_frame demo_session)\<lparr>ingress := [(7, g)]\<rparr>"
  have o: "open_ingress (demo_ops st) 7 0 (count_frame demo_session) = Inr s1"
    by (simp add: open_ingress_def ingress_new_def count_frame_def active_source_count_def s1_def g_def bt_keys_def)
  obtain g' where gf: "ingress_frame (demo_ops st) (rx_config demo_session) 7 0 demo_frame g = (g', Inr (Some demo_message))"
    by (simp add: ingress_frame_def expire_contexts_def reset_window_def push_frame_def g_def Let_def)
  define s2 where "s2 = s1\<lparr>ingress := [(7, g')], rx_metrics := (rx_metrics s1)\<lparr>completed_envelopes := sat_add (completed_envelopes (rx_metrics s1)) 1\<rparr>\<rparr>"
  have "active_source_count s2 \<le> 32" "rx_keys s2 = rx_keys demo_session" "peers s2 = []" "rx_config s2 = rx_config demo_session"
    by (simp_all add: s2_def s1_def count_frame_def active_source_count_def bt_keys_def)
  then obtain p r where pr: "admission (demo_ops st) 7 0 1 demo_message s2 = Inr (p, r)" "mark_of r = (7, 1, 0)"
    using demo_admission[of st "\<lparr>snap_drone = d, snap_failsafe = EmergencyLand\<rparr>" s2] st by auto
  define s3 where "s3 = fst (admit_complete (demo_ops st) 7 0 1 demo_message s2)"
  have adm: "admit_complete (demo_ops st) 7 0 1 demo_message s2 = (s3, Inr r)" and ing: "map_of (ingress s3) 7 = Some g'"
    using pr(1) by (simp_all add: s3_def admit_complete_def s2_def)
  have frame: "frame_profile demo_frame = ()" "frame_stream_id demo_frame = stream_id_for_source 7" "fragment_count demo_frame = 1"
    by (simp_all add: demo_frame_def)
  have s1: "rx_config s1 = rx_config demo_session" "map_of (ingress s1) 7 = Some g" "bt_insert 7 g' (ingress s1) = [(7, g')]"
    by (simp_all add: s1_def count_frame_def)
  have cf: "rx_config (count_frame demo_session) = rx_config demo_session" "rx_keys (count_frame demo_session) 7 = Some ()"
    by (simp_all add: count_frame_def)
  have "ingest_decoded_frame (demo_ops st) 7 0 demo_frame (count_frame demo_session) = (s3, Inr (Some r))"
    using adm by (simp add: ingest_decoded_frame_def Let_def o cf s1 gf frame s2_def)
  then have "ingest_frame (demo_ops st) 7 0 demo_frame demo_session = (s3, Inr (Some r))"
    and "ingest_frame_bytes (demo_ops st) 7 0 [1] demo_session = (s3, Inr (Some r))"
    by (simp_all add: ingest_frame_def ingest_frame_bytes_def Let_def record_result_def)
  then show ?thesis using pr(2) ing by blast
qed

theorem accepted_snapshot_is_authentic_witness:
  "\<exists>st s' r. ingest_frame_bytes (demo_ops st) 7 0 [1] demo_session = (s', Inr (Some r)) \<and>
     (\<exists>encoded env signature bytes. decode_envelope (demo_ops st) encoded = Inr env \<and> env_source_id env = 7 \<and>
        env_signature env = Some signature \<and> verify_strict (demo_ops st) () bytes signature) \<and> mark_of r = (7, 1, 0)"
proof -
  obtain st s' r where i: "ingest_frame_bytes (demo_ops st) 7 0 [1] demo_session = (s', Inr (Some r))" "mark_of r = (7, 1, 0)"
    using demo_accepts by blast
  from accepted_snapshot_is_authentic[OF i(1)] obtain encoded env key signature bytes where
    "decode_envelope (demo_ops st) encoded = Inr env" "env_source_id env = 7" "env_signature env = Some signature"
    "verify_strict (demo_ops st) key bytes signature" by blast
  then show ?thesis using i by (metis old.unit.exhaust)
qed

theorem accepted_snapshot_is_fresh_witness:
  "\<exists>st s' r. ingest_frame (demo_ops st) 7 0 demo_frame demo_session = (s', Inr (Some r)) \<and>
     ds_id (snap_drone (rs_snapshot r)) = 7 \<and> fresh_after (map_of (peers demo_session) 7) r \<and> peer_snapshot s' 7 = Some (rs_snapshot r)"
proof -
  obtain st s' r where i: "ingest_frame (demo_ops st) 7 0 demo_frame demo_session = (s', Inr (Some r))"
    using demo_accepts by blast
  from accepted_snapshot_is_fresh[OF i] i show ?thesis by blast
qed

theorem frame_isolation_witness:
  "ingest_frame_bytes (demo_ops []) 7 0 [3] demo_session =
     (fst (ingest_frame_bytes (demo_ops []) 7 0 [3] demo_session), Inl (PAir CrcMismatch)) \<and>
   peers (fst (ingest_frame_bytes (demo_ops []) 7 0 [3] demo_session)) = []"
proof -
  have i: "ingest_frame_bytes (demo_ops []) 7 0 [3] demo_session =
     (fst (ingest_frame_bytes (demo_ops []) 7 0 [3] demo_session), Inl (PAir CrcMismatch))"
    by (simp add: ingest_frame_bytes_def Let_def demo_ops_def)
  from frame_isolation[OF i] i show ?thesis by (simp add: outcome_def)
qed

theorem receiver_resources_bounded_witness:
  "\<exists>st g. map_of (ingress (foldl (rx_exec (demo_ops st)) demo_session [Ingest 7 0 demo_frame])) 7 = Some g \<and>
     frames_in_window g \<le> 128 \<and> length (context_started_ms g) \<le> 4"
proof -
  obtain st s' r g where i: "ingest_frame (demo_ops st) 7 0 demo_frame demo_session = (s', Inr (Some r))" "map_of (ingress s') 7 = Some g"
    using demo_accepts by blast
  then have g: "map_of (ingress (foldl (rx_exec (demo_ops st)) demo_session [Ingest 7 0 demo_frame])) 7 = Some g"
    by (simp add: rx_exec_def)
  from receiver_resources_bounded[OF demo_new[of st] g] g show ?thesis by (auto simp: rx_config_default_def)
qed

end
