(* ===== verification/Delivery.thy ===== *)
theory Delivery
  imports TransmitSafety ReceiveSafety
begin

text \<open>
  The two ends of the advisory protocol together: what a transmit session encodes, a receive session that is in step with
  it admits, and it reconstructs the encoded state. What the crates must do for that is a predicate of its own,
  \<open>codec_laws\<close>: codecs invert each other, a delta applies to its base, the signature of the signer
  verifies under the receiver's key, and a replay window accepts sequence numbers in order.
\<close>

section \<open>What the crates do\<close>

definition delta_laws :: "('cs, 'o, 'e, 'k, 'rw, 're, 'x) air_ops \<Rightarrow> bool" where
  "delta_laws A \<longleftrightarrow> (\<forall>source epoch i base st delta.
     delta_between A source epoch i base st [] = Inr delta \<longrightarrow>
       base_hash delta = critical_hash A base \<and> residuals delta = [] \<and> delta_apply A delta base = Inr st)"

definition envelope_laws :: "('cs, 'o, 'e, 'k, 'rw, 're, 'x) air_ops \<Rightarrow> bool" where
  "envelope_laws A \<longleftrightarrow>
     (\<forall>source epoch i base st delta prio seq sg env.
        delta_between A source epoch i base st [] = Inr delta \<longrightarrow> wrap_delta A delta prio seq sg = Inr env \<longrightarrow>
          env_source_id env = source \<and> env_epoch env = epoch \<and> env_message_id env = i \<and> env_logical_sequence env = seq \<and>
          env_class env = class_state_delta A \<and> env_priority env = prio \<and> env_state_hash env = result_hash delta \<and>
          (\<forall>sg'. unwrap_delta A (env\<lparr>env_signature := sg'\<rparr>) = Inr delta))
     \<and> (\<forall>env sg. authentication_bytes A (env\<lparr>env_signature := sg\<rparr>) = authentication_bytes A env)
     \<and> (\<forall>env bytes. encode_envelope A env = Inr bytes \<longrightarrow> decode_envelope A bytes = Inr env)"

text \<open>\<open>W w q\<close>: the window \<open>w\<close> is ready for the wire sequence \<open>q\<close> that comes next.\<close>

definition window_laws :: "('cs, 'o, 'e, 'k, 'rw, 're, 'x) air_ops \<Rightarrow> ('rw \<Rightarrow> u16 \<Rightarrow> bool) \<Rightarrow> bool" where
  "window_laws A W \<longleftrightarrow> W (replay_new A) 0 \<and>
     (\<forall>w q. W w q \<longrightarrow> replay_classify A w q = ReplayAccept \<and> (\<exists>w'. replay_commit A w q = Inr w' \<and> W w' (q + 1)))"

definition codec_laws ::
  "('cs, 'o, 'e, 'k, 'rw, 're, 'x) air_ops \<Rightarrow> 'e envelope_signer \<Rightarrow> 'k \<Rightarrow> ('rw \<Rightarrow> u16 \<Rightarrow> bool) \<Rightarrow> bool" where
  "codec_laws A sg k W \<longleftrightarrow> critical_laws (crit A) \<and> delta_laws A \<and> envelope_laws A \<and> window_laws A W \<and>
     (\<forall>bytes signature. sg bytes = Inr signature \<longrightarrow> verify_strict A k bytes signature)"

section \<open>In step\<close>

text \<open>
  A receiver is in step with a transmitter when its next message starts an epoch the receiver has not reached, or continues
  the epoch from the state the receiver holds.
\<close>

definition in_step ::
  "('rw \<Rightarrow> u16 \<Rightarrow> bool) \<Rightarrow> ('cs, 'e, 'x) tx_session \<Rightarrow> ('cs, 'rw) peer_runtime option \<Rightarrow> bool" where
  "in_step W t peer \<longleftrightarrow>
    (case peer of
       None \<Rightarrow> next_logical_sequence t = 0
     | Some p \<Rightarrow>
         if pr_epoch p < tx_epoch t then next_logical_sequence t = 0
         else pr_epoch p = tx_epoch t \<and> unat (next_logical_sequence t) = unat (last_logical_sequence p) + 1 \<and>
           critical p = Some (last_state t) \<and> \<not> requires_keyframe p \<and> W (pr_replay p) (ucast (next_logical_sequence t)))"

text \<open>
  A receiver tells a keyframe by the hash of its base state. A base whose hash collides with the hash of the empty state
  would be taken for the empty one, so the state the transmitter holds must not collide.
\<close>

definition no_collision :: "('cs, 'o, 'e, 'k, 'rw, 're, 'x) air_ops \<Rightarrow> ('cs, 'e, 'x) tx_session \<Rightarrow> bool" where
  "no_collision A t \<longleftrightarrow> (critical_hash A (last_state t) = critical_hash A (cs_new (crit A)) \<longrightarrow> last_state t = cs_new (crit A))"

text \<open>The message the receiver reassembles from the frames of a batch.\<close>

definition message_of :: "('cs, 'o, 'e, 'k, 'rw, 're, 'x) air_ops \<Rightarrow> u8 \<Rightarrow> 'x transmit_batch \<Rightarrow> u8 list \<Rightarrow> 'x message" where
  "message_of A prio b bytes =
    \<lparr>msg_bytes = bytes, msg_class = class_state_delta A, msg_priority = prio, msg_state_tag = state_hash_tag A (tb_state_hash b),
     msg_stream_id = stream_id_for_source (tb_source_id b), msg_sequence = tb_wire_sequence b\<rparr>"

text \<open>The time window of the receiver for a timestamp of the source.\<close>

definition timely_for :: "'x rx_config \<Rightarrow> u64 \<Rightarrow> ('cs, 'e, 'x) tx_session \<Rightarrow> ('cs, 'rw) peer_runtime option \<Rightarrow> u64 \<Rightarrow> bool" where
  "timely_for c now t peer ts \<longleftrightarrow> \<not> sat_add now (max_future_skew_ms c) < ts \<and> \<not> max_snapshot_age_ms c < sat_sub now ts \<and>
     (case peer of None \<Rightarrow> True | Some p \<Rightarrow> pr_epoch p \<noteq> tx_epoch t \<or> last_timestamp_ms p \<le> ts)"

lemma authenticated_batch:
  assumes laws: "codec_laws A (signer t) k W"
    and keys: "keys (tx_source_id t) = Some k"
    and batch: "build_batch A t d fs = Inr (st, next', b)"
    and bytes: "encode_envelope A (tb_envelope b) = Inr bytes"
  obtains env delta where
    "authenticated_delta A keys (tx_source_id t) (message_of A (tx_priority (tx_config t)) b bytes) = Inr (env, delta)"
    "env_source_id env = tx_source_id t" "env_epoch env = tx_epoch t" "env_logical_sequence env = next_logical_sequence t"
    "base_hash delta = critical_hash A (if tb_keyframe b then cs_new (crit A) else last_state t)"
    "delta_apply A delta (if tb_keyframe b then cs_new (crit A) else last_state t) = Inr st"
proof -
  from batch obtain delta envelope0 abytes signature where
    id: "unat (tb_message_id b) = unat (next_logical_sequence t)"
    and db: "delta_between A (tx_source_id t) (tx_epoch t) (tb_message_id b)
       (if tb_keyframe b then cs_new (crit A) else last_state t) st [] = Inr delta"
    and wrap: "wrap_delta A delta (tx_priority (tx_config t)) (next_logical_sequence t) (Some (replicate 64 0)) = Inr envelope0"
    and auth: "authentication_bytes A envelope0 = Inr abytes" and sg: "signer t abytes = Inr signature"
    and env: "tb_envelope b = envelope0\<lparr>env_signature := Some signature\<rparr>"
    and src: "tb_source_id b = tx_source_id t" and wire: "tb_wire_sequence b = ucast (next_logical_sequence t)"
    and hash: "tb_state_hash b = result_hash delta"
    by (elim build_batch_Inr)
  note dl = laws[unfolded codec_laws_def delta_laws_def, THEN conjunct2, THEN conjunct1, rule_format, OF db]
  have el: "env_source_id envelope0 = tx_source_id t \<and> env_epoch envelope0 = tx_epoch t \<and> env_message_id envelope0 = tb_message_id b \<and>
      env_logical_sequence envelope0 = next_logical_sequence t \<and> env_class envelope0 = class_state_delta A \<and>
      env_priority envelope0 = tx_priority (tx_config t) \<and> env_state_hash envelope0 = result_hash delta \<and>
      (\<forall>sg'. unwrap_delta A (envelope0\<lparr>env_signature := sg'\<rparr>) = Inr delta)"
    using laws db wrap unfolding codec_laws_def envelope_laws_def by blast
  have dec: "decode_envelope A bytes = Inr (tb_envelope b)" and ab: "authentication_bytes A (tb_envelope b) = Inr abytes"
    using laws bytes auth unfolding codec_laws_def envelope_laws_def env by (blast, simp)
  have ver: "verify_strict A k abytes signature" using laws sg unfolding codec_laws_def by blast
  have mid: "try_from (next_logical_sequence t) = Some (tb_message_id b)" using id by (simp add: try_from_Some)
  have "authenticated_delta A keys (tx_source_id t) (message_of A (tx_priority (tx_config t)) b bytes) = Inr (tb_envelope b, delta)"
    unfolding authenticated_delta_def using dec ab ver mid el keys dl
    by (simp add: message_of_def src wire hash env)
  then show thesis using that el dl by (simp add: env)
qed

lemma ucast_succ: "unat y = unat x + 1 \<Longrightarrow> (ucast y :: u16) = ucast x + 1" for x y :: u64
proof -
  assume y: "unat y = unat x + 1"
  then have "unat x + 1 < 2 ^ 64" using unat_bound[of y] by simp
  then have "y = x + 1" using y by (simp add: word_unat_eq_iff unat_word_ariths)
  then show ?thesis by (simp add: word_unat_eq_iff unsigned_ucast_eq unat_word_ariths take_bit_eq_mod mod_mod_cancel) (simp add: mod_simps)
qed

lemma in_step_base:
  assumes laws: "codec_laws A (signer t) k W" and step: "in_step W t peer" and coll: "no_collision A t"
    and env: "env_source_id env = tx_source_id t" "env_epoch env = tx_epoch t" "env_logical_sequence env = next_logical_sequence t"
    and hash: "base_hash delta = critical_hash A base0" "base0 = (if keyframe then cs_new (crit A) else last_state t)"
    and key: "keyframe \<longleftrightarrow> next_logical_sequence t mod interval = 0"
  obtains (ready) replay where
    "base_for A peer env (base_hash delta = critical_hash A (cs_new (crit A))) = Inr (base0, replay)"
    "W replay (ucast (next_logical_sequence t))" "logical_check peer env = (Inr () :: 'e protocol_error + unit)"
proof -
  have inj: "critical_hash A base0 = critical_hash A (cs_new (crit A)) \<longleftrightarrow> base0 = cs_new (crit A)"
    using coll hash(2) by (auto simp: no_collision_def)
  have w0: "W (replay_new A) 0" using laws unfolding codec_laws_def window_laws_def by blast
  have start: thesis if zero: "next_logical_sequence t = 0" and older: "\<And>p. peer = Some p \<Longrightarrow> pr_epoch p < tx_epoch t"
  proof (rule ready[of "replay_new A"])
    have b: "base0 = cs_new (crit A)" using zero key hash(2) by simp
    show "base_for A peer env (base_hash delta = critical_hash A (cs_new (crit A))) = Inr (base0, replay_new A)"
      using older by (cases peer) (auto simp: base_for_def Let_def hash(1) inj b env zero)
    show "W (replay_new A) (ucast (next_logical_sequence t))" using w0 zero by simp
    show "logical_check peer env = (Inr () :: 'e protocol_error + unit)"
      using older by (cases peer) (auto simp: logical_check_def env)
  qed
  show thesis
  proof (cases peer)
    case None
    then show ?thesis using step by (intro start) (simp_all add: in_step_def)
  next
    case (Some p)
    show ?thesis
    proof (cases "pr_epoch p < tx_epoch t")
      case True
      then show ?thesis using step Some by (intro start) (simp_all add: in_step_def)
    next
      case False
      then have p: "pr_epoch p = tx_epoch t" "unat (next_logical_sequence t) = unat (last_logical_sequence p) + 1"
        "critical p = Some (last_state t)" "\<not> requires_keyframe p" "W (pr_replay p) (ucast (next_logical_sequence t))"
        using step Some by (simp_all add: in_step_def)
      show ?thesis
      proof (rule ready)
        show "base_for A peer env (base_hash delta = critical_hash A (cs_new (crit A))) = Inr (base0, pr_replay p)"
          using p hash(2) inj by (cases keyframe) (auto simp: Some base_for_def Let_def hash(1) env)
        show "W (pr_replay p) (ucast (next_logical_sequence t))" by (rule p)
        show "logical_check peer env = (Inr () :: 'e protocol_error + unit)"
          using p(2) by (simp add: Some logical_check_def env word_le_nat_alt)
      qed
    qed
  qed
qed

text \<open>
  C7. Over crates that obey \<open>codec_laws\<close>, transmitter and receiver stay in step. Let the receiver trust the transmitter's key, be in step with it and have room in
  its table of peers; let the timestamp lie in the receiver's time window, the drone's floats be valid with a heading of at most 411774/65536, and
  the hash of the transmitter's last state not collide with the hash of the empty state. Then the complete message of the next encoded state, as the
  frames carry it, is admitted, keyframe or delta, the snapshot is the encoded state up to half a Q16.16 unit with exact identifiers, and the
  receiver is in step with the transmitter again. Fragments and reassembly are the crate's, before this point.
\<close>
theorem advisory_is_delivered:
  fixes A :: "('cs, 'o, 'e, 'k, 'rw, 're, 'x) air_ops"
  assumes laws: "codec_laws A (signer t) k W"
    and keys: "rx_keys s (tx_source_id t) = Some k"
    and sent: "encode_advisory_state A d fs t = (t', Inr b)" "encode_envelope A (tb_envelope b) = Inr bytes"
    and step: "in_step W t (map_of (peers s) (tx_source_id t))"
    and time: "timely_for (rx_config s) now t (map_of (peers s) (tx_source_id t)) (timestamp_ms d)"
    and coll: "no_collision A t"
    and room: "active_source_count s \<le> max_peers (rx_config s)"
    and drone: "valid_drone d" "in_range (Fin (- 411774 / 65536)) (Fin (411774 / 65536)) (heading_rad d)"
  shows "\<exists>s' r d'. admit_complete A (tx_source_id t) now fragments (message_of A (tx_priority (tx_config t)) b bytes) s = (s', Inr r)
    \<and> rs_snapshot r = \<lparr>snap_drone = d', snap_failsafe = fs\<rparr>
    \<and> ds_id d' = ds_id d \<and> timestamp_ms d' = timestamp_ms d \<and> half_unit_drone d' d
    \<and> in_step W t' (map_of (peers s') (tx_source_id t))"
proof -
  let ?src = "tx_source_id t" and ?m = "message_of A (tx_priority (tx_config t)) b bytes" and ?n = "next_logical_sequence t"
  obtain st next' where batch: "build_batch A t d fs = Inr (st, next', b)"
    and t': "t' = t\<lparr>last_state := st, next_logical_sequence := next'\<rparr>"
    using encode_outcomes[OF sent(1)] by auto
  have bf: "ds_id d = ?src" "unat next' = unat ?n + 1" "to_critical_state (crit A) d fs = Inr st"
    "tb_keyframe b \<longleftrightarrow> ?n mod ucast (keyframe_interval (tx_config t)) = 0" "tb_wire_sequence b = ucast ?n"
    by (rule build_batch_Inr[OF batch]; simp)+
  obtain env delta where
    a: "authenticated_delta A (rx_keys s) ?src ?m = Inr (env, delta)"
    and env: "env_source_id env = ?src" "env_epoch env = tx_epoch t" "env_logical_sequence env = ?n"
    and hash: "base_hash delta = critical_hash A (if tb_keyframe b then cs_new (crit A) else last_state t)"
    and app: "delta_apply A delta (if tb_keyframe b then cs_new (crit A) else last_state t) = Inr st"
    using authenticated_batch[where keys = "rx_keys s", OF laws keys batch sent(2)] by blast
  obtain replay where
    base: "base_for A (map_of (peers s) ?src) env (base_hash delta = critical_hash A (cs_new (crit A))) =
        Inr (if tb_keyframe b then cs_new (crit A) else last_state t, replay)"
    and w: "W replay (ucast ?n)" and logical: "logical_check (map_of (peers s) ?src) env = (Inr () :: 'e protocol_error + unit)"
    using in_step_base[OF laws step coll env hash refl bf(4)] by blast
  obtain replay' where rep: "replay_classify A replay (ucast ?n) = ReplayAccept" "replay_commit A replay (ucast ?n) = Inr replay'"
    "W replay' (ucast ?n + 1)" using laws w unfolding codec_laws_def window_laws_def by blast
  have wire: "msg_sequence ?m = ucast ?n" by (simp add: message_of_def bf(5))
  have crit: "critical_laws (crit A)" using laws by (simp add: codec_laws_def)
  have ok: "telemetry_ok d" by (rule stored(3)[OF crit bf(3)])
  note q = quantised_ok[OF drone(1) ok drone(2)]
  then have "validate_domain_ranges (quantised d) = (Inr () :: 'e air_error state_error + unit)" by (simp add: validate_domain_ranges_ok)
  then have snap: "from_critical_state (crit A) st = Inr \<lparr>snap_drone = quantised d, snap_failsafe = fs\<rparr>"
    by (simp add: from_to[OF crit bf(3)])
  have qid: "ds_id (quantised d) = ds_id d" "timestamp_ms (quantised d) = timestamp_ms d" by (simp_all add: quantised_def Let_def)
  have sc: "snapshot_check (rx_config s) (map_of (peers s) ?src) now env \<lparr>snap_drone = quantised d, snap_failsafe = fs\<rparr> = (Inr () :: 'e protocol_error + unit)"
    using time by (auto simp: snapshot_check_def Let_def qid env bf(1) timely_for_def not_less split: option.splits)
  have cap: "\<not> (map_of (peers s) ?src = None \<and> max_peers (rx_config s) < active_source_count s)" using room by simp
  have rc: "replay_check A replay (msg_sequence ?m) env = (Inr () :: 'e protocol_error + unit)" by (simp add: replay_check_def wire rep(1))
  obtain p r where adm: "admission A ?src now fragments ?m s = Inr (p, r)" and r: "rs_snapshot r = \<lparr>snap_drone = quantised d, snap_failsafe = fs\<rparr>"
    and md: "md_source_id (rs_metadata r) = ?src"
    and p: "pr_epoch p = tx_epoch t" "last_logical_sequence p = ?n" "critical p = Some st" "\<not> requires_keyframe p" "pr_replay p = replay'"
    unfolding admission_def a bindE_simps split Let_def env base rc logical app snap map_err_simps sc wire rep(2) using cap rc[unfolded wire]
    by (auto simp: env)
  have nw: "(ucast next' :: u16) = ucast ?n + 1" using bf(2) by (rule ucast_succ)
  have "in_step W t' (Some p)"
    by (simp add: in_step_def t' p bf(2) nw rep(3))
  then show ?thesis
    using adm r md qid q by (auto simp: admit_complete_def)
qed

section \<open>An instance\<close>

text \<open>
  Crates that satisfy the laws: a delta carries its target state and the marks it was made for, and the codec knows the
  one envelope \<open>E\<close>. On it a first keyframe of drone 7 is encoded and delivered.
\<close>

type_synonym link_rest = "(u32 \<times> u32 \<times> u32) \<times> bool \<times> demo_state"

definition link_rest0 :: link_rest where "link_rest0 = ((0, 0, 0), False, [])"

definition link_hash :: "demo_state \<Rightarrow> u8 list" where
  "link_hash s = (if s = [] then [] else [1])"

definition link_delta :: "link_rest \<Rightarrow> link_rest semantic_delta" where
  "link_delta x = \<lparr>base_hash = (if fst (snd x) then [] else [1]), result_hash = link_hash (snd (snd x)), residuals = [], delta_rest = x\<rparr>"

definition link_envelope :: "link_rest \<Rightarrow> u8 \<Rightarrow> u64 \<Rightarrow> u8 list option \<Rightarrow> link_rest semantic_envelope" where
  "link_envelope x prio i sg =
    \<lparr>env_source_id = fst (fst x), env_epoch = fst (snd (fst x)), env_message_id = snd (snd (fst x)), env_logical_sequence = i,
     env_class = link_rest0, env_priority = prio, env_state_hash = link_hash (snd (snd x)), env_signature = sg, env_rest = x\<rparr>"

definition link_ops :: "link_rest semantic_envelope \<Rightarrow> (demo_state, unit, unit, unit, u16, unit, link_rest) air_ops" where
  "link_ops E =
    \<lparr>crit = list_ops, critical_hash = link_hash,
     delta_between = (\<lambda>source epoch i base st _. Inr (link_delta ((source, epoch, i), base = [], st))),
     delta_apply = (\<lambda>delta _. Inr (snd (snd (delta_rest delta)))),
     wrap_delta = (\<lambda>delta prio i sg. Inr (link_envelope (delta_rest delta) prio i sg)),
     unwrap_delta = (\<lambda>env. Inr (link_delta (env_rest env))),
     authentication_bytes = (\<lambda>env. Inr [5, env_priority env]),
     encode_envelope = (\<lambda>env. if env = E then Inr [1] else Inl InvalidLength),
     decode_envelope = (\<lambda>bs. if bs = [1] then Inr E else Inl InvalidLength),
     fragment_message = (\<lambda>_ _ _. Inr []), encode_frame = (\<lambda>_. Inr [1]), decode_frame = (\<lambda>_. Inl CrcMismatch),
     state_hash_tag = (\<lambda>_. link_rest0), flags_none = link_rest0, flags_signed_envelope = link_rest0,
     flags_union = (\<lambda>_ _. link_rest0), flags_contains = (\<lambda>_ _. False), flags_bits = (\<lambda>_. 0),
     flags_from_bits = (\<lambda>_. Inr link_rest0), profile_wifi = link_rest0, class_state_delta = link_rest0,
     frame_min_bytes = 17, frame_max_bytes = 255,
     reassembler_new = (\<lambda>_. Inr ()), reassembler_clear = (\<lambda>_ _ _. ()), has_in_flight = (\<lambda>_ _ _. False),
     reassembler_push = (\<lambda>_ _. ((), Inr None)), replay_new = 0,
     replay_classify = (\<lambda>w i. if i = w then ReplayAccept else ReplayDuplicate),
     replay_commit = (\<lambda>w i. if i = w then Inr (i + 1) else Inl InvalidLength),
     verify_strict = (\<lambda>_ bs sg. sg = 9 # bs)\<rparr>"

definition link_signer :: "unit envelope_signer" where "link_signer bs = Inr (9 # bs)"

lemma link_laws: "codec_laws (link_ops E) link_signer k (=)"
proof -
  have "delta_laws (link_ops E)"
    by (auto simp: delta_laws_def link_ops_def link_delta_def link_hash_def list_ops_new split: if_splits)
  moreover have "envelope_laws (link_ops E)"
    by (auto simp: envelope_laws_def link_ops_def link_delta_def link_envelope_def split: if_splits)
  moreover have "window_laws (link_ops E) (=)" by (auto simp: window_laws_def link_ops_def)
  ultimately show ?thesis using list_ops_laws(1)
    by (auto simp: codec_laws_def link_signer_def) (auto simp: link_ops_def)
qed

definition link_tx :: "link_rest semantic_envelope \<Rightarrow> (demo_state, unit, link_rest) tx_session" where
  "link_tx E = \<lparr>tx_source_id = 7, tx_epoch = 1, next_logical_sequence = 0, last_state = [], signer = link_signer,
     tx_config = tx_config_default (link_ops E)\<rparr>"

definition link_rx :: "link_rest semantic_envelope \<Rightarrow> (demo_state, unit, u16, unit, link_rest) rx_session" where
  "link_rx E = \<lparr>rx_keys = (\<lambda>i. if i = 7 then Some () else None), rx_config = rx_config_default (link_ops E) 16,
     ingress = [], peers = [], rx_metrics = metrics_zero\<rparr>"

lemma link_sends:
  "\<exists>E t' b. encode_advisory_state (link_ops E) (default_at_origin 7) EmergencyLand (link_tx E) = (t', Inr b) \<and> tb_envelope b = E \<and>
     tx_new (link_ops E) 7 1 link_signer (tx_config_default (link_ops E)) = Inr (link_tx E) \<and>
     rx_new (link_ops E) (\<lambda>i. if i = 7 then Some () else None) (rx_config_default (link_ops E) 16) = Inr (link_rx E)"
proof -
  obtain st where st: "to_critical_state (list_ops :: (_, unit, unit air_error) critical_ops) (default_at_origin 7) EmergencyLand = Inr st"
    using sample_state by blast
  let ?E = "link_envelope ((7, 1, 0), True, st) 12 0 (Some [9, 5, 12])"
  have "\<exists>n b. build_batch (link_ops ?E) (link_tx ?E) (default_at_origin 7) EmergencyLand = Inr (st, n, b) \<and> tb_envelope b = ?E"
    unfolding build_batch_def Let_def
    by (simp add: link_ops_def st link_tx_def tx_config_default_def link_signer_def
        default_at_origin_def[THEN arg_cong[where f = ds_id]] try_from_def checked_add_def link_delta_def link_envelope_def)
  then obtain t' b where "encode_advisory_state (link_ops ?E) (default_at_origin 7) EmergencyLand (link_tx ?E) = (t', Inr b)" "tb_envelope b = ?E"
    by (auto simp: encode_advisory_state_def)
  moreover have "tx_new (link_ops ?E) 7 1 link_signer (tx_config_default (link_ops ?E)) = Inr (link_tx ?E)"
    by (simp add: tx_new_def tx_validate_def tx_config_default_def link_tx_def) (auto simp: link_ops_def link_rest0_def)
  moreover have "rx_new (link_ops ?E) (\<lambda>i. if i = 7 then Some () else None) (rx_config_default (link_ops ?E) 16) = Inr (link_rx ?E)"
    by (simp add: rx_new_def rx_validate_def rx_config_default_def link_rx_def) (auto simp: link_ops_def link_rest0_def)
  ultimately show ?thesis by blast
qed

theorem advisory_is_delivered_witness:
  "\<exists>E t' b s' r. encode_advisory_state (link_ops E) (default_at_origin 7) EmergencyLand (link_tx E) = (t', Inr b) \<and>
     admit_complete (link_ops E) 7 0 1 (message_of (link_ops E) 12 b [1]) (link_rx E) = (s', Inr r) \<and>
     snap_failsafe (rs_snapshot r) = EmergencyLand \<and> ds_id (snap_drone (rs_snapshot r)) = 7 \<and>
     in_step (=) t' (map_of (peers s') 7)"
proof -
  obtain E t' b where e: "encode_advisory_state (link_ops E) (default_at_origin 7) EmergencyLand (link_tx E) = (t', Inr b)" "tb_envelope b = E"
    using link_sends by blast
  have tx: "signer (link_tx E) = link_signer" "tx_source_id (link_tx E) = 7" "tx_priority (tx_config (link_tx E)) = 12"
    "next_logical_sequence (link_tx E) = 0" by (simp_all add: link_tx_def tx_config_default_def)
  have rx: "rx_keys (link_rx E) 7 = Some ()" "peers (link_rx E) = []" "active_source_count (link_rx E) = 0"
    by (simp_all add: link_rx_def active_source_count_def bt_keys_def)
  have enc: "encode_envelope (link_ops E) (tb_envelope b) = Inr [1]" by (simp add: link_ops_def e(2))
  have drone: "ds_id (default_at_origin 7) = 7" "timestamp_ms (default_at_origin 7) = 0"
    "in_range (Fin (- 411774 / 65536)) (Fin (411774 / 65536)) (heading_rad (default_at_origin 7))"
    by (simp_all add: default_at_origin_def zero_flt_def in_range_finite)
  have step: "in_step (=) (link_tx E) (map_of (peers (link_rx E)) 7)" and time: "timely_for (rx_config (link_rx E)) 0 (link_tx E) (map_of (peers (link_rx E)) 7) 0"
    by (simp_all add: rx(2) in_step_def tx timely_for_def sat_sub_def)
  have coll: "no_collision (link_ops E) (link_tx E)" by (simp add: no_collision_def link_tx_def link_ops_def list_ops_new)
  obtain s' r d' where "admit_complete (link_ops E) 7 0 1 (message_of (link_ops E) 12 b [1]) (link_rx E) = (s', Inr r)"
    "rs_snapshot r = \<lparr>snap_drone = d', snap_failsafe = EmergencyLand\<rparr>" "ds_id d' = 7" "in_step (=) t' (map_of (peers s') 7)"
    using advisory_is_delivered[of "link_ops E" "link_tx E" "()" "(=)" "link_rx E" "default_at_origin 7" EmergencyLand t' b "[1]" 0 1,
      unfolded tx rx(1,3) drone(1,2), OF link_laws refl e(1) enc step time coll _ origin_ok(1) drone(3)]
    by auto
  moreover from this(2) have "snap_failsafe (rs_snapshot r) = EmergencyLand" "ds_id (snap_drone (rs_snapshot r)) = d'_id" if "d'_id = ds_id d'" for d'_id
    using that by simp_all
  ultimately show ?thesis using e(1) by metis
qed

end
