(* ===== verification/Policy.thy ===== *)
theory Policy
  imports Types
begin

text \<open>
  The admission and delivery policy of \<open>src/latentmesh/policy.rs\<close>: the capability gate with its approved
  manifests, the evaluation of one message against the measured link, the redundancy and energy arithmetic,
  and the ranking of candidates. \<open>BTreeSet\<close> is a set; all floats are IEEE values.
\<close>

section \<open>Authority and actions\<close>

datatype authority_level = ObserveOnly | MissionCoordination | FlightAuthority

instantiation authority_level :: linorder
begin

fun rank_authority_level :: "authority_level \<Rightarrow> nat" where
  "rank_authority_level ObserveOnly = 0"
| "rank_authority_level MissionCoordination = 1"
| "rank_authority_level FlightAuthority = 2"

definition less_eq_authority_level :: "authority_level \<Rightarrow> authority_level \<Rightarrow> bool" where
  "a \<le> b \<longleftrightarrow> rank_authority_level a \<le> rank_authority_level b"

definition less_authority_level :: "authority_level \<Rightarrow> authority_level \<Rightarrow> bool" where
  "a < b \<longleftrightarrow> rank_authority_level a < rank_authority_level b"

instance
proof
  fix a b :: authority_level
  show "a = b" if "a \<le> b" "b \<le> a"
    using that by (cases a; cases b) (simp_all add: less_eq_authority_level_def)
qed (auto simp: less_eq_authority_level_def less_authority_level_def)

end

lemma authority_order [simp]:
  "a \<le> FlightAuthority" "ObserveOnly \<le> a" "a \<le> ObserveOnly \<longleftrightarrow> a = ObserveOnly"
  "a \<le> MissionCoordination \<longleftrightarrow> a \<noteq> FlightAuthority" "MissionCoordination < a \<longleftrightarrow> a = FlightAuthority"
  "ObserveOnly < a \<longleftrightarrow> a \<noteq> ObserveOnly"
  by (cases a; simp add: less_eq_authority_level_def less_authority_level_def)+

definition max_authority :: authority_level where
  "max_authority = MissionCoordination"

record task_proposal =
  manifest_id :: u64
  participant_count :: u16
  ttl_ms :: u32
  effort_units :: u32

datatype requested_action =
    Observe
  | StateSync
  | SnapshotRequest
  | NonbindingAdvisory
  | CooperativeTaskProposal task_proposal
  | ActuatorCommand
  | Arm
  | Disarm
  | FlightModeChange
  | AttitudeSetpoint
  | RateSetpoint
  | VelocitySetpoint
  | PositionSetpoint
  | GeofenceOverride
  | FailsafeOverride
  | PayloadRelease
  | UnknownRequest u16

datatype authorized_capability =
    CapObserve | CapStateSync | CapSnapshotRequest | CapNonbindingAdvisory | CapCooperativeTaskProposal

record security_context =
  authenticated :: bool
  trusted_source :: bool
  issued_at_ms :: u64
  expires_at_ms :: u64
  requested_authority :: authority_level

text \<open>What deserialising a context from the wire gives: both local verdicts are reset.\<close>

definition context_from_wire :: "u64 \<Rightarrow> u64 \<Rightarrow> authority_level \<Rightarrow> security_context" where
  "context_from_wire issued expires authority =
    \<lparr>authenticated = False, trusted_source = False, issued_at_ms = issued, expires_at_ms = expires,
     requested_authority = authority\<rparr>"

definition verified_observe_only :: "u64 \<Rightarrow> u64 \<Rightarrow> security_context" where
  "verified_observe_only issued expires =
    \<lparr>authenticated = True, trusted_source = True, issued_at_ms = issued, expires_at_ms = expires,
     requested_authority = ObserveOnly\<rparr>"

datatype policy_drop_reason =
    InvalidMetric
  | Unauthenticated
  | UntrustedSource
  | StaleInput
  | DeadlineExpired
  | DeadlineUnreachable
  | UnknownAction
  | ForbiddenAction
  | ExcessiveAuthority
  | ProposalOutOfBounds
  | ManifestNotApproved
  | TrafficClassMismatch
  | LinkTooDegraded
  | EnergyBudgetExceeded
  | ResidualNotValidated
  | InsufficientUtility

section \<open>The capability gate\<close>

record gate_config =
  max_context_age_ms :: u64
  max_clock_skew_ms :: u64
  max_proposal_participants :: u16
  max_proposal_ttl_ms :: u32
  max_proposal_effort_units :: u32

definition gate_config_default :: gate_config where
  "gate_config_default =
    \<lparr>max_context_age_ms = 30000, max_clock_skew_ms = 2000, max_proposal_participants = 64,
     max_proposal_ttl_ms = 60000, max_proposal_effort_units = 10000\<rparr>"

record capability_gate =
  gate_config :: gate_config
  approved_manifest_ids :: "u64 set"

definition gate_new :: "gate_config \<Rightarrow> capability_gate" where
  "gate_new c = \<lparr>gate_config = c, approved_manifest_ids = {}\<rparr>"

definition approve_manifest :: "u64 \<Rightarrow> capability_gate \<Rightarrow> capability_gate \<times> bool" where
  "approve_manifest i g =
    (if i \<noteq> 0 then (g\<lparr>approved_manifest_ids := insert i (approved_manifest_ids g)\<rparr>, i \<notin> approved_manifest_ids g)
     else (g, False))"

definition revoke_manifest :: "u64 \<Rightarrow> capability_gate \<Rightarrow> capability_gate \<times> bool" where
  "revoke_manifest i g =
    (g\<lparr>approved_manifest_ids := approved_manifest_ids g - {i}\<rparr>, i \<in> approved_manifest_ids g)"

definition is_manifest_approved :: "u64 \<Rightarrow> capability_gate \<Rightarrow> bool" where
  "is_manifest_approved i g \<longleftrightarrow> i \<noteq> 0 \<and> i \<in> approved_manifest_ids g"

fun action_capability :: "capability_gate \<Rightarrow> requested_action \<Rightarrow> policy_drop_reason + authorized_capability \<times> authority_level" where
  "action_capability g Observe = Inr (CapObserve, ObserveOnly)"
| "action_capability g StateSync = Inr (CapStateSync, ObserveOnly)"
| "action_capability g SnapshotRequest = Inr (CapSnapshotRequest, ObserveOnly)"
| "action_capability g NonbindingAdvisory = Inr (CapNonbindingAdvisory, MissionCoordination)"
| "action_capability g (CooperativeTaskProposal p) =
     (if \<not> is_manifest_approved (manifest_id p) g then Inl ManifestNotApproved
      else if participant_count p = 0 \<or> max_proposal_participants (gate_config g) < participant_count p
         \<or> ttl_ms p = 0 \<or> max_proposal_ttl_ms (gate_config g) < ttl_ms p
         \<or> effort_units p = 0 \<or> max_proposal_effort_units (gate_config g) < effort_units p
      then Inl ProposalOutOfBounds
      else Inr (CapCooperativeTaskProposal, MissionCoordination))"
| "action_capability g (UnknownRequest _) = Inl UnknownAction"
| "action_capability g _ = Inl ForbiddenAction"

definition authorize :: "capability_gate \<Rightarrow> u64 \<Rightarrow> security_context \<Rightarrow> requested_action \<Rightarrow> policy_drop_reason + authorized_capability" where
  "authorize g now ctx action =
    (if \<not> authenticated ctx then Inl Unauthenticated
     else if \<not> trusted_source ctx then Inl UntrustedSource
     else if max_authority < requested_authority ctx then Inl ExcessiveAuthority
     else if sat_add now (max_clock_skew_ms (gate_config g)) < issued_at_ms ctx
        \<or> expires_at_ms ctx < issued_at_ms ctx
        \<or> expires_at_ms ctx < now
        \<or> max_context_age_ms (gate_config g) < sat_sub now (issued_at_ms ctx) then Inl StaleInput
     else bindE (action_capability g action) (\<lambda>(capability, action_ceiling).
       if action_ceiling < requested_authority ctx then Inl ExcessiveAuthority else Inr capability))"

section \<open>Messages and links\<close>

datatype traffic_class =
    ClassCriticalCoordination | ClassCooperativeTask | ClassStateSync | ClassSnapshotRequest
  | ClassObservation | ClassLearnedResidual | ClassBulkSnapshot

fun priority_weight :: "traffic_class \<Rightarrow> f64" where
  "priority_weight ClassCriticalCoordination = lit 8"
| "priority_weight ClassCooperativeTask = lit 6"
| "priority_weight ClassStateSync = lit 4"
| "priority_weight ClassSnapshotRequest = lit 3"
| "priority_weight ClassObservation = lit 2"
| "priority_weight ClassLearnedResidual = lit (3/2)"
| "priority_weight ClassBulkSnapshot = lit 1"

fun max_age_ms :: "traffic_class \<Rightarrow> u64" where
  "max_age_ms ClassCriticalCoordination = 2000"
| "max_age_ms ClassCooperativeTask = 2000"
| "max_age_ms ClassLearnedResidual = 2000"
| "max_age_ms ClassStateSync = 3000"
| "max_age_ms ClassObservation = 5000"
| "max_age_ms ClassSnapshotRequest = 10000"
| "max_age_ms ClassBulkSnapshot = 60000"

fun is_proposal :: "requested_action \<Rightarrow> bool" where
  "is_proposal (CooperativeTaskProposal _) = True"
| "is_proposal _ = False"

fun permits :: "traffic_class \<Rightarrow> requested_action \<Rightarrow> bool" where
  "permits ClassCriticalCoordination action = (action = NonbindingAdvisory)"
| "permits ClassCooperativeTask action = is_proposal action"
| "permits ClassStateSync action = (action = StateSync)"
| "permits ClassSnapshotRequest action = (action = SnapshotRequest)"
| "permits ClassObservation action = (action = Observe)"
| "permits ClassLearnedResidual action = (action = Observe)"
| "permits ClassBulkSnapshot action = (action = Observe)"

record link_snapshot =
  observed_at_ms :: u64
  rtt_ms :: f64
  packet_loss :: f64
  throughput_bps :: f64
  queue_delay_ms :: f64
  energy_per_byte_mj :: f64
  energy_remaining_mj :: f64

definition link_valid :: "link_snapshot \<Rightarrow> bool" where
  "link_valid l \<longleftrightarrow>
     is_finite (rtt_ms l) \<and> 0 \<le> rtt_ms l
   \<and> is_finite (packet_loss l) \<and> in_range 0 1 (packet_loss l)
   \<and> is_finite (throughput_bps l) \<and> 0 < throughput_bps l
   \<and> is_finite (queue_delay_ms l) \<and> 0 \<le> queue_delay_ms l
   \<and> is_finite (energy_per_byte_mj l) \<and> 0 \<le> energy_per_byte_mj l
   \<and> is_finite (energy_remaining_mj l) \<and> 0 \<le> energy_remaining_mj l"

record residual_evidence =
  evaluated_at_ms :: u64
  causal_controls_passed :: bool
  sample_count :: u32
  measured_delta_utility :: f64
  p_value :: f64
  heldout_relative_residual :: f64
  task_success_delta :: f64
  model_compatible :: bool
  decoder_trusted :: bool
  semantic_fallback_available :: bool

definition valid_metrics :: "residual_evidence \<Rightarrow> bool" where
  "valid_metrics e \<longleftrightarrow>
     is_finite (measured_delta_utility e) \<and> is_finite (p_value e) \<and> is_finite (heldout_relative_residual e)
   \<and> is_finite (task_success_delta e)
   \<and> in_range (- 1) 1 (measured_delta_utility e) \<and> in_range 0 1 (p_value e)
   \<and> 0 \<le> heldout_relative_residual e \<and> in_range (- 1) 1 (task_success_delta e)"

record message_intent =
  traffic_class :: traffic_class
  logical_bytes :: u32
  wire_bytes :: u32
  intent_utility :: f64
  created_at_ms :: u64
  deadline_at_ms :: u64
  encode_energy_mj :: f64
  security :: security_context
  requested :: requested_action
  residual :: "residual_evidence option"

datatype ack_mode = AckNone | AckOpportunistic | AckRequired

record redundancy =
  copies :: u8
  parity_percent :: u8

record delivery_plan =
  plan_capability :: authorized_capability
  plan_ack :: ack_mode
  plan_redundancy :: redundancy
  estimated_wire_bytes :: u64
  estimated_latency_ms :: f64
  estimated_energy_mj :: f64
  plan_utility :: f64

datatype delivery_decision = Send delivery_plan | Drop policy_drop_reason

fun decision_plan :: "delivery_decision \<Rightarrow> delivery_plan option" where
  "decision_plan (Send p) = Some p"
| "decision_plan (Drop _) = None"

record scheduled_decision =
  original_index :: nat
  decision :: delivery_decision

record policy_config =
  policy_capability :: gate_config
  max_link_snapshot_age_ms :: u64
  minimum_energy_reserve_mj :: f64
  max_message_energy_fraction :: f64
  minimum_utility_per_byte :: f64
  max_residual_evidence_age_ms :: u64
  residual_min_samples :: u32
  residual_min_delta_utility :: f64
  residual_max_p_value :: f64
  residual_max_relative_error :: f64
  residual_min_task_success_delta :: f64

definition policy_config_default :: policy_config where
  "policy_config_default =
    \<lparr>policy_capability = gate_config_default, max_link_snapshot_age_ms = 2000,
     minimum_energy_reserve_mj = lit 5000, max_message_energy_fraction = lit (1/100),
     minimum_utility_per_byte = lit (1/1000000), max_residual_evidence_age_ms = 86400000,
     residual_min_samples = 30, residual_min_delta_utility = 0, residual_max_p_value = lit (5/100),
     residual_max_relative_error = lit (35/100), residual_min_task_success_delta = 0\<rparr>"

record adaptive_policy =
  policy_config :: policy_config
  policy_gate :: capability_gate

definition policy_new :: "policy_config \<Rightarrow> adaptive_policy" where
  "policy_new c = \<lparr>policy_config = c, policy_gate = gate_new (policy_capability c)\<rparr>"

definition policy_approve_manifest :: "u64 \<Rightarrow> adaptive_policy \<Rightarrow> adaptive_policy \<times> bool" where
  "policy_approve_manifest i p =
    (let (g, b) = approve_manifest i (policy_gate p) in (p\<lparr>policy_gate := g\<rparr>, b))"

definition policy_revoke_manifest :: "u64 \<Rightarrow> adaptive_policy \<Rightarrow> adaptive_policy \<times> bool" where
  "policy_revoke_manifest i p =
    (let (g, b) = revoke_manifest i (policy_gate p) in (p\<lparr>policy_gate := g\<rparr>, b))"

section \<open>Evaluation\<close>

definition config_values_valid :: "policy_config \<Rightarrow> bool" where
  "config_values_valid c \<longleftrightarrow>
     is_finite (minimum_energy_reserve_mj c) \<and> 0 \<le> minimum_energy_reserve_mj c
   \<and> is_finite (max_message_energy_fraction c) \<and> 0 < max_message_energy_fraction c
   \<and> max_message_energy_fraction c \<le> 1
   \<and> is_finite (minimum_utility_per_byte c) \<and> 0 \<le> minimum_utility_per_byte c
   \<and> is_finite (residual_min_delta_utility c)
   \<and> is_finite (residual_max_p_value c) \<and> in_range 0 1 (residual_max_p_value c)
   \<and> is_finite (residual_max_relative_error c) \<and> 0 \<le> residual_max_relative_error c
   \<and> is_finite (residual_min_task_success_delta c)"

definition residual_rejected :: "policy_config \<Rightarrow> u64 \<Rightarrow> residual_evidence \<Rightarrow> bool" where
  "residual_rejected c now e \<longleftrightarrow>
     sat_add now (max_clock_skew_ms (policy_capability c)) < evaluated_at_ms e
   \<or> max_residual_evidence_age_ms c < sat_sub now (evaluated_at_ms e)
   \<or> \<not> causal_controls_passed e
   \<or> sample_count e < residual_min_samples c
   \<or> measured_delta_utility e \<le> residual_min_delta_utility c
   \<or> \<not> in_range 0 (residual_max_p_value c) (p_value e)
   \<or> residual_max_relative_error c < heldout_relative_residual e
   \<or> task_success_delta e < residual_min_task_success_delta c
   \<or> \<not> model_compatible e \<or> \<not> decoder_trusted e \<or> \<not> semantic_fallback_available e"

definition validate_residual :: "policy_config \<Rightarrow> u64 \<Rightarrow> message_intent \<Rightarrow> policy_drop_reason + unit" where
  "validate_residual c now m =
    (case (traffic_class m, residual m) of
       (ClassLearnedResidual, Some e) \<Rightarrow>
         if \<not> valid_metrics e then Inl InvalidMetric
         else if residual_rejected c now e then Inl ResidualNotValidated else Inr ()
     | (ClassLearnedResidual, None) \<Rightarrow> Inl ResidualNotValidated
     | (_, Some _) \<Rightarrow> Inl TrafficClassMismatch
     | (_, None) \<Rightarrow> Inr ())"

definition consequential :: "traffic_class \<Rightarrow> bool" where
  "consequential c \<longleftrightarrow> c \<in> {ClassCriticalCoordination, ClassCooperativeTask}"

definition delivery_treatment :: "f64 \<Rightarrow> traffic_class \<Rightarrow> (ack_mode \<times> redundancy) option" where
  "delivery_treatment loss class =
    (if lit (80/100) \<le> loss \<or> (lit (65/100) \<le> loss \<and> \<not> consequential class) then None
     else
       let r = (if lit (50/100) \<le> loss then \<lparr>copies = 3, parity_percent = 50\<rparr>
            else if lit (25/100) \<le> loss then \<lparr>copies = 2, parity_percent = 35\<rparr>
            else if lit (10/100) \<le> loss then \<lparr>copies = 1, parity_percent = 20\<rparr>
            else \<lparr>copies = 1, parity_percent = 0\<rparr>);
           ack = (if consequential class \<or> lit (25/100) \<le> loss then AckRequired
            else if class \<in> {ClassStateSync, ClassSnapshotRequest} \<or> lit (10/100) \<le> loss then AckOpportunistic
            else AckNone)
       in Some (ack, r))"

definition expanded_wire_bytes :: "u32 \<Rightarrow> redundancy \<Rightarrow> u64" where
  "expanded_wire_bytes base r =
    (let numerator = sat_mul (sat_mul (ucast base) (ucast (copies r))) (100 + ucast (parity_percent r))
     in sat_add numerator 99 div 100)"

definition utility_per_byte :: "f64 \<Rightarrow> traffic_class \<Rightarrow> u64 \<Rightarrow> u64 \<Rightarrow> policy_drop_reason + f64" where
  "utility_per_byte utility class age transmitted =
    (if \<not> is_finite utility \<or> \<not> in_range 0 1 utility \<or> transmitted = 0 then Inl InvalidMetric
     else if max_age_ms class < age then Inl StaleInput
     else
       let freshness = 1 - of_unsigned age / of_unsigned (max_age_ms class)
       in Inr (utility * priority_weight class * freshness / of_unsigned transmitted))"

text \<open>The tests \<open>evaluate\<close> makes before the gate, in order.\<close>

definition intake_check :: "adaptive_policy \<Rightarrow> u64 \<Rightarrow> link_snapshot \<Rightarrow> message_intent \<Rightarrow> policy_drop_reason + unit" where
  "intake_check p now l m =
    (let c = policy_config p; skew = max_clock_skew_ms (policy_capability c) in
     if \<not> link_valid l \<or> \<not> is_finite (intent_utility m) \<or> \<not> in_range 0 1 (intent_utility m)
        \<or> \<not> is_finite (encode_energy_mj m) \<or> encode_energy_mj m < 0 \<or> \<not> config_values_valid c
        \<or> logical_bytes m = 0 \<or> wire_bytes m = 0 then Inl InvalidMetric
     else if sat_add now skew < observed_at_ms l \<or> max_link_snapshot_age_ms c < sat_sub now (observed_at_ms l)
     then Inl StaleInput
     else if deadline_at_ms m < created_at_ms m \<or> sat_add now skew < created_at_ms m
        \<or> max_age_ms (traffic_class m) < sat_sub now (created_at_ms m) then Inl StaleInput
     else if deadline_at_ms m < now then Inl DeadlineExpired
     else Inr ())"

definition latency_estimate :: "link_snapshot \<Rightarrow> ack_mode \<Rightarrow> u64 \<Rightarrow> f64" where
  "latency_estimate l ack bytes =
    (let transmit = of_unsigned bytes * lit 8000 / throughput_bps l;
         ack_wait = (if ack = AckRequired then rtt_ms l else 0)
     in queue_delay_ms l + rtt_ms l / lit 2 + transmit + ack_wait)"

definition energy_estimate :: "link_snapshot \<Rightarrow> message_intent \<Rightarrow> u64 \<Rightarrow> f64" where
  "energy_estimate l m bytes = encode_energy_mj m + of_unsigned bytes * energy_per_byte_mj l"

text \<open>The capability, the class, the residual and the treatment.\<close>

definition treatment_check ::
  "adaptive_policy \<Rightarrow> u64 \<Rightarrow> link_snapshot \<Rightarrow> message_intent \<Rightarrow> policy_drop_reason + authorized_capability \<times> ack_mode \<times> redundancy" where
  "treatment_check p now l m =
    bindE (authorize (policy_gate p) now (security m) (requested m)) (\<lambda>capability.
    if \<not> permits (traffic_class m) (requested m) then Inl TrafficClassMismatch else
    bindE (validate_residual (policy_config p) now m) (\<lambda>_.
    bindE (ok_or LinkTooDegraded (delivery_treatment (packet_loss l) (traffic_class m))) (\<lambda>(ack, r).
    Inr (capability, ack, r))))"

text \<open>The latency, the energy and the utility density of the expanded message.\<close>

definition budget_check ::
  "adaptive_policy \<Rightarrow> u64 \<Rightarrow> link_snapshot \<Rightarrow> message_intent \<Rightarrow> ack_mode \<Rightarrow> u64 \<Rightarrow> policy_drop_reason + f64" where
  "budget_check p now l m ack bytes =
    (let c = policy_config p; latency = latency_estimate l ack bytes; energy = energy_estimate l m bytes;
         available = fmax (energy_remaining_mj l - minimum_energy_reserve_mj c) 0;
         per_message_limit = energy_remaining_mj l * max_message_energy_fraction c
     in if \<not> is_finite latency \<or> deadline_at_ms m < sat_add now (as_unsigned (fceil latency)) then Inl DeadlineUnreachable
        else if \<not> is_finite energy \<or> available < energy \<or> per_message_limit < energy then Inl EnergyBudgetExceeded
        else bindE (utility_per_byte (intent_utility m) (traffic_class m) (sat_sub now (created_at_ms m)) bytes) (\<lambda>density.
          if density < minimum_utility_per_byte c then Inl InsufficientUtility else Inr density))"

definition delivery_result :: "adaptive_policy \<Rightarrow> u64 \<Rightarrow> link_snapshot \<Rightarrow> message_intent \<Rightarrow> policy_drop_reason + delivery_plan" where
  "delivery_result p now l m =
    bindE (intake_check p now l m) (\<lambda>_.
    bindE (treatment_check p now l m) (\<lambda>(capability, ack, r).
    let bytes = expanded_wire_bytes (wire_bytes m) r
    in bindE (budget_check p now l m ack bytes) (\<lambda>density.
    Inr \<lparr>plan_capability = capability, plan_ack = ack, plan_redundancy = r, estimated_wire_bytes = bytes,
         estimated_latency_ms = latency_estimate l ack bytes, estimated_energy_mj = energy_estimate l m bytes,
         plan_utility = density\<rparr>)))"

definition evaluate :: "adaptive_policy \<Rightarrow> u64 \<Rightarrow> link_snapshot \<Rightarrow> message_intent \<Rightarrow> delivery_decision" where
  "evaluate p now l m = (case delivery_result p now l m of Inl reason \<Rightarrow> Drop reason | Inr plan \<Rightarrow> Send plan)"

definition nat_cmp :: "nat \<Rightarrow> nat \<Rightarrow> ordering" where
  "nat_cmp a b = (if a < b then Less else if a = b then Equal else Greater)"

definition then_with :: "ordering \<Rightarrow> ordering \<Rightarrow> ordering" where
  "then_with a b = (if a = Equal then b else a)"

definition by_decision :: "scheduled_decision \<Rightarrow> scheduled_decision \<Rightarrow> ordering" where
  "by_decision a b =
    (case (decision a, decision b) of
       (Send x, Send y) \<Rightarrow> then_with (partial_cmp_or_equal (plan_utility y) (plan_utility x))
                             (nat_cmp (original_index a) (original_index b))
     | (Send _, Drop _) \<Rightarrow> Less
     | (Drop _, Send _) \<Rightarrow> Greater
     | (Drop _, Drop _) \<Rightarrow> nat_cmp (original_index a) (original_index b))"

definition schedule :: "adaptive_policy \<Rightarrow> u64 \<Rightarrow> link_snapshot \<Rightarrow> message_intent list \<Rightarrow> scheduled_decision list" where
  "schedule p now l ms =
    sort_by by_decision (map (\<lambda>(i, m). \<lparr>original_index = i, decision = evaluate p now l m\<rparr>) (enumerate 0 ms))"

end
