(* ===== verification/PolicySafety.thy ===== *)
theory PolicySafety
  imports Policy
begin

text \<open>
  What the delivery policy of \<open>src/latentmesh/policy.rs\<close> guarantees: the gate admits only bounded coordination
  under a locally approved manifest, redundancy is computed exactly and grows with the loss, a message that is
  sent respects every limit, and the schedule ranks the candidates.
\<close>

section \<open>Redundancy\<close>

lemma expanded_bound:
  assumes "b < 4294967296" "c < 256" "q < (256::nat)"
  shows "b * c * (100 + q) + 99 < 2 ^ 64"
proof -
  have "b * c \<le> 4294967295 * 255" using assms by (intro mult_mono) auto
  then have "b * c * (100 + q) \<le> 4294967295 * 255 * 355" using assms by (intro mult_mono) auto
  then show ?thesis by simp
qed

lemma unat_expanded_wire_bytes:
  "unat (expanded_wire_bytes base r) = (unat base * unat (copies r) * (100 + unat (parity_percent r)) + 99) div 100"
proof -
  let ?n = "unat base * unat (copies r) * (100 + unat (parity_percent r))"
  have b: "?n + 99 < 2 ^ 64"
    using expanded_bound unat_bound[of base] unat_bound[of "copies r"] unat_bound[of "parity_percent r"] by simp
  have bc: "unat base * unat (copies r) < 2 ^ 64" using b by (simp add: add_mult_distrib2)
  have par: "unat (100 + ucast (parity_percent r) :: u64) = 100 + unat (parity_percent r)"
    using unat_bound[of "parity_percent r"] by (simp add: unat_word_ariths unat_ucast_up)
  have m1: "unat (sat_mul (ucast base) (ucast (copies r)) :: u64) = unat base * unat (copies r)"
    using bc by (simp add: unat_sat_mul unat_ucast_up)
  have m2: "unat (sat_mul (sat_mul (ucast base) (ucast (copies r))) (100 + ucast (parity_percent r)) :: u64) = ?n"
    unfolding unat_sat_mul[of "sat_mul (ucast base) (ucast (copies r))"] m1 par using b by simp
  have m3: "unat (sat_add (sat_mul (sat_mul (ucast base) (ucast (copies r))) (100 + ucast (parity_percent r))) 99 :: u64) = ?n + 99"
    unfolding unat_sat_add m2 using b by simp
  show ?thesis unfolding expanded_wire_bytes_def Let_def by (simp add: unat_div m3)
qed

lemma ceiling_hundredths: "\<lceil>of_nat n / 100 :: rat\<rceil> = int ((n + 99) div 100)"
proof (rule ceiling_unique)
  have "100 * ((n + 99) div 100) \<le> n + 99" "n \<le> 100 * ((n + 99) div 100)"
    using mult_div_mod_eq[of 100 "n + 99"] mod_less_divisor[of 100 "n + 99"] by linarith+
  then have "(of_nat (100 * ((n + 99) div 100)) :: rat) \<le> of_nat (n + 99)"
    "(of_nat n :: rat) \<le> of_nat (100 * ((n + 99) div 100))" by (simp_all only: of_nat_le_iff)
  then show "of_int (int ((n + 99) div 100)) - 1 < (of_nat n / 100 :: rat)"
    "of_nat n / 100 \<le> (of_int (int ((n + 99) div 100)) :: rat)" by simp_all
qed

text \<open>
  The wire size after redundancy is the exact ceiling of size times copies times the parity factor: the
  saturating 64-bit arithmetic never saturates and never rounds down, for every size, copy count and parity.
\<close>
theorem redundancy_is_exact:
  "int (unat (expanded_wire_bytes base r)) =
     \<lceil>of_nat (unat base) * of_nat (unat (copies r)) * (1 + of_nat (unat (parity_percent r)) / 100) :: rat\<rceil>"
proof -
  let ?n = "unat base * unat (copies r) * (100 + unat (parity_percent r))"
  have q: "of_nat (unat base) * of_nat (unat (copies r)) * (1 + of_nat (unat (parity_percent r)) / 100) = (of_nat ?n / 100 :: rat)"
    by (simp add: field_simps)
  show ?thesis unfolding q unat_expanded_wire_bytes ceiling_hundredths ..
qed

fun ack_rank :: "ack_mode \<Rightarrow> nat" where
  "ack_rank AckNone = 0"
| "ack_rank AckOpportunistic = 1"
| "ack_rank AckRequired = 2"

text \<open>The loss thresholds are increasing numbers.\<close>

lemma loss_levels:
  "(lit (10/100) :: f64) = Fin (7205759403792794 / 2 ^ 56)" "(lit (25/100) :: f64) = Fin (1/4)"
  "(lit (50/100) :: f64) = Fin (1/2)" "(lit (65/100) :: f64) = Fin (5854679515581645 / 2 ^ 53)"
  "(lit (80/100) :: f64) = Fin (7205759403792794 / 2 ^ 53)"
proof -
  show "(lit (10/100) :: f64) = Fin (7205759403792794 / 2 ^ 56)"
    unfolding lit_def using rnd_decimal[of 7205759403792794 56 "10/100", where ?'a = 64] by simp
  show "(lit (65/100) :: f64) = Fin (5854679515581645 / 2 ^ 53)"
    unfolding lit_def using rnd_decimal[of 5854679515581645 53 "65/100", where ?'a = 64] by simp
  show "(lit (80/100) :: f64) = Fin (7205759403792794 / 2 ^ 53)"
    unfolding lit_def using rnd_decimal[of 7205759403792794 53 "80/100", where ?'a = 64] by simp
qed simp_all

lemma threshold_up: "Fin q \<le> (x :: f64) \<Longrightarrow> x \<le> y \<Longrightarrow> Fin q \<le> y"
  by (rule flt_le_trans)

definition treated_bytes :: "u32 \<Rightarrow> redundancy \<Rightarrow> nat" where
  "treated_bytes base r = unat (expanded_wire_bytes base r)"

lemma treated_bytes_mono:
  "copies r \<le> copies r' \<Longrightarrow> parity_percent r \<le> parity_percent r' \<Longrightarrow> treated_bytes base r \<le> treated_bytes base r'"
  unfolding treated_bytes_def unat_expanded_wire_bytes word_le_nat_alt
  by (intro div_le_mono add_right_mono mult_mono) auto

text \<open>The treatment as a function of the thresholds the loss has reached.\<close>

definition treatment_at :: "bool \<Rightarrow> bool \<Rightarrow> bool \<Rightarrow> bool \<Rightarrow> bool \<Rightarrow> traffic_class \<Rightarrow> (ack_mode \<times> redundancy) option" where
  "treatment_at l80 l65 l50 l25 l10 cls =
    (if l80 \<or> (l65 \<and> \<not> consequential cls) then None
     else Some (if consequential cls \<or> l25 then AckRequired
                else if cls \<in> {ClassStateSync, ClassSnapshotRequest} \<or> l10 then AckOpportunistic else AckNone,
       if l50 then \<lparr>copies = 3, parity_percent = 50\<rparr> else if l25 then \<lparr>copies = 2, parity_percent = 35\<rparr>
       else if l10 then \<lparr>copies = 1, parity_percent = 20\<rparr> else \<lparr>copies = 1, parity_percent = 0\<rparr>))"

lemma treatment_levels:
  "delivery_treatment loss cls =
     treatment_at (lit (80/100) \<le> loss) (lit (65/100) \<le> loss) (lit (50/100) \<le> loss) (lit (25/100) \<le> loss) (lit (10/100) \<le> loss) cls"
  by (simp only: delivery_treatment_def treatment_at_def Let_def)

definition ack_at :: "bool \<Rightarrow> bool \<Rightarrow> traffic_class \<Rightarrow> ack_mode" where
  "ack_at l25 l10 cls = (if consequential cls \<or> l25 then AckRequired
     else if cls \<in> {ClassStateSync, ClassSnapshotRequest} \<or> l10 then AckOpportunistic else AckNone)"

definition redundancy_at :: "bool \<Rightarrow> bool \<Rightarrow> bool \<Rightarrow> redundancy" where
  "redundancy_at l50 l25 l10 = (if l50 then \<lparr>copies = 3, parity_percent = 50\<rparr>
     else if l25 then \<lparr>copies = 2, parity_percent = 35\<rparr>
     else if l10 then \<lparr>copies = 1, parity_percent = 20\<rparr> else \<lparr>copies = 1, parity_percent = 0\<rparr>)"

lemma treatment_at_Some:
  "treatment_at l80 l65 l50 l25 l10 cls = Some t \<longleftrightarrow>
     \<not> l80 \<and> (l65 \<longrightarrow> consequential cls) \<and> t = (ack_at l25 l10 cls, redundancy_at l50 l25 l10)"
  by (auto simp: treatment_at_def ack_at_def redundancy_at_def)

lemma ack_at_mono: "d \<longrightarrow> d' \<Longrightarrow> e \<longrightarrow> e' \<Longrightarrow> ack_rank (ack_at d e cls) \<le> ack_rank (ack_at d' e' cls)"
  by (simp add: ack_at_def)

lemma redundancy_at_mono:
  "c \<longrightarrow> c' \<Longrightarrow> d \<longrightarrow> d' \<Longrightarrow> e \<longrightarrow> e' \<Longrightarrow> copies (redundancy_at c d e) \<le> copies (redundancy_at c' d' e')"
  "c \<longrightarrow> c' \<Longrightarrow> d \<longrightarrow> d' \<Longrightarrow> e \<longrightarrow> e' \<Longrightarrow> parity_percent (redundancy_at c d e) \<le> parity_percent (redundancy_at c' d' e')"
  by (simp_all add: redundancy_at_def)

text \<open>
  A worse link never gets a weaker treatment: when the measured loss grows, a refused class stays refused,
  and an accepted one is sent with at least as strong an acknowledgement and at least as many wire bytes.
\<close>
theorem treatment_grows_with_loss:
  assumes "loss \<le> loss'" "delivery_treatment loss' cls = Some (k', r')"
  shows "\<exists>k r. delivery_treatment loss cls = Some (k, r) \<and> ack_rank k \<le> ack_rank k' \<and>
    treated_bytes base r \<le> treated_bytes base r'"
proof -
  have up: "q \<le> loss \<longrightarrow> q \<le> loss'" for q using assms(1) flt_le_trans by blast
  show ?thesis
    using assms(2) up[of "lit (80/100)"] up[of "lit (65/100)"] unfolding treatment_levels treatment_at_Some
    by (auto intro!: ack_at_mono up treated_bytes_mono redundancy_at_mono)
qed

lemma treatment_grows_with_loss_witness:
  "\<exists>k r. delivery_treatment (lit (25/100)) ClassStateSync = Some (k, r) \<and>
     ack_rank k \<le> ack_rank AckRequired \<and> treated_bytes 100 r \<le> treated_bytes 100 \<lparr>copies = 3, parity_percent = 50\<rparr>"
proof -
  have "delivery_treatment (lit (50/100)) ClassStateSync = Some (AckRequired, \<lparr>copies = 3, parity_percent = 50\<rparr>)"
    unfolding treatment_levels loss_levels by (simp add: treatment_at_def consequential_def)
  then show ?thesis by (rule treatment_grows_with_loss[rotated]) simp
qed

section \<open>The gate\<close>

datatype gate_event = Approve u64 | Revoke u64

fun gate_step :: "capability_gate \<Rightarrow> gate_event \<Rightarrow> capability_gate" where
  "gate_step g (Approve i) = fst (approve_manifest i g)"
| "gate_step g (Revoke i) = fst (revoke_manifest i g)"

text \<open>The manifests approved after a history of local decisions: approved once and not revoked since.\<close>

definition approved_after :: "gate_event list \<Rightarrow> u64 \<Rightarrow> bool" where
  "approved_after es i \<longleftrightarrow> i \<noteq> 0 \<and> (\<exists>pre post. es = pre @ Approve i # post \<and> Revoke i \<notin> set post)"

lemma gate_step_simps [simp]:
  "gate_config (gate_step g e) = gate_config g"
  "i \<in> approved_manifest_ids (gate_step g e) \<longleftrightarrow>
     e = Approve i \<and> i \<noteq> 0 \<or> e \<noteq> Revoke i \<and> i \<in> approved_manifest_ids g"
  by (cases e; auto simp: approve_manifest_def revoke_manifest_def)+

lemma gate_config_new [simp]: "gate_config (gate_new c) = c"
  by (simp add: gate_new_def)

lemma gate_run_config [simp]: "gate_config (foldl gate_step g es) = gate_config g"
  by (induction es arbitrary: g) auto

lemma approved_after_snoc:
  "approved_after (es @ [e]) i \<longleftrightarrow> e = Approve i \<and> i \<noteq> 0 \<or> e \<noteq> Revoke i \<and> approved_after es i"
proof -
  have "(\<exists>pre post. es @ [e] = pre @ Approve i # post \<and> Revoke i \<notin> set post) \<longleftrightarrow>
      e = Approve i \<or> e \<noteq> Revoke i \<and> (\<exists>pre post. es = pre @ Approve i # post \<and> Revoke i \<notin> set post)" (is "?L \<longleftrightarrow> ?R")
  proof
    assume ?L
    then obtain pre post where *: "es @ [e] = pre @ Approve i # post" "Revoke i \<notin> set post" by blast
    then show ?R by (cases post rule: rev_cases) auto
  next
    assume ?R
    then show ?L
    proof (elim disjE conjE exE)
      assume "e = Approve i"
      then show ?L by (intro exI[of _ es] exI[of _ "[]"]) simp
    next
      fix pre post
      assume "e \<noteq> Revoke i" "es = pre @ Approve i # post" "Revoke i \<notin> set post"
      then show ?L by (intro exI[of _ pre] exI[of _ "post @ [e]"]) auto
    qed
  qed
  then show ?thesis by (auto simp: approved_after_def)
qed

lemma gate_run_approved: "is_manifest_approved i (foldl gate_step (gate_new c) es) \<longleftrightarrow> approved_after es i"
proof -
  have "i \<in> approved_manifest_ids (foldl gate_step (gate_new c) es) \<longleftrightarrow> approved_after es i"
  proof (induction es rule: rev_induct)
    case Nil
    then show ?case by (simp add: gate_new_def approved_after_def)
  next
    case (snoc e es)
    then show ?case by (simp add: approved_after_snoc)
  qed
  then show ?thesis by (auto simp: is_manifest_approved_def approved_after_def)
qed

text \<open>What a capability stands for: one action each, and a proposal within its bounds under an approved manifest.\<close>

fun granted :: "requested_action \<Rightarrow> authorized_capability option" where
  "granted Observe = Some CapObserve"
| "granted StateSync = Some CapStateSync"
| "granted SnapshotRequest = Some CapSnapshotRequest"
| "granted NonbindingAdvisory = Some CapNonbindingAdvisory"
| "granted (CooperativeTaskProposal _) = Some CapCooperativeTaskProposal"
| "granted _ = None"

fun within_bounds :: "gate_config \<Rightarrow> gate_event list \<Rightarrow> requested_action \<Rightarrow> bool" where
  "within_bounds c es (CooperativeTaskProposal p) \<longleftrightarrow> approved_after es (manifest_id p)
     \<and> participant_count p \<in> {1..max_proposal_participants c} \<and> ttl_ms p \<in> {1..max_proposal_ttl_ms c}
     \<and> effort_units p \<in> {1..max_proposal_effort_units c}"
| "within_bounds c es _ \<longleftrightarrow> True"

definition coordination_only :: "gate_config \<Rightarrow> gate_event list \<Rightarrow> authority_level \<Rightarrow> requested_action \<Rightarrow> authorized_capability \<Rightarrow> bool" where
  "coordination_only c es level action capability \<longleftrightarrow> granted action = Some capability \<and> within_bounds c es action \<and>
     (if action \<in> {Observe, StateSync, SnapshotRequest} then level = ObserveOnly else level \<noteq> FlightAuthority)"

definition timely :: "gate_config \<Rightarrow> u64 \<Rightarrow> security_context \<Rightarrow> bool" where
  "timely c now ctx \<longleftrightarrow>
     unat (issued_at_ms ctx) \<le> unat now + unat (max_clock_skew_ms c)
   \<and> unat now \<le> unat (issued_at_ms ctx) + unat (max_context_age_ms c)
   \<and> issued_at_ms ctx \<le> expires_at_ms ctx \<and> now \<le> expires_at_ms ctx"

lemma sat_add_less: "sat_add a b < c \<longleftrightarrow> unat a + unat b < unat c" for a b c :: "'a::len word"
  unfolding word_less_nat_alt unat_sat_add using unat_bound[of c] by linarith

lemma less_sat_sub: "b < sat_sub a c \<longleftrightarrow> unat c + unat b < unat a" for a b c :: "'a::len word"
  unfolding word_less_nat_alt unat_sat_sub by linarith

lemma timely_iff:
  "timely c now ctx \<longleftrightarrow> \<not> (sat_add now (max_clock_skew_ms c) < issued_at_ms ctx \<or> expires_at_ms ctx < issued_at_ms ctx
     \<or> expires_at_ms ctx < now \<or> max_context_age_ms c < sat_sub now (issued_at_ms ctx))"
  unfolding timely_def sat_add_less less_sat_sub by auto

lemma word_one_le: "1 \<le> x \<longleftrightarrow> x \<noteq> 0" for x :: "'a::len word"
  by (simp add: word_le_nat_alt Suc_le_eq unat_gt_0)

lemma action_capability_spec:
  "(\<exists>ceiling. action_capability (foldl gate_step (gate_new c) es) action = Inr (capability, ceiling) \<and> \<not> ceiling < level)
     \<and> \<not> max_authority < level \<longleftrightarrow> coordination_only c es level action capability"
  by (cases action; cases level)
    (auto simp: coordination_only_def gate_run_approved max_authority_def less_authority_level_def not_less word_one_le)

text \<open>
  C10. The gate is exact: after any history of local approvals and revocations it admits an action if and only if the
  context was authenticated and trusted by the local verifier, is timely, the action is one of the five
  coordination actions, and the requested authority is not above the action's ceiling: \<open>ObserveOnly\<close> for observation,
  synchronisation and snapshot requests, anything below \<open>FlightAuthority\<close> for an advisory and for a proposal, which must be bounded and under
  an approved manifest. The ceiling only bounds from above: an \<open>ObserveOnly\<close> context is admitted for the last two as well.
  No actuator, flight or override action is ever admitted.
\<close>
theorem gate_admits_exactly_coordination:
  "authorize (foldl gate_step (gate_new c) es) now ctx action = Inr capability \<longleftrightarrow>
     authenticated ctx \<and> trusted_source ctx \<and> timely c now ctx
     \<and> coordination_only c es (requested_authority ctx) action capability"
proof -
  have g: "gate_config (foldl gate_step (gate_new c) es) = c" by (simp add: gate_new_def)
  show ?thesis
    unfolding authorize_def g timely_iff action_capability_spec[symmetric] by (auto split: prod.splits)
qed

section \<open>Sent messages\<close>

text \<open>Facts on the float arithmetic of the estimates.\<close>

lemma flt_mult_nonneg_finite:
  "0 \<le> x \<Longrightarrow> 0 \<le> y \<Longrightarrow> is_finite x \<Longrightarrow> is_finite y \<Longrightarrow> (0 :: 'a::len flt) \<le> x * y"
  unfolding flt_nonneg_cases[of x] flt_nonneg_cases[of y]
  by (auto simp: times_flt_def is_zero_def signed_inf_def intro!: mk_nonneg)

lemma flt_mult_le:
  assumes "0 \<le> x" "x \<le> Fin a" "0 \<le> y" "y \<le> Fin b" "valid (Fin (a * b) :: 'a flt)"
  shows "x * y \<le> (Fin (a * b) :: 'a::len flt)"
proof -
  have f: "is_finite x" "is_finite y" using assms finite_between[of 0 x "Fin a"] finite_between[of 0 y "Fin b"] by auto
  have r: "0 \<le> rval x" "rval x \<le> a" "0 \<le> rval y" "rval y \<le> b"
    using assms(1-4) f finite_le_rval[of 0 x] finite_le_rval[of x "Fin a"] finite_le_rval[of 0 y] finite_le_rval[of y "Fin b"]
    by (auto simp: zero_flt_def)
  have "rval x * rval y \<le> a * b" using r by (intro mult_mono) auto
  then have "(rnd (rval x * rval y) :: 'a flt) \<le> Fin (a * b)" using assms(5) by (intro rnd_le_valid)
  moreover have "x * y = mk (neg_bit x \<noteq> neg_bit y) (rval x * rval y)"
    using f by (cases x; cases y) (auto simp: times_flt_def is_zero_def)
  ultimately show ?thesis by (simp add: mk_le_rval)
qed

lemma of_unsigned_pos:
  assumes "w \<noteq> (0 :: u64)"
  obtains q where "(of_unsigned w :: f64) = Fin q" "0 < q"
proof -
  have "1 \<le> uint w" using assms by (metis int_one_le_iff_zero_less order_le_less uint_0_iff uint_ge_0)
  moreover have "uint w \<le> 2 ^ 64" using uint_lt2p[of w] by simp
  moreover have "representable TYPE(64) (2 ^ 64)" 
    unfolding representable_def by (intro exI[of _ 1] exI[of _ 64]) (simp add: power_int_def)
  moreover have "representable TYPE(64) 1" using representable_int[of 1 "TYPE(64)"] by simp
  ultimately obtain q where "(lit (of_int (uint w)) :: f64) = Fin q" "0 < q"
    using lit_pos[of 1 "2 ^ 64" "of_int (uint w)", where ?'a = 64] by (metis of_int_1_le_iff of_int_le_iff of_int_numeral of_int_power zero_less_one)
  then show thesis by (intro that) (simp_all add: of_unsigned_def lit_def)
qed

lemma of_unsigned_small: "uint w < 2 ^ 53 \<Longrightarrow> (of_unsigned w :: f64) = Fin (of_int (uint w))"
  using rnd_exact[OF representable_int[of "uint w" "TYPE(64)"]] by (simp add: of_unsigned_def)

lemma max_age_small: "0 < uint (max_age_ms cls)" "uint (max_age_ms cls) < 2 ^ 53"
  by (cases cls; simp)+

lemma valid_one: "valid (Fin 1 :: 'a::len flt)"
  using representable_int[of 1 "TYPE('a)"] prec_pos[of "TYPE('a)"] by simp

lemma unit_quotient:
  assumes "0 \<le> a" "a \<le> b" "0 < b"
  shows "0 \<le> (Fin a / Fin b :: 'a::len flt)" "(Fin a / Fin b :: 'a flt) \<le> Fin 1"
  using assms rnd_le_valid[OF valid_one, where ?'a = 'a, of "a / b"]
  by (simp_all add: Fin_div mk_nonneg mk_le_rval)

lemma complement_unit:
  "0 \<le> y \<Longrightarrow> y \<le> Fin 1 \<Longrightarrow> 0 \<le> (1 - y :: 'a::len flt) \<and> (1 - y :: 'a flt) \<le> Fin 1"
  using rnd_le_valid[OF valid_one, where ?'a = 'a] unfolding one_flt_def
  by (intro conjI flt_sub_nonneg; cases y; auto simp: minus_flt_def plus_flt_def mk_le_rval)

lemma priority_weight_bounds: "0 \<le> priority_weight cls" "priority_weight cls \<le> Fin 8"
  by (cases cls; simp)+

lemma utility_per_byte_nonneg:
  assumes "utility_per_byte u cls age bytes = Inr d"
  shows "0 \<le> d"
proof -
  define fresh where "fresh = (1 - of_unsigned age / of_unsigned (max_age_ms cls) :: f64)"
  have u: "0 \<le> u" "u \<le> Fin 1" and age: "age \<le> max_age_ms cls" and b: "bytes \<noteq> 0"
    and d: "d = u * priority_weight cls * fresh / of_unsigned bytes"
    using assms by (auto simp: utility_per_byte_def fresh_def in_range_def one_flt_def split: if_splits)
  have a: "0 \<le> uint age" "uint age \<le> uint (max_age_ms cls)" using age by (simp_all add: word_le_def)
  have "uint age < 2 ^ 53" using a max_age_small(2)[of cls] by linarith
  then have q: "of_unsigned age / of_unsigned (max_age_ms cls) =
      (Fin (of_int (uint age)) / Fin (of_int (uint (max_age_ms cls))) :: f64)"
    using max_age_small[of cls] by (simp add: of_unsigned_small)
  have "0 \<le> fresh \<and> fresh \<le> Fin 1"
    unfolding fresh_def q using a max_age_small(1)[of cls]
    by (intro complement_unit unit_quotient) (simp_all only: of_int_le_iff of_int_0_le_iff of_int_0_less_iff)
  then have f: "0 \<le> fresh" "is_finite fresh" using finite_between[of 0 fresh "Fin 1"] by auto
  have fu: "is_finite u" "is_finite (priority_weight cls)"
    using u priority_weight_bounds finite_between[of 0 u "Fin 1"] finite_between[of 0 "priority_weight cls" "Fin 8"] by auto
  have p: "0 \<le> u * priority_weight cls" by (intro flt_mult_nonneg_finite u priority_weight_bounds fu)
  have "u * priority_weight cls \<le> Fin (1 * 8)"
    by (intro flt_mult_le u priority_weight_bounds) (simp_all add: representable_numeral)
  then have "is_finite (u * priority_weight cls)" using p finite_between[of 0 "u * priority_weight cls" "Fin (1 * 8)"] by auto
  then have "0 \<le> u * priority_weight cls * fresh" using p f by (blast intro: flt_mult_nonneg_finite)
  moreover obtain n where "(of_unsigned bytes :: f64) = Fin n" "0 < n" using of_unsigned_pos[OF b] by blast
  ultimately show ?thesis unfolding d by (simp add: flt_div_nonneg)
qed

lemma evaluate_Send:
  assumes "evaluate p now l m = Send plan"
  obtains capability ack r where
    "intake_check p now l m = Inr ()" "treatment_check p now l m = Inr (capability, ack, r)"
    "budget_check p now l m ack (expanded_wire_bytes (wire_bytes m) r) = Inr (plan_utility plan)"
    "plan = \<lparr>plan_capability = capability, plan_ack = ack, plan_redundancy = r,
       estimated_wire_bytes = expanded_wire_bytes (wire_bytes m) r,
       estimated_latency_ms = latency_estimate l ack (expanded_wire_bytes (wire_bytes m) r),
       estimated_energy_mj = energy_estimate l m (expanded_wire_bytes (wire_bytes m) r), plan_utility = plan_utility plan\<rparr>"
  using assms by (auto simp: evaluate_def delivery_result_def Let_def split: sum.splits)







lemma intake_Inr:
  assumes "intake_check p now l m = Inr ()"
  shows "link_valid l" "config_values_valid (policy_config p)" "0 \<le> encode_energy_mj m" "wire_bytes m \<noteq> 0"
    "unat now \<le> unat (created_at_ms m) + unat (max_age_ms (traffic_class m))" "now \<le> deadline_at_ms m"
  using assms flt_not_less[of "encode_energy_mj m" 0] is_finite_not_nan[of "encode_energy_mj m"]
  by (auto simp: intake_check_def Let_def less_sat_sub split: if_splits)


lemma fmax_zero_not_nan: "\<not> is_nan (fmax x (0 :: 'a::len flt))"
  by (simp add: fmax_def)




lemma budget_Inr:
  assumes "budget_check p now l m ack bytes = Inr d" "link_valid l" "config_values_valid (policy_config p)"
  shows "is_finite (latency_estimate l ack bytes)"
    "\<not> deadline_at_ms m < sat_add now (as_unsigned (fceil (latency_estimate l ack bytes)))"
    "energy_estimate l m bytes \<le> fmax (energy_remaining_mj l - minimum_energy_reserve_mj (policy_config p)) 0"
    "energy_estimate l m bytes \<le> energy_remaining_mj l * max_message_energy_fraction (policy_config p)"
    "minimum_utility_per_byte (policy_config p) \<le> d" "0 \<le> d"
proof -
  note b = assms(1)[unfolded budget_check_def Let_def]
  have fin: "is_finite (energy_estimate l m bytes)"
    and e: "\<not> fmax (energy_remaining_mj l - minimum_energy_reserve_mj (policy_config p)) 0 < energy_estimate l m bytes"
      "\<not> energy_remaining_mj l * max_message_energy_fraction (policy_config p) < energy_estimate l m bytes"
    and d: "utility_per_byte (intent_utility m) (traffic_class m) (sat_sub now (created_at_ms m)) bytes = Inr d"
      "\<not> d < minimum_utility_per_byte (policy_config p)"
    using b by (auto split: if_splits)
  show "is_finite (latency_estimate l ack bytes)"
    "\<not> deadline_at_ms m < sat_add now (as_unsigned (fceil (latency_estimate l ack bytes)))"
    using b by (auto split: if_splits)
  have nn: "\<not> is_nan (energy_estimate l m bytes)"
    "\<not> is_nan (energy_remaining_mj l * max_message_energy_fraction (policy_config p))"
    using fin assms(2,3) finite_no_nan(3)[of "energy_remaining_mj l" "max_message_energy_fraction (policy_config p)"]
    by (auto simp: is_finite_not_nan link_valid_def config_values_valid_def)
  show "energy_estimate l m bytes \<le> fmax (energy_remaining_mj l - minimum_energy_reserve_mj (policy_config p)) 0"
    "energy_estimate l m bytes \<le> energy_remaining_mj l * max_message_energy_fraction (policy_config p)"
    by (rule flt_not_less[THEN iffD1, OF fmax_zero_not_nan nn(1) e(1)])
      (rule flt_not_less[THEN iffD1, OF nn(2,1) e(2)])
  show d0: "0 \<le> d" using d(1) by (rule utility_per_byte_nonneg)
  then show "minimum_utility_per_byte (policy_config p) \<le> d"
    using d(2) assms(3) flt_le_nan[OF d0] by (auto simp: flt_not_less config_values_valid_def is_finite_not_nan)
qed







section \<open>The schedule\<close>

fun nan_plan :: "delivery_decision \<Rightarrow> bool" where
  "nan_plan (Send x) = is_nan (plan_utility x)"
| "nan_plan (Drop _) = False"

lemma evaluate_not_nan: "\<not> nan_plan (evaluate p now l m)"
proof (cases "evaluate p now l m")
  case (Send plan)
  then obtain ack bytes where "intake_check p now l m = Inr ()" "budget_check p now l m ack bytes = Inr (plan_utility plan)"
    by (elim evaluate_Send) blast
  then have "0 \<le> plan_utility plan" using budget_Inr(6) intake_Inr(1,2) by blast
  with Send show ?thesis using flt_le_nan[of 0 "plan_utility plan"] by simp
qed simp

text \<open>The order of the schedule: sent messages first, by descending density, ties and drops in the caller's order.\<close>

definition before :: "scheduled_decision \<Rightarrow> scheduled_decision \<Rightarrow> bool" where
  "before a b \<longleftrightarrow>
    (case (decision a, decision b) of
       (Send x, Send y) \<Rightarrow> plan_utility y < plan_utility x
          \<or> plan_utility y \<le> plan_utility x \<and> plan_utility x \<le> plan_utility y \<and> original_index a \<le> original_index b
     | (Send _, Drop _) \<Rightarrow> True
     | (Drop _, Send _) \<Rightarrow> False
     | (Drop _, Drop _) \<Rightarrow> original_index a \<le> original_index b)"

lemma by_decision_before:
  "\<not> nan_plan (decision a) \<Longrightarrow> \<not> nan_plan (decision b) \<Longrightarrow> by_decision a b \<noteq> Greater \<longleftrightarrow> before a b"
  by (cases "decision a"; cases "decision b")
    (auto simp: by_decision_def before_def then_with_def nat_cmp_def partial_cmp_or_equal_def flt_not_less flt_less_imp_le
      dest: flt_le_not_less)

lemma ranked_trans:
  fixes x y z :: f64 and i j k :: nat
  assumes "y < x \<or> y \<le> x \<and> x \<le> y \<and> i \<le> j" "z < y \<or> z \<le> y \<and> y \<le> z \<and> j \<le> k"
  shows "z < x \<or> z \<le> x \<and> x \<le> z \<and> i \<le> k"
  using assms flt_less_le_trans[of z y x] flt_le_less_trans[of z y x] flt_less_imp_le[of y x] flt_le_trans[of z y x] flt_le_trans[of x y z]
  by (meson le_trans)

lemma before_trans: "before a b \<Longrightarrow> before b c \<Longrightarrow> before a c"
  unfolding before_def
  by (cases "decision a"; cases "decision b"; cases "decision c"; simp; (rule ranked_trans, assumption, assumption)?)

lemma before_total: "\<not> nan_plan (decision a) \<Longrightarrow> \<not> nan_plan (decision b) \<Longrightarrow> before a b \<or> before b a"
  unfolding before_def
  by (cases "decision a"; cases "decision b") (auto simp: flt_not_less[symmetric])

interpretation decisions: comparator_on "\<lambda>d. \<not> nan_plan (decision d)" by_decision
proof
  fix x y z :: scheduled_decision
  assume nn: "\<not> nan_plan (decision x)" "\<not> nan_plan (decision y)"
  show "by_decision y x \<noteq> Greater" if "by_decision x y = Greater"
    using that nn before_total[of x y] by (auto simp: by_decision_before[symmetric])
  assume "\<not> nan_plan (decision z)" "by_decision x y \<noteq> Greater" "by_decision y z \<noteq> Greater"
  then show "by_decision x z \<noteq> Greater" using nn by (auto simp: by_decision_before intro: before_trans)
qed

definition candidates :: "adaptive_policy \<Rightarrow> u64 \<Rightarrow> link_snapshot \<Rightarrow> message_intent list \<Rightarrow> scheduled_decision list" where
  "candidates p now l ms = map (\<lambda>i. \<lparr>original_index = i, decision = evaluate p now l (ms ! i)\<rparr>) [0..<length ms]"

lemma schedule_candidates: "schedule p now l ms = sort_by by_decision (candidates p now l ms)"
proof -
  have "map (\<lambda>(i, m). \<lparr>original_index = i, decision = evaluate p now l m\<rparr>) (enumerate 0 ms) = candidates p now l ms"
    by (intro nth_equalityI) (auto simp: candidates_def nth_enumerate_eq)
  then show ?thesis by (simp add: schedule_def)
qed

text \<open>
  C13. The schedule holds every candidate exactly once with the decision \<open>evaluate\<close> gives it, and is ordered: all sent
  messages precede all drops, sent messages descend in utility per byte, equal ones and drops keep the
  caller's order.
\<close>
theorem schedule_ranks_every_candidate:
  "mset (schedule p now l ms) = mset (map (\<lambda>i. \<lparr>original_index = i, decision = evaluate p now l (ms ! i)\<rparr>) [0..<length ms])
   \<and> sorted_wrt before (schedule p now l ms)"
proof -
  have ok: "\<forall>d \<in> set (candidates p now l ms). \<not> nan_plan (decision d)"
    by (auto simp: candidates_def evaluate_not_nan)
  have "sorted_wrt (\<lambda>a b. by_decision a b \<noteq> Greater) (schedule p now l ms)"
    unfolding schedule_candidates using ok by (rule decisions.sort_by_sorted)
  then have "sorted_wrt before (schedule p now l ms)"
    by (rule sorted_wrt_mono_rel[rotated]) (use ok in \<open>auto simp: schedule_candidates by_decision_before\<close>)
  then show ?thesis by (simp add: schedule_candidates candidates_def[symmetric])
qed

end
