(* ===== verification/Metrics.thy ===== *)
theory Metrics
  imports Policy
begin

text \<open>
  The operational counters of \<open>src/latentmesh/metrics.rs\<close>. Every update of the source is one atomic saturating
  addition to one counter; an operation is a short sequence of them, and threads interleave at that grain.
  The lemmas show that a counter holds the saturated sum of what was added to it, in whatever order.
\<close>

section \<open>Counters\<close>

datatype drop_counter = DropAuthentication | DropReplay | DropStale | DropPolicy

record node_metrics =
  sent_messages :: u64
  received_messages :: u64
  sent_logical_bytes :: u64
  sent_wire_bytes :: u64
  received_logical_bytes :: u64
  received_wire_bytes :: u64
  authentication_drops :: u64
  replay_drops :: u64
  stale_drops :: u64
  policy_drops :: u64
  reassemblies_completed :: u64
  reassembly_failures :: u64
  reassembled_fragments :: u64
  residual_suppressions :: u64

definition node_metrics_new :: node_metrics where
  "node_metrics_new =
    \<lparr>sent_messages = 0, received_messages = 0, sent_logical_bytes = 0, sent_wire_bytes = 0,
     received_logical_bytes = 0, received_wire_bytes = 0, authentication_drops = 0, replay_drops = 0,
     stale_drops = 0, policy_drops = 0, reassemblies_completed = 0, reassembly_failures = 0,
     reassembled_fragments = 0, residual_suppressions = 0\<rparr>"

datatype counter =
    SentMessages | ReceivedMessages | SentLogicalBytes | SentWireBytes | ReceivedLogicalBytes
  | ReceivedWireBytes | AuthenticationDrops | ReplayDrops | StaleDrops | PolicyDrops
  | ReassembliesCompleted | ReassemblyFailures | ReassembledFragments | ResidualSuppressions

text \<open>\<open>load\<close> of a counter, and \<open>saturating_add\<close> on it.\<close>

fun load :: "counter \<Rightarrow> node_metrics \<Rightarrow> u64" where
  "load SentMessages m = sent_messages m"
| "load ReceivedMessages m = received_messages m"
| "load SentLogicalBytes m = sent_logical_bytes m"
| "load SentWireBytes m = sent_wire_bytes m"
| "load ReceivedLogicalBytes m = received_logical_bytes m"
| "load ReceivedWireBytes m = received_wire_bytes m"
| "load AuthenticationDrops m = authentication_drops m"
| "load ReplayDrops m = replay_drops m"
| "load StaleDrops m = stale_drops m"
| "load PolicyDrops m = policy_drops m"
| "load ReassembliesCompleted m = reassemblies_completed m"
| "load ReassemblyFailures m = reassembly_failures m"
| "load ReassembledFragments m = reassembled_fragments m"
| "load ResidualSuppressions m = residual_suppressions m"

fun saturating_add :: "counter \<Rightarrow> u64 \<Rightarrow> node_metrics \<Rightarrow> node_metrics" where
  "saturating_add SentMessages v m = m\<lparr>sent_messages := sat_add (sent_messages m) v\<rparr>"
| "saturating_add ReceivedMessages v m = m\<lparr>received_messages := sat_add (received_messages m) v\<rparr>"
| "saturating_add SentLogicalBytes v m = m\<lparr>sent_logical_bytes := sat_add (sent_logical_bytes m) v\<rparr>"
| "saturating_add SentWireBytes v m = m\<lparr>sent_wire_bytes := sat_add (sent_wire_bytes m) v\<rparr>"
| "saturating_add ReceivedLogicalBytes v m = m\<lparr>received_logical_bytes := sat_add (received_logical_bytes m) v\<rparr>"
| "saturating_add ReceivedWireBytes v m = m\<lparr>received_wire_bytes := sat_add (received_wire_bytes m) v\<rparr>"
| "saturating_add AuthenticationDrops v m = m\<lparr>authentication_drops := sat_add (authentication_drops m) v\<rparr>"
| "saturating_add ReplayDrops v m = m\<lparr>replay_drops := sat_add (replay_drops m) v\<rparr>"
| "saturating_add StaleDrops v m = m\<lparr>stale_drops := sat_add (stale_drops m) v\<rparr>"
| "saturating_add PolicyDrops v m = m\<lparr>policy_drops := sat_add (policy_drops m) v\<rparr>"
| "saturating_add ReassembliesCompleted v m = m\<lparr>reassemblies_completed := sat_add (reassemblies_completed m) v\<rparr>"
| "saturating_add ReassemblyFailures v m = m\<lparr>reassembly_failures := sat_add (reassembly_failures m) v\<rparr>"
| "saturating_add ReassembledFragments v m = m\<lparr>reassembled_fragments := sat_add (reassembled_fragments m) v\<rparr>"
| "saturating_add ResidualSuppressions v m = m\<lparr>residual_suppressions := sat_add (residual_suppressions m) v\<rparr>"

text \<open>An operation as the atomic additions it makes, in order.\<close>

type_synonym additions = "(counter \<times> u64) list"

definition apply_additions :: "additions \<Rightarrow> node_metrics \<Rightarrow> node_metrics" where
  "apply_additions as m = foldl (\<lambda>m (c, v). saturating_add c v m) m as"

definition send_additions :: "u64 \<Rightarrow> u64 \<Rightarrow> additions" where
  "send_additions logical wire = [(SentMessages, 1), (SentLogicalBytes, logical), (SentWireBytes, wire)]"

definition receive_additions :: "u64 \<Rightarrow> u64 \<Rightarrow> additions" where
  "receive_additions logical wire = [(ReceivedMessages, 1), (ReceivedLogicalBytes, logical), (ReceivedWireBytes, wire)]"

fun drop_counter_cell :: "drop_counter \<Rightarrow> counter" where
  "drop_counter_cell DropAuthentication = AuthenticationDrops"
| "drop_counter_cell DropReplay = ReplayDrops"
| "drop_counter_cell DropStale = StaleDrops"
| "drop_counter_cell DropPolicy = PolicyDrops"

definition drop_additions :: "drop_counter \<Rightarrow> additions" where
  "drop_additions k = [(drop_counter_cell k, 1)]"

fun policy_drop_kind :: "policy_drop_reason \<Rightarrow> drop_counter" where
  "policy_drop_kind Unauthenticated = DropAuthentication"
| "policy_drop_kind UntrustedSource = DropAuthentication"
| "policy_drop_kind StaleInput = DropStale"
| "policy_drop_kind DeadlineExpired = DropStale"
| "policy_drop_kind _ = DropPolicy"

definition residual_suppressed_additions :: additions where
  "residual_suppressed_additions = [(ResidualSuppressions, 1)]"

definition policy_drop_additions :: "policy_drop_reason \<Rightarrow> additions" where
  "policy_drop_additions reason =
    drop_additions (policy_drop_kind reason)
    @ (if reason = ResidualNotValidated then residual_suppressed_additions else [])"

definition reassembly_completed_additions :: "u64 \<Rightarrow> additions" where
  "reassembly_completed_additions fragments = [(ReassembliesCompleted, 1), (ReassembledFragments, fragments)]"

definition reassembly_failure_additions :: additions where
  "reassembly_failure_additions = [(ReassemblyFailures, 1)]"

section \<open>What a counter holds\<close>

lemma load_saturating_add: "load c (saturating_add d v m) = (if c = d then sat_add (load c m) v else load c m)"
  by (cases d; cases c) simp_all

definition added :: "counter \<Rightarrow> additions \<Rightarrow> nat" where
  "added c as = sum_list (map (\<lambda>(d, v). if d = c then unat v else 0) as)"

lemma added_simps [simp]:
  "added c [] = 0" "added c ((d, v) # as) = (if d = c then unat v else 0) + added c as"
  "added c (as @ bs) = added c as + added c bs"
  by (simp_all add: added_def)

lemma apply_additions_simps [simp]:
  "apply_additions [] m = m" "apply_additions ((c, v) # as) m = apply_additions as (saturating_add c v m)"
  "apply_additions (as @ bs) m = apply_additions bs (apply_additions as m)"
  by (simp_all add: apply_additions_def)

lemma saturated_sum: "min (min (a + v) n + w) n = min (a + (v + w)) (n :: nat)"
  by auto

lemma unat_load_additions:
  "unat (load c (apply_additions as m)) = min (unat (load c m) + added c as) (2 ^ 64 - 1)"
proof (induction as arbitrary: m)
  case Nil
  then show ?case using unat_bound[of "load c m"] by simp
next
  case (Cons a as)
  obtain d v where a: "a = (d, v)" by (cases a)
  show ?case unfolding a apply_additions_simps Cons
    by (simp add: load_saturating_add unat_sat_add saturated_sum del: min.bounded_iff)
qed

lemma node_metrics_eqI: "(\<And>c. load c m = load c n) \<Longrightarrow> m = n" for m n :: node_metrics
proof -
  assume eq: "\<And>c. load c m = load c n"
  show "m = n"
    using eq[of SentMessages] eq[of ReceivedMessages] eq[of SentLogicalBytes] eq[of SentWireBytes]
      eq[of ReceivedLogicalBytes] eq[of ReceivedWireBytes] eq[of AuthenticationDrops] eq[of ReplayDrops]
      eq[of StaleDrops] eq[of PolicyDrops] eq[of ReassembliesCompleted] eq[of ReassemblyFailures]
      eq[of ReassembledFragments] eq[of ResidualSuppressions]
    by (cases m; cases n) simp
qed

lemma added_sum: "added c as = (\<Sum>(d, v) \<in># mset as. if d = c then unat v else 0)"
  by (induction as) auto

lemma added_mset: "mset as = mset bs \<Longrightarrow> added c as = added c bs"
  by (simp only: added_sum)

lemma additions_commute: "mset as = mset bs \<Longrightarrow> apply_additions as m = apply_additions bs m"
proof (rule node_metrics_eqI)
  fix c
  assume "mset as = mset bs"
  then have "added c as = added c bs" by (rule added_mset)
  then show "load c (apply_additions as m) = load c (apply_additions bs m)"
    unfolding word_unat_eq_iff unat_load_additions by (rule arg_cong)
qed

text \<open>
  The counters do not depend on how threads interleave: for operations that run concurrently, any order of
  their atomic additions gives the snapshot that running the operations one after another gives, and every
  counter is the sum of what was added to it, saturated at the largest 64-bit value instead of wrapping.
\<close>
theorem counters_ignore_interleaving:
  assumes "mset interleaved = mset (concat operations)"
  shows "apply_additions interleaved m = apply_additions (concat operations) m \<and>
    unat (load c (apply_additions interleaved m)) = min (unat (load c m) + added c (concat operations)) (2 ^ 64 - 1)"
  using additions_commute[OF assms] by (simp add: unat_load_additions)

lemma counters_ignore_interleaving_witness:
  "unat (load SentMessages (apply_additions
     [(SentMessages, 1), (PolicyDrops, 1), (SentLogicalBytes, 100), (SentWireBytes, 70)] node_metrics_new)) = 1"
  using counters_ignore_interleaving[of "[(SentMessages, 1), (PolicyDrops, 1), (SentLogicalBytes, 100), (SentWireBytes, 70)]"
      "[send_additions 100 70, drop_additions DropPolicy]" node_metrics_new SentMessages]
  by (simp add: send_additions_def drop_additions_def node_metrics_new_def)

end
