(* ===== verification/Node.thy ===== *)
theory Node
  imports Transmit ReceiveSafety PolicySafety Metrics
begin

text \<open>
  The endpoint of \<open>src/latentmesh/node.rs\<close>: a transmit session, a receive session, the delivery policy and the
  counters behind one facade. The lengths \<open>encoded_len\<close> of an envelope and of a frame are computed by
  \<open>latentmesh_air_core\<close> and are parameters. The theorems state what a verified advisory can be used for and
  that every received frame is accounted for.
\<close>

section \<open>The node\<close>

record verified_advisory =
  received :: received_snapshot
  advisory_security :: security_context

record ('cs, 'e, 'k, 'rw, 're, 'x) node =
  transmitter :: "('cs, 'e, 'x) tx_session"
  receiver :: "('cs, 'k, 'rw, 're, 'x) rx_session"
  node_policy :: adaptive_policy
  metrics :: node_metrics

definition node_new ::
  "('cs, 'e, 'x) tx_session \<Rightarrow> ('cs, 'k, 'rw, 're, 'x) rx_session \<Rightarrow> adaptive_policy \<Rightarrow> ('cs, 'e, 'k, 'rw, 're, 'x) node" where
  "node_new t r p = \<lparr>transmitter = t, receiver = r, node_policy = p, metrics = node_metrics_new\<rparr>"

definition record_additions :: "additions \<Rightarrow> ('cs, 'e, 'k, 'rw, 're, 'x) node \<Rightarrow> ('cs, 'e, 'k, 'rw, 're, 'x) node" where
  "record_additions as n = n\<lparr>metrics := apply_additions as (metrics n)\<rparr>"

text \<open>The crate's lengths of an encoded envelope and of an encoded frame.\<close>

record 'x length_ops =
  envelope_len :: "'x semantic_envelope \<Rightarrow> nat"
  frame_len :: "'x sparse_frame \<Rightarrow> nat"

definition node_encode ::
  "('cs, 'o, 'e, 'k, 'rw, 're, 'x) air_ops \<Rightarrow> 'x length_ops \<Rightarrow> drone_state \<Rightarrow> fail_safe_state
     \<Rightarrow> ('cs, 'e, 'k, 'rw, 're, 'x) node \<Rightarrow> ('cs, 'e, 'k, 'rw, 're, 'x) node \<times> ('e protocol_error + 'x transmit_batch)" where
  "node_encode A L d fs n =
    (let (t, result) = encode_advisory_state A d fs (transmitter n); n1 = n\<lparr>transmitter := t\<rparr> in
     case result of
       Inl e \<Rightarrow> (n1, Inl e)
     | Inr batch \<Rightarrow>
         let logical = of_nat (envelope_len L (tb_envelope batch));
             wire = foldl (\<lambda>total f. sat_add total (of_nat (frame_len L f))) 0 (tb_frames batch)
         in (record_additions (send_additions logical wire) n1, Inr batch))"

fun protocol_drop_kind :: "'e protocol_error \<Rightarrow> drop_counter" where
  "protocol_drop_kind AuthenticationFailed = DropAuthentication"
| "protocol_drop_kind SignatureRequired = DropAuthentication"
| "protocol_drop_kind (UntrustedPeer _) = DropAuthentication"
| "protocol_drop_kind (SourceHintMismatch _ _) = DropAuthentication"
| "protocol_drop_kind (Replay _ _) = DropReplay"
| "protocol_drop_kind (TooOld _ _) = DropReplay"
| "protocol_drop_kind (StaleEpoch _ _ _) = DropReplay"
| "protocol_drop_kind (StaleLogical _ _ _) = DropReplay"
| "protocol_drop_kind (CheckpointRollback _) = DropReplay"
| "protocol_drop_kind (StaleTimestamp _ _ _) = DropStale"
| "protocol_drop_kind (SnapshotTooOld _) = DropStale"
| "protocol_drop_kind (SnapshotFromFuture _) = DropStale"
| "protocol_drop_kind (ReceiveClockRegression _) = DropStale"
| "protocol_drop_kind (KeyframeRequired _ _) = DropStale"
| "protocol_drop_kind _ = DropPolicy"

fun is_air_error :: "'e protocol_error \<Rightarrow> bool" where
  "is_air_error (PAir _) = True"
| "is_air_error _ = False"

definition protocol_drop_additions :: "'e protocol_error \<Rightarrow> additions" where
  "protocol_drop_additions e =
    drop_additions (protocol_drop_kind e)
    @ (if e = LearnedResidualForbidden then residual_suppressed_additions else [])
    @ (if is_air_error e then reassembly_failure_additions else [])"

definition accept_additions :: "('cs, 'o, 'e, 'k, 'rw, 're, 'x) air_ops \<Rightarrow> received_snapshot \<Rightarrow> additions" where
  "accept_additions A r =
    (let md = rs_metadata r; logical = of_nat (md_encoded_message_bytes md);
         wire = sat_add logical (sat_mul (ucast (md_fragment_count md)) (of_nat (frame_min_bytes A)))
     in receive_additions logical wire @ reassembly_completed_additions (ucast (md_fragment_count md)))"

definition advisory_of :: "('cs, 'e, 'k, 'rw, 're, 'x) node \<Rightarrow> u64 \<Rightarrow> received_snapshot \<Rightarrow> verified_advisory" where
  "advisory_of n now r =
    (let context_age = min (advisory_ttl_ms (rx_config (receiver n))) (max_context_age_ms (policy_capability (policy_config (node_policy n))))
     in \<lparr>received = r, advisory_security = verified_observe_only now (sat_add now context_age)\<rparr>)"

definition node_ingest ::
  "('cs, 'o, 'e, 'k, 'rw, 're, 'x) air_ops \<Rightarrow> u32 \<Rightarrow> u64 \<Rightarrow> u8 list \<Rightarrow> ('cs, 'e, 'k, 'rw, 're, 'x) node
     \<Rightarrow> ('cs, 'e, 'k, 'rw, 're, 'x) node \<times> ('e protocol_error + verified_advisory option)" where
  "node_ingest A source now bytes n =
    (let (rx, result) = ingest_frame_bytes A source now bytes (receiver n); n1 = n\<lparr>receiver := rx\<rparr> in
     case result of
       Inr (Some r) \<Rightarrow> (record_additions (accept_additions A r) n1, Inr (Some (advisory_of n1 now r)))
     | Inr None \<Rightarrow> (n1, Inr None)
     | Inl e \<Rightarrow> (record_additions (protocol_drop_additions e) n1, Inl e))"

definition evaluate_delivery ::
  "u64 \<Rightarrow> link_snapshot \<Rightarrow> message_intent \<Rightarrow> ('cs, 'e, 'k, 'rw, 're, 'x) node \<Rightarrow> ('cs, 'e, 'k, 'rw, 're, 'x) node \<times> delivery_decision" where
  "evaluate_delivery now l m n =
    (let d = evaluate (node_policy n) now l m in
     case d of Drop reason \<Rightarrow> (record_additions (policy_drop_additions reason) n, d) | Send _ \<Rightarrow> (n, d))"

definition node_approve_manifest :: "u64 \<Rightarrow> ('cs, 'e, 'k, 'rw, 're, 'x) node \<Rightarrow> ('cs, 'e, 'k, 'rw, 're, 'x) node \<times> bool" where
  "node_approve_manifest i n = (let (p, b) = policy_approve_manifest i (node_policy n) in (n\<lparr>node_policy := p\<rparr>, b))"

definition node_revoke_manifest :: "u64 \<Rightarrow> ('cs, 'e, 'k, 'rw, 're, 'x) node \<Rightarrow> ('cs, 'e, 'k, 'rw, 're, 'x) node \<times> bool" where
  "node_revoke_manifest i n = (let (p, b) = policy_revoke_manifest i (node_policy n) in (n\<lparr>node_policy := p\<rparr>, b))"

definition node_expire_stale :: "u64 \<Rightarrow> ('cs, 'e, 'k, 'rw, 're, 'x) node \<Rightarrow> ('cs, 'e, 'k, 'rw, 're, 'x) node \<times> nat" where
  "node_expire_stale now n = (let (rx, k) = expire_stale now (receiver n) in (n\<lparr>receiver := rx\<rparr>, k))"

definition node_checkpoints :: "('cs, 'e, 'k, 'rw, 're, 'x) node \<Rightarrow> replay_checkpoint list" where
  "node_checkpoints n = replay_checkpoints (receiver n)"

definition node_restore ::
  "('cs, 'o, 'e, 'k, 'rw, 're, 'x) air_ops \<Rightarrow> replay_checkpoint \<Rightarrow> ('cs, 'e, 'k, 'rw, 're, 'x) node
     \<Rightarrow> ('cs, 'e, 'k, 'rw, 're, 'x) node \<times> ('e protocol_error + unit)" where
  "node_restore A cp n = (let (rx, r) = restore_replay_checkpoint A cp (receiver n) in (n\<lparr>receiver := rx\<rparr>, r))"

section \<open>What a verified advisory can be used for\<close>

lemma node_ingest_accepts:
  assumes "node_ingest A source now bytes n = (n', Inr (Some v))"
  obtains r where "snd (ingest_frame_bytes A source now bytes (receiver n)) = Inr (Some r)"
    "received v = r" "node_policy n' = node_policy n"
    "advisory_security v = verified_observe_only now (sat_add now
       (min (advisory_ttl_ms (rx_config (receiver n'))) (max_context_age_ms (policy_capability (policy_config (node_policy n))))))"
  using assms
  by (auto simp: node_ingest_def Let_def record_additions_def advisory_of_def split: prod.splits sum.splits option.splits)

text \<open>What an action may do at most: read, advise, or propose bounded work under an approved manifest.\<close>

fun advisory_use :: "capability_gate \<Rightarrow> requested_action \<Rightarrow> bool" where
  "advisory_use g Observe = True"
| "advisory_use g StateSync = True"
| "advisory_use g SnapshotRequest = True"
| "advisory_use g NonbindingAdvisory = True"
| "advisory_use g (CooperativeTaskProposal p) = is_manifest_approved (manifest_id p) g"
| "advisory_use g _ = False"

lemma observe_only_use:
  assumes "authorize g later (verified_observe_only issued expires) action = Inr capability"
  shows "advisory_use g action" "later \<le> expires" "issued \<le> expires" "unat issued \<le> unat later + unat (max_clock_skew_ms (gate_config g))"
proof -
  have ok: "\<exists>ceiling. action_capability g action = Inr (capability, ceiling)" "\<not> expires < later" "\<not> expires < issued"
    "\<not> sat_add later (max_clock_skew_ms (gate_config g)) < issued"
    using assms by (auto simp: authorize_def verified_observe_only_def split: if_splits)
  show "advisory_use g action" using ok(1) by (cases action) (auto split: if_splits)
  show "later \<le> expires" "issued \<le> expires" "unat issued \<le> unat later + unat (max_clock_skew_ms (gate_config g))"
    using ok by (simp_all add: sat_add_less)
qed

text \<open>
  C12. A frame the node turns into a verified advisory was accepted by the authenticated receive session, and whatever
  gate later judges the advisory's context, the context opens no flight, actuator or override action, no proposal
  without a locally approved manifest, and nothing at all once the shorter of the receiver's time to live and the
  policy's context age has passed since reception.
\<close>
theorem verified_advisory_is_only_advisory:
  assumes "node_ingest A source now bytes n = (n', Inr (Some v))"
    and "authorize g later (advisory_security v) action = Inr capability"
  shows "snd (ingest_frame_bytes A source now bytes (receiver n)) = Inr (Some (received v))
    \<and> advisory_use g action
    \<and> unat now \<le> unat later + unat (max_clock_skew_ms (gate_config g))
    \<and> unat later \<le> unat now + min (unat (advisory_ttl_ms (rx_config (receiver n'))))
        (unat (max_context_age_ms (policy_capability (policy_config (node_policy n)))))"
proof -
  obtain r where r: "snd (ingest_frame_bytes A source now bytes (receiver n)) = Inr (Some r)" "received v = r"
    and sec: "advisory_security v = verified_observe_only now (sat_add now
       (min (advisory_ttl_ms (rx_config (receiver n'))) (max_context_age_ms (policy_capability (policy_config (node_policy n))))))"
    using assms(1) by (rule node_ingest_accepts)
  have lim: "unat later \<le> unat now + min (unat a) (unat b)" if "later \<le> sat_add now (min a b)" for a b
    using that by (auto simp: word_le_nat_alt unat_sat_add min_def split: if_splits)
  note use = observe_only_use[OF assms(2)[unfolded sec]]
  show ?thesis using r use(1,4) lim[OF use(2)] by simp
qed

definition demo_transmitter :: "(demo_state, unit, unit) tx_session" where
  "demo_transmitter = \<lparr>tx_source_id = 7, tx_epoch = 1, next_logical_sequence = 0, last_state = [],
     signer = (\<lambda>_. Inr [9]), tx_config = tx_config_default (demo_ops [])\<rparr>"

definition demo_node :: "(demo_state, unit, unit, unit, unit, unit) node" where
  "demo_node = node_new demo_transmitter demo_session (policy_new policy_config_default)"

lemma verified_advisory_is_only_advisory_witness:
  "\<exists>st n' v. node_ingest (demo_ops st) 7 0 [1] demo_node = (n', Inr (Some v)) \<and>
     snd (ingest_frame_bytes (demo_ops st) 7 0 [1] (receiver demo_node)) = Inr (Some (received v))"
proof -
  obtain st s' r where i: "ingest_frame_bytes (demo_ops st) 7 0 [1] demo_session = (s', Inr (Some r))"
    using demo_accepts by blast
  define v where "v = advisory_of (demo_node\<lparr>receiver := s'\<rparr>) 0 r"
  have n: "node_ingest (demo_ops st) 7 0 [1] demo_node =
      (record_additions (accept_additions (demo_ops st) r) (demo_node\<lparr>receiver := s'\<rparr>), Inr (Some v))"
    using i by (simp add: node_ingest_def Let_def v_def demo_node_def node_new_def)
  have "authorize (gate_new gate_config_default) 0 (advisory_security v) Observe = Inr CapObserve"
    by (simp add: v_def advisory_of_def Let_def authorize_def verified_observe_only_def max_authority_def
        sat_sub_def sat_add_def gate_config_default_def gate_new_def)
  from verified_advisory_is_only_advisory[OF n this] n show ?thesis by blast
qed

text \<open>An observe-only context is admitted for a proposal: the gate bounds the requested authority from above only.\<close>

lemma observe_only_context_admits_proposal:
  "authorize (gate_step (gate_new gate_config_default) (Approve 7)) 0 (verified_observe_only 0 10)
     (CooperativeTaskProposal \<lparr>manifest_id = 7, participant_count = 1, ttl_ms = 1, effort_units = 1\<rparr>) = Inr CapCooperativeTaskProposal"
  by (simp add: authorize_def verified_observe_only_def max_authority_def approve_manifest_def gate_new_def
      gate_config_default_def is_manifest_approved_def sat_add_def sat_sub_def)

section \<open>Every frame is accounted for\<close>

text \<open>What an operation adds to the messages received and, in sum, to the four drop counters.\<close>

definition drop_cells :: "counter list" where
  "drop_cells = [AuthenticationDrops, ReplayDrops, StaleDrops, PolicyDrops]"

definition drops_added :: "additions \<Rightarrow> nat" where
  "drops_added as = sum_list (map (\<lambda>c. added c as) drop_cells)"

definition account :: "additions \<Rightarrow> nat \<times> nat" where
  "account as = (added ReceivedMessages as, drops_added as)"

lemma account_additions [simp]:
  "account [] = (0, 0)" "account (send_additions a b) = (0, 0)"
  "account (accept_additions A r) = (1, 0)" "account (protocol_drop_additions e) = (0, 1)"
  "account (policy_drop_additions reason) = (0, 1)"
proof -
  show "account (accept_additions A r) = (1, 0)"
    by (simp add: account_def drops_added_def drop_cells_def accept_additions_def Let_def receive_additions_def reassembly_completed_additions_def)
  show "account (protocol_drop_additions e) = (0, 1)"
    by (cases "protocol_drop_kind e")
      (simp_all add: account_def drops_added_def drop_cells_def protocol_drop_additions_def drop_additions_def
        residual_suppressed_additions_def reassembly_failure_additions_def)
  show "account (policy_drop_additions reason) = (0, 1)"
    by (cases "policy_drop_kind reason")
      (simp_all add: account_def drops_added_def drop_cells_def policy_drop_additions_def drop_additions_def residual_suppressed_additions_def)
qed (simp_all add: account_def drops_added_def drop_cells_def send_additions_def)

datatype node_event =
    NodeEncode drone_state fail_safe_state
  | NodeIngest u32 u64 "u8 list"
  | NodeEvaluate u64 link_snapshot message_intent
  | NodeApprove u64
  | NodeRevoke u64
  | NodeExpire u64
  | NodeRestore replay_checkpoint

text \<open>One operation of the node, with the frames it accepted and the frames and messages it dropped.\<close>

fun node_step ::
  "('cs, 'o, 'e, 'k, 'rw, 're, 'x) air_ops \<Rightarrow> 'x length_ops \<Rightarrow> ('cs, 'e, 'k, 'rw, 're, 'x) node \<Rightarrow> node_event
     \<Rightarrow> ('cs, 'e, 'k, 'rw, 're, 'x) node \<times> nat \<times> nat" where
  "node_step A L n (NodeEncode d fs) = (fst (node_encode A L d fs n), 0, 0)"
| "node_step A L n (NodeIngest source now bytes) =
     (let (n', r) = node_ingest A source now bytes n in
      (n', case r of Inl _ \<Rightarrow> (0, 1) | Inr None \<Rightarrow> (0, 0) | Inr (Some _) \<Rightarrow> (1, 0)))"
| "node_step A L n (NodeEvaluate now l m) =
     (let (n', d) = evaluate_delivery now l m n in (n', case d of Send _ \<Rightarrow> (0, 0) | Drop _ \<Rightarrow> (0, 1)))"
| "node_step A L n (NodeApprove i) = (fst (node_approve_manifest i n), 0, 0)"
| "node_step A L n (NodeRevoke i) = (fst (node_revoke_manifest i n), 0, 0)"
| "node_step A L n (NodeExpire now) = (fst (node_expire_stale now n), 0, 0)"
| "node_step A L n (NodeRestore cp) = (fst (node_restore A cp n), 0, 0)"

fun node_run ::
  "('cs, 'o, 'e, 'k, 'rw, 're, 'x) air_ops \<Rightarrow> 'x length_ops \<Rightarrow> ('cs, 'e, 'k, 'rw, 're, 'x) node \<Rightarrow> node_event list
     \<Rightarrow> ('cs, 'e, 'k, 'rw, 're, 'x) node \<times> nat \<times> nat" where
  "node_run A L n [] = (n, 0, 0)"
| "node_run A L n (e # es) =
     (let (n1, a, d) = node_step A L n e; (n2, a', d') = node_run A L n1 es in (n2, a + a', d + d'))"

lemma node_encode_additions:
  "\<exists>as. metrics (fst (node_encode A L d fs n)) = apply_additions as (metrics n) \<and> account as = (0, 0)"
proof (cases "encode_advisory_state A d fs (transmitter n)")
  case (Pair t r)
  show ?thesis
  proof (cases r)
    case (Inl err)
    with Pair show ?thesis by (intro exI[of _ "[]"]) (simp add: node_encode_def)
  next
    case (Inr b)
    with Pair show ?thesis using account_additions(2) by (auto simp: node_encode_def record_additions_def Let_def)
  qed
qed

lemma node_ingest_additions:
  "\<exists>as. metrics (fst (node_step A L n (NodeIngest source now bytes))) = apply_additions as (metrics n) \<and>
     account as = snd (node_step A L n (NodeIngest source now bytes))"
proof (cases "ingest_frame_bytes A source now bytes (receiver n)")
  case (Pair rx result)
  consider (err) e where "result = Inl e" | (pending) "result = Inr None" | (ok) r where "result = Inr (Some r)"
    by (metis sum.exhaust option.exhaust)
  then show ?thesis
  proof cases
    case err
    with Pair show ?thesis by (intro exI[of _ "protocol_drop_additions e"]) (simp add: node_ingest_def record_additions_def Let_def)
  next
    case pending
    with Pair show ?thesis by (intro exI[of _ "[]"]) (simp add: node_ingest_def)
  next
    case ok
    with Pair show ?thesis by (intro exI[of _ "accept_additions A r"]) (simp add: node_ingest_def record_additions_def Let_def)
  qed
qed

lemma node_evaluate_additions:
  "\<exists>as. metrics (fst (node_step A L n (NodeEvaluate now l m))) = apply_additions as (metrics n) \<and>
     account as = snd (node_step A L n (NodeEvaluate now l m))"
proof (cases "evaluate (node_policy n) now l m")
  case (Send plan)
  then show ?thesis by (intro exI[of _ "[]"]) (simp add: evaluate_delivery_def Let_def)
next
  case (Drop reason)
  then show ?thesis by (intro exI[of _ "policy_drop_additions reason"]) (simp add: evaluate_delivery_def record_additions_def Let_def)
qed

lemma node_step_additions:
  "\<exists>as. metrics (fst (node_step A L n e)) = apply_additions as (metrics n) \<and> account as = snd (node_step A L n e)"
proof (cases e)
  case (NodeIngest source now bytes)
  then show ?thesis by (simp only: node_ingest_additions)
next
  case (NodeEvaluate now l m)
  then show ?thesis by (simp only: node_evaluate_additions)
qed (use node_encode_additions in \<open>auto simp: node_approve_manifest_def node_revoke_manifest_def node_expire_stale_def
      node_restore_def split: prod.splits intro: exI[of _ "[]"]\<close>)

lemma node_step_settles: "fst (snd (node_step A L n e)) + snd (snd (node_step A L n e)) \<le> 1"
  by (cases e) (auto split: prod.splits sum.splits option.splits delivery_decision.splits)

lemma node_run_additions:
  "node_run A L n es = (n', a, d) \<Longrightarrow>
     (\<exists>as. metrics n' = apply_additions as (metrics n) \<and> account as = (a, d)) \<and> a + d \<le> length es"
proof (induction es arbitrary: n a d)
  case Nil
  then show ?case by (auto intro: exI[of _ "[]"])
next
  case (Cons e es)
  obtain n1 a1 d1 where e: "node_step A L n e = (n1, a1, d1)" by (cases "node_step A L n e") auto
  obtain a2 d2 where es: "node_run A L n1 es = (n', a2, d2)" and sum: "a = a1 + a2" "d = d1 + d2"
    using Cons.prems e by (auto split: prod.splits)
  obtain as where as: "metrics n1 = apply_additions as (metrics n)" "account as = (a1, d1)"
    using node_step_additions[of A L n e] e by auto
  obtain bs where bs: "metrics n' = apply_additions bs (metrics n1)" "account bs = (a2, d2)" and len: "a2 + d2 \<le> length es"
    using Cons.IH[OF es] by blast
  have "account (as @ bs) = (a, d)"
    using as(2) bs(2) sum by (simp add: account_def drops_added_def drop_cells_def)
  moreover have "metrics n' = apply_additions (as @ bs) (metrics n)" using as(1) bs(1) by simp
  moreover have "a + d \<le> length (e # es)" using len node_step_settles[of A L n e] e sum by simp
  ultimately show ?case by blast
qed

text \<open>
  C14. Over every run of a fresh node the counters account for every frame: the received counter is the number of
  verified advisories handed out, and the four drop counters together are the number of rejected frames and
  dropped messages. Frames that only continue a reassembly are in neither.
\<close>
theorem node_accounts_for_every_frame:
  assumes "node_run A L (node_new t r p) es = (n, accepted_frames, dropped)" "length es < 2 ^ 64"
  shows "unat (received_messages (metrics n)) = accepted_frames \<and>
    unat (authentication_drops (metrics n)) + unat (replay_drops (metrics n)) + unat (stale_drops (metrics n))
      + unat (policy_drops (metrics n)) = dropped"
proof -
  obtain as where as: "metrics n = apply_additions as (metrics (node_new t r p))" "account as = (accepted_frames, dropped)"
    and len: "accepted_frames + dropped \<le> length es"
    using node_run_additions[OF assms(1)] by blast
  have zero: "metrics (node_new t r p) = node_metrics_new" "unat (load c node_metrics_new) = 0" for c
    by (cases c; simp add: node_new_def node_metrics_new_def)+
  have cell: "unat (load c (metrics n)) = min (added c as) (2 ^ 64 - 1)" for c
    unfolding as(1) zero(1) unat_load_additions by (simp add: zero(2))
  have sums: "added ReceivedMessages as = accepted_frames"
    "added AuthenticationDrops as + added ReplayDrops as + added StaleDrops as + added PolicyDrops as = dropped"
    using as(2) by (simp_all add: account_def drops_added_def drop_cells_def)
  then show ?thesis
    using cell[of ReceivedMessages] cell[of AuthenticationDrops] cell[of ReplayDrops] cell[of StaleDrops] cell[of PolicyDrops]
      len assms(2) by simp
qed

lemma node_accounts_for_every_frame_witness:
  "\<exists>st n. node_run (demo_ops st) \<lparr>envelope_len = \<lambda>_. 1, frame_len = \<lambda>_. 1\<rparr> demo_node [NodeIngest 7 0 [1], NodeApprove 3] = (n, 1, 0) \<and>
     unat (received_messages (metrics n)) = 1"
proof -
  obtain st s' r where i: "ingest_frame_bytes (demo_ops st) 7 0 [1] demo_session = (s', Inr (Some r))"
    using demo_accepts by blast
  then obtain n where n: "node_run (demo_ops st) \<lparr>envelope_len = \<lambda>_. 1, frame_len = \<lambda>_. 1\<rparr> demo_node [NodeIngest 7 0 [1], NodeApprove 3] = (n, 1, 0)"
    by (simp add: node_ingest_def Let_def demo_node_def node_new_def)
  from node_accounts_for_every_frame[OF this[unfolded demo_node_def]] n show ?thesis by auto
qed

end
