(* ===== verification/Transport.thy ===== *)
theory Transport
  imports Types
begin

text \<open>
  The frame transports of \<open>src/latentmesh/transport.rs\<close>: a loopback of two bounded channels and the checks around a connected UDP socket.
  The channels of tokio, the calls of the socket and the largest frame of latentmesh\_air\_core are parameters; the lemmas on the loopback need the
  documented order of a channel, \<open>fifo_laws\<close>.
\<close>

section \<open>Errors and the bound\<close>

datatype 'io io_error = WriteZero | OsError 'io

datatype 'io transport_error = TransportClosed | FrameTooLarge nat nat | InvalidCapacity | TransportIo "'io io_error"

type_synonym frame = "u8 list"

definition validate_frame_bound :: "nat \<Rightarrow> frame \<Rightarrow> 'io transport_error + unit" where
  "validate_frame_bound m f = (if m < length f then Inl (FrameTooLarge (length f) m) else Inr ())"

section \<open>The loopback\<close>

text \<open>
  A channel of tokio: its construction with a capacity, a send, which tells whether the receiver is still there, a receive, which is empty when
  the sender is gone and nothing is left, and the end of either side. A call that waits is \<open>None\<close>.
\<close>

record 'q mpsc =
  mpsc_channel :: "nat \<Rightarrow> 'q"
  mpsc_send :: "frame \<Rightarrow> 'q \<Rightarrow> (bool \<times> 'q) option"
  mpsc_recv :: "'q \<Rightarrow> (frame option \<times> 'q) option"
  drop_sender :: "'q \<Rightarrow> 'q"
  drop_receiver :: "'q \<Rightarrow> 'q"

datatype channel_id = AToB | BToA

record channel_frame_transport =
  ct_sender :: channel_id
  ct_receiver :: channel_id

text \<open>The channels live in a store, because each is shared by the two transports.\<close>

type_synonym 'q channels = "channel_id \<Rightarrow> 'q"

definition bounded_channel_loopback ::
  "'q mpsc \<Rightarrow> nat \<Rightarrow> 'io transport_error + (channel_frame_transport \<times> channel_frame_transport) \<times> 'q channels" where
  "bounded_channel_loopback Q n =
    (if 1 \<le> n \<and> n \<le> 4096
     then Inr ((\<lparr>ct_sender = AToB, ct_receiver = BToA\<rparr>, \<lparr>ct_sender = BToA, ct_receiver = AToB\<rparr>), (\<lambda>_. mpsc_channel Q n))
     else Inl InvalidCapacity)"

definition channel_send ::
  "'q mpsc \<Rightarrow> nat \<Rightarrow> channel_frame_transport \<Rightarrow> frame \<Rightarrow> 'q channels \<Rightarrow> (('io transport_error + unit) \<times> 'q channels) option" where
  "channel_send Q m e f cs =
    (case validate_frame_bound m f of
       Inl err \<Rightarrow> Some (Inl err, cs)
     | Inr _ \<Rightarrow> map_option (\<lambda>(taken, q). (if taken then Inr () else Inl TransportClosed, cs(ct_sender e := q))) (mpsc_send Q f (cs (ct_sender e))))"

definition channel_receive ::
  "'q mpsc \<Rightarrow> nat \<Rightarrow> channel_frame_transport \<Rightarrow> 'q channels \<Rightarrow> (('io transport_error + frame) \<times> 'q channels) option" where
  "channel_receive Q m e cs =
    map_option (\<lambda>(got, q).
      (case got of None \<Rightarrow> Inl TransportClosed
       | Some f \<Rightarrow> (case validate_frame_bound m f of Inl err \<Rightarrow> Inl err | Inr _ \<Rightarrow> Inr f), cs(ct_receiver e := q)))
      (mpsc_recv Q (cs (ct_receiver e)))"

text \<open>A transport that goes out of scope drops its sender and its receiver.\<close>

definition drop_transport :: "'q mpsc \<Rightarrow> channel_frame_transport \<Rightarrow> 'q channels \<Rightarrow> 'q channels" where
  "drop_transport Q e cs =
    (let cs' = cs(ct_sender e := drop_sender Q (cs (ct_sender e))) in cs'(ct_receiver e := drop_receiver Q (cs' (ct_receiver e))))"

section \<open>Sockets\<close>

definition udp_send :: "nat \<Rightarrow> (frame \<Rightarrow> 'io + nat) \<Rightarrow> frame \<Rightarrow> 'io transport_error + unit" where
  "udp_send m send f =
    (case validate_frame_bound m f of
       Inl err \<Rightarrow> Inl err
     | Inr _ \<Rightarrow> (case send f of
           Inl io \<Rightarrow> Inl (TransportIo (OsError io))
         | Inr sent \<Rightarrow> if sent \<noteq> length f then Inl (TransportIo WriteZero) else Inr ()))"

text \<open>\<open>recv\<close> fills a buffer of one byte more than the largest frame and gives the bytes it has written.\<close>

definition udp_receive :: "nat \<Rightarrow> (nat \<Rightarrow> 'io + frame) \<Rightarrow> 'io transport_error + frame" where
  "udp_receive m recv =
    (case recv (m + 1) of
       Inl io \<Rightarrow> Inl (TransportIo (OsError io))
     | Inr received \<Rightarrow> if m < length received then Inl (FrameTooLarge (length received) m) else Inr received)"

lemma udp_frames_bounded: "udp_receive m recv = Inr f \<Longrightarrow> length f \<le> m" "udp_send m send f = Inr () \<Longrightarrow> length f \<le> m \<and> send f = Inr (length f)"
  by (auto simp: udp_receive_def udp_send_def validate_frame_bound_def split: sum.splits if_splits)

section \<open>Runs of the loopback\<close>

text \<open>
  The two endpoints are used by concurrent tasks; a run interleaves their calls, each of which takes effect when it returns. A call that
  waits has no step.
\<close>

datatype 'io link_event =
    SendCall channel_frame_transport frame "'io transport_error + unit"
  | ReceiveCall channel_frame_transport "'io transport_error + frame"
  | Dropped channel_frame_transport

inductive loopback_step :: "'q mpsc \<Rightarrow> nat \<Rightarrow> 'q channels \<Rightarrow> 'io link_event \<Rightarrow> 'q channels \<Rightarrow> bool" for Q m where
  step_send: "channel_send Q m e f cs = Some (r, cs') \<Longrightarrow> loopback_step Q m cs (SendCall e f r) cs'"
| step_receive: "channel_receive Q m e cs = Some (r, cs') \<Longrightarrow> loopback_step Q m cs (ReceiveCall e r) cs'"
| step_drop: "loopback_step Q m cs (Dropped e) (drop_transport Q e cs)"

inductive loopback_run :: "'q mpsc \<Rightarrow> nat \<Rightarrow> 'q channels \<Rightarrow> 'io link_event list \<Rightarrow> 'q channels \<Rightarrow> bool" for Q m cs0 where
  run_nil: "loopback_run Q m cs0 [] cs0"
| run_step: "loopback_run Q m cs0 es cs \<Longrightarrow> loopback_step Q m cs ev cs' \<Longrightarrow> loopback_run Q m cs0 (es @ [ev]) cs'"

inductive_cases sendE: "loopback_step Q m cs (SendCall e f r) cs'"
inductive_cases receiveE: "loopback_step Q m cs (ReceiveCall e r) cs'"
inductive_cases dropE: "loopback_step Q m cs (Dropped e) cs'"

text \<open>What the sends into a channel accepted, and what the receives from it got.\<close>

fun accepted_into :: "channel_id \<Rightarrow> 'io link_event list \<Rightarrow> frame list" where
  "accepted_into c [] = []"
| "accepted_into c (SendCall e f (Inr _) # es) = (if ct_sender e = c then f # accepted_into c es else accepted_into c es)"
| "accepted_into c (_ # es) = accepted_into c es"

fun received_from :: "channel_id \<Rightarrow> 'io link_event list \<Rightarrow> frame list" where
  "received_from c [] = []"
| "received_from c (ReceiveCall e (Inr f) # es) = (if ct_receiver e = c then f # received_from c es else received_from c es)"
| "received_from c (_ # es) = received_from c es"

lemma accepted_into_append: "accepted_into c (xs @ ys) = accepted_into c xs @ accepted_into c ys"
  by (induction c xs rule: accepted_into.induct) simp_all

lemma received_from_append: "received_from c (xs @ ys) = received_from c xs @ received_from c ys"
  by (induction c xs rule: received_from.induct) simp_all

text \<open>
  The documented order of a channel: \<open>queued\<close> are the frames on their way. A send appends its frame unless the receiver is gone, a receive takes the
  first frame, and dropping the sender keeps what is queued. A dropped receiver takes its frames with it, so that a prefix remains.
\<close>

definition fifo_laws :: "'q mpsc \<Rightarrow> ('q \<Rightarrow> frame list) \<Rightarrow> bool" where
  "fifo_laws Q queued \<longleftrightarrow>
     (\<forall>n. queued (mpsc_channel Q n) = []) \<and>
     (\<forall>f q q' taken. mpsc_send Q f q = Some (taken, q') \<longrightarrow> queued q' = (if taken then queued q @ [f] else queued q)) \<and>
     (\<forall>q q' got. mpsc_recv Q q = Some (got, q') \<longrightarrow>
        (case got of None \<Rightarrow> queued q = [] \<and> queued q' = [] | Some f \<Rightarrow> queued q = f # queued q')) \<and>
     (\<forall>q. queued (drop_sender Q q) = queued q)"

lemmas call_defs = channel_send_def channel_receive_def validate_frame_bound_def drop_transport_def

definition channel_ok :: "('q \<Rightarrow> frame list) \<Rightarrow> nat \<Rightarrow> 'io link_event list \<Rightarrow> 'q channels \<Rightarrow> channel_id \<Rightarrow> bool" where
  "channel_ok queued m es cs c \<longleftrightarrow>
     (\<forall>f \<in> set (accepted_into c es). length f \<le> m) \<and> accepted_into c es = received_from c es @ queued (cs c)"

lemma channel_ok_step:
  assumes laws: "fifo_laws Q queued" and ok: "channel_ok queued m es cs c" and step: "loopback_step Q m cs ev cs'"
    and live: "\<And>e. ev \<noteq> Dropped e"
  shows "channel_ok queued m (es @ [ev]) cs' c"
  using step
proof cases
  case (step_send e f r)
  show ?thesis
  proof (cases "m < length f")
    case True
    then show ?thesis using ok step_send
      by (auto simp: channel_send_def validate_frame_bound_def channel_ok_def accepted_into_append received_from_append)
  next
    case False
    then obtain taken q where s: "mpsc_send Q f (cs (ct_sender e)) = Some (taken, q)" "cs' = cs(ct_sender e := q)"
      "r = (if taken then Inr () else Inl TransportClosed)"
      using step_send by (auto simp: channel_send_def validate_frame_bound_def)
    have "queued q = (if taken then queued (cs (ct_sender e)) @ [f] else queued (cs (ct_sender e)))"
      using laws s(1) unfolding fifo_laws_def by blast
    then show ?thesis using ok False s step_send(1)
      by (auto simp: channel_ok_def accepted_into_append received_from_append)
  qed
next
  case (step_receive e r)
  then obtain got q where got: "mpsc_recv Q (cs (ct_receiver e)) = Some (got, q)" "cs' = cs(ct_receiver e := q)"
    "r = (case got of None \<Rightarrow> Inl TransportClosed | Some f \<Rightarrow> (case validate_frame_bound m f of Inl err \<Rightarrow> Inl err | Inr _ \<Rightarrow> Inr f))"
    by (auto simp: channel_receive_def)
  note law = laws[unfolded fifo_laws_def, THEN conjunct2, THEN conjunct2, THEN conjunct1, rule_format, OF got(1)]
  show ?thesis
  proof (cases "ct_receiver e = c")
    case True
    show ?thesis
    proof (cases got)
      case (Some f)
      then have "f \<in> set (accepted_into c es)" using ok law True by (auto simp: channel_ok_def)
      then have "length f \<le> m" using ok by (auto simp: channel_ok_def)
      then show ?thesis using ok law True step_receive got Some
        by (auto simp: channel_ok_def accepted_into_append received_from_append validate_frame_bound_def)
    qed (use ok law True step_receive got in \<open>auto simp: channel_ok_def accepted_into_append received_from_append\<close>)
  next
    case False
    then show ?thesis using ok step_receive got(2)
      by (cases r) (auto simp: channel_ok_def accepted_into_append received_from_append)
  qed
qed (use live in blast)

text \<open>
  In every run in which both endpoints are kept, whatever the interleaving, each endpoint has received a prefix of the frames
  its peer's sends accepted, in their order and unchanged, and the rest is queued for it: the endpoints are cross-connected, and the checks of the
  length never lose an accepted frame.
\<close>

theorem loopback_preserves_frames:
  assumes "fifo_laws Q queued" "bounded_channel_loopback Q n = Inr ((a, b), cs0)" "loopback_run Q m cs0 es cs"
    and "\<forall>e. Dropped e \<notin> set es"
  shows "accepted_into (ct_sender a) es = received_from (ct_receiver b) es @ queued (cs (ct_receiver b)) \<and>
    accepted_into (ct_sender b) es = received_from (ct_receiver a) es @ queued (cs (ct_receiver a)) \<and>
    ct_sender a \<noteq> ct_sender b"
proof -
  have new: "cs0 = (\<lambda>_. mpsc_channel Q n)" "ct_sender a = ct_receiver b" "ct_sender b = ct_receiver a" "ct_sender a \<noteq> ct_sender b"
    using assms(2) by (auto simp: bounded_channel_loopback_def split: if_splits)
  have "channel_ok queued m es cs c" for c
    using assms(3,4)
  proof induction
    case run_nil
    then show ?case using assms(1) by (simp add: channel_ok_def new(1) fifo_laws_def)
  next
    case (run_step es cs ev cs')
    then show ?case by (intro channel_ok_step[OF assms(1)]) auto
  qed
  then show ?thesis using new(2-4) by (simp add: channel_ok_def)
qed

text \<open>A queue in a list, with its capacity, meets the laws.\<close>

definition list_mpsc :: "(nat \<times> frame list \<times> bool \<times> bool) mpsc" where
  "list_mpsc = \<lparr>mpsc_channel = (\<lambda>n. (n, [], True, True)),
     mpsc_send = (\<lambda>f (n, fs, tx, rx). if \<not> rx then Some (False, (n, fs, tx, rx)) else if n \<le> length fs then None else Some (True, (n, fs @ [f], tx, rx))),
     mpsc_recv = (\<lambda>(n, fs, tx, rx). case fs of [] \<Rightarrow> if tx then None else Some (None, (n, fs, tx, rx)) | f # fs' \<Rightarrow> Some (Some f, (n, fs', tx, rx))),
     drop_sender = (\<lambda>(n, fs, tx, rx). (n, fs, False, rx)), drop_receiver = (\<lambda>(n, fs, tx, rx). (n, [], tx, False))\<rparr>"

lemma list_mpsc_fifo: "fifo_laws list_mpsc (\<lambda>(n, fs, _). fs)"
  by (auto simp: fifo_laws_def list_mpsc_def split: if_splits list.splits)

end
