(* ===== verification/Forecast.thy ===== *)
theory Forecast
  imports Types
begin

text \<open>
  The predictive advisory of \<open>src/forecast/mod.rs\<close>: a bounded history of observations, a forecast from it, and the
  reduce-only eligibility for new work. The crate \<open>ruforecast_core\<close> is a parameter: the record \<open>forecast_ops\<close>
  holds its constructors and its forecaster. \<open>usize\<close> has 64 bits.
\<close>

section \<open>The crate's interface\<close>

datatype 'f forecast_outcome = Forecast 'f | Abstained | ForecastFailed

record ('sc, 'q, 'p, 'c, 's, 'r, 'f, 'd) forecast_ops =
  max_horizon :: u64
  max_step_ms :: u64
  max_forecast_span_ms :: u64
  feature_schema :: "(string \<times> string) list \<Rightarrow> 'sc option"
  quantile_set :: "f64 list \<Rightarrow> 'q option"
  data_policy :: "u64 \<Rightarrow> 'p option"
  source_claimed :: "string \<Rightarrow> 'c option"
  time_series :: "'sc \<Rightarrow> u64 list \<Rightarrow> f32 list \<Rightarrow> bool list \<Rightarrow> 'c \<Rightarrow> 'p \<Rightarrow> 's option"
  forecast_request :: "'s \<Rightarrow> u64 \<Rightarrow> u64 \<Rightarrow> 'q \<Rightarrow> 'r option"
  request_digest_of :: "'r \<Rightarrow> 'd"
  run_forecast :: "'r \<Rightarrow> 'f forecast_outcome"
  payload_intact :: "'f \<Rightarrow> bool"
  horizon_of :: "'f \<Rightarrow> u64"
  value_at :: "'f \<Rightarrow> u64 \<Rightarrow> nat \<Rightarrow> nat \<Rightarrow> f32 option"
  origin_of :: "'f \<Rightarrow> u64"
  output_digest_of :: "'f \<Rightarrow> 'd"

section \<open>Policy, history and advisory\<close>

datatype rollout_mode = RolloutDisabled | RolloutShadow | CanaryReduceOnly

record forecast_policy =
  rollout :: rollout_mode
  history_capacity :: nat
  minimum_history :: nat
  max_input_age_ms :: u64
  horizon :: u64
  step_ms :: u64
  forecast_ttl_ms :: u64
  policy_battery_pct :: f32
  policy_link_quality :: f32

definition forecast_policy_default :: forecast_policy where
  "forecast_policy_default =
    \<lparr>rollout = RolloutShadow, history_capacity = 128, minimum_history = 8, max_input_age_ms = 5000,
     horizon = 6, step_ms = 1000, forecast_ttl_ms = 5000, policy_battery_pct = lit 30,
     policy_link_quality = lit (35/100)\<rparr>"

record observation =
  obs_timestamp_ms :: u64
  obs_values :: "f32 list"

record 'd forecast_advisory =
  origin_ms :: u64
  advisory_expires_at_ms :: u64
  model_id :: string
  request_digest :: 'd
  output_digest :: 'd
  minimum_battery_pct :: f32
  minimum_link_quality :: f32
  progress_at_horizon :: f32

record forecast_metrics =
  observations_accepted :: u64
  observations_rejected :: u64
  forecasts_issued :: u64
  abstentions :: u64
  stale_inputs :: u64
  invalid_outputs :: u64
  eligibility_reductions :: u64

definition forecast_metrics_zero :: forecast_metrics where
  "forecast_metrics_zero =
    \<lparr>observations_accepted = 0, observations_rejected = 0, forecasts_issued = 0, abstentions = 0,
     stale_inputs = 0, invalid_outputs = 0, eligibility_reductions = 0\<rparr>"

record ('sc, 'q, 'd) forecast_engine =
  forecast_policy :: forecast_policy
  history :: "observation list"
  schema :: 'sc
  quantiles :: 'q
  last_advisory :: "'d forecast_advisory option"
  last_forecast_at_ms :: "u64 option"
  forecast_metrics :: forecast_metrics

definition unit_range :: "f32 \<Rightarrow> bool" where
  "unit_range x \<longleftrightarrow> is_finite x \<and> in_range 0 1 x"

definition percent_range :: "f32 \<Rightarrow> bool" where
  "percent_range x \<longleftrightarrow> is_finite x \<and> in_range 0 (lit 100) x"

section \<open>Construction\<close>

definition engine_try_new ::
  "('sc, 'q, 'p, 'c, 's, 'r, 'f, 'd) forecast_ops \<Rightarrow> forecast_policy \<Rightarrow> string + ('sc, 'q, 'd) forecast_engine" where
  "engine_try_new F p =
    (if history_capacity p = 0 \<or> 16384 < history_capacity p then Inl ''history_capacity must be in 1..=16384''
     else if minimum_history p = 0 \<or> history_capacity p < minimum_history p
     then Inl ''minimum_history must fit within history_capacity''
     else if horizon p = 0 \<or> step_ms p = 0 \<or> forecast_ttl_ms p = 0
     then Inl ''horizon, step_ms, and advisory_ttl_ms must be nonzero''
     else if max_horizon F < horizon p \<or> max_step_ms F < step_ms p
        \<or> (case checked_mul (horizon p) (step_ms p) of None \<Rightarrow> True | Some ms \<Rightarrow> max_forecast_span_ms F < ms)
     then Inl ''forecast horizon or cadence exceeds RuForecast bounds''
     else if \<not> percent_range (policy_battery_pct p) \<or> \<not> unit_range (policy_link_quality p)
     then Inl ''forecast thresholds are outside physical ranges''
     else
       bindE (ok_or ''invalid schema'' (feature_schema F
           [(''battery_pct'', ''percent''), (''link_quality'', ''ratio''), (''mission_progress'', ''ratio'')])) (\<lambda>sc.
       bindE (ok_or ''invalid quantiles'' (quantile_set F [lit (1/10), lit (5/10), lit (9/10)])) (\<lambda>q.
       Inr \<lparr>forecast_policy = p, history = [], schema = sc, quantiles = q, last_advisory = None,
            last_forecast_at_ms = None, forecast_metrics = forecast_metrics_zero\<rparr>)))"

text \<open>\<open>new\<close> falls back to the disabled default; \<open>None\<close> is the panic of \<open>expect\<close>.\<close>

definition engine_new ::
  "('sc, 'q, 'p, 'c, 's, 'r, 'f, 'd) forecast_ops \<Rightarrow> forecast_policy \<Rightarrow> ('sc, 'q, 'd) forecast_engine option" where
  "engine_new F p =
    (case engine_try_new F p of
       Inr e \<Rightarrow> Some e
     | Inl _ \<Rightarrow>
         (case engine_try_new F (forecast_policy_default\<lparr>rollout := RolloutDisabled\<rparr>) of
            Inr e \<Rightarrow> Some e
          | Inl _ \<Rightarrow> None))"

section \<open>Observing and forecasting\<close>

definition bump_abstentions :: "('sc, 'q, 'd) forecast_engine \<Rightarrow> ('sc, 'q, 'd) forecast_engine" where
  "bump_abstentions e = e\<lparr>forecast_metrics := (forecast_metrics e)\<lparr>abstentions := sat_add (abstentions (forecast_metrics e)) 1\<rparr>\<rparr>"

definition bump_invalid :: "('sc, 'q, 'd) forecast_engine \<Rightarrow> ('sc, 'q, 'd) forecast_engine" where
  "bump_invalid e = e\<lparr>forecast_metrics := (forecast_metrics e)\<lparr>invalid_outputs := sat_add (invalid_outputs (forecast_metrics e)) 1\<rparr>\<rparr>"

definition bump_stale :: "('sc, 'q, 'd) forecast_engine \<Rightarrow> ('sc, 'q, 'd) forecast_engine" where
  "bump_stale e = e\<lparr>forecast_metrics := (forecast_metrics e)\<lparr>stale_inputs := sat_add (stale_inputs (forecast_metrics e)) 1\<rparr>\<rparr>"

definition materialize_series ::
  "('sc, 'q, 'p, 'c, 's, 'r, 'f, 'd) forecast_ops \<Rightarrow> ('sc, 'q, 'd) forecast_engine \<Rightarrow> 's option" where
  "materialize_series F e =
    (let timestamps = map obs_timestamp_ms (history e); vals = concat (map obs_values (history e)) in
     if timestamps = [] then None else
     let retention_until = sat_add (last timestamps) (forecast_ttl_ms (forecast_policy e)) in
     Option.bind (data_policy F retention_until) (\<lambda>policy.
     Option.bind (source_claimed F ''bounded local drone telemetry'') (\<lambda>source.
     time_series F (schema e) timestamps vals (replicate (length (history e) * 3) True) source policy)))"

text \<open>\<open>filter_map(..).reduce(f32::min)\<close> over the steps of a forecast.\<close>

fun reduce_min :: "f32 list \<Rightarrow> f32 option" where
  "reduce_min [] = None"
| "reduce_min (x # xs) = Some (foldl fmin x xs)"

definition step_values :: "('sc, 'q, 'p, 'c, 's, 'r, 'f, 'd) forecast_ops \<Rightarrow> 'f \<Rightarrow> nat \<Rightarrow> nat \<Rightarrow> f32 list" where
  "step_values F f variate quantile =
    List.map_filter (\<lambda>step. value_at F f (of_nat step) variate quantile) [0..<unat (horizon_of F f)]"

definition issue_advisory ::
  "('sc, 'q, 'p, 'c, 's, 'r, 'f, 'd) forecast_ops \<Rightarrow> u64 \<Rightarrow> 'r \<Rightarrow> 'f \<Rightarrow> ('sc, 'q, 'd) forecast_engine \<Rightarrow> ('sc, 'q, 'd) forecast_engine" where
  "issue_advisory F now request f e =
    (case (reduce_min (step_values F f 0 0), reduce_min (step_values F f 1 0), value_at F f (horizon_of F f - 1) 2 1) of
       (Some battery, Some link, Some progress) \<Rightarrow>
         let p = forecast_policy e;
             advisory = \<lparr>origin_ms = origin_of F f, advisory_expires_at_ms = sat_add (origin_of F f) (forecast_ttl_ms p),
               model_id = ''ruview-last-value-baseline'', request_digest = request_digest_of F request,
               output_digest = output_digest_of F f, minimum_battery_pct = battery, minimum_link_quality = link,
               progress_at_horizon = progress\<rparr>;
             m = forecast_metrics e;
             m1 = m\<lparr>forecasts_issued := sat_add (forecasts_issued m) 1\<rparr>;
             m2 = (if rollout p = CanaryReduceOnly \<and> (battery < policy_battery_pct p \<or> link < policy_link_quality p)
                   then m1\<lparr>eligibility_reductions := sat_add (eligibility_reductions m1) 1\<rparr> else m1)
         in e\<lparr>last_advisory := Some advisory, last_forecast_at_ms := Some now, forecast_metrics := m2\<rparr>
     | _ \<Rightarrow> bump_invalid e)"

definition refresh ::
  "('sc, 'q, 'p, 'c, 's, 'r, 'f, 'd) forecast_ops \<Rightarrow> u64 \<Rightarrow> ('sc, 'q, 'd) forecast_engine \<Rightarrow> ('sc, 'q, 'd) forecast_engine" where
  "refresh F now e =
    (let p = forecast_policy e in
     if rollout p = RolloutDisabled \<or> length (history e) < minimum_history p then bump_abstentions e
     else if history e = [] then e
     else if max_input_age_ms p < sat_sub now (obs_timestamp_ms (last (history e))) then bump_stale e
     else (case materialize_series F e of
       None \<Rightarrow> bump_invalid e
     | Some series \<Rightarrow>
         (case forecast_request F series (horizon p) (step_ms p) (quantiles e) of
            None \<Rightarrow> bump_invalid e
          | Some request \<Rightarrow>
              (case run_forecast F request of
                 Forecast f \<Rightarrow> if payload_intact F f then issue_advisory F now request f e else bump_invalid e
               | Abstained \<Rightarrow> bump_abstentions e
               | ForecastFailed \<Rightarrow> bump_invalid e))))"

definition push_observation :: "observation \<Rightarrow> ('sc, 'q, 'd) forecast_engine \<Rightarrow> ('sc, 'q, 'd) forecast_engine" where
  "push_observation ob e =
    (let h = (if length (history e) = history_capacity (forecast_policy e) then tl (history e) else history e)
     in e\<lparr>history := h @ [ob],
          forecast_metrics := (forecast_metrics e)\<lparr>observations_accepted := sat_add (observations_accepted (forecast_metrics e)) 1\<rparr>\<rparr>)"

definition admissible :: "u64 \<Rightarrow> f32 \<Rightarrow> f32 \<Rightarrow> f32 \<Rightarrow> ('sc, 'q, 'd) forecast_engine \<Rightarrow> bool" where
  "admissible t battery link progress e \<longleftrightarrow>
     percent_range battery \<and> unit_range link \<and> unit_range progress
   \<and> (history e = [] \<or> obs_timestamp_ms (last (history e)) < t)"

definition observe_and_forecast ::
  "('sc, 'q, 'p, 'c, 's, 'r, 'f, 'd) forecast_ops \<Rightarrow> u64 \<Rightarrow> f32 \<Rightarrow> f32 \<Rightarrow> f32
     \<Rightarrow> ('sc, 'q, 'd) forecast_engine \<Rightarrow> ('sc, 'q, 'd) forecast_engine" where
  "observe_and_forecast F t battery link progress e =
    (if \<not> admissible t battery link progress e then
       e\<lparr>forecast_metrics := (forecast_metrics e)\<lparr>observations_rejected := sat_add (observations_rejected (forecast_metrics e)) 1\<rparr>\<rparr>
     else
       let e1 = push_observation \<lparr>obs_timestamp_ms = t, obs_values = [battery, link, progress]\<rparr> e in
       if (case last_forecast_at_ms e1 of None \<Rightarrow> True | Some l \<Rightarrow> step_ms (forecast_policy e1) \<le> sat_sub t l)
       then refresh F t e1 else e1)"

definition is_eligible_for_new_work :: "('sc, 'q, 'd) forecast_engine \<Rightarrow> u64 \<Rightarrow> bool" where
  "is_eligible_for_new_work e now =
    (if rollout (forecast_policy e) \<noteq> CanaryReduceOnly then True
     else (case last_advisory e of
       None \<Rightarrow> True
     | Some a \<Rightarrow> advisory_expires_at_ms a < now
         \<or> policy_battery_pct (forecast_policy e) \<le> minimum_battery_pct a
         \<and> policy_link_quality (forecast_policy e) \<le> minimum_link_quality a))"

section \<open>The invariant of the history\<close>

fun observe :: "('sc, 'q, 'p, 'c, 's, 'r, 'f, 'd) forecast_ops \<Rightarrow> ('sc, 'q, 'd) forecast_engine \<Rightarrow> u64 \<times> f32 \<times> f32 \<times> f32
     \<Rightarrow> ('sc, 'q, 'd) forecast_engine" where
  "observe F e (t, battery, link, progress) = observe_and_forecast F t battery link progress e"

fun physical :: "f32 list \<Rightarrow> bool" where
  "physical [battery, link, progress] = (percent_range battery \<and> unit_range link \<and> unit_range progress)"
| "physical _ = False"

definition history_ok :: "forecast_policy \<Rightarrow> observation list \<Rightarrow> bool" where
  "history_ok p h \<longleftrightarrow> length h \<le> history_capacity p \<and> sorted_wrt (<) (map obs_timestamp_ms h) \<and>
     list_all (\<lambda>ob. physical (obs_values ob)) h"

text \<open>An advisory was issued by an enabled rollout on a long enough history and expires its time to live after its origin.\<close>

definition advisory_ok :: "forecast_policy \<Rightarrow> ('sc, 'q, 'd) forecast_engine \<Rightarrow> bool" where
  "advisory_ok p e \<longleftrightarrow> (case last_advisory e of None \<Rightarrow> True | Some a \<Rightarrow>
     rollout p \<noteq> RolloutDisabled \<and> minimum_history p \<le> length (history e) \<and> last_forecast_at_ms e \<noteq> None \<and>
     advisory_expires_at_ms a = sat_add (origin_ms a) (forecast_ttl_ms p))"

definition engine_ok :: "forecast_policy \<Rightarrow> ('sc, 'q, 'd) forecast_engine \<Rightarrow> bool" where
  "engine_ok p e \<longleftrightarrow> forecast_policy e = p \<and> 0 < history_capacity p \<and> minimum_history p \<le> history_capacity p \<and>
     history_ok p (history e) \<and> advisory_ok p e \<and> stale_inputs (forecast_metrics e) = 0"

lemma bump_simps [simp]:
  "forecast_policy (bump_abstentions e) = forecast_policy e" "history (bump_abstentions e) = history e"
  "last_advisory (bump_abstentions e) = last_advisory e" "last_forecast_at_ms (bump_abstentions e) = last_forecast_at_ms e"
  "stale_inputs (forecast_metrics (bump_abstentions e)) = stale_inputs (forecast_metrics e)"
  "forecast_policy (bump_invalid e) = forecast_policy e" "history (bump_invalid e) = history e"
  "last_advisory (bump_invalid e) = last_advisory e" "last_forecast_at_ms (bump_invalid e) = last_forecast_at_ms e"
  "stale_inputs (forecast_metrics (bump_invalid e)) = stale_inputs (forecast_metrics e)"
  by (simp_all add: bump_abstentions_def bump_invalid_def)

lemma engine_ok_bump [simp]:
  "engine_ok p (bump_abstentions e) = engine_ok p e" "engine_ok p (bump_invalid e) = engine_ok p e"
  by (simp_all add: engine_ok_def advisory_ok_def cong: option.case_cong)

lemma less_sat_sub_self: "\<not> a < sat_sub b (b :: 'a::len word)"
  by (simp add: sat_sub_def)

lemma issue_advisory_ok:
  assumes "engine_ok p e" "rollout p \<noteq> RolloutDisabled" "minimum_history p \<le> length (history e)"
  shows "engine_ok p (issue_advisory F now request f e)"
  using assms unfolding issue_advisory_def
  by (auto simp: engine_ok_def advisory_ok_def Let_def split: option.splits)

lemma refresh_ok:
  assumes "engine_ok p e" "history e \<noteq> []" "obs_timestamp_ms (last (history e)) = now"
  shows "engine_ok p (refresh F now e)"
proof -
  have p: "forecast_policy e = p" using assms(1) by (simp add: engine_ok_def)
  have "\<not> max_input_age_ms p < sat_sub now now" by (simp add: less_sat_sub_self)
  then show ?thesis
    using assms unfolding refresh_def Let_def p
    by (auto intro!: issue_advisory_ok split: option.splits forecast_outcome.splits)
qed

lemma sorted_append_one:
  "sorted_wrt (<) xs \<Longrightarrow> xs = [] \<or> last xs < t \<Longrightarrow> sorted_wrt (<) (xs @ [t])" for t :: "'a::linorder"
proof (induction xs)
  case (Cons x xs)
  then show ?case by (cases "xs = []") (auto simp: sorted_wrt_append dest: last_in_set intro: less_trans)
qed simp

lemma sorted_tl: "sorted_wrt (<) xs \<Longrightarrow> sorted_wrt (<) (tl xs)" for xs :: "'a::linorder list"
  by (cases xs) auto

lemma push_ok:
  assumes "engine_ok p e" "admissible t battery link progress e"
  shows "engine_ok p (push_observation \<lparr>obs_timestamp_ms = t, obs_values = [battery, link, progress]\<rparr> e)"
proof -
  let ?h = "if length (history e) = history_capacity p then tl (history e) else history e"
  have p: "forecast_policy e = p" and cap: "0 < history_capacity p" "length (history e) \<le> history_capacity p"
    and sorted: "sorted_wrt (<) (map obs_timestamp_ms (history e))"
    and phys: "list_all (\<lambda>ob. physical (obs_values ob)) (history e)"
    using assms(1) by (simp_all add: engine_ok_def history_ok_def)
  have lt: "map obs_timestamp_ms ?h = [] \<or> last (map obs_timestamp_ms ?h) < t"
    using assms(2) by (cases "history e") (auto simp: admissible_def last_map last_tl split: if_splits)
  have "sorted_wrt (<) (map obs_timestamp_ms ?h)" using sorted by (simp add: map_tl sorted_tl)
  then have s: "sorted_wrt (<) (map obs_timestamp_ms ?h @ [t])" using lt by (rule sorted_append_one)
  have l: "Suc (length ?h) \<le> history_capacity p" "length (history e) \<le> Suc (length ?h)" using cap by auto
  have q: "list_all (\<lambda>ob. physical (obs_values ob)) ?h"
    using phys by (cases "history e") auto
  have new: "physical [battery, link, progress]" using assms(2) by (simp add: admissible_def)
  have e': "push_observation \<lparr>obs_timestamp_ms = t, obs_values = [battery, link, progress]\<rparr> e =
      e\<lparr>history := ?h @ [\<lparr>obs_timestamp_ms = t, obs_values = [battery, link, progress]\<rparr>],
        forecast_metrics := (forecast_metrics e)\<lparr>observations_accepted := sat_add (observations_accepted (forecast_metrics e)) 1\<rparr>\<rparr>"
    by (simp only: push_observation_def Let_def p)
  show ?thesis using assms(1) s l q new unfolding e'
    by (auto simp: engine_ok_def history_ok_def advisory_ok_def simp del: map_tl split: option.splits)
qed

lemma observe_ok:
  assumes "engine_ok p e"
  shows "engine_ok p (observe F e ob)"
proof -
  obtain t battery link progress where ob: "ob = (t, battery, link, progress)" by (cases ob) auto
  show ?thesis
  proof (cases "admissible t battery link progress e")
    case True
    let ?e = "push_observation \<lparr>obs_timestamp_ms = t, obs_values = [battery, link, progress]\<rparr> e"
    have "history ?e \<noteq> []" "obs_timestamp_ms (last (history ?e)) = t"
      by (simp_all add: push_observation_def Let_def)
    then show ?thesis using push_ok[OF assms True] refresh_ok[of p ?e t F] True
      by (simp add: ob observe_and_forecast_def Let_def)
  next
    case False
    with assms show ?thesis
      by (simp add: ob observe_and_forecast_def engine_ok_def advisory_ok_def cong: option.case_cong)
  qed
qed

interpretation forecast: op_invariant "observe F" "engine_ok p"
  by unfold_locales (rule observe_ok)

lemma engine_new_ok:
  assumes "engine_new F p = Some e"
  shows "engine_ok (forecast_policy e) e \<and> history_capacity (forecast_policy e) \<le> 16384 \<and>
    (forecast_policy e = p \<or> rollout (forecast_policy e) = RolloutDisabled)"
proof -
  have *: "engine_ok q e \<and> history_capacity q \<le> 16384 \<and> forecast_policy e = q" if "engine_try_new F q = Inr e" for q
    using that by (auto simp: engine_try_new_def engine_ok_def history_ok_def advisory_ok_def forecast_metrics_zero_def split: if_splits)
  show ?thesis
  proof (cases "engine_try_new F p")
    case (Inl msg)
    then have "engine_try_new F (forecast_policy_default\<lparr>rollout := RolloutDisabled\<rparr>) = Inr e"
      using assms by (auto simp: engine_new_def split: sum.splits)
    from *[OF this] show ?thesis by simp
  next
    case (Inr e')
    with assms have "engine_try_new F p = Inr e" by (simp add: engine_new_def)
    from *[OF this] show ?thesis by simp
  qed
qed

text \<open>
  Whatever policy an engine is built from and whatever it observes, its history stays within the capacity, holds
  strictly increasing timestamps and only physical values, and no observation is ever counted as stale: the age
  test of \<open>refresh\<close> never fires, whatever \<open>max_input_age_ms\<close> is.
\<close>
theorem forecast_history_invariant:
  assumes "engine_new F p = Some e0" and "e = foldl (observe F) e0 obs"
  shows "length (history e) \<le> min 16384 (history_capacity (forecast_policy e0))
    \<and> sorted_wrt (<) (map obs_timestamp_ms (history e))
    \<and> list_all (\<lambda>ob. physical (obs_values ob)) (history e)
    \<and> stale_inputs (forecast_metrics e) = 0"
proof -
  have "engine_ok (forecast_policy e0) e"
    using engine_new_ok[OF assms(1)] unfolding assms(2) by (intro forecast.run_inv) simp
  then show ?thesis using engine_new_ok[OF assms(1)] by (simp add: engine_ok_def history_ok_def)
qed

text \<open>
  C38. The forecast only ever reduces eligibility, and only as a canary: an engine that refuses new work runs the policy
  it was given in canary mode, on at least the minimum history, and holds an advisory that has not expired
  and whose forecast minimum of battery or link quality does not reach the threshold. Shadow and disabled
  rollouts and rejected policies never refuse work.
\<close>
theorem forecast_only_reduces:
  assumes "engine_new F p = Some e0" and "e = foldl (observe F) e0 obs" and "\<not> is_eligible_for_new_work e now"
  shows "rollout p = CanaryReduceOnly \<and> minimum_history p \<le> length (history e) \<and>
    (\<exists>a. last_advisory e = Some a \<and> now \<le> sat_add (origin_ms a) (forecast_ttl_ms p) \<and>
       \<not> (policy_battery_pct p \<le> minimum_battery_pct a \<and> policy_link_quality p \<le> minimum_link_quality a))"
proof -
  have ok: "engine_ok (forecast_policy e0) e"
    using engine_new_ok[OF assms(1)] unfolding assms(2) by (intro forecast.run_inv) simp
  then have q: "forecast_policy e = forecast_policy e0" by (simp add: engine_ok_def)
  have c: "rollout (forecast_policy e0) = CanaryReduceOnly"
    using assms(3) q by (auto simp: is_eligible_for_new_work_def split: if_splits)
  then have p: "forecast_policy e0 = p" using engine_new_ok[OF assms(1)] by auto
  obtain a where "last_advisory e = Some a" "now \<le> advisory_expires_at_ms a"
    "\<not> (policy_battery_pct p \<le> minimum_battery_pct a \<and> policy_link_quality p \<le> minimum_link_quality a)"
    using assms(3) q p by (auto simp: is_eligible_for_new_work_def not_less split: if_splits option.splits)
  then show ?thesis using ok c p by (auto simp: engine_ok_def advisory_ok_def)
qed

section \<open>The counters\<close>

definition refreshes :: "forecast_metrics \<Rightarrow> nat" where
  "refreshes m = unat (forecasts_issued m) + unat (abstentions m) + unat (stale_inputs m) + unat (invalid_outputs m)"

definition counted :: "nat \<Rightarrow> ('sc, 'q, 'd) forecast_engine \<Rightarrow> bool" where
  "counted k e \<longleftrightarrow> (let m = forecast_metrics e in
     unat (observations_accepted m) + unat (observations_rejected m) = k \<and>
     refreshes m \<le> unat (observations_accepted m) \<and> unat (eligibility_reductions m) \<le> unat (forecasts_issued m))"

lemma unat_sat_succ: "unat x < 2 ^ 64 - 1 \<Longrightarrow> unat (sat_add x 1) = unat x + 1" for x :: u64
  by (simp add: unat_sat_add)

lemma refresh_counts:
  fixes F :: "('sc, 'q, 'p, 'c, 's, 'r, 'f, 'd) forecast_ops"
  assumes "refreshes (forecast_metrics e) < 2 ^ 64 - 1" "unat (eligibility_reductions (forecast_metrics e)) \<le> unat (forecasts_issued (forecast_metrics e))"
    and m: "m = forecast_metrics (refresh F now e)"
  shows "refreshes m \<le> refreshes (forecast_metrics e) + 1"
    "observations_accepted m = observations_accepted (forecast_metrics e)"
    "observations_rejected m = observations_rejected (forecast_metrics e)"
    "unat (eligibility_reductions m) \<le> unat (forecasts_issued m)"
proof -
  have small: "unat (forecasts_issued (forecast_metrics e)) < 2 ^ 64 - 1" "unat (abstentions (forecast_metrics e)) < 2 ^ 64 - 1"
    "unat (stale_inputs (forecast_metrics e)) < 2 ^ 64 - 1" "unat (invalid_outputs (forecast_metrics e)) < 2 ^ 64 - 1"
    "unat (eligibility_reductions (forecast_metrics e)) < 2 ^ 64 - 1"
    using assms(1,2) unfolding refreshes_def by linarith+
  note succ = small[THEN unat_sat_succ]
  let ?ok = "\<lambda>e' :: ('sc, 'q, 'd) forecast_engine. refreshes (forecast_metrics e') \<le> refreshes (forecast_metrics e) + 1 \<and>
    observations_accepted (forecast_metrics e') = observations_accepted (forecast_metrics e) \<and>
    observations_rejected (forecast_metrics e') = observations_rejected (forecast_metrics e) \<and>
    unat (eligibility_reductions (forecast_metrics e')) \<le> unat (forecasts_issued (forecast_metrics e'))"
  have bumps: "?ok (bump_abstentions e)" "?ok (bump_invalid e)" "?ok (bump_stale e)" "?ok e"
    using assms(2) succ by (simp_all add: bump_abstentions_def bump_invalid_def bump_stale_def refreshes_def)
  have "?ok (issue_advisory F now request f e)" for request f
    using assms(2) succ bumps(2) unfolding issue_advisory_def
    by (auto simp: refreshes_def Let_def split: option.splits)
  with bumps have "?ok (refresh F now e)"
    unfolding refresh_def Let_def by (auto split: option.splits forecast_outcome.splits)
  then show "refreshes m \<le> refreshes (forecast_metrics e) + 1"
    "observations_accepted m = observations_accepted (forecast_metrics e)"
    "observations_rejected m = observations_rejected (forecast_metrics e)"
    "unat (eligibility_reductions m) \<le> unat (forecasts_issued m)"
    unfolding m by blast+
qed

lemma observe_counts:
  fixes F :: "('sc, 'q, 'p, 'c, 's, 'r, 'f, 'd) forecast_ops"
  assumes "counted k e" "k < 2 ^ 64 - 1"
  shows "counted (Suc k) (observe F e ob)"
proof -
  obtain t battery link progress where ob: "ob = (t, battery, link, progress)" by (cases ob) auto
  let ?m = "forecast_metrics e"
  have b: "unat (observations_accepted ?m) < 2 ^ 64 - 1" "unat (observations_rejected ?m) < 2 ^ 64 - 1"
    using assms by (auto simp: counted_def Let_def)
  show ?thesis
  proof (cases "admissible t battery link progress e")
    case True
    let ?e = "push_observation \<lparr>obs_timestamp_ms = t, obs_values = [battery, link, progress]\<rparr> e"
    have pm: "forecast_metrics ?e = ?m\<lparr>observations_accepted := sat_add (observations_accepted ?m) 1\<rparr>"
      by (simp add: push_observation_def Let_def)
    have pushed: "counted (Suc k) ?e" "refreshes (forecast_metrics ?e) + 1 \<le> unat (observations_accepted (forecast_metrics ?e))"
      using assms(1) unat_sat_succ[OF b(1)] by (simp_all add: counted_def pm Let_def refreshes_def)
    have "refreshes (forecast_metrics ?e) < 2 ^ 64 - 1"
      using pushed(2) unat_bound[of "observations_accepted (forecast_metrics ?e)"] by simp
    moreover have "unat (eligibility_reductions (forecast_metrics ?e)) \<le> unat (forecasts_issued (forecast_metrics ?e))"
      using pushed(1) by (simp add: counted_def Let_def)
    ultimately have "counted (Suc k) (refresh F t ?e)"
      using refresh_counts[of ?e _ F t, OF _ _ refl] pushed by (simp add: counted_def Let_def)
    then show ?thesis using pushed(1) True by (simp add: ob observe_and_forecast_def Let_def)
  next
    case False
    then show ?thesis using assms(1) unat_sat_succ[OF b(2)]
      by (simp add: ob observe_and_forecast_def counted_def Let_def refreshes_def)
  qed
qed

text \<open>
  Every observation is counted once, as accepted or as rejected; forecasts, abstentions and invalid outputs together
  never exceed the accepted observations, and reductions never exceed the forecasts issued.
\<close>
theorem forecast_counters_add_up:
  assumes "engine_new F p = Some e0" and "length obs < 2 ^ 64" and "m = forecast_metrics (foldl (observe F) e0 obs)"
  shows "unat (observations_accepted m) + unat (observations_rejected m) = length obs \<and>
    refreshes m \<le> unat (observations_accepted m) \<and>
    unat (eligibility_reductions m) \<le> unat (forecasts_issued m)"
proof -
  have "forecast_metrics e = forecast_metrics_zero" if "engine_try_new F q = Inr e" for q e
    using that by (auto simp: engine_try_new_def split: if_splits)
  then have "forecast_metrics e0 = forecast_metrics_zero" using assms(1) by (auto simp: engine_new_def split: sum.splits)
  then have "counted 0 e0" by (simp add: counted_def refreshes_def forecast_metrics_zero_def)
  moreover have "counted k e \<Longrightarrow> k + length os < 2 ^ 64 \<Longrightarrow> counted (k + length os) (foldl (observe F) e os)" for k e os
  proof (induction os arbitrary: k e)
    case (Cons ob os)
    then have "counted (Suc k) (observe F e ob)" by (intro observe_counts) simp_all
    from Cons.IH[OF this] Cons.prems(2) show ?case by simp
  qed simp
  ultimately have "counted (length obs) (foldl (observe F) e0 obs)" using assms(2) by force
  then show ?thesis unfolding assms(3) by (simp add: counted_def Let_def)
qed

section \<open>An engine at work\<close>

text \<open>A last-value forecaster over the three variates, for the witnesses.\<close>

definition demo_forecaster :: "(unit, unit, unit, unit, f32 list, f32 list, f32 list, unit) forecast_ops" where
  "demo_forecaster =
    \<lparr>max_horizon = 64, max_step_ms = 1000, max_forecast_span_ms = 64000, feature_schema = (\<lambda>_. Some ()),
     quantile_set = (\<lambda>_. Some ()), data_policy = (\<lambda>_. Some ()), source_claimed = (\<lambda>_. Some ()),
     time_series = (\<lambda>_ _ vs _ _ _. Some (drop (length vs - 3) vs)), forecast_request = (\<lambda>s _ _ _. Some s),
     request_digest_of = (\<lambda>_. ()), run_forecast = Forecast, payload_intact = (\<lambda>_. True), horizon_of = (\<lambda>_. 1),
     value_at = (\<lambda>f _ variate _. if variate < length f then Some (f ! variate) else None), origin_of = (\<lambda>_. 1),
     output_digest_of = (\<lambda>_. ())\<rparr>"

definition demo_canary :: forecast_policy where
  "demo_canary = \<lparr>rollout = CanaryReduceOnly, history_capacity = 2, minimum_history = 1, max_input_age_ms = 10, horizon = 1,
     step_ms = 1, forecast_ttl_ms = 5, policy_battery_pct = lit 30, policy_link_quality = 0\<rparr>"

definition demo_engine :: "(unit, unit, unit) forecast_engine" where
  "demo_engine = \<lparr>forecast_policy = demo_canary, history = [], schema = (), quantiles = (), last_advisory = None,
     last_forecast_at_ms = None, forecast_metrics = forecast_metrics_zero\<rparr>"

lemma demo_engine_new: "engine_new demo_forecaster demo_canary = Some demo_engine"
  by (simp add: engine_new_def engine_try_new_def demo_forecaster_def demo_canary_def demo_engine_def
      checked_mul_def percent_range_def unit_range_def in_range_def one_flt_def)

definition demo_observations :: "(u64 \<times> f32 \<times> f32 \<times> f32) list" where
  "demo_observations = [(1, lit 20, 1, 0)]"

lemma demo_not_eligible: "\<not> is_eligible_for_new_work (foldl (observe demo_forecaster) demo_engine demo_observations) 3"
  by (simp add: demo_observations_def demo_engine_def demo_canary_def demo_forecaster_def observe_and_forecast_def admissible_def
      percent_range_def unit_range_def in_range_def one_flt_def push_observation_def refresh_def materialize_series_def
      issue_advisory_def step_values_def List.map_filter_def Let_def forecast_metrics_zero_def sat_sub_def sat_add_def is_eligible_for_new_work_def)

lemma forecast_only_reduces_witness:
  "\<exists>a. last_advisory (foldl (observe demo_forecaster) demo_engine demo_observations) = Some a \<and> 3 \<le> sat_add (origin_ms a) 5"
  using forecast_only_reduces[OF demo_engine_new refl demo_not_eligible] by (auto simp: demo_canary_def)

lemma forecast_history_invariant_witness:
  "length (history (foldl (observe demo_forecaster) demo_engine demo_observations)) \<le> 2"
  using forecast_history_invariant[OF demo_engine_new refl, of demo_observations] by (simp add: demo_engine_def demo_canary_def)

lemma forecast_counters_add_up_witness:
  "let m = forecast_metrics (foldl (observe demo_forecaster) demo_engine demo_observations)
   in unat (observations_accepted m) + unat (observations_rejected m) = 1"
  using forecast_counters_add_up[OF demo_engine_new _ refl, of demo_observations] by (simp add: demo_observations_def Let_def)

end
