(* ===== verification/Geofence.thy ===== *)
theory Geofence
  imports Types
begin

text \<open>
  The geofence of \<open>src/security/geofence.rs\<close>: altitude limits, a ray-casting polygon test and the distance to
  the nearest edge, with a hard and a soft margin. The loops over consecutive vertices carry the previous vertex, as the
  source's index \<open>j\<close> does. The theorems show that only a finite position inside the fence passes, that the polygon test
  is the parity of the crossed edges from whatever vertex the list starts, and that a rectangular fence is an exact
  half-open box.
\<close>

section \<open>The fence\<close>

record geofence =
  boundary :: "(f64 \<times> f64) list"
  min_altitude_m :: f64
  max_altitude_m :: f64
  hard_margin_m :: f64
  soft_margin_m :: f64

datatype geofence_result = Safe | SoftWarning f64 | HardBreach

text \<open>Whether the edge from the previous vertex \<open>j\<close> to \<open>i\<close> crosses the ray from the point.\<close>

fun crosses :: "f64 \<Rightarrow> f64 \<Rightarrow> f64 \<times> f64 \<Rightarrow> f64 \<times> f64 \<Rightarrow> bool" where
  "crosses x y (xi, yi) (xj, yj) \<longleftrightarrow> ((y < yi) \<noteq> (y < yj)) \<and> x < (xj - xi) * (y - yi) / (yj - yi) + xi"

fun ray_cast :: "f64 \<Rightarrow> f64 \<Rightarrow> bool \<Rightarrow> f64 \<times> f64 \<Rightarrow> (f64 \<times> f64) list \<Rightarrow> bool" where
  "ray_cast x y inside j [] = inside"
| "ray_cast x y inside j (i # vs) = ray_cast x y (if crosses x y i j then \<not> inside else inside) i vs"

definition point_in_polygon :: "geofence \<Rightarrow> f64 \<Rightarrow> f64 \<Rightarrow> bool" where
  "point_in_polygon f x y =
    (if length (boundary f) < 3 then False else ray_cast x y False (last (boundary f)) (boundary f))"

text \<open>\<open>None\<close> is the panic of \<open>clamp\<close>, which the constant bounds exclude.\<close>

definition point_to_segment_dist :: "f64 \<Rightarrow> f64 \<Rightarrow> f64 \<times> f64 \<Rightarrow> f64 \<times> f64 \<Rightarrow> f64 option" where
  "point_to_segment_dist x y a b =
    (let (ax, ay) = a; (bx, by) = b; dx = bx - ax; dy = by - ay; len_sq = dx * dx + dy * dy in
     if len_sq < lit (1 / 10 ^ 12)
     then Some (fsqrt ((x - ax) * (x - ax) + (y - ay) * (y - ay)))
     else
       let t = ((x - ax) * dx + (y - ay) * dy) / len_sq
       in map_option (\<lambda>t. let cx = ax + t * dx; cy = ay + t * dy
            in fsqrt ((x - cx) * (x - cx) + (y - cy) * (y - cy))) (fclamp t 0 1))"

fun nearest_edge :: "f64 \<Rightarrow> f64 \<Rightarrow> f64 \<Rightarrow> f64 \<times> f64 \<Rightarrow> (f64 \<times> f64) list \<Rightarrow> f64 option" where
  "nearest_edge x y least a [] = Some least"
| "nearest_edge x y least a (b # vs) =
     Option.bind (point_to_segment_dist x y a b) (\<lambda>d. nearest_edge x y (if d < least then d else least) b vs)"

definition distance_to_boundary :: "geofence \<Rightarrow> f64 \<Rightarrow> f64 \<Rightarrow> f64 option" where
  "distance_to_boundary f x y =
    (if boundary f = [] then Some PInf else nearest_edge x y PInf (last (boundary f)) (boundary f))"

definition check :: "geofence \<Rightarrow> position3d \<Rightarrow> geofence_result option" where
  "check f p =
    (if \<not> is_finite (px p) \<or> \<not> is_finite (py p) \<or> \<not> is_finite (pz p) then Some HardBreach else
     let altitude = - pz p in
     if altitude < min_altitude_m f \<or> max_altitude_m f < altitude then Some HardBreach else
     let inside = point_in_polygon f (px p) (py p) in
     Option.bind (distance_to_boundary f (px p) (py p)) (\<lambda>d.
     if \<not> inside then Some HardBreach
     else if d \<le> hard_margin_m f then Some HardBreach
     else if d \<le> soft_margin_m f then Some (SoftWarning d)
     else Some Safe))"

section \<open>The polygon test as a parity\<close>

text \<open>The edges of a closed polygon, each with its previous vertex, and the even-odd rule on them.\<close>

definition edges :: "(f64 \<times> f64) list \<Rightarrow> ((f64 \<times> f64) \<times> (f64 \<times> f64)) list" where
  "edges vs = zip vs (last vs # butlast vs)"

definition crossings :: "f64 \<Rightarrow> f64 \<Rightarrow> (f64 \<times> f64) list \<Rightarrow> nat" where
  "crossings x y vs = length (filter (\<lambda>(i, j). crosses x y i j) (edges vs))"

lemma ray_cast_parity:
  "ray_cast x y inside j vs \<longleftrightarrow> inside \<noteq> odd (length (filter (\<lambda>(i, j). crosses x y i j) (zip vs (j # butlast vs))))"
proof (induction vs arbitrary: inside j)
  case (Cons i vs)
  have "zip (i # vs) (j # butlast (i # vs)) = (i, j) # zip vs (i # butlast vs)"
    by (cases vs) auto
  then show ?case unfolding ray_cast.simps Cons by (cases inside) auto
qed simp

lemma point_in_polygon_parity:
  "point_in_polygon f x y \<longleftrightarrow> 3 \<le> length (boundary f) \<and> odd (crossings x y (boundary f))"
  by (simp add: point_in_polygon_def ray_cast_parity crossings_def edges_def)

lemma edges_rotate: "mset (edges (rotate1 vs)) = mset (edges vs)"
proof (cases vs)
  case (Cons v ws)
  show ?thesis
  proof (cases ws rule: rev_cases)
    case (snoc us w)
    have "edges (rotate1 vs) = zip (us @ [w]) (v # us) @ [(v, w)]"
      using Cons snoc zip_append[of "us @ [w]" "v # us" "[v]" "[w]"] by (simp add: edges_def butlast_append)
    moreover have "edges vs = (v, w) # zip (us @ [w]) (v # us)"
      using Cons snoc by (simp add: edges_def butlast_append)
    ultimately show ?thesis by simp
  qed (simp add: Cons edges_def)
qed simp

text \<open>
  The polygon test is the even-odd rule over the edges of the closed polygon, and it gives the same answer from
  whatever vertex the boundary is listed.
\<close>
theorem polygon_test_is_even_odd:
  "(point_in_polygon f x y \<longleftrightarrow> 3 \<le> length (boundary f) \<and> odd (crossings x y (boundary f))) \<and>
   point_in_polygon (f\<lparr>boundary := rotate k (boundary f)\<rparr>) x y = point_in_polygon f x y"
proof -
  have count: "crossings x y vs = size (filter_mset (\<lambda>(i, j). crosses x y i j) (mset (edges vs)))" for vs
    by (simp add: crossings_def flip: mset_filter)
  have "crossings x y (rotate k vs) = crossings x y vs" for vs
    by (induction k) (simp_all add: count edges_rotate)
  then show ?thesis by (simp add: point_in_polygon_parity)
qed

section \<open>What passes the fence\<close>

lemma point_to_segment_total: "\<exists>d. point_to_segment_dist x y a b = Some d"
  by (simp add: point_to_segment_dist_def fclamp_def Let_def one_flt_def split: prod.splits)

lemma nearest_edge_spec:
  assumes "\<not> is_nan least"
  shows "\<exists>m. nearest_edge x y least a vs = Some m \<and> \<not> is_nan m \<and> m \<le> least \<and>
    (\<forall>(b, a') \<in> set (zip vs (a # butlast vs)). \<forall>d. point_to_segment_dist x y a' b = Some d \<longrightarrow> \<not> d < m)"
  using assms
proof (induction vs arbitrary: least a)
  case (Cons b vs)
  obtain d where d: "point_to_segment_dist x y a b = Some d" using point_to_segment_total by blast
  define least' where "least' = (if d < least then d else least)"
  have l': "\<not> is_nan least'" "least' \<le> least" "\<not> d < least'"
    using Cons.prems flt_less_nan[of d least] flt_less_imp_le[of d least] by (auto simp: least'_def)
  from Cons.IH[OF l'(1), of b] obtain m where m: "nearest_edge x y least' b vs = Some m" "\<not> is_nan m" "m \<le> least'"
    "\<forall>(c, a') \<in> set (zip vs (b # butlast vs)). \<forall>d. point_to_segment_dist x y a' c = Some d \<longrightarrow> \<not> d < m" by blast
  have z: "zip (b # vs) (a # butlast (b # vs)) = (b, a) # zip vs (b # butlast vs)" by (cases vs) auto
  have "\<not> d < m" using l'(3) m(3) flt_less_le_trans by blast
  moreover have "m \<le> least" using m(3) l'(2) flt_le_trans by blast
  ultimately show ?case unfolding z using m d by (auto simp: least'_def)
qed simp

text \<open>
  C39. The check never panics, and it fails closed on the position: whatever passes as safe or as a warning is a
  finite position that no altitude limit excludes, that lies inside a polygon of at least three vertices by the
  even-odd rule, and whose distance to the boundary, a bound below every edge's distance, is not within the hard margin,
  nor within the soft margin when it is safe.
\<close>
theorem fence_fails_closed:
  "\<exists>r. check f p = Some r \<and>
     (r \<noteq> HardBreach \<longrightarrow> finite_position p \<and> \<not> - pz p < min_altitude_m f \<and> \<not> max_altitude_m f < - pz p
        \<and> 3 \<le> length (boundary f) \<and> odd (crossings (px p) (py p) (boundary f))
        \<and> (\<exists>d. distance_to_boundary f (px p) (py p) = Some d \<and> \<not> d \<le> hard_margin_m f \<and> (r = Safe \<longrightarrow> \<not> d \<le> soft_margin_m f)
              \<and> (\<forall>(b, a) \<in> set (edges (boundary f)). \<forall>e. point_to_segment_dist (px p) (py p) a b = Some e \<longrightarrow> \<not> e < d)))"
proof -
  obtain d where d: "distance_to_boundary f (px p) (py p) = Some d"
    "\<forall>(b, a) \<in> set (edges (boundary f)). \<forall>e. point_to_segment_dist (px p) (py p) a b = Some e \<longrightarrow> \<not> e < d"
    using nearest_edge_spec[of PInf "px p" "py p" "last (boundary f)" "boundary f"]
    by (cases "boundary f = []") (auto simp: distance_to_boundary_def edges_def)
  then show ?thesis
    by (auto simp: check_def Let_def finite_position_def point_in_polygon_parity)
qed

section \<open>Rectangular fences\<close>

lemma finite_sub: "is_finite a \<Longrightarrow> is_finite b \<Longrightarrow> \<exists>s. a - b = mk s (rval a - rval b)" for a b :: "'a::len flt"
  by (cases a; cases b) (auto simp: minus_flt_def plus_flt_def)

lemma finite_rnd: "is_finite (rnd q :: 'a::len flt) \<longleftrightarrow> \<bar>rnd_rat TYPE('a) q\<bar> \<le> max_fin TYPE('a)"
  by (auto simp: rnd_def Let_def abs_le_iff)

lemma finite_mk: "is_finite (mk s q :: 'a::len flt) \<longleftrightarrow> is_finite (rnd q :: 'a flt)"
  by (simp add: mk_def signed_zero_def)

lemma rnd_rat_abs: "\<bar>rnd_rat t q\<bar> = rnd_rat t \<bar>q\<bar>"
  using rnd_rat_nonneg[of q t] rnd_rat_nonneg[of "- q" t] by (cases "0 \<le> q") (auto simp: rnd_rat_minus)

lemma mk_finite_abs: "is_finite (mk s q :: 'a::len flt) \<Longrightarrow> \<bar>p\<bar> \<le> \<bar>q\<bar> \<Longrightarrow> is_finite (mk s' p :: 'a flt)"
  unfolding finite_mk finite_rnd rnd_rat_abs using rnd_rat_mono[of "\<bar>p\<bar>" "\<bar>q\<bar>" "TYPE('a)"] by linarith

lemma is_zero_mk: "q \<noteq> 0 \<Longrightarrow> is_zero (mk s q :: 'a::len flt) \<longleftrightarrow> is_zero (rnd \<bar>q\<bar> :: 'a flt)"
  using max_fin_pos[of "TYPE('a)"]
  by (auto simp: mk_def rnd_def Let_def is_zero_def rnd_rat_minus abs_if)

lemma representable_grid: "representable t q \<Longrightarrow> \<exists>m. q = of_int m * 2 powi emin t"
proof -
  assume "representable t q"
  then obtain m e where q: "q = of_int m * 2 powi e" "emin t \<le> e" by (auto simp: representable_def)
  obtain k where "(2::rat) powi e / 2 powi emin t = of_int k" using powi_quotient_int[OF q(2)] by blast
  then have "q = of_int (m * k) * 2 powi emin t" by (simp add: q(1) field_simps)
  then show ?thesis by blast
qed

lemma rnd_difference_nonzero:
  assumes "representable TYPE('a::len) p" "representable TYPE('a) q" "q < p"
  shows "\<not> is_zero (rnd (p - q) :: 'a flt)"
proof -
  obtain m n where mn: "p = of_int m * 2 powi emin TYPE('a)" "q = of_int n * 2 powi emin TYPE('a)"
    using representable_grid[OF assms(1)] representable_grid[OF assms(2)] by blast
  have "n < m" using assms(3) unfolding mn by (simp add: mult_less_cancel_right)
  then have "1 \<le> m - n" by simp
  then have one: "(1::rat) \<le> of_int (m - n)" by (metis of_int_1_le_iff)
  have "1 * 2 powi emin TYPE('a) \<le> of_int (m - n) * (2 powi emin TYPE('a) :: rat)"
    using one by (intro mult_right_mono) auto
  then have "2 powi emin TYPE('a) \<le> p - q" unfolding mn by (simp add: left_diff_distrib)
  then have "2 powi emin TYPE('a) \<le> rnd_rat TYPE('a) (p - q)" by (rule rnd_rat_ge_binade) simp
  then have "0 < rnd_rat TYPE('a) (p - q)" using powi_pos[of "emin TYPE('a)"] by linarith
  then show ?thesis using assms(3) max_fin_pos[of "TYPE('a)"] by (auto simp: rnd_def Let_def is_zero_def)
qed

lemma vertical_edge:
  fixes xi y yi yj :: "'a::len flt"
  assumes "is_finite xi" "valid xi" "is_finite (y - yi)" "is_finite (yj - yi)" "\<not> is_zero (yj - yi)" "is_finite x"
  shows "x < (xi - xi) * (y - yi) / (yj - yi) + xi \<longleftrightarrow> x < xi"
proof -
  have "xi - xi = Fin 0" using assms(1) by (cases xi) (auto simp: minus_flt_def plus_flt_def mk_def signed_zero_def)
  then have "\<exists>s. (xi - xi) * (y - yi) = signed_zero s"
    using assms(3) by (cases "y - yi") (auto simp: times_flt_def mk_def)
  then obtain s where s: "(xi - xi) * (y - yi) = signed_zero s" by blast
  have "\<exists>u. (xi - xi) * (y - yi) / (yj - yi) = signed_zero u"
    unfolding s using assms(4,5) by (cases "yj - yi") (auto simp: divide_flt_def is_zero_def mk_def signed_zero_def)
  then obtain u where u: "(xi - xi) * (y - yi) / (yj - yi) = signed_zero u" by blast
  have "x < signed_zero u + xi \<longleftrightarrow> x < xi"
    using assms(1,2,6) rnd_exact[of "rval xi", where ?'a = 'a]
    by (cases xi; cases x) (auto simp: signed_zero_def plus_flt_def mk_def)
  then show ?thesis unfolding u .
qed

definition rectangle :: "f64 \<Rightarrow> f64 \<Rightarrow> f64 \<Rightarrow> f64 \<Rightarrow> (f64 \<times> f64) list" where
  "rectangle x0 x1 y0 y1 = [(x0, y0), (x1, y0), (x1, y1), (x0, y1)]"

definition number :: "f64 \<Rightarrow> bool" where
  "number x \<longleftrightarrow> is_finite x \<and> valid x"

lemma vertical_crosses:
  assumes "number xi" "number y" "number y0" "number y1" "is_finite x" "is_finite (y1 - y0)" "y0 \<le> y1"
  shows "crosses x y (xi, y0) (xi, y1) \<longleftrightarrow> y0 \<le> y \<and> y < y1 \<and> x < xi"
    and "crosses x y (xi, y1) (xi, y0) \<longleftrightarrow> y0 \<le> y \<and> y < y1 \<and> x < xi"
proof -
  note n = assms(1-4)[unfolded number_def]
  have nn: "\<not> is_nan y" "\<not> is_nan y0" "\<not> is_nan y1" using n by (auto simp: is_finite_not_nan)
  have band: "((y < y0) \<noteq> (y < y1)) \<longleftrightarrow> y0 \<le> y \<and> y < y1"
    using nn flt_not_less[of y y0] flt_less_le_trans[of y y0 y1] assms(7) flt_le_not_less[of y0 y] by blast
  have edge: "x < (xi - xi) * (y - y0) / (y1 - y0) + xi \<longleftrightarrow> x < xi" "x < (xi - xi) * (y - y1) / (y0 - y1) + xi \<longleftrightarrow> x < xi"
    if b: "y0 \<le> y" "y < y1"
  proof -
    have r: "rval y0 \<le> rval y" "rval y < rval y1"
      using b n by (auto simp: finite_le_rval finite_less_rval)
    have rep: "representable TYPE(64) (rval y0)" "representable TYPE(64) (rval y1)"
      using n representable_int[of 0 "TYPE(64)"] by (cases y0; cases y1; simp)+
    have pos: "rval y0 < rval y1" using r by linarith
    obtain s where s: "y1 - y0 = mk s (rval y1 - rval y0)" using finite_sub n by blast
    obtain s1 where s1: "y - y0 = mk s1 (rval y - rval y0)" using finite_sub n by blast
    obtain s2 where s2: "y - y1 = mk s2 (rval y - rval y1)" using finite_sub n by blast
    obtain s3 where s3: "y0 - y1 = mk s3 (rval y0 - rval y1)" using finite_sub n by blast
    have fin: "is_finite (y - y0)" "is_finite (y - y1)" "is_finite (y0 - y1)"
      unfolding s1 s2 s3 using assms(6)[unfolded s] r by (auto elim!: mk_finite_abs)
    have "\<not> is_zero (rnd (rval y1 - rval y0) :: f64)" using rep pos by (intro rnd_difference_nonzero)
    then have nz: "\<not> is_zero (y1 - y0)" "\<not> is_zero (y0 - y1)" using pos by (simp_all add: s s3 is_zero_mk abs_if)
    show "x < (xi - xi) * (y - y0) / (y1 - y0) + xi \<longleftrightarrow> x < xi"
      using n(1) fin(1) assms(5,6) nz(1) by (intro vertical_edge) auto
    show "x < (xi - xi) * (y - y1) / (y0 - y1) + xi \<longleftrightarrow> x < xi"
      using n(1) fin(2,3) assms(5) nz(2) by (intro vertical_edge) auto
  qed
  show "crosses x y (xi, y0) (xi, y1) \<longleftrightarrow> y0 \<le> y \<and> y < y1 \<and> x < xi"
    "crosses x y (xi, y1) (xi, y0) \<longleftrightarrow> y0 \<le> y \<and> y < y1 \<and> x < xi"
    using band edge by (auto simp: eq_commute)
qed

text \<open>
  A rectangular fence is exact: with finite corners in order and a representable height, a finite point is inside
  if and only if it lies in the half-open box of the corners. No rounding error lets a point in or out.
\<close>
theorem rectangle_is_exact:
  assumes "boundary f = rectangle x0 x1 y0 y1" "number x0" "number x1" "number y0" "number y1" "number x" "number y"
    and "x0 \<le> x1" "y0 \<le> y1" "is_finite (y1 - y0)"
  shows "point_in_polygon f x y \<longleftrightarrow> x0 \<le> x \<and> x < x1 \<and> y0 \<le> y \<and> y < y1"
proof -
  have fx: "is_finite x" using assms(6) by (simp add: number_def)
  have horizontal: "\<not> crosses x y (a, b) (c, b)" for a b c by simp
  have e: "edges (boundary f) = [((x0, y0), (x0, y1)), ((x1, y0), (x0, y0)), ((x1, y1), (x1, y0)), ((x0, y1), (x1, y1))]"
    by (simp add: assms(1) rectangle_def edges_def)
  have "odd (crossings x y (boundary f)) \<longleftrightarrow> crosses x y (x0, y0) (x0, y1) \<noteq> crosses x y (x1, y1) (x1, y0)"
    unfolding crossings_def e using horizontal by (simp del: crosses.simps)
  also have "\<dots> \<longleftrightarrow> y0 \<le> y \<and> y < y1 \<and> (x < x0) \<noteq> (x < x1)"
    using vertical_crosses[OF assms(2,7,4,5) fx assms(10,9)] vertical_crosses[OF assms(3,7,4,5) fx assms(10,9)] by blast
  also have "(x < x0) \<noteq> (x < x1) \<longleftrightarrow> x0 \<le> x \<and> x < x1"
    using fx assms(2,8) flt_not_less[of x x0] flt_less_le_trans[of x x0 x1] flt_le_not_less[of x0 x]
    by (auto simp: number_def is_finite_not_nan)
  finally show ?thesis by (auto simp: point_in_polygon_parity assms(1) rectangle_def)
qed

lemma rectangle_is_exact_witness:
  "point_in_polygon \<lparr>boundary = rectangle 0 (lit 100) 0 (lit 50), min_altitude_m = 0, max_altitude_m = lit 120,
     hard_margin_m = lit 10, soft_margin_m = lit 25\<rparr> (lit 10) (lit 20)"
  using rectangle_is_exact[OF _ _ _ _ _ _ _ , of "\<lparr>boundary = rectangle 0 (lit 100) 0 (lit 50), min_altitude_m = 0, max_altitude_m = lit 120,
     hard_margin_m = lit 10, soft_margin_m = lit 25\<rparr>" 0 "lit 100" 0 "lit 50" "lit 10" "lit 20"]
  by (simp add: number_def zero_flt_def representable_numeral representable_int[of 0, simplified] fin_arith)

definition demo_fence :: geofence where
  "demo_fence = \<lparr>boundary = rectangle 0 (lit 100) 0 (lit 100), min_altitude_m = 0, max_altitude_m = lit 120,
     hard_margin_m = lit 10, soft_margin_m = lit 25\<rparr>"

lemma nzero_add: "NZero + Fin q = (mk False q :: 'a::len flt)" "Fin q + NZero = (mk False q :: 'a flt)"
  by (simp_all add: plus_flt_def)

lemma tiny: "\<not> (Fin 10000 :: f64) < lit (1 / 10 ^ 12)"
  using lit_between[of 0 1 "1 / 10 ^ 12", where ?'a = 64] representable_int[of 0 "TYPE(64)"] representable_int[of 1 "TYPE(64)"]
  by auto

lemma demo_centre: "check demo_fence \<lparr>px = lit 50, py = lit 50, pz = lit (- 30)\<rparr> = Some Safe"
proof -
  have sq: "fsqrt (Fin 2500 :: f64) = Fin 50" using fsqrt_squares[of 50, where ?'a = 64] by simp
  have d: "distance_to_boundary demo_fence (Fin 50) (Fin 50) = Some (Fin 50)"
    using tiny sq by (simp add: distance_to_boundary_def demo_fence_def rectangle_def point_to_segment_dist_def fin_arith nzero_add fclamp_def Let_def)
  have i: "point_in_polygon demo_fence (Fin 50) (Fin 50)"
    by (simp add: point_in_polygon_def demo_fence_def rectangle_def fin_arith)
      (simp add: divide_flt_def is_zero_def fin_arith)
  show ?thesis using d i by (simp add: check_def) (simp add: demo_fence_def)
qed

lemma fence_fails_closed_witness:
  "odd (crossings (lit 50) (lit 50) (boundary demo_fence)) \<and> \<not> max_altitude_m demo_fence < lit 30"
  using fence_fails_closed[of demo_fence "\<lparr>px = lit 50, py = lit 50, pz = lit (- 30)\<rparr>"] demo_centre by simp

end
