(* ===== verification/Floats.thy ===== *)
theory Floats
  imports Ieee
begin

text \<open>
  Floating-point facts that several components share, above \<open>Ieee\<close>: clamping between literals, the summation of
  \<open>Iterator::sum\<close>, values that are not negative (NaN included), and the monotonicity of the rounded operations.
\<close>

section \<open>Operations\<close>

text \<open>\<open>f64::clamp\<close> between literals in order, which cannot panic.\<close>

definition clamp_lit :: "'a::len flt \<Rightarrow> 'a flt \<Rightarrow> 'a flt \<Rightarrow> 'a flt" where
  "clamp_lit lo hi x = (let y = (if x < lo then lo else x) in if hi < y then hi else y)"

text \<open>\<open>Iterator::sum\<close> of floats: its neutral element is the negative zero.\<close>

definition fsum :: "'a::len flt list \<Rightarrow> 'a flt" where
  "fsum xs = foldl (+) NZero xs"

lemma fclamp_clamp_lit: "lo \<le> hi \<Longrightarrow> fclamp x lo hi = Some (clamp_lit lo hi x)"
  by (simp add: fclamp_def clamp_lit_def)

lemma clamp_lit_range:
  assumes "lo \<le> (hi :: 'a::len flt)"
  shows "is_nan x \<and> clamp_lit lo hi x = x \<or> lo \<le> clamp_lit lo hi x \<and> clamp_lit lo hi x \<le> hi"
  using assms flt_le_nan[OF assms] by (auto simp: clamp_lit_def Let_def flt_not_less dest: flt_le_not_less flt_less_nan)

lemma valid_clamp_lit: "valid lo \<Longrightarrow> valid hi \<Longrightarrow> valid x \<Longrightarrow> valid (clamp_lit lo hi x :: 'a::len flt)"
  by (simp add: clamp_lit_def Let_def)

section \<open>Not negative\<close>

definition not_neg :: "'a::len flt \<Rightarrow> bool" where
  "not_neg x \<longleftrightarrow> is_nan x \<or> 0 \<le> x"

lemma not_neg_cases: "not_neg x \<longleftrightarrow> x = NaN \<or> x = PInf \<or> x = NZero \<or> (\<exists>q \<ge> 0. x = Fin q)"
  by (cases x) (auto simp: not_neg_def)

lemma not_neg_zero [simp]: "not_neg (0 :: 'a::len flt)" "not_neg (Fin q :: 'a flt) \<longleftrightarrow> 0 \<le> q"
  by (simp_all add: not_neg_def)

lemma not_neg_nonneg: "0 \<le> x \<Longrightarrow> not_neg (x :: 'a::len flt)"
  by (simp add: not_neg_def)

lemma not_neg_number: "not_neg x \<Longrightarrow> \<not> is_nan x \<Longrightarrow> 0 \<le> (x :: 'a::len flt)"
  by (simp add: not_neg_def)

lemma not_neg_mk: "0 \<le> q \<Longrightarrow> not_neg (mk b q :: 'a::len flt)"
  by (simp add: not_neg_def mk_nonneg)

lemma not_neg_add: "not_neg x \<Longrightarrow> not_neg y \<Longrightarrow> not_neg (x + y :: 'a::len flt)"
  unfolding not_neg_cases[of x] not_neg_cases[of y]
  by (auto simp: plus_flt_def not_neg_mk not_neg_def mk_nonneg)

lemma not_neg_mult: "not_neg x \<Longrightarrow> not_neg y \<Longrightarrow> not_neg (x * y :: 'a::len flt)"
  unfolding not_neg_cases[of x] not_neg_cases[of y]
  by (auto simp: times_flt_def is_zero_def signed_inf_def not_neg_mk not_neg_def mk_nonneg)

lemma not_neg_div: "not_neg x \<Longrightarrow> is_nan y \<or> 0 < y \<Longrightarrow> not_neg (x / y :: 'a::len flt)"
  unfolding not_neg_cases[of x]
  by (cases y) (auto simp: divide_flt_def is_zero_def signed_inf_def signed_zero_def not_neg_mk not_neg_def mk_nonneg)

lemma not_neg_fabs [simp]: "not_neg (fabs x :: 'a::len flt)"
  by (cases x) (auto simp: not_neg_def)

lemma fmax_zero: "0 \<le> fmax x (0 :: 'a::len flt)" "\<not> is_nan (fmax x (0 :: 'a flt))"
  by (cases x; auto simp: fmax_def)+

lemma fmax_not_nan: "\<not> is_nan c \<Longrightarrow> \<not> is_nan (fmax x c)" "\<not> is_nan c \<Longrightarrow> c \<le> fmax x (c :: 'a::len flt)"
  by (auto simp: fmax_def flt_not_less)

lemma not_nan_parts:
  "\<not> is_nan (x + y) \<Longrightarrow> \<not> is_nan x" "\<not> is_nan (x + y) \<Longrightarrow> \<not> is_nan y"
  "\<not> is_nan (x * y) \<Longrightarrow> \<not> is_nan x" "\<not> is_nan (x * y) \<Longrightarrow> \<not> is_nan y"
  "\<not> is_nan (x / y) \<Longrightarrow> \<not> is_nan x" "\<not> is_nan (x / y) \<Longrightarrow> \<not> is_nan (y :: 'a::len flt)"
  by (auto simp: plus_flt_def times_flt_def divide_flt_def)

lemma nan_division [simp]: "is_nan x \<Longrightarrow> is_nan (x / y :: 'a::len flt)" "is_nan y \<Longrightarrow> is_nan (x / y :: 'a flt)"
  by (simp_all add: divide_flt_def)

section \<open>Monotonicity\<close>

lemma valid_signed [simp]: "valid (signed_inf b :: 'a::len flt)" "valid (signed_zero b :: 'a flt)"
  using zero_flt_simps(6)[where 'a = 'a] by (simp_all add: signed_inf_def signed_zero_def zero_flt_def)

lemma valid_add [simp]: "valid (x + y :: 'a::len flt)"
  by (cases x; cases y) (auto simp: plus_flt_def)

lemma valid_mult [simp]: "valid (x * y :: 'a::len flt)"
  by (cases x; cases y) (auto simp: times_flt_def)

lemma valid_div [simp]: "valid (x / y :: 'a::len flt)"
  by (cases x; cases y) (auto simp: divide_flt_def)

lemma valid_sub [simp]: "valid (x - y :: 'a::len flt)"
  by (simp add: minus_flt_def)

lemma valid_fmax: "valid x \<Longrightarrow> valid y \<Longrightarrow> valid (fmax x y :: 'a::len flt)"
  by (simp add: fmax_def)

lemma valid_fmin: "valid x \<Longrightarrow> valid y \<Longrightarrow> valid (fmin x y :: 'a::len flt)"
  by (simp add: fmin_def)

lemma flt_kinds:
  obtains (nan) "x = NaN" | (pinf) "x = PInf" | (ninf) "x = NInf" | (fin) "is_finite x" "\<not> is_nan x" "\<not> is_inf x"
  by (cases x) auto

lemma mk_mono: "p \<le> q \<Longrightarrow> mk b p \<le> (mk c q :: 'a::len flt)"
  by (simp add: mk_le_rval mk_ge_rval rnd_mono)

lemma infinite_ord [simp]:
  "NInf \<le> x \<longleftrightarrow> \<not> is_nan x" "x \<le> PInf \<longleftrightarrow> \<not> is_nan x" "PInf \<le> x \<longleftrightarrow> x = PInf" "x \<le> NInf \<longleftrightarrow> x = (NInf :: 'a::len flt)"
  by (cases x; auto)+

lemma finite_add: "is_finite x \<Longrightarrow> is_finite y \<Longrightarrow> x + y = (mk (x = NZero \<and> y = NZero) (rval x + rval y) :: 'a::len flt)"
  by (simp add: plus_flt_def is_finite_iff)

lemma finite_mult: "is_finite x \<Longrightarrow> is_finite y \<Longrightarrow> x * y = (mk (neg_bit x \<noteq> neg_bit y) (rval x * rval y) :: 'a::len flt)"
  by (simp add: times_flt_def is_finite_iff)

lemma finite_div: "is_finite x \<Longrightarrow> is_finite y \<Longrightarrow> rval y \<noteq> 0 \<Longrightarrow> x / y = (mk (neg_bit x \<noteq> neg_bit y) (rval x / rval y) :: 'a::len flt)"
  by (cases y) (auto simp: divide_flt_def is_finite_iff is_zero_def)

lemma infinite_add [simp]:
  "PInf + x = (if is_nan x \<or> x = NInf then NaN else PInf :: 'a::len flt)" "x + PInf = (if is_nan x \<or> x = NInf then NaN else PInf :: 'a flt)"
  "NInf + x = (if is_nan x \<or> x = PInf then NaN else NInf :: 'a flt)" "x + NInf = (if is_nan x \<or> x = PInf then NaN else NInf :: 'a flt)"
  by (cases x; simp add: plus_flt_def)+

lemma flt_add_mono: "x \<le> x' \<Longrightarrow> y \<le> y' \<Longrightarrow> \<not> is_nan (x + y) \<Longrightarrow> \<not> is_nan (x' + y') \<Longrightarrow> x + y \<le> x' + (y' :: 'a::len flt)"
  by (cases x rule: flt_kinds; cases x' rule: flt_kinds; cases y rule: flt_kinds; cases y' rule: flt_kinds)
    (auto simp: finite_add finite_le_rval intro!: mk_mono split: if_splits)

lemma flt_uminus_mono: "x \<le> y \<Longrightarrow> - y \<le> (- x :: 'a::len flt)"
  by (cases x; cases y) auto

lemma flt_sub_mono: "x \<le> x' \<Longrightarrow> y' \<le> y \<Longrightarrow> \<not> is_nan (x - y) \<Longrightarrow> \<not> is_nan (x' - y') \<Longrightarrow> x - y \<le> x' - (y' :: 'a::len flt)"
  unfolding minus_flt_def by (rule flt_add_mono) (auto intro: flt_uminus_mono)

lemma flt_add_ge: "valid x \<Longrightarrow> 0 \<le> y \<Longrightarrow> \<not> is_nan (x + y) \<Longrightarrow> x \<le> x + (y :: 'a::len flt)"
  by (cases x; cases y) (auto simp: plus_flt_def mk_ge_rval flt_le_trans[OF _ rnd_nonneg] intro!: rnd_ge_valid)

lemma pinf_mult:
  "0 \<le> y \<Longrightarrow> \<not> is_nan (PInf * y) \<Longrightarrow> PInf * y = (PInf :: 'a::len flt)"
  "0 \<le> y \<Longrightarrow> \<not> is_nan (y * PInf) \<Longrightarrow> y * PInf = (PInf :: 'a flt)"
  by (cases y; simp add: times_flt_def is_zero_def signed_inf_def split: if_splits)+

lemma flt_mult_mono:
  fixes x :: "'a::len flt"
  assumes "0 \<le> x" "x \<le> x'" "0 \<le> y" "y \<le> y'" "\<not> is_nan (x * y)" "\<not> is_nan (x' * y')"
  shows "x * y \<le> x' * y'"
proof (cases "is_finite x' \<and> is_finite y'")
  case True
  then have "is_finite x" "is_finite y" using assms finite_between[of 0 x x'] finite_between[of 0 y y'] by auto
  with True assms show ?thesis by (auto simp: finite_mult finite_le_rval intro!: mk_mono mult_mono)
next
  case False
  have p: "0 \<le> x'" "0 \<le> y'" using assms flt_le_trans by blast+
  with False have "x' = PInf \<or> y' = PInf" by (auto simp: flt_nonneg_cases)
  then have "x' * y' = PInf" using p assms(6) pinf_mult[of y'] pinf_mult[of x'] by auto
  then show ?thesis using assms(5) by simp
qed

lemma flt_div_mono:
  fixes x :: "'a::len flt"
  assumes "0 \<le> x" "x \<le> x'" "0 < y'" "y' \<le> y" "\<not> is_nan (x / y)" "\<not> is_nan (x' / y')"
  shows "x / y \<le> x' / y'"
proof (cases "is_finite x' \<and> is_finite y")
  case True
  then have "is_finite x" "is_finite y'" using assms finite_between[of 0 x x'] finite_between[of 0 y' y] flt_less_imp_le by auto
  with True assms show ?thesis by (auto simp: finite_div finite_le_rval finite_less_rval intro!: mk_mono frac_le)
next
  case False
  have p: "0 \<le> x'" "0 < y" using assms flt_le_trans flt_less_le_trans by blast+
  have big: "x' / y' = PInf" if "x' = PInf" using that assms(3,6) by (cases y') (auto simp: divide_flt_def signed_inf_def is_zero_def split: if_splits)
  have small: "x / y \<le> 0" if "y = PInf" using that assms(1,5) unfolding flt_nonneg_cases
    by (auto simp: divide_flt_def signed_zero_def is_zero_def zero_flt_def split: if_splits)
  have "0 \<le> x' / y'" using p assms(3,6) not_neg_div[of x' y'] by (simp add: not_neg_def)
  moreover have "x' = PInf \<or> y = PInf" using False p(1) p(2)[THEN flt_less_imp_le] by (auto simp: flt_nonneg_cases)
  ultimately show ?thesis using big small assms(5) flt_le_trans by fastforce
qed

lemma flt_div_le: "valid x \<Longrightarrow> 0 \<le> x \<Longrightarrow> 1 \<le> y \<Longrightarrow> \<not> is_nan (x / y) \<Longrightarrow> x / y \<le> (x :: 'a::len flt)"
  unfolding flt_nonneg_cases[of x]
  by (cases y) (auto simp: divide_flt_def is_zero_def signed_inf_def signed_zero_def mk_le_rval one_flt_def
    intro!: rnd_le_valid simp: divide_le_eq mult_le_cancel_left1)

lemma zero_add_number: "valid x \<Longrightarrow> x \<le> 0 + x \<longleftrightarrow> \<not> is_nan x" for x :: "'a::len flt"
  by (cases x) (auto simp: plus_flt_def zero_flt_def mk_ge_rval rnd_ge_valid)

lemma is_inf_uminus [simp]: "is_inf (- x) = is_inf (x :: 'a::len flt)"
  by (cases x) auto

lemma nan_difference: "is_nan (x - y) \<Longrightarrow> \<not> is_nan x \<Longrightarrow> \<not> is_nan y \<Longrightarrow> is_inf (y :: 'a::len flt)"
  unfolding minus_flt_def plus_flt_def by (simp split: if_splits)

section \<open>Counts, quotients and the unit interval\<close>

text \<open>A count below two to the 64 is a finite float of at least one, or zero; divided by itself it is one.\<close>

lemma rnd_count:
  assumes "0 < n" "n < 2 ^ 64"
  obtains q where "(rnd (of_nat n) :: f64) = Fin q" "1 \<le> q"
proof -
  have "representable TYPE(64) (2 ^ 64)"
    unfolding representable_def by (rule exI[of _ 1], rule exI[of _ 64]) (simp add: power_int_def)
  then have big: "(rnd (2 ^ 64) :: f64) = Fin (2 ^ 64)" by (rule rnd_exact)
  have "(rnd 1 :: f64) \<le> rnd (of_nat n)" using assms(1) by (intro rnd_mono) simp
  moreover have "(rnd (of_nat n) :: f64) \<le> rnd (2 ^ 64)"
  proof (rule rnd_mono)
    have "(of_nat n :: rat) \<le> of_nat (2 ^ 64)" using assms(2) by (simp only: of_nat_le_iff less_imp_le)
    then show "(of_nat n :: rat) \<le> 2 ^ 64" by simp
  qed
  ultimately show thesis unfolding big by (cases "rnd (of_nat n) :: f64") (auto intro: that)
qed

lemma count_ratio_one: "0 < n \<Longrightarrow> n < 2 ^ 64 \<Longrightarrow> rnd (of_nat n) / rnd (of_nat n) = (lit 1 :: f64)"
  by (erule (1) rnd_count) (simp add: Fin_div mk_def)

lemma flt_quotient_le_one:
  assumes "0 \<le> x" "x \<le> y" "0 < y" "\<not> is_nan (x / y)"
  shows "x / y \<le> (1 :: 'a::len flt)"
proof (cases y)
  case PInf
  then have "x / y \<le> 0" using assms(1,4) unfolding flt_nonneg_cases[of x]
    by (auto simp: divide_flt_def signed_zero_def is_zero_def zero_flt_def)
  then show ?thesis using flt_le_trans[of _ 0 1] by (simp add: one_flt_def)
next
  case (Fin r)
  then have r: "0 < r" using assms(3) by simp
  consider "x = NZero" | q where "x = Fin q" "0 \<le> q" "q \<le> r" using assms(1,2) Fin by (auto simp: flt_nonneg_cases)
  then show ?thesis
  proof cases
    case 1
    then show ?thesis using Fin r by (simp add: divide_flt_def is_zero_def mk_def signed_zero_def one_flt_def)
  next
    case 2
    then show ?thesis using Fin r by (simp add: Fin_div mk_le_rval one_flt_def rnd_le_valid representable_numeral)
  qed
qed (use assms in auto)

lemma finite_over_positive: "is_finite x \<Longrightarrow> 0 < y \<Longrightarrow> \<not> is_nan (x / y :: 'a::len flt)"
  by (cases x; cases y) (auto simp: divide_flt_def is_zero_def signed_inf_def signed_zero_def)

lemma lit_small_nonneg: "0 \<le> (lit (1 / 1000000000) :: f64)"
  by (simp add: lit_def rnd_nonneg)

lemma fcast_unit: "0 \<le> x \<Longrightarrow> x \<le> 1 \<Longrightarrow> 0 \<le> (fcast x :: 'b::len flt) \<and> (fcast x :: 'b flt) \<le> 1"
  for x :: "'a::len flt"
  using fcast_nonneg[of x] by (cases x) (auto simp: one_flt_def rnd_le_valid representable_numeral)

lemma one_minus_unit: "0 \<le> x \<Longrightarrow> x \<le> 1 \<Longrightarrow> 0 \<le> lit 1 - x \<and> lit 1 - x \<le> (1 :: 'a::len flt)"
  by (cases x) (auto simp: one_flt_def zero_flt_def minus_flt_def plus_flt_def mk_le_rval mk_ge_rval rnd_le_valid rnd_nonneg[unfolded zero_flt_def] representable_numeral)

lemma unit_times: "0 \<le> x \<Longrightarrow> x \<le> 1 \<Longrightarrow> 0 \<le> y \<Longrightarrow> y \<le> 1 \<Longrightarrow> 0 \<le> x * y \<and> x * y \<le> (1 :: 'a::len flt)"
proof -
  assume h: "0 \<le> x" "x \<le> 1" "0 \<le> y" "y \<le> 1"
  then have f: "is_finite x" "is_finite y" using finite_between[of 0 _ 1] by (auto simp: one_flt_def)
  then have n: "\<not> is_nan (x * y)" by (simp add: finite_mult)
  moreover have "not_neg (x * y)" using h by (intro not_neg_mult not_neg_nonneg)
  moreover have "x * y \<le> 1 * (1 :: 'a flt)" using h n by (intro flt_mult_mono) (simp_all add: one_flt_def Fin_mult)
  ultimately show ?thesis by (simp add: not_neg_number one_flt_def Fin_mult mk_def representable_numeral)
qed

lemma of_unsigned_mono: "x \<le> y \<Longrightarrow> (of_unsigned x :: 'a::len flt) \<le> of_unsigned y"
  unfolding of_unsigned_def by (rule rnd_mono) (simp only: of_int_le_iff word_le_def)

lemma of_unsigned_positive: "0 < (w :: u64) \<Longrightarrow> 0 < (of_unsigned w :: f64)"
proof -
  assume "0 < w"
  then have "0 < unat w" using unat_gt_0[of w] by simp
  moreover have "unat w < 2 ^ 64" using unat_bound[of w] by simp
  ultimately obtain q where "(rnd (of_nat (unat w)) :: f64) = Fin q" "1 \<le> q" by (rule rnd_count)
  moreover have "(of_int (uint w) :: rat) = of_nat (unat w)" by (metis of_int_of_nat_eq uint_nat)
  ultimately show ?thesis by (simp add: of_unsigned_def)
qed

section \<open>Square roots\<close>

lemma sqrt_rat_form:
  assumes "0 < q"
  obtains m u where "sqrt_rat t q = of_int m * 2 powi u" "0 \<le> m" "m \<le> 2 ^ prec t" "u = max (emin t) (ilog2 q div 2 - int (prec t) + 1)"
proof -
  define u where "u = max (emin t) (ilog2 q div 2 - int (prec t) + 1)"
  define y where "y = q / 2 powi (2 * u)"
  define s where "s = isqrt \<lfloor>y\<rfloor>"
  have "ilog2 q + 1 \<le> 2 * int (prec t) + 2 * u" by (simp add: u_def max_def) linarith
  then have "q < 2 powi (2 * int (prec t) + 2 * u)"
    using ilog2_spec(2)[OF assms] powi_le_iff[of "ilog2 q + 1"] by (meson less_le_trans)
  then have y: "0 \<le> y" "y < 2 powi (2 * int (prec t))" using assms by (simp_all add: y_def powi_add divide_less_eq)
  moreover have "(2 :: rat) powi (2 * int (prec t)) = of_int ((2 ^ prec t)\<^sup>2)"
    by (simp add: power_int_def nat_mult_distrib power_mult[symmetric] mult.commute)
  ultimately have "\<lfloor>y\<rfloor> < (2 ^ prec t)\<^sup>2" by (simp only: floor_less_iff)
  moreover have s: "0 \<le> s" "s\<^sup>2 \<le> \<lfloor>y\<rfloor>" using isqrt_nonneg isqrt_spec[of "\<lfloor>y\<rfloor>"] y(1) by (simp_all add: s_def)
  ultimately have "s\<^sup>2 < (2 ^ prec t)\<^sup>2" by linarith
  then have "s < 2 ^ prec t" by (rule power_less_imp_less_base) simp
  then show thesis
    using s(1) by (intro that[of "if y < (of_int s + 1/2)\<^sup>2 then s else if (of_int s + 1/2)\<^sup>2 < y then s + 1 else if even s then s else s + 1" u])
      (simp_all add: sqrt_rat_def Let_def u_def y_def s_def)
qed

lemma fsqrt_valid: "valid x \<Longrightarrow> valid (fsqrt x :: 'a::len flt)"
proof (cases x)
  case (Fin q)
  assume v: "valid x"
  let ?t = "TYPE('a)"
  have zero: "representable ?t 0" using zero_flt_simps(6)[where 'a = 'a] by (simp add: zero_flt_def)
  show ?thesis
  proof (cases "0 < q")
    case True
    obtain m u where m: "sqrt_rat ?t q = of_int m * 2 powi u" "0 \<le> m" "m \<le> 2 ^ prec ?t"
      and u: "u = max (emin ?t) (ilog2 q div 2 - int (prec ?t) + 1)" using sqrt_rat_form[OF True, of ?t] .
    have "2 powi ilog2 q \<le> max_fin ?t"
      using ilog2_spec(1)[OF True] representable_bound[of ?t q] v Fin by (auto intro: order_trans)
    also have "\<dots> < 2 powi (int (prec ?t) + emax ?t)" by (simp add: max_fin_def left_diff_distrib powi_add)
    finally have "ilog2 q < int (prec ?t) + emax ?t" by (simp add: powi_less_iff)
    then have e: "emin ?t \<le> u" "u + 1 \<le> emax ?t" by (auto simp: u prec_def emin_def emax_def split: if_splits)
    have "representable ?t (of_int m * 2 powi u)"
    proof (cases "m = 2 ^ prec ?t")
      case True
      have two: "(2 :: int) ^ prec ?t = 2 * 2 ^ (prec ?t - 1)" using prec_pos[of ?t] by (simp add: power_eq_if)
      then have "of_int m * 2 powi u = of_int (2 ^ (prec ?t - 1)) * (2 :: rat) powi (u + 1)"
        by (simp add: True powi_add)
      moreover have "\<bar>2 ^ (prec ?t - 1)\<bar> < (2 :: int) ^ prec ?t" unfolding two by simp
      ultimately show ?thesis using e unfolding representable_def by (metis le_less_trans less_imp_le zle_add1_eq_le order_less_le)
    next
      case False
      then show ?thesis using m e unfolding representable_def by (intro exI[of _ m] exI[of _ u]) auto
    qed
    then show ?thesis using True Fin m(1) by simp
  qed (use Fin zero in auto)
qed auto

text \<open>A rounded root reaches every small integer whose square the number reaches.\<close>

lemma fsqrt_ge_int:
  assumes "Fin (of_int (k\<^sup>2)) \<le> x" "0 \<le> k" "k \<le> 2 ^ (prec TYPE('a) - 1)"
  shows "Fin (of_int k) \<le> (fsqrt x :: 'a::len flt)"
proof (cases x)
  case (Fin q)
  then have q: "of_int (k\<^sup>2) \<le> q" using assms(1) by simp
  show ?thesis
  proof (cases "0 < q")
    case False
    then have "k\<^sup>2 \<le> 0" using q by (metis of_int_le_0_iff order_trans not_less)
    then show ?thesis using False q Fin by (auto simp: not_less)
  next
    case True
    define t where "t = TYPE('a)"
    define u where "u = max (emin t) (ilog2 q div 2 - int (prec t) + 1)"
    define y where "y = q / 2 powi (2 * u)"
    define s where "s = isqrt \<lfloor>y\<rfloor>"
    have two: "(2 :: rat) powi (2 * u) = (2 powi u)\<^sup>2" by (simp add: power2_eq_square flip: powi_add)
    have root: "j \<le> s" if "of_int (j\<^sup>2) \<le> y" for j
    proof -
      have "j\<^sup>2 \<le> \<lfloor>y\<rfloor>" using that by (simp only: le_floor_iff)
      then have le: "j\<^sup>2 \<le> \<lfloor>y\<rfloor>" "0 \<le> \<lfloor>y\<rfloor>" using zero_le_power2[of j] by linarith+
      then have "j\<^sup>2 < (s + 1)\<^sup>2" using isqrt_spec[of "\<lfloor>y\<rfloor>"] unfolding s_def by linarith
      moreover have "0 \<le> s + 1" using isqrt_nonneg[of "\<lfloor>y\<rfloor>"] by (simp add: s_def)
      ultimately have "j < s + 1" by (rule power_less_imp_less_base)
      then show ?thesis by simp
    qed
    have "of_int k \<le> of_int s * (2 :: rat) powi u"
    proof (cases "0 < u")
      case True
      then have "u = ilog2 q div 2 - int (prec t) + 1" using emin_nonpos(1)[of t] by (simp add: u_def max_def split: if_splits)
      then have "2 * (u + int (prec t) - 1) \<le> ilog2 q" by presburger
      then have "2 powi (2 * (u + int (prec t) - 1)) \<le> (2 :: rat) powi ilog2 q" by (simp only: powi_le_iff)
      then have "2 powi (2 * (u + int (prec t) - 1)) \<le> q" using ilog2_spec(1)[OF \<open>0 < q\<close>] by (rule order_trans)
      moreover have e: "2 * (u + int (prec t) - 1) = 2 * int (prec t - 1) + 2 * u" using prec_pos[of t] by (simp add: of_nat_diff)
      ultimately have "2 powi (2 * int (prec t - 1)) * 2 powi (2 * u) \<le> q" by (simp only: e powi_add)
      then have "2 powi (2 * int (prec t - 1)) \<le> y" unfolding y_def by (subst pos_le_divide_eq) (rule powi_pos)
      moreover have "(2 :: rat) powi (2 * int (prec t - 1)) = of_int ((2 ^ (prec t - 1))\<^sup>2)"
        by (simp add: power_int_def nat_mult_distrib power_mult[symmetric] mult.commute)
      ultimately have "of_int ((2 ^ (prec t - 1))\<^sup>2) \<le> y" by (simp only:)
      then have "2 ^ (prec t - 1) \<le> s" by (rule root)
      then have "k \<le> s" using assms(3) by (simp add: t_def)
      then have "of_int k * 1 \<le> of_int s * (2 :: rat) powi u"
        using True assms(2) one_le_power_int[of "2 :: rat" u] by (intro mult_mono) simp_all
      then show ?thesis by simp
    next
      case False
      define n where "n = nat (- u)"
      have p: "(2 :: rat) powi u = 1 / 2 ^ n" using False by (simp add: n_def power_int_def power_one_over)
      have "of_int ((k * 2 ^ n)\<^sup>2) \<le> y" using q unfolding y_def two p by (simp add: power_mult_distrib power_one_over)
      then have "k * 2 ^ n \<le> s" by (rule root)
      then have "(of_int (k * 2 ^ n) :: rat) \<le> of_int s" by (simp only: of_int_le_iff)
      then show ?thesis by (simp add: p le_divide_eq)
    qed
    moreover have "of_int s * 2 powi u \<le> sqrt_rat t q"
      unfolding sqrt_rat_def Let_def u_def[symmetric] y_def[symmetric] s_def[symmetric] by (rule mult_right_mono) simp_all
    ultimately have "of_int k \<le> sqrt_rat t q" by linarith
    then show ?thesis using True Fin by (simp add: t_def)
  qed
qed (use assms(1) in simp_all)

lemma fsqrt_ge_one: "1 \<le> x \<Longrightarrow> 1 \<le> (fsqrt x :: 'a::len flt)"
  using fsqrt_ge_int[of 1 x] by (simp add: one_flt_def)

end
