(* ===== verification/Rounding.thy ===== *)
theory Rounding
  imports Floats
begin

text \<open>
  How far rounding moves a number: half a unit in the last place, a relative error of two to the -53 on numbers that are not tiny.
\<close>

lemma rnd_rat_error: "\<bar>rnd_rat t x - x\<bar> \<le> 2 powi ulp_exp t x / 2"
proof (cases "x = 0")
  case False
  let ?u = "(2::rat) powi ulp_exp t x"
  have "rnd_rat t x - x = (of_int (rne (x / ?u)) - x / ?u) * ?u" using False by (simp add: rnd_rat_def Let_def field_simps)
  then have "\<bar>rnd_rat t x - x\<bar> = \<bar>of_int (rne (x / ?u)) - x / ?u\<bar> * ?u" by (simp add: abs_mult)
  also have "\<dots> \<le> 1/2 * ?u" using rne_near[of "x / ?u"] by (intro mult_right_mono) auto
  finally show ?thesis by simp
qed simp

lemma ilog2_ge: "2 powi k \<le> x \<Longrightarrow> k \<le> ilog2 x"
proof -
  assume k: "2 powi k \<le> x"
  then have "0 < x" using powi_pos[of k] by linarith
  then have "2 powi k < (2 :: rat) powi (ilog2 x + 1)" using k ilog2_spec(2)[of x] by linarith
  then show ?thesis by (simp add: powi_less_iff)
qed

lemma rnd_rat_relative:
  assumes "\<bar>x\<bar> = 0 \<or> 2 powi (emin t + int (prec t)) \<le> \<bar>x\<bar>"
  shows "\<bar>rnd_rat t x - x\<bar> \<le> \<bar>x\<bar> / 2 ^ prec t"
proof (cases "x = 0")
  case False
  then have "emin t + int (prec t) \<le> ilog2 \<bar>x\<bar>" using assms by (intro ilog2_ge) simp
  then have "ulp_exp t x = ilog2 \<bar>x\<bar> - int (prec t) + 1" by (simp add: ulp_exp_def)
  moreover have "(2 :: rat) powi (ilog2 \<bar>x\<bar> - int (prec t) + 1) = 2 powi ilog2 \<bar>x\<bar> * 2 / 2 ^ prec t"
    by (simp add: power_int_diff power_int_add)
  ultimately have "(2 :: rat) powi ulp_exp t x / 2 = 2 powi ilog2 \<bar>x\<bar> / 2 ^ prec t" by simp
  also have "\<dots> \<le> \<bar>x\<bar> / 2 ^ prec t" using False ilog2_spec(1)[of "\<bar>x\<bar>"] by (intro divide_right_mono) simp_all
  finally show ?thesis using rnd_rat_error[of t x] by linarith
qed simp

text \<open>The same for the value of a rounded result that is not infinite.\<close>

lemma rval_rnd: "is_finite (rnd x :: 'a::len flt) \<Longrightarrow> rval (rnd x :: 'a flt) = rnd_rat TYPE('a) x"
  by (auto simp: rnd_def Let_def split: if_splits)

lemma rnd_finite: "\<bar>x\<bar> \<le> 2 ^ k \<Longrightarrow> k < 970 \<Longrightarrow> is_finite (rnd x :: f64)"
proof -
  assume h: "\<bar>x\<bar> \<le> 2 ^ k" "k < 970"
  have e: "(rnd (2 ^ k) :: f64) = Fin (2 ^ k)" "(rnd (- (2 ^ k)) :: f64) = Fin (- (2 ^ k))"
    using h(2) by (intro rnd_exact, unfold representable_def; intro exI[of _ 1] exI[of _ "- 1"] exI[of _ "int k"]; simp add: power_int_def)+
  have "(rnd (- (2 ^ k)) :: f64) \<le> rnd x" "(rnd x :: f64) \<le> rnd (2 ^ k)" using h(1) by (auto intro!: rnd_mono)
  then show ?thesis unfolding e by (rule finite_between) simp_all
qed

lemma rval_error:
  assumes "\<bar>x\<bar> = 0 \<or> 1 / 2 ^ 100 \<le> \<bar>x\<bar>" "is_finite (rnd x :: f64)"
  shows "\<bar>rval (rnd x :: f64) - x\<bar> \<le> \<bar>x\<bar> / 2 ^ 53"
proof -
  have "(2 :: rat) powi (emin TYPE(64) + int (prec TYPE(64))) \<le> 2 powi (- 100)" by (simp only: powi_le_iff) simp
  also have "(2 :: rat) powi (- 100) = 1 / 2 ^ 100" by (simp add: power_int_minus_divide)
  finally show ?thesis using rnd_rat_relative[of x "TYPE(64)"] assms by (simp add: rval_rnd) linarith
qed

text \<open>Without a hypothesis on the size: a relative error and half the smallest positive number.\<close>

lemma rnd_rat_near: "\<bar>rnd_rat t x - x\<bar> \<le> \<bar>x\<bar> / 2 ^ prec t + 2 powi emin t / 2"
proof (cases "\<bar>x\<bar> = 0 \<or> 2 powi (emin t + int (prec t)) \<le> \<bar>x\<bar>")
  case True
  then show ?thesis using rnd_rat_relative[OF True] powi_pos[of "emin t"] by linarith
next
  case False
  then have x: "0 < \<bar>x\<bar>" "\<bar>x\<bar> < 2 powi (emin t + int (prec t))" by simp_all
  then have "(2 :: rat) powi ilog2 \<bar>x\<bar> < 2 powi (emin t + int (prec t))" using ilog2_spec(1)[of "\<bar>x\<bar>"] by linarith
  then have "ulp_exp t x = emin t" by (simp add: powi_less_iff ulp_exp_def)
  then show ?thesis using rnd_rat_error[of t x] x(1) by (simp add: add_increasing)
qed

lemma rval_near: "is_finite (rnd x :: f64) \<Longrightarrow> \<bar>rval (rnd x :: f64) - x\<bar> \<le> \<bar>x\<bar> / 2 ^ 53 + 1 / 2 ^ 100"
proof -
  have "(2 :: rat) powi emin TYPE(64) \<le> 2 powi (- 100)" by (simp only: powi_le_iff) simp
  also have "(2 :: rat) powi (- 100) = 1 / 2 ^ 100" by (simp add: power_int_minus_divide)
  finally show "is_finite (rnd x :: f64) \<Longrightarrow> ?thesis" using rnd_rat_near[of "TYPE(64)" x] by (simp add: rval_rnd)
qed

lemma rval_near_f32: "is_finite (rnd x :: f32) \<Longrightarrow> \<bar>rval (rnd x :: f32) - x\<bar> \<le> \<bar>x\<bar> / 2 ^ 24 + 1 / 2 ^ 100"
proof -
  have "(2 :: rat) powi emin TYPE(32) \<le> 2 powi (- 100)" by (simp only: powi_le_iff) simp
  also have "(2 :: rat) powi (- 100) = 1 / 2 ^ 100" by (simp add: power_int_minus_divide)
  finally show "is_finite (rnd x :: f32) \<Longrightarrow> ?thesis" using rnd_rat_near[of "TYPE(32)" x] by (simp add: rval_rnd)
qed

end
