(* ===== verification/AntiJam.thy ===== *)
theory AntiJam
  imports Types Rounding
begin

text \<open>
  The frequency-hopping radio of \<open>src/security/antijamming.rs\<close>. Indices are natural numbers below the number of
  channels, the seed arithmetic is 64-bit wrapping, and the hop loop of \<open>tick\<close>, which a hostile configuration can keep
  from ending, is a partial function: \<open>None\<close> is a call that never returns. The theorems show when a tick
  returns, that the radio always transmits on a configured channel, and what jamming detection and evasion do.
\<close>

section \<open>The radio\<close>

record fhss_config =
  hop_rate_hz :: f64
  channels_mhz :: "f64 list"
  rssi_threshold_dbm :: f32
  jamming_detect_window :: nat

definition fhss_config_default :: fhss_config where
  "fhss_config_default =
    \<lparr>hop_rate_hz = lit 200, channels_mhz = map (\<lambda>i. lit 902 + lit (of_nat i) * lit (512/1000)) [0..<50],
     rssi_threshold_dbm = lit (- 85), jamming_detect_window = 5\<rparr>"

record fhss_radio =
  fhss_config :: fhss_config
  hop_index :: nat
  rssi_history :: "f32 list"
  elapsed_ms :: f64
  node_seed :: u32
  evasion_count :: u64

definition fhss_new :: "u32 \<Rightarrow> fhss_config \<Rightarrow> fhss_radio" where
  "fhss_new seed c =
    \<lparr>fhss_config = c, hop_index = 0, rssi_history = [], elapsed_ms = 0, node_seed = seed, evasion_count = 0\<rparr>"

definition current_channel_mhz :: "fhss_radio \<Rightarrow> f64" where
  "current_channel_mhz r =
    (let n = length (channels_mhz (fhss_config r)) in
     if n = 0 then 0 else channels_mhz (fhss_config r) ! (xor (hop_index r) (unat (node_seed r)) mod n))"

definition next_hop :: "fhss_radio \<Rightarrow> fhss_radio" where
  "next_hop r =
    (let n = length (channels_mhz (fhss_config r)) in
     if n = 0 then r else r\<lparr>hop_index := (hop_index r + 1) mod n\<rparr>)"

definition observe_rssi :: "f32 \<Rightarrow> fhss_radio \<Rightarrow> fhss_radio" where
  "observe_rssi rssi r =
    (let h = rssi_history r @ [rssi] in
     r\<lparr>rssi_history := if jamming_detect_window (fhss_config r) < length h then tl h else h\<rparr>)"

definition jamming_detected :: "fhss_radio \<Rightarrow> bool" where
  "jamming_detected r \<longleftrightarrow>
    (if length (rssi_history r) < jamming_detect_window (fhss_config r) then False
     else list_all (\<lambda>x. x < rssi_threshold_dbm (fhss_config r)) (rssi_history r))"

definition evasion_offset :: "fhss_radio \<Rightarrow> nat" where
  "evasion_offset r =
    (let seed = ucast (node_seed r) * 6364136223846793005 + evasion_count r + 1442695040888963407 :: u64;
         n = of_nat (length (channels_mhz (fhss_config r)))
     in unat (seed mod n div 4 + 3))"

definition evasive_hop :: "fhss_radio \<Rightarrow> fhss_radio" where
  "evasive_hop r =
    (let len = length (channels_mhz (fhss_config r)) in
     if len = 0 then r
     else r\<lparr>hop_index := (hop_index r + evasion_offset r) mod len, evasion_count := evasion_count r + 1, rssi_history := []\<rparr>)"

partial_function (option) hop_loop :: "f64 \<Rightarrow> fhss_radio \<Rightarrow> fhss_radio option" where
  "hop_loop interval r =
    (if interval \<le> elapsed_ms r then hop_loop interval (next_hop (r\<lparr>elapsed_ms := elapsed_ms r - interval\<rparr>)) else Some r)"

definition radio_tick :: "f64 \<Rightarrow> fhss_radio \<Rightarrow> fhss_radio option" where
  "radio_tick dt r =
    (let r1 = r\<lparr>elapsed_ms := elapsed_ms r + dt\<rparr>; interval = lit 1000 / hop_rate_hz (fhss_config r)
     in map_option (\<lambda>r2. if jamming_detected r2 then evasive_hop r2 else r2) (hop_loop interval r1))"

section \<open>When a tick returns\<close>

lemma representable_ge_ulp: "representable t d \<Longrightarrow> 0 < d \<Longrightarrow> 2 powi emin t \<le> d"
proof -
  assume "representable t d" "0 < d"
  then obtain m e where d: "d = of_int m * 2 powi e" "emin t \<le> e" by (auto simp: representable_def)
  have "0 < m" using \<open>0 < d\<close> d(1) powi_pos[of e] by (auto simp: zero_less_mult_iff dest: less_asym)
  then have "(1::rat) \<le> of_int m" by simp
  then have "1 * 2 powi e \<le> d" unfolding d(1) by (intro mult_right_mono) auto
  moreover have "(2::rat) powi emin t \<le> 2 powi e" using d(2) by (simp add: powi_le_iff)
  ultimately show ?thesis by simp
qed

text \<open>One pass of the loop takes at least half an interval off the elapsed time.\<close>

lemma hop_shrinks:
  assumes d: "representable TYPE(64) d" "0 < d" and e: "valid (Fin e :: f64)" "d \<le> e" "e \<le> 2 ^ 52 * d"
  obtains e' where "(Fin e - Fin d :: f64) = Fin e'" "0 \<le> e'" "e' \<le> e - d / 2" "valid (Fin e' :: f64)"
proof -
  define x where "x = e - d"
  define y where "y = rnd_rat TYPE(64) x"
  have x: "0 \<le> x" "x \<le> e" using assms by (simp_all add: x_def)
  have err: "y \<le> x + d / 2"
  proof (cases "x = 0")
    case False
    then have "2 powi ilog2 x \<le> x" using x ilog2_spec(1)[of x] by simp
    then have "(2::rat) powi (ilog2 x - 52) \<le> x / 2 ^ 52"
      using powi_diff[of "ilog2 x" 52] by (simp add: power_int_def divide_right_mono)
    also have "\<dots> \<le> d" using e(3) d(2) by (simp add: x_def field_simps)
    finally have "2 powi ulp_exp TYPE(64) x \<le> d"
      using representable_ge_ulp[OF d] x(1) by (simp add: ulp_exp_def max_def)
    then show ?thesis using rnd_rat_error[of "TYPE(64)" x] unfolding y_def by linarith
  qed (use d in \<open>simp add: y_def\<close>)
  have "y \<le> rnd_rat TYPE(64) e" using x(2) unfolding y_def by (rule rnd_rat_mono)
  also have "rnd_rat TYPE(64) e = e" using e(1) by (auto simp: representable_def rnd_rat_exact)
  also have "e \<le> max_fin TYPE(64)" using e(1) representable_bound[of "TYPE(64)" e] by simp
  finally have "y \<le> max_fin TYPE(64)" .
  moreover have "0 \<le> y" using x(1) by (simp add: y_def rnd_rat_nonneg)
  ultimately have r: "(rnd x :: f64) = Fin y" using x(1) max_fin_pos[of "TYPE(64)"] by (simp add: rnd_def y_def)
  then have "(Fin e - Fin d :: f64) = Fin y" by (auto simp: Fin_sub mk_def signed_zero_def x_def zero_flt_def)
  moreover have "valid (Fin y :: f64)" using valid_rnd[of x, where ?'a = 64] r by simp
  ultimately show thesis using that \<open>0 \<le> y\<close> err by (simp add: x_def)
qed

lemma hop_loop_returns:
  assumes "representable TYPE(64) d" "0 < d" "elapsed_ms r = Fin e" "valid (Fin e :: f64)" "0 \<le> e" "e \<le> 2 ^ 52 * d"
  shows "\<exists>r'. hop_loop (Fin d) r = Some r' \<and> 0 \<le> elapsed_ms r' \<and> elapsed_ms r' < Fin d"
  using assms(3-6)
proof (induction "nat \<lfloor>2 * e / d\<rfloor>" arbitrary: r e rule: less_induct)
  case less
  show ?case
  proof (cases "d \<le> e")
    case True
    obtain e' where e': "(Fin e - Fin d :: f64) = Fin e'" "0 \<le> e'" "e' \<le> e - d / 2" "valid (Fin e' :: f64)"
      using hop_shrinks[OF assms(1,2) less.prems(2) True less.prems(4)] by blast
    let ?r = "next_hop (r\<lparr>elapsed_ms := Fin e'\<rparr>)"
    have el: "elapsed_ms ?r = Fin e'" by (simp add: next_hop_def Let_def)
    have "2 * e' / d \<le> 2 * e / d - 1" using e'(3) assms(2) by (simp add: field_simps)
    then have "\<lfloor>2 * e' / d\<rfloor> \<le> \<lfloor>2 * e / d\<rfloor> - 1" by (metis floor_diff_one floor_mono)
    moreover have "0 \<le> \<lfloor>2 * e' / d\<rfloor>" using e'(2) assms(2) by simp
    ultimately have "nat \<lfloor>2 * e' / d\<rfloor> < nat \<lfloor>2 * e / d\<rfloor>" by linarith
    moreover have "e' \<le> 2 ^ 52 * d" using e'(3) less.prems(4) assms(2) by linarith
    ultimately have "\<exists>r'. hop_loop (Fin d) ?r = Some r' \<and> 0 \<le> elapsed_ms r' \<and> elapsed_ms r' < Fin d"
      using less.hyps[of e' ?r] el e'(2,4) by blast
    moreover have "hop_loop (Fin d) r = hop_loop (Fin d) ?r"
      using True less.prems(1) by (subst hop_loop.simps) (simp add: e'(1))
    ultimately show ?thesis by simp
  next
    case False
    then show ?thesis using less.prems by (subst hop_loop.simps) auto
  qed
qed

text \<open>
  C40. A tick returns whenever the hop interval is a positive number and the time to catch up on is at most
  2 to the 52 intervals: every pass of the hop loop takes off at least half an interval in spite of rounding. Afterwards
  less than one interval is left over.
\<close>
theorem tick_returns:
  assumes "lit 1000 / hop_rate_hz (fhss_config r) = Fin d" "0 < d" "elapsed_ms r + dt = Fin e" "0 \<le> e" "e \<le> 2 ^ 52 * d"
    and "valid (Fin d :: f64)" "valid (Fin e :: f64)"
  shows "\<exists>r'. radio_tick dt r = Some r' \<and> 0 \<le> elapsed_ms r' \<and> elapsed_ms r' < Fin d"
proof -
  obtain r2 where "hop_loop (Fin d) (r\<lparr>elapsed_ms := Fin e\<rparr>) = Some r2" "0 \<le> elapsed_ms r2" "elapsed_ms r2 < Fin d"
    using hop_loop_returns[of d "r\<lparr>elapsed_ms := Fin e\<rparr>" e] assms by auto
  then show ?thesis using assms(1,3) by (simp add: radio_tick_def Let_def evasive_hop_def)
qed

lemma tick_returns_witness:
  "\<exists>r'. radio_tick (lit 12) (fhss_new 7 fhss_config_default) = Some r' \<and> elapsed_ms r' < Fin 5"
  using tick_returns[of "fhss_new 7 fhss_config_default" 5 "lit 12" 12]
  by (auto simp: fhss_new_def fhss_config_default_def fin_arith representable_numeral)

text \<open>An infinite hop rate, which a configuration file can hold, makes the interval zero and the tick never return.\<close>

lemma hop_loop_zero_interval:
  assumes "0 \<le> elapsed_ms r"
  shows "hop_loop 0 r = None"
proof (rule ccontr)
  assume "hop_loop 0 r \<noteq> None"
  then obtain r' where "hop_loop 0 r = Some r'" by blast
  then have "0 = (0 :: f64) \<longrightarrow> \<not> 0 \<le> elapsed_ms r"
  proof (rule hop_loop.raw_induct[of "\<lambda>d r r'. d = 0 \<longrightarrow> \<not> 0 \<le> elapsed_ms r" 0 r r', rotated])
    fix loop :: "f64 \<Rightarrow> fhss_radio \<Rightarrow> fhss_radio option" and d q q'
    assume ih: "\<And>d q q'. loop d q = Some q' \<Longrightarrow> d = 0 \<longrightarrow> \<not> 0 \<le> elapsed_ms q"
      and step: "(if d \<le> elapsed_ms q then loop d (next_hop (q\<lparr>elapsed_ms := elapsed_ms q - d\<rparr>)) else Some q) = Some q'"
    have neg: "- (0 :: f64) = NZero" by (simp add: zero_flt_def)
    have same: "0 \<le> x - 0" if "0 \<le> x" for x :: f64
      using that unfolding flt_nonneg_cases[of x] minus_flt_def neg by (auto simp: plus_flt_def mk_nonneg)
    show "d = 0 \<longrightarrow> \<not> 0 \<le> elapsed_ms q"
    proof (intro impI notI)
      assume d: "d = 0" and q: "0 \<le> elapsed_ms q"
      then have "loop 0 (next_hop (q\<lparr>elapsed_ms := elapsed_ms q - 0\<rparr>)) = Some q'" using step by simp
      from ih[OF this] same[OF q] show False by (simp add: next_hop_def Let_def split: if_splits)
    qed
  qed
  with assms show False by simp
qed

lemma infinite_hop_rate_hangs:
  "hop_rate_hz (fhss_config r) = PInf \<Longrightarrow> 0 \<le> elapsed_ms r + dt \<Longrightarrow> radio_tick dt r = None"
  using hop_loop_zero_interval[of "r\<lparr>elapsed_ms := elapsed_ms r + dt\<rparr>"]
  by (simp add: radio_tick_def Let_def divide_flt_def is_zero_def signed_zero_def zero_flt_def)

section \<open>Channels, detection and evasion\<close>

datatype radio_event = RadioTick f64 | RadioRssi f32

fun radio_step :: "fhss_radio \<Rightarrow> radio_event \<Rightarrow> fhss_radio" where
  "radio_step r (RadioTick dt) = (case radio_tick dt r of None \<Rightarrow> r | Some r' \<Rightarrow> r')"
| "radio_step r (RadioRssi x) = observe_rssi x r"

definition radio_ok :: "fhss_config \<Rightarrow> fhss_radio \<Rightarrow> bool" where
  "radio_ok c r \<longleftrightarrow> fhss_config r = c \<and> (channels_mhz c \<noteq> [] \<longrightarrow> hop_index r < length (channels_mhz c)) \<and>
     length (rssi_history r) \<le> jamming_detect_window c"

lemma next_hop_ok: "radio_ok c r \<Longrightarrow> radio_ok c (next_hop (r\<lparr>elapsed_ms := t\<rparr>))"
  by (auto simp: radio_ok_def next_hop_def Let_def)

lemma evasive_hop_ok: "radio_ok c r \<Longrightarrow> radio_ok c (evasive_hop r)"
  by (auto simp: radio_ok_def evasive_hop_def Let_def)

lemma hop_loop_ok:
  assumes "hop_loop interval r = Some r'" "radio_ok c r"
  shows "radio_ok c r'"
proof -
  have "radio_ok c r \<longrightarrow> radio_ok c r'"
    by (rule hop_loop.raw_induct[of "\<lambda>d r r'. radio_ok c r \<longrightarrow> radio_ok c r'", OF _ assms(1)])
      (auto split: if_splits intro: next_hop_ok)
  with assms(2) show ?thesis by blast
qed

lemma radio_step_ok: "radio_ok c r \<Longrightarrow> radio_ok c (radio_step r e)"
proof (cases e)
  case (RadioTick dt)
  assume ok: "radio_ok c r"
  then have "radio_ok c (r\<lparr>elapsed_ms := elapsed_ms r + dt\<rparr>)" by (simp add: radio_ok_def)
  then show ?thesis using RadioTick ok
    by (auto simp: radio_tick_def Let_def dest: hop_loop_ok intro: evasive_hop_ok split: option.splits)
qed (auto simp: radio_ok_def observe_rssi_def Let_def)

interpretation radio: op_invariant radio_step "radio_ok c"
  by unfold_locales (rule radio_step_ok)

lemma evasion_offset_bounds:
  assumes "4 \<le> length (channels_mhz (fhss_config r))" "length (channels_mhz (fhss_config r)) < 2 ^ 63"
  shows "3 \<le> evasion_offset r" "evasion_offset r < length (channels_mhz (fhss_config r))"
proof -
  define n where "n = length (channels_mhz (fhss_config r))"
  define s where "s = (ucast (node_seed r) * 6364136223846793005 + evasion_count r + 1442695040888963407 :: u64)"
  have un: "unat (of_nat n :: u64) = n" using assms(2) unfolding n_def[symmetric] by (simp add: unsigned_of_nat take_bit_nat_eq_self)
  have lt: "unat (s mod of_nat n) < n" using assms(1) unfolding n_def[symmetric] by (simp add: unat_mod un)
  have q: "unat (s mod of_nat n div 4) = unat (s mod of_nat n) div 4" by (simp add: unat_div)
  have "unat (s mod of_nat n) div 4 + 3 < 2 ^ 64" using lt assms(2) unfolding n_def[symmetric] by simp
  then have u: "unat (s mod of_nat n div 4 + 3) = unat (s mod of_nat n) div 4 + 3"
    by (simp add: unat_word_ariths q)
  then have e: "evasion_offset r = unat (s mod of_nat n) div 4 + 3"
    by (simp add: evasion_offset_def Let_def n_def s_def)
  show "3 \<le> evasion_offset r" using e by simp
  show "evasion_offset r < length (channels_mhz (fhss_config r))"
    using e lt assms(1) unfolding n_def[symmetric] by presburger
qed

text \<open>
  Over every run the radio transmits on a configured channel and keeps at most a window of samples; when its
  window is full of samples below the threshold a tick detects jamming and takes an evasive hop, and with
  four channels or more that hop always leaves the current position of the sequence.
\<close>
theorem radio_stays_on_channels:
  assumes "r = foldl radio_step (fhss_new seed c) es" "4 \<le> length (channels_mhz c)" "length (channels_mhz c) < 2 ^ 63"
  shows "current_channel_mhz r \<in> set (channels_mhz c) \<and> length (rssi_history r) \<le> jamming_detect_window c \<and>
    (jamming_detected r \<longleftrightarrow> length (rssi_history r) = jamming_detect_window c \<and> list_all (\<lambda>x. x < rssi_threshold_dbm c) (rssi_history r)) \<and>
    hop_index (evasive_hop r) \<noteq> hop_index r"
proof -
  have "radio_ok c (fhss_new seed c)" by (simp add: radio_ok_def fhss_new_def)
  then have ok: "radio_ok c r" unfolding assms(1) by (rule radio.run_inv)
  have c: "fhss_config r = c" and h: "hop_index r < length (channels_mhz c)" and l: "length (rssi_history r) \<le> jamming_detect_window c"
    using ok assms(2) by (auto simp: radio_ok_def)
  have "current_channel_mhz r \<in> set (channels_mhz c)" using assms(2) by (auto simp: current_channel_mhz_def Let_def c)
  moreover have "hop_index (evasive_hop r) \<noteq> hop_index r"
  proof -
    let ?n = "length (channels_mhz c)" and ?o = "evasion_offset r"
    have o: "3 \<le> ?o" "?o < ?n" using evasion_offset_bounds[of r] assms(2,3) by (simp_all add: c)
    have "(hop_index r + ?o) mod ?n \<noteq> hop_index r"
    proof (cases "hop_index r + ?o < ?n")
      case False
      then have "(hop_index r + ?o) mod ?n = hop_index r + ?o - ?n" using h o by (simp add: le_mod_geq)
      then show ?thesis using o False by linarith
    qed (use o in simp)
    then show ?thesis using assms(2) by (auto simp: evasive_hop_def Let_def c)
  qed
  ultimately show ?thesis using l by (auto simp: jamming_detected_def c)
qed

lemma radio_stays_on_channels_witness:
  "current_channel_mhz (foldl radio_step (fhss_new 7 fhss_config_default) [RadioRssi (lit (- 90))]) \<in> set (channels_mhz fhss_config_default)"
  using radio_stays_on_channels[OF refl, of fhss_config_default 7 "[RadioRssi (lit (- 90))]"]
  by (simp add: fhss_config_default_def)

text \<open>With three channels the offset is always three, and evasion goes nowhere.\<close>

lemma evasion_is_stuck_on_three:
  assumes "length (channels_mhz (fhss_config r)) = 3" "hop_index r < 3"
  shows "hop_index (evasive_hop r) = hop_index r"
proof -
  have "unat (s mod 3 div 4 + 3 :: u64) = 3" for s :: u64
  proof -
    have "unat (s mod 3) < 3" by (simp add: unat_mod)
    then have "unat (s mod 3 div 4) = 0" by (simp add: unat_div)
    then have "s mod 3 div 4 = 0" by (simp add: unat_eq_zero)
    then show ?thesis by simp
  qed
  then have "evasion_offset r = 3" by (simp add: evasion_offset_def assms(1))
  then show ?thesis using assms by (cases "channels_mhz (fhss_config r)") (auto simp: evasive_hop_def Let_def)
qed

end
