(* ===== verification/LinkSecurity.thy ===== *)
theory LinkSecurity
  imports Types
begin

text \<open>
  The remaining link security of \<open>src/security\<close>: the MAVLink signer of \<open>mavlink_signing.rs\<close>, the GPS cross-check of
  \<open>uwb_antispoofing.rs\<close> and the Remote ID message of \<open>remote_id.rs\<close>. The HMAC-SHA256 of the \<open>hmac\<close> and
  \<open>sha2\<close> crates is a parameter: a function from key and input to a digest.
\<close>

section \<open>MAVLink signing\<close>

record mavlink_signer =
  key :: "u8 list"
  link_id :: u8
  timestamp :: u64

definition signer_new :: "u8 list \<Rightarrow> u8 \<Rightarrow> mavlink_signer" where
  "signer_new k l = \<lparr>key = k, link_id = l, timestamp = 1\<rparr>"

definition to_le_bytes :: "u64 \<Rightarrow> u8 list" where
  "to_le_bytes w = map (\<lambda>i. ucast (drop_bit (8 * i) w)) [0..<8]"

definition next_timestamp :: "mavlink_signer \<Rightarrow> mavlink_signer \<times> u64" where
  "next_timestamp s = (s\<lparr>timestamp := timestamp s + 1\<rparr>, timestamp s)"

definition signature_at :: "(u8 list \<Rightarrow> u8 list \<Rightarrow> u8 list) \<Rightarrow> mavlink_signer \<Rightarrow> u64 \<Rightarrow> u8 list \<Rightarrow> u8 list" where
  "signature_at hmac s ts bytes = take 6 (hmac (key s) ([link_id s] @ take 6 (to_le_bytes ts) @ bytes))"

definition sign :: "(u8 list \<Rightarrow> u8 list \<Rightarrow> u8 list) \<Rightarrow> u8 list \<Rightarrow> mavlink_signer \<Rightarrow> mavlink_signer \<times> u8 list" where
  "sign hmac bytes s = (let (s', ts) = next_timestamp s in (s', signature_at hmac s ts bytes))"

text \<open>\<open>start..=current_ts + 1\<close>; \<open>None\<close> is the overflow panic of the upper bound.\<close>

definition verify_window :: "mavlink_signer \<Rightarrow> u64 list option" where
  "verify_window s =
    map_option (\<lambda>upper. map of_nat [unat (sat_sub (timestamp s) 32)..<Suc (unat upper)]) (checked_add (timestamp s) 1)"

definition verify :: "(u8 list \<Rightarrow> u8 list \<Rightarrow> u8 list) \<Rightarrow> u8 list \<Rightarrow> u8 list \<Rightarrow> mavlink_signer \<Rightarrow> bool option" where
  "verify hmac bytes signature s =
    map_option (\<lambda>window. list_ex (\<lambda>ts. signature_at hmac s ts bytes = signature) window) (verify_window s)"

lemma window_ex: "list_ex P (map f [a - k..<Suc b]) \<longleftrightarrow> (\<exists>n. a \<le> n + k \<and> n \<le> b \<and> P (f n))"
  by (auto simp: list_ex_iff le_diff_conv less_Suc_eq_le simp del: upt_Suc)

lemma verify_iff:
  assumes "timestamp s \<noteq> - 1"
  shows "verify hmac bytes signature s =
    Some (\<exists>ts. unat (timestamp s) \<le> unat ts + 32 \<and> unat ts \<le> unat (timestamp s) + 1 \<and> signature_at hmac s ts bytes = signature)"
proof -
  have "unat (timestamp s) \<noteq> unat (- 1 :: u64)" using assms by (simp only: word_unat_eq_iff not_False_eq_True)
  then have lt: "unat (timestamp s) + 1 < 2 ^ 64" using unat_bound[of "timestamp s"] by (simp add: unat_max_word)
  have up: "checked_add (timestamp s) 1 = Some (timestamp s + 1)" "unat (timestamp s + 1) = unat (timestamp s) + 1"
    using lt by (simp_all add: checked_add_def unat_word_ariths)
  have "list_ex P (map of_nat [unat (sat_sub (timestamp s) 32)..<Suc (unat (timestamp s + 1))]) \<longleftrightarrow>
      (\<exists>ts. unat (timestamp s) \<le> unat ts + 32 \<and> unat ts \<le> unat (timestamp s) + 1 \<and> P ts)" for P :: "u64 \<Rightarrow> bool"
  proof -
    have "list_ex P (map of_nat [unat (sat_sub (timestamp s) 32)..<Suc (unat (timestamp s + 1))]) \<longleftrightarrow>
        (\<exists>n. unat (timestamp s) \<le> n + 32 \<and> n \<le> unat (timestamp s) + 1 \<and> P (of_nat n))"
      by (simp only: window_ex unat_sat_sub up(2)) simp
    also have "\<dots> \<longleftrightarrow> (\<exists>ts. unat (timestamp s) \<le> unat ts + 32 \<and> unat ts \<le> unat (timestamp s) + 1 \<and> P ts)"
    proof
      assume "\<exists>n. unat (timestamp s) \<le> n + 32 \<and> n \<le> unat (timestamp s) + 1 \<and> P (of_nat n)"
      then obtain n where n: "unat (timestamp s) \<le> n + 32" "n \<le> unat (timestamp s) + 1" "P (of_nat n)" by blast
      moreover have "unat (of_nat n :: u64) = n" using n(2) lt by (simp add: unsigned_of_nat take_bit_nat_eq_self)
      ultimately show "\<exists>ts. unat (timestamp s) \<le> unat ts + 32 \<and> unat ts \<le> unat (timestamp s) + 1 \<and> P ts"
        by (intro exI[of _ "of_nat n"]) simp
    next
      assume "\<exists>ts. unat (timestamp s) \<le> unat ts + 32 \<and> unat ts \<le> unat (timestamp s) + 1 \<and> P ts"
      then obtain ts where "unat (timestamp s) \<le> unat ts + 32" "unat ts \<le> unat (timestamp s) + 1" "P ts" by blast
      then show "\<exists>n. unat (timestamp s) \<le> n + 32 \<and> n \<le> unat (timestamp s) + 1 \<and> P (of_nat n)"
        by (intro exI[of _ "unat ts"]) simp
    qed
    finally show ?thesis .
  qed
  then show ?thesis by (simp add: verify_def verify_window_def up(1))
qed

lemma sign_simps [simp]:
  "key (fst (sign hmac m s)) = key s" "link_id (fst (sign hmac m s)) = link_id s"
  "timestamp (fst (sign hmac m s)) = timestamp s + 1" "snd (sign hmac m s) = signature_at hmac s (timestamp s) m"
  by (simp_all add: sign_def next_timestamp_def)

text \<open>Signing a list of messages, one after the other.\<close>

definition sign_all :: "(u8 list \<Rightarrow> u8 list \<Rightarrow> u8 list) \<Rightarrow> u8 list list \<Rightarrow> mavlink_signer \<Rightarrow> mavlink_signer" where
  "sign_all hmac ms s = foldl (\<lambda>s m. fst (sign hmac m s)) s ms"

lemma sign_all_simps:
  "key (sign_all hmac ms s) = key s" "link_id (sign_all hmac ms s) = link_id s"
  "timestamp (sign_all hmac ms s) = timestamp s + of_nat (length ms)"
  by (induction ms arbitrary: s) (simp_all add: sign_all_def)

text \<open>
  A signature verifies at the signer that made it while at most 31 messages have been signed after it, whatever the
  hash does; and what verifies is exactly what the signer's key gives for the message at one of the 34 counter values
  from 32 before the current one to one after it.
\<close>
theorem signature_window:
  assumes "unat (timestamp s) + length later + 2 < 2 ^ 64" "s' = sign_all hmac later (fst (sign hmac bytes s))"
  shows "(length later \<le> 31 \<longrightarrow> verify hmac bytes (snd (sign hmac bytes s)) s' = Some True) \<and>
    (verify hmac m signature s' = Some True \<longleftrightarrow>
       (\<exists>ts. unat (timestamp s') \<le> unat ts + 32 \<and> unat ts \<le> unat (timestamp s') + 1 \<and> signature_at hmac s ts m = signature))"
proof -
  have t: "timestamp s' = timestamp s + 1 + of_nat (length later)" "key s' = key s" "link_id s' = link_id s"
    by (simp_all add: assms(2) sign_all_simps)
  have u: "unat (timestamp s') = unat (timestamp s) + 1 + length later"
    using assms(1) by (simp add: t(1) unat_word_ariths unsigned_of_nat take_bit_nat_eq_self)
  have nm: "timestamp s' \<noteq> - 1"
  proof
    assume "timestamp s' = - 1"
    then have "unat (timestamp s') = 2 ^ 64 - 1" by (simp add: unat_max_word)
    then show False using u assms(1) by simp
  qed
  have sig: "signature_at hmac s' = signature_at hmac s" by (simp add: fun_eq_iff signature_at_def t)
  show ?thesis unfolding verify_iff[OF nm] sig
    using u by (auto intro!: exI[of _ "timestamp s"])
qed

lemma signature_window_witness:
  "verify (\<lambda>k m. m) [1] (snd (sign (\<lambda>k m. m) [1] (signer_new [7] 1))) (fst (sign (\<lambda>k m. m) [1] (signer_new [7] 1))) = Some True"
  using signature_window[of "signer_new [7] 1" "[]" _ "\<lambda>k m. m" "[1]"]
  by (simp add: sign_all_def signer_new_def)

section \<open>GPS against UWB ranging\<close>

record uwb_anti_spoofing =
  tolerance_m :: f64
  min_neighbors :: nat

definition uwb_default :: uwb_anti_spoofing where
  "uwb_default = \<lparr>tolerance_m = lit 2, min_neighbors = 2\<rparr>"

text \<open>A range is consistent when its neighbour's GPS position is known and the distances differ by the tolerance at most.\<close>

definition consistent :: "uwb_anti_spoofing \<Rightarrow> position3d \<Rightarrow> (node_id \<times> position3d) list \<Rightarrow> node_id \<times> f64 \<Rightarrow> bool" where
  "consistent u gps neighbours rg =
    (case map_of neighbours (fst rg) of
       None \<Rightarrow> False
     | Some ngps \<Rightarrow> fabs (distance_to gps ngps - snd rg) \<le> tolerance_m u)"

definition is_gps_valid :: "uwb_anti_spoofing \<Rightarrow> position3d \<Rightarrow> (node_id \<times> f64) list \<Rightarrow> (node_id \<times> position3d) list \<Rightarrow> bool" where
  "is_gps_valid u gps ranges neighbours =
    (if length ranges < min_neighbors u then True
     else length ranges \<le> length (filter (consistent u gps neighbours) ranges) * 2)"

lemma distance_from_nan:
  "is_nan (px a) \<or> is_nan (py a) \<or> is_nan (pz a) \<Longrightarrow> is_nan (distance_to a b)"
  by (auto simp: distance_to_def Let_def)

lemma fabs_nan [simp]: "is_nan (fabs x) = is_nan x"
  by (cases x) auto

lemma consistent_number: "consistent u gps neighbours r \<Longrightarrow> \<not> is_nan (px gps) \<and> \<not> is_nan (py gps) \<and> \<not> is_nan (pz gps)"
  using distance_from_nan[of gps] flt_le_nan by (fastforce simp: consistent_def split: option.splits)

text \<open>
  With enough ranges the cross-check fails closed: a position that passes has no NaN coordinate, at most half of the
  ranges contradict it or concern a neighbour without a position, and with a single range that range agrees.
\<close>
theorem gps_check_needs_half:
  assumes "is_gps_valid u gps ranges neighbours" "min_neighbors u \<le> length ranges" "ranges \<noteq> []"
  shows "\<not> is_nan (px gps) \<and> \<not> is_nan (py gps) \<and> \<not> is_nan (pz gps) \<and>
    length (filter (\<lambda>r. \<not> consistent u gps neighbours r) ranges) * 2 \<le> length ranges \<and>
    (\<exists>r \<in> set ranges. consistent u gps neighbours r)"
proof -
  let ?ok = "filter (consistent u gps neighbours) ranges"
  have half: "length ranges \<le> length ?ok * 2" using assms(1,2) by (simp add: is_gps_valid_def split: if_splits)
  then have "?ok \<noteq> []" using assms(3) by auto
  then obtain r where r: "r \<in> set ranges" "consistent u gps neighbours r" by (auto simp: filter_empty_conv)
  have "length ?ok + length (filter (\<lambda>r. \<not> consistent u gps neighbours r) ranges) = length ranges"
    by (rule sum_length_filter_compl)
  then show ?thesis using half r consistent_number[OF r(2)] by auto
qed

lemma gps_check_needs_half_witness:
  "\<exists>r \<in> set [(1, lit 10)]. consistent (uwb_default\<lparr>min_neighbors := 1\<rparr>) position_zero [(1, \<lparr>px = lit 10, py = 0, pz = 0\<rparr>)] r"
proof -
  have "fsqrt (Fin 100 :: f64) = Fin 10" using fsqrt_squares[of 10, where ?'a = 64] by simp
  then have "consistent (uwb_default\<lparr>min_neighbors := 1\<rparr>) position_zero [(1, \<lparr>px = lit 10, py = 0, pz = 0\<rparr>)] (1, lit 10)"
    by (simp add: consistent_def uwb_default_def position_zero_def distance_to_def fin_arith)
  then have "is_gps_valid (uwb_default\<lparr>min_neighbors := 1\<rparr>) position_zero [(1, lit 10)] [(1, \<lparr>px = lit 10, py = 0, pz = 0\<rparr>)]"
    by (simp add: is_gps_valid_def)
  from gps_check_needs_half[OF this] show ?thesis by simp
qed

section \<open>Remote ID\<close>

record remote_id_broadcast =
  uas_id :: "u8 list"
  operator_lat :: f64
  operator_lon :: f64
  drone_north_m :: f64
  drone_east_m :: f64
  altitude_msl_m :: f32
  speed_ms :: f32
  heading_deg :: f32
  rid_timestamp_ms :: u64
  emergency_status :: bool

definition remote_id_new :: "u8 list \<Rightarrow> remote_id_broadcast" where
  "remote_id_new i =
    \<lparr>uas_id = i, operator_lat = 0, operator_lon = 0, drone_north_m = 0, drone_east_m = 0, altitude_msl_m = 0,
     speed_ms = 0, heading_deg = 0, rid_timestamp_ms = 0, emergency_status = False\<rparr>"

definition to_degrees :: "f64 \<Rightarrow> f64" where
  "to_degrees x = x * (lit 180 / lit (314159265358979323846264338327950288 / 10 ^ 35))"

definition remote_id_update :: "drone_state \<Rightarrow> f64 \<times> f64 \<Rightarrow> remote_id_broadcast \<Rightarrow> remote_id_broadcast" where
  "remote_id_update d operator_pos r =
    r\<lparr>drone_north_m := px (ds_position d), drone_east_m := py (ds_position d),
      altitude_msl_m := fcast (altitude_agl_m d), speed_ms := fcast (magnitude (ds_velocity d)),
      heading_deg := fcast (to_degrees (heading_rad d)), rid_timestamp_ms := timestamp_ms d,
      operator_lat := fst operator_pos, operator_lon := snd operator_pos\<rparr>"

definition encode_basic_id :: "remote_id_broadcast \<Rightarrow> u8 list" where
  "encode_basic_id r = [0, 1] @ uas_id r @ [0, 0, 0]"

lemma basic_id_round_trip:
  "length (uas_id r) = 20 \<Longrightarrow> length (encode_basic_id (remote_id_update d op r)) = 25 \<and>
     take 20 (drop 2 (encode_basic_id (remote_id_update d op r))) = uas_id r"
  by (simp add: encode_basic_id_def remote_id_update_def)

end
