(* ===== verification/JellyEnergy.thy ===== *)
theory JellyEnergy
  imports Floats
begin

text \<open>
  The crate \<open>ruv-jellyfish\<close>: its vectors (\<open>vec3.rs\<close>) and the linear-drag energy model (\<open>energy.rs\<close>), with the
  comparison of its two gaits. All arithmetic is IEEE \<open>f64\<close>.
\<close>

section \<open>Vectors\<close>

record vec3 =
  vec_x :: f64
  vec_y :: f64
  vec_z :: f64

definition vec_zero :: vec3 where
  "vec_zero = \<lparr>vec_x = 0, vec_y = 0, vec_z = 0\<rparr>"

definition vec_add :: "vec3 \<Rightarrow> vec3 \<Rightarrow> vec3" where
  "vec_add a b = \<lparr>vec_x = vec_x a + vec_x b, vec_y = vec_y a + vec_y b, vec_z = vec_z a + vec_z b\<rparr>"

definition vec_sub :: "vec3 \<Rightarrow> vec3 \<Rightarrow> vec3" where
  "vec_sub a b = \<lparr>vec_x = vec_x a - vec_x b, vec_y = vec_y a - vec_y b, vec_z = vec_z a - vec_z b\<rparr>"

definition vec_scale :: "vec3 \<Rightarrow> f64 \<Rightarrow> vec3" where
  "vec_scale a k = \<lparr>vec_x = vec_x a * k, vec_y = vec_y a * k, vec_z = vec_z a * k\<rparr>"

definition vec_dot :: "vec3 \<Rightarrow> vec3 \<Rightarrow> f64" where
  "vec_dot a b = vec_x a * vec_x b + vec_y a * vec_y b + vec_z a * vec_z b"

definition norm_sq :: "vec3 \<Rightarrow> f64" where
  "norm_sq a = vec_dot a a"

definition vec_norm :: "vec3 \<Rightarrow> f64" where
  "vec_norm a = fsqrt (norm_sq a)"

definition vec_distance :: "vec3 \<Rightarrow> vec3 \<Rightarrow> f64" where
  "vec_distance a b = vec_norm (vec_sub a b)"

definition tiny :: f64 where "tiny = lit (1 / 1000000000000)"

definition normalized :: "vec3 \<Rightarrow> vec3" where
  "normalized a = (let n = vec_norm a in if n < tiny then vec_zero else vec_scale a (1 / n))"

definition clamped :: "vec3 \<Rightarrow> f64 \<Rightarrow> vec3" where
  "clamped a max_len = (let n = vec_norm a in if max_len < n \<and> tiny < n then vec_scale a (max_len / n) else a)"

definition project_onto :: "vec3 \<Rightarrow> vec3 \<Rightarrow> vec3" where
  "project_onto a onto = (let d = norm_sq onto in if d < tiny then vec_zero else vec_scale onto (vec_dot a onto / d))"

section \<open>The energy model\<close>

record energy_model =
  drag_k :: f64
  e_per_dv :: f64
  recapture :: f64
  idle_power :: f64

definition energy_model_default :: energy_model where
  "energy_model_default = \<lparr>drag_k = lit (3/10), e_per_dv = lit 5, recapture = lit (35/100), idle_power = lit 8\<rparr>"

datatype gait = ConstantThrust | PulseDrift

definition recapture_fraction :: "energy_model \<Rightarrow> f64" where
  "recapture_fraction m = clamp_lit 0 (lit (999/1000)) (recapture m)"

fun actuation_energy_per_metre :: "energy_model \<Rightarrow> gait \<Rightarrow> f64" where
  "actuation_energy_per_metre m ConstantThrust = e_per_dv m * drag_k m"
| "actuation_energy_per_metre m PulseDrift = e_per_dv m * drag_k m / (1 + recapture_fraction m)"

definition energy_per_metre :: "energy_model \<Rightarrow> gait \<Rightarrow> f64 \<Rightarrow> f64" where
  "energy_per_metre m g v = (let v = fmax v (lit (1/1000)) in actuation_energy_per_metre m g + idle_power m / v)"

definition station_keeping_power :: "energy_model \<Rightarrow> gait \<Rightarrow> f64 \<Rightarrow> f64" where
  "station_keeping_power m g rel_flow =
    (let impulse_per_sec = drag_k m * fabs rel_flow;
         actuation = (case g of
             ConstantThrust \<Rightarrow> e_per_dv m * impulse_per_sec
           | PulseDrift \<Rightarrow> e_per_dv m * impulse_per_sec / (1 + recapture_fraction m))
     in actuation + idle_power m)"

definition actuation_saving_fraction :: "energy_model \<Rightarrow> f64" where
  "actuation_saving_fraction m = (let r = recapture_fraction m in r / (1 + r))"

definition range_metres :: "energy_model \<Rightarrow> gait \<Rightarrow> f64 \<Rightarrow> f64 \<Rightarrow> f64" where
  "range_metres m g budget v = fmax budget 0 / energy_per_metre m g v"

definition loiter_endurance_secs :: "energy_model \<Rightarrow> gait \<Rightarrow> f64 \<Rightarrow> f64 \<Rightarrow> f64" where
  "loiter_endurance_secs m g budget rel_flow =
    (let p = station_keeping_power m g rel_flow
     in if p \<le> lit (1 / 1000000000) then PInf else fmax budget 0 / p)"

section \<open>Costs\<close>

text \<open>A model without negative parameters; NaN and infinity are allowed.\<close>

definition physical :: "energy_model \<Rightarrow> bool" where
  "physical m \<longleftrightarrow> not_neg (drag_k m) \<and> not_neg (e_per_dv m) \<and> not_neg (idle_power m)"

lemma recapture_bound: obtains b where "(lit (999/1000) :: f64) = Fin b" "0 < b" "b < 1"
proof -
  have "(lit (999/1000) :: f64) = Fin (8998192055486251 / 2 ^ 53)"
    using rnd_decimal[of 8998192055486251 53 "999/1000", where 'a = 64] by (simp add: lit_def abs_if)
  then show thesis by (rule that) simp_all
qed

lemma recapture_fraction_range: "not_neg (recapture_fraction m)" "1 + recapture_fraction m = NaN \<or> 1 \<le> 1 + recapture_fraction m"
proof -
  obtain b where b: "(lit (999/1000) :: f64) = Fin b" "0 < b" "b < 1" by (rule recapture_bound)
  show r: "not_neg (recapture_fraction m)"
    using b(2) by (cases "recapture m") (auto simp: recapture_fraction_def clamp_lit_def Let_def b(1) not_neg_def)
  have "\<not> is_inf (recapture_fraction m)"
    by (cases "recapture m") (auto simp: recapture_fraction_def clamp_lit_def Let_def b(1) zero_flt_def)
  then have "is_nan (1 + recapture_fraction m) \<or> 1 \<le> 1 + recapture_fraction m"
    using r flt_add_ge[of "1 :: f64" "recapture_fraction m"]
    by (auto simp: not_neg_def one_flt_def representable_numeral plus_flt_def)
  then show "1 + recapture_fraction m = NaN \<or> 1 \<le> 1 + recapture_fraction m"
    by (cases "1 + recapture_fraction m") (auto simp: one_flt_def)
qed

lemma recapture_divides:
  assumes "not_neg x" "valid x" "\<not> is_nan (x / (1 + recapture_fraction m))"
  shows "x / (1 + recapture_fraction m) \<le> x"
proof -
  note n = not_nan_parts(5,6)[OF assms(3)]
  then have "1 \<le> 1 + recapture_fraction m" using recapture_fraction_range(2)[of m] by auto
  then show ?thesis using flt_div_le assms n by (auto simp: not_neg_def)
qed

lemma divisor_ge_one: "1 \<le> x \<Longrightarrow> 0 < (x :: 'a::len flt)"
  by (rule flt_less_le_trans[of 0 1]) (simp_all add: one_flt_def)

lemma actuation_not_neg: "physical m \<Longrightarrow> not_neg (actuation_energy_per_metre m g)"
  using recapture_fraction_range(2)[of m]
  by (cases g) (auto simp: physical_def intro!: not_neg_mult not_neg_div divisor_ge_one)

lemma power_not_neg: "physical m \<Longrightarrow> not_neg (station_keeping_power m g f)"
  using recapture_fraction_range(2)[of m]
  by (cases g) (auto simp: physical_def station_keeping_power_def intro!: not_neg_add not_neg_mult not_neg_div divisor_ge_one)

lemma cheaper_add:
  fixes x :: "'a::len flt"
  assumes "\<not> is_nan x \<Longrightarrow> \<not> is_nan y \<Longrightarrow> x \<le> y"
  shows "\<not> y + c < x + c"
proof
  assume less: "y + c < x + c"
  then have n: "\<not> is_nan (y + c)" "\<not> is_nan (x + c)" using flt_less_nan by blast+
  note parts = not_nan_parts(1,2)[OF n(1)] not_nan_parts(1)[OF n(2)]
  have "x + c \<le> y + c" by (rule flt_add_mono[OF assms]) (use n parts in simp_all)
  then show False using less by (simp add: flt_le_not_less)
qed

lemma pulse_drift_power: "physical m \<Longrightarrow> \<not> station_keeping_power m ConstantThrust f < station_keeping_power m PulseDrift f"
  unfolding station_keeping_power_def Let_def gait.case
  by (intro cheaper_add recapture_divides not_neg_mult) (simp_all add: physical_def)

lemma pulse_drift_per_metre: "physical m \<Longrightarrow> \<not> energy_per_metre m ConstantThrust v < energy_per_metre m PulseDrift v"
  unfolding energy_per_metre_def Let_def actuation_energy_per_metre.simps
  by (intro cheaper_add recapture_divides not_neg_mult) (simp_all add: physical_def)

lemma power_grows:
  assumes m: "physical m" and f: "fabs f \<le> fabs f'"
  shows "\<not> station_keeping_power m g f' < station_keeping_power m g f"
proof -
  have imp: "e_per_dv m * (drag_k m * fabs f) \<le> e_per_dv m * (drag_k m * fabs f')"
    if n: "\<not> is_nan (e_per_dv m * (drag_k m * fabs f))" "\<not> is_nan (e_per_dv m * (drag_k m * fabs f'))"
  proof -
    note n1 = not_nan_parts(3,4)[OF n(1)] not_nan_parts(4)[OF n(2)]
    note n2 = not_nan_parts(3,4)[OF n1(2)]
    have p: "0 \<le> e_per_dv m" "0 \<le> drag_k m" "0 \<le> fabs f" "0 \<le> drag_k m * fabs f"
      using m n1 n2 not_neg_mult[OF _ not_neg_fabs, of "drag_k m" f] not_neg_fabs[of f] by (auto simp: physical_def not_neg_def)
    have "drag_k m * fabs f \<le> drag_k m * fabs f'" by (rule flt_mult_mono) (use p f n1 n2 in simp_all)
    with p n n1 show ?thesis by (intro flt_mult_mono[of "e_per_dv m" "e_per_dv m"]) simp_all
  qed
  have div: "e_per_dv m * (drag_k m * fabs f) / (1 + recapture_fraction m) \<le> e_per_dv m * (drag_k m * fabs f') / (1 + recapture_fraction m)"
    if n: "\<not> is_nan (e_per_dv m * (drag_k m * fabs f) / (1 + recapture_fraction m))" "\<not> is_nan (e_per_dv m * (drag_k m * fabs f') / (1 + recapture_fraction m))"
  proof -
    note n1 = not_nan_parts(5,6)[OF n(1)] not_nan_parts(5)[OF n(2)]
    have "1 \<le> 1 + recapture_fraction m" using recapture_fraction_range(2)[of m] n1(2) by auto
    moreover have "0 \<le> e_per_dv m * (drag_k m * fabs f)"
      using m n1(1) not_neg_mult[OF _ not_neg_mult[OF _ not_neg_fabs], of "e_per_dv m" "drag_k m" f] by (auto simp: physical_def not_neg_def)
    ultimately show ?thesis by (intro flt_div_mono imp) (use n n1 in \<open>simp_all add: divisor_ge_one\<close>)
  qed
  show ?thesis
    by (cases g) (simp_all add: station_keeping_power_def Let_def cheaper_add imp div)
qed

lemma quotient_grows:
  fixes b :: "'a::len flt"
  assumes b: "0 \<le> b" and p: "0 < p \<or> is_nan p" and q: "\<not> q < p"
  shows "\<not> b / p < b / q"
proof
  assume less: "b / p < b / q"
  then have n: "\<not> is_nan (b / p)" "\<not> is_nan (b / q)" using flt_less_nan by blast+
  note parts = not_nan_parts(5,6)[OF n(1)] not_nan_parts(6)[OF n(2)]
  have "p \<le> q" using q parts by (simp add: flt_not_less)
  then have "b / q \<le> b / p" using b p n parts by (intro flt_div_mono) simp_all
  then show False using less by (simp add: flt_le_not_less)
qed

lemma pulse_drift_endurance:
  assumes "physical m"
  shows "\<not> loiter_endurance_secs m PulseDrift budget f < loiter_endurance_secs m ConstantThrust budget f"
proof -
  let ?P = "station_keeping_power m PulseDrift f" and ?C = "station_keeping_power m ConstantThrust f"
  let ?e = "lit (1 / 1000000000) :: f64"
  have small: "0 \<le> ?e" by (simp add: lit_def rnd_nonneg)
  consider (nan) "is_nan ?P" | (low) "?P \<le> ?e" | (high) "\<not> is_nan ?P" "?e < ?P"
    using flt_not_less[of ?e ?P] flt_le_nan[OF small] by blast
  then show ?thesis
  proof cases
    case nan
    then have "\<not> fmax budget 0 / ?P < fmax budget 0 / ?C" using flt_less_nan nan_division(2) by blast
    with nan show ?thesis by (auto simp: loiter_endurance_secs_def Let_def dest: flt_le_nan)
  next
    case high
    then have "0 < ?P" and nP: "\<not> ?P \<le> ?e" using small flt_le_less_trans flt_le_not_less by blast+
    moreover have "\<not> ?C \<le> ?e"
      using pulse_drift_power[OF assms, of f] high(2) flt_le_less_trans[of ?C ?e ?P] by blast
    ultimately show ?thesis using quotient_grows[OF fmax_zero(1) _ pulse_drift_power[OF assms], of f budget]
      by (simp add: loiter_endurance_secs_def Let_def)
  qed (simp_all add: loiter_endurance_secs_def Let_def)
qed

text \<open>
  For every model without negative parameters, pulse-and-drift never costs more than constant thrust: neither the
  power of holding station nor the energy per metre; holding station against a stronger flow never costs less,
  and the loiter endurance of pulse-and-drift is never the shorter one. All of it holds in rounded arithmetic.
\<close>
theorem pulse_drift_pays_off:
  assumes "physical m"
  shows "\<not> station_keeping_power m ConstantThrust f < station_keeping_power m PulseDrift f
    \<and> \<not> energy_per_metre m ConstantThrust v < energy_per_metre m PulseDrift v
    \<and> \<not> loiter_endurance_secs m PulseDrift budget f < loiter_endurance_secs m ConstantThrust budget f
    \<and> (fabs f \<le> fabs f' \<longrightarrow> \<not> station_keeping_power m g f' < station_keeping_power m g f)"
  using assms by (simp add: pulse_drift_power pulse_drift_per_metre pulse_drift_endurance power_grows)

theorem pulse_drift_pays_off_witness:
  "\<not> station_keeping_power energy_model_default ConstantThrust (lit 3) < station_keeping_power energy_model_default PulseDrift (lit 3) \<and>
   \<not> station_keeping_power energy_model_default PulseDrift (lit 3) < station_keeping_power energy_model_default PulseDrift (lit (- 2))"
proof -
  have m: "physical energy_model_default"
    by (simp add: physical_def energy_model_default_def not_neg_nonneg lit_def rnd_nonneg)
  show ?thesis using pulse_drift_pays_off[OF m, of "lit 3" 0 0 "lit 3" PulseDrift] pulse_drift_pays_off[OF m, of "lit (- 2)" 0 0 "lit 3" PulseDrift] by simp
qed

end
