(* ===== verification/JellyGait.thy ===== *)
theory JellyGait
  imports JellyEnergy Prelude
begin

text \<open>
  The pulse-and-drift gait of \<open>pulse.rs\<close>, a state machine stepped in time: its shape, its step and its telemetry, and
  the invariant of every run.
\<close>

section \<open>The gait\<close>

datatype phase = Pulse | Drift

record gait_params =
  peak_speed :: f64
  drift_floor :: f64
  pulse_accel :: f64

definition gait_params_default :: gait_params where
  "gait_params_default = \<lparr>peak_speed = lit 6, drift_floor = lit 2, pulse_accel = lit 4\<rparr>"

definition cruise_params :: "f64 \<Rightarrow> gait_params" where
  "cruise_params target_avg =
    (let t = fmax target_avg (lit (1/10))
     in \<lparr>peak_speed = t * lit (16/10), drift_floor = t * lit (6/10), pulse_accel = fmax (t * lit 2) (lit 1)\<rparr>)"

text \<open>\<open>clamp\<close> panics when its bounds are out of order: the \<open>None\<close> case.\<close>

definition sanitized :: "gait_params \<Rightarrow> gait_params option" where
  "sanitized p =
    (let peak = fmax (peak_speed p) (lit (2/10))
     in map_option (\<lambda>lower. \<lparr>peak_speed = peak, drift_floor = lower, pulse_accel = fmax (pulse_accel p) (lit (1/1000))\<rparr>)
          (fclamp (drift_floor p) 0 (peak - lit (1/1000))))"

record gait_telemetry =
  tel_phase :: phase
  tel_speed :: f64
  tel_distance :: f64
  tel_elapsed :: f64
  tel_actuation_energy :: f64
  tel_idle_energy :: f64

definition avg_speed :: "gait_telemetry \<Rightarrow> f64" where
  "avg_speed t = (if lit (1 / 1000000000) < tel_elapsed t then tel_distance t / tel_elapsed t else 0)"

definition total_energy :: "gait_telemetry \<Rightarrow> f64" where
  "total_energy t = tel_actuation_energy t + tel_idle_energy t"

definition realized_energy_per_metre :: "gait_telemetry \<Rightarrow> f64" where
  "realized_energy_per_metre t = (if lit (1 / 1000000000) < tel_distance t then tel_actuation_energy t / tel_distance t else 0)"

record pulse_drift_gait =
  gt_model :: energy_model
  gt_params :: gait_params
  gt_phase :: phase
  gt_speed :: f64
  gt_distance :: f64
  gt_elapsed :: f64
  gt_actuation_energy :: f64
  gt_idle_energy :: f64
  pulse_paid_dv :: f64

definition gait_new :: "energy_model \<Rightarrow> gait_params \<Rightarrow> pulse_drift_gait option" where
  "gait_new m p = map_option (\<lambda>q.
     \<lparr>gt_model = m, gt_params = q, gt_phase = Pulse, gt_speed = drift_floor q, gt_distance = 0, gt_elapsed = 0,
      gt_actuation_energy = 0, gt_idle_energy = 0, pulse_paid_dv = 0\<rparr>) (sanitized p)"

text \<open>The powered phase: paid impulse, and at the peak the recaptured bonus and the switch to the coast.\<close>

definition pulse_phase :: "f64 \<Rightarrow> pulse_drift_gait \<Rightarrow> pulse_drift_gait" where
  "pulse_phase dt g =
    (let dv = pulse_accel (gt_params g) * dt;
         g1 = g\<lparr>gt_speed := gt_speed g + dv, pulse_paid_dv := pulse_paid_dv g + dv,
                gt_actuation_energy := gt_actuation_energy g + e_per_dv (gt_model g) * dv\<rparr>
     in if peak_speed (gt_params g) \<le> gt_speed g1
        then let r = clamp_lit 0 (lit (999/1000)) (recapture (gt_model g))
             in g1\<lparr>gt_speed := gt_speed g1 + r * pulse_paid_dv g1, pulse_paid_dv := 0, gt_phase := Drift\<rparr>
        else g1)"

definition drift_phase :: "f64 \<Rightarrow> pulse_drift_gait \<Rightarrow> pulse_drift_gait" where
  "drift_phase dt g =
    (let g1 = g\<lparr>gt_speed := gt_speed g / (1 + drag_k (gt_model g) * dt)\<rparr>
     in if gt_speed g1 \<le> drift_floor (gt_params g) then g1\<lparr>gt_phase := Pulse\<rparr> else g1)"

definition gait_step :: "f64 \<Rightarrow> pulse_drift_gait \<Rightarrow> pulse_drift_gait \<times> f64" where
  "gait_step dt0 g =
    (let dt = fmax dt0 0;
         g1 = g\<lparr>gt_idle_energy := gt_idle_energy g + idle_power (gt_model g) * dt\<rparr>;
         g2 = (case gt_phase g1 of Pulse \<Rightarrow> pulse_phase dt g1 | Drift \<Rightarrow> drift_phase dt g1);
         g3 = g2\<lparr>gt_speed := fmax (gt_speed g2) 0\<rparr>;
         g4 = g3\<lparr>gt_distance := gt_distance g3 + gt_speed g3 * dt, gt_elapsed := gt_elapsed g3 + dt\<rparr>
     in (g4, gt_speed g4))"

definition telemetry :: "pulse_drift_gait \<Rightarrow> gait_telemetry" where
  "telemetry g = \<lparr>tel_phase = gt_phase g, tel_speed = gt_speed g, tel_distance = gt_distance g, tel_elapsed = gt_elapsed g,
     tel_actuation_energy = gt_actuation_energy g, tel_idle_energy = gt_idle_energy g\<rparr>"

definition constant_thrust_reference :: "pulse_drift_gait \<Rightarrow> f64" where
  "constant_thrust_reference g = actuation_energy_per_metre (gt_model g) ConstantThrust"

section \<open>Sanitising never panics\<close>

definition valid_params :: "gait_params \<Rightarrow> bool" where
  "valid_params p \<longleftrightarrow> valid (peak_speed p) \<and> valid (drift_floor p) \<and> valid (pulse_accel p)"

definition sane :: "gait_params \<Rightarrow> bool" where
  "sane q \<longleftrightarrow> 0 \<le> peak_speed q \<and> 0 \<le> pulse_accel q \<and> not_neg (drift_floor q) \<and> \<not> peak_speed q < drift_floor q \<and> valid (drift_floor q)"

lemma lit_nonneg: "0 \<le> q \<Longrightarrow> (0 :: 'a::len flt) \<le> lit q"
  by (simp add: lit_def rnd_nonneg)

lemma sanitized_sane:
  assumes "valid_params p"
  obtains q where "sanitized p = Some q" "sane q"
proof -
  define peak where "peak = fmax (peak_speed p) (lit (2/10))"
  obtain c where c: "(lit (1/1000) :: f64) = Fin c" "0 < c" "c \<le> 1/512"
  proof -
    have "representable TYPE(64) (1/1024)" "representable TYPE(64) (1/512)" by (rule representable_fraction; simp)+
    from lit_between[OF this, of "1/1000"] obtain r where "(lit (1/1000) :: f64) = Fin r" "1/1024 \<le> r" "r \<le> 1/512" by auto
    then show thesis by (intro that[of r]) simp_all
  qed
  have low: "(lit (1/8) :: f64) \<le> lit (2/10)" unfolding lit_def by (rule rnd_mono) simp
  moreover have "lit (2/10) \<le> peak" unfolding peak_def by (rule fmax_not_nan(2)) (simp add: lit_def)
  ultimately have peak: "Fin (1/8) \<le> peak" by (auto intro: flt_le_trans simp: lit_simps)
  have vp: "valid peak" using assms by (auto simp: peak_def valid_params_def lit_def intro: valid_fmax)
  have nn: "\<not> is_nan (peak - Fin c)" using peak by (cases peak) (auto simp: minus_flt_def plus_flt_def)
  have "(Fin (1/8) :: f64) - Fin c \<le> peak - Fin c"
    by (rule flt_sub_mono[OF peak]) (use nn in \<open>simp_all add: Fin_sub\<close>)
  moreover have "0 \<le> (Fin (1/8) :: f64) - Fin c" using c by (simp add: Fin_sub mk_nonneg)
  ultimately have bounds: "0 \<le> peak - Fin c" using flt_le_trans by blast
  have top: "peak - Fin c \<le> peak"
  proof (cases peak)
    case (Fin q)
    then show ?thesis using c vp by (simp add: Fin_sub mk_le_rval rnd_le_valid)
  qed (use peak c in \<open>auto simp: minus_flt_def plus_flt_def\<close>)
  let ?lower = "clamp_lit 0 (peak - Fin c) (drift_floor p)"
  let ?q = "\<lparr>peak_speed = peak, drift_floor = ?lower, pulse_accel = fmax (pulse_accel p) (Fin c)\<rparr>"
  have lower: "not_neg ?lower" "\<not> peak < ?lower"
    using clamp_lit_range[OF bounds, of "drift_floor p"] top flt_le_trans[of ?lower "peak - Fin c" peak]
    by (auto simp: not_neg_def dest: flt_le_not_less flt_less_nan)
  moreover have "0 \<le> peak" using flt_le_trans[OF _ peak, of 0] by simp
  moreover have "valid ?lower" using assms by (intro valid_clamp_lit) (simp_all add: valid_params_def)
  moreover have "0 \<le> fmax (pulse_accel p) (Fin c)" using fmax_not_nan(2)[of "Fin c" "pulse_accel p"] c flt_le_trans[of 0 "Fin c"] by simp
  ultimately have "sane ?q" by (simp add: sane_def)
  moreover have "sanitized p = Some ?q"
    unfolding sanitized_def Let_def peak_def[symmetric] c(1) fclamp_clamp_lit[OF bounds] by simp
  ultimately show thesis by (intro that)
qed

section \<open>The invariant\<close>

definition gait_ok :: "pulse_drift_gait \<Rightarrow> bool" where
  "gait_ok g \<longleftrightarrow> physical (gt_model g) \<and> sane (gt_params g) \<and> not_neg (gt_speed g) \<and> valid (gt_speed g) \<and>
     (gt_phase g = Pulse \<longrightarrow> \<not> peak_speed (gt_params g) < gt_speed g) \<and>
     (gt_phase g = Drift \<longrightarrow> pulse_paid_dv g = 0 \<and> 0 \<le> gt_speed g) \<and>
     not_neg (pulse_paid_dv g) \<and>
     valid (gt_distance g) \<and> valid (gt_elapsed g) \<and> valid (gt_actuation_energy g) \<and> valid (gt_idle_energy g)"

text \<open>What a step does to the telemetry.\<close>

definition gait_progress :: "pulse_drift_gait \<Rightarrow> pulse_drift_gait \<Rightarrow> bool" where
  "gait_progress g g' \<longleftrightarrow>
     \<not> gt_actuation_energy g' < gt_actuation_energy g \<and> \<not> gt_idle_energy g' < gt_idle_energy g \<and>
     \<not> gt_distance g' < gt_distance g \<and> \<not> gt_elapsed g' < gt_elapsed g \<and> 0 \<le> gt_speed g' \<and>
     (gt_phase g = Drift \<longrightarrow> gt_speed g' \<le> gt_speed g \<and> gt_actuation_energy g' = gt_actuation_energy g)"

text \<open>Everything but the phase's own update is the same in both phases.\<close>

definition finish_step :: "f64 \<Rightarrow> pulse_drift_gait \<Rightarrow> pulse_drift_gait" where
  "finish_step dt g = g\<lparr>gt_speed := fmax (gt_speed g) 0, gt_distance := gt_distance g + fmax (gt_speed g) 0 * dt,
     gt_elapsed := gt_elapsed g + dt\<rparr>"

lemma gait_step_phases:
  "fst (gait_step dt0 g) = (let dt = fmax dt0 0; g1 = g\<lparr>gt_idle_energy := gt_idle_energy g + idle_power (gt_model g) * dt\<rparr>
     in finish_step dt (case gt_phase g of Pulse \<Rightarrow> pulse_phase dt g1 | Drift \<Rightarrow> drift_phase dt g1))"
  by (simp add: gait_step_def finish_step_def Let_def cong: phase.case_cong)

lemma grows: "not_neg y \<Longrightarrow> valid x \<Longrightarrow> \<not> x + y < (x :: 'a::len flt)"
  using flt_add_ge[of x y] flt_le_not_less flt_less_nan not_nan_parts(2) not_neg_number by metis

lemma pulse_phase_ok:
  assumes "gait_ok g" "gt_phase g = Pulse" "0 \<le> dt"
  shows "not_neg (gt_speed (pulse_phase dt g))"
    "gt_phase (pulse_phase dt g) = Pulse \<Longrightarrow> \<not> peak_speed (gt_params g) \<le> gt_speed (pulse_phase dt g)"
    "gt_phase (pulse_phase dt g) = Drift \<Longrightarrow> pulse_paid_dv (pulse_phase dt g) = 0"
    "not_neg (pulse_paid_dv (pulse_phase dt g))"
    "gt_actuation_energy (pulse_phase dt g) = gt_actuation_energy g + e_per_dv (gt_model g) * (pulse_accel (gt_params g) * dt)"
    "not_neg (e_per_dv (gt_model g) * (pulse_accel (gt_params g) * dt))"
proof -
  have dv: "not_neg (pulse_accel (gt_params g) * dt)"
    using assms by (intro not_neg_mult not_neg_nonneg[OF assms(3)]) (simp add: gait_ok_def sane_def not_neg_nonneg)
  then show "not_neg (e_per_dv (gt_model g) * (pulse_accel (gt_params g) * dt))"
    using assms by (auto simp: gait_ok_def physical_def intro!: not_neg_mult)
  have r: "not_neg (clamp_lit 0 (lit (999/1000)) (recapture (gt_model g)))"
    using recapture_fraction_range(1)[of "gt_model g"] by (simp add: recapture_fraction_def)
  show "not_neg (gt_speed (pulse_phase dt g))" "not_neg (pulse_paid_dv (pulse_phase dt g))"
    using assms dv r by (auto simp: pulse_phase_def Let_def gait_ok_def intro!: not_neg_add not_neg_mult)
qed (use assms in \<open>auto simp: pulse_phase_def Let_def split: if_splits\<close>)

lemma drift_phase_ok:
  assumes "gait_ok g" "gt_phase g = Drift" "0 \<le> dt"
  shows "fmax (gt_speed (drift_phase dt g)) 0 \<le> gt_speed g" "not_neg (gt_speed (drift_phase dt g))"
    "gt_phase (drift_phase dt g) = Pulse \<Longrightarrow> gt_speed (drift_phase dt g) \<le> drift_floor (gt_params g)"
    "pulse_paid_dv (drift_phase dt g) = 0" "gt_actuation_energy (drift_phase dt g) = gt_actuation_energy g"
proof -
  have s: "0 \<le> gt_speed g" "valid (gt_speed g)" and paid: "pulse_paid_dv g = 0" using assms by (auto simp: gait_ok_def)
  have k: "not_neg (drag_k (gt_model g) * dt)"
    using assms by (intro not_neg_mult not_neg_nonneg[OF assms(3)]) (simp add: gait_ok_def physical_def)
  have d: "is_nan (1 + drag_k (gt_model g) * dt) \<or> 1 \<le> 1 + drag_k (gt_model g) * dt"
    using flt_add_ge[of "1 :: f64" "drag_k (gt_model g) * dt"] k not_nan_parts(2)
    by (auto simp: not_neg_def one_flt_def representable_numeral)
  have q: "gt_speed (drift_phase dt g) = gt_speed g / (1 + drag_k (gt_model g) * dt)"
    by (simp add: drift_phase_def Let_def)
  show nn: "not_neg (gt_speed (drift_phase dt g))"
    unfolding q using d s by (intro not_neg_div) (auto simp: divisor_ge_one not_neg_nonneg)
  show "fmax (gt_speed (drift_phase dt g)) 0 \<le> gt_speed g"
    unfolding q using flt_div_le[OF s(2,1)] d s(1) not_nan_parts(6) by (auto simp: fmax_def)
  show "pulse_paid_dv (drift_phase dt g) = 0" "gt_actuation_energy (drift_phase dt g) = gt_actuation_energy g"
    by (simp_all add: drift_phase_def Let_def paid)
qed (use assms in \<open>auto simp: drift_phase_def Let_def split: if_splits\<close>)

lemma phase_frame [simp]:
  "gt_model (pulse_phase dt g) = gt_model g" "gt_params (pulse_phase dt g) = gt_params g"
  "gt_distance (pulse_phase dt g) = gt_distance g" "gt_elapsed (pulse_phase dt g) = gt_elapsed g"
  "gt_idle_energy (pulse_phase dt g) = gt_idle_energy g"
  "gt_model (drift_phase dt g) = gt_model g" "gt_params (drift_phase dt g) = gt_params g"
  "gt_distance (drift_phase dt g) = gt_distance g" "gt_elapsed (drift_phase dt g) = gt_elapsed g"
  "gt_idle_energy (drift_phase dt g) = gt_idle_energy g"
  by (simp_all add: pulse_phase_def drift_phase_def Let_def)

lemma finish_step_ok:
  assumes "physical (gt_model g)" "sane (gt_params g)" "not_neg (gt_speed g)" "valid (gt_speed g)" "0 \<le> dt"
    "valid (gt_distance g)" "valid (gt_elapsed g)" "valid (gt_actuation_energy g)" "valid (gt_idle_energy g)"
    "gt_phase g = Pulse \<Longrightarrow> \<not> peak_speed (gt_params g) < gt_speed g"
    "gt_phase g = Drift \<Longrightarrow> pulse_paid_dv g = 0" "not_neg (pulse_paid_dv g)"
  shows "gait_ok (finish_step dt g)" "\<not> gt_distance (finish_step dt g) < gt_distance g" "\<not> gt_elapsed (finish_step dt g) < gt_elapsed g"
proof -
  have p: "not_neg (fmax (gt_speed g) 0 * dt)"
    by (intro not_neg_mult not_neg_nonneg fmax_zero assms(5))
  have "\<not> peak_speed (gt_params g) < fmax (gt_speed g) 0" if "gt_phase g = Pulse"
    using assms(10)[OF that] assms(2) by (auto simp: fmax_def sane_def dest: flt_le_not_less)
  then show "gait_ok (finish_step dt g)"
    using assms fmax_zero(1)[of "gt_speed g"] by (auto simp: gait_ok_def finish_step_def not_neg_nonneg valid_fmax)
  show "\<not> gt_distance (finish_step dt g) < gt_distance g" "\<not> gt_elapsed (finish_step dt g) < gt_elapsed g"
    using grows[OF p assms(6)] grows[OF not_neg_nonneg[OF assms(5)] assms(7)] by (simp_all add: finish_step_def)
qed

lemma gait_step_ok:
  assumes "gait_ok g"
  shows "gait_ok (fst (gait_step dt0 g)) \<and> gait_progress g (fst (gait_step dt0 g))"
proof -
  define dt where "dt = fmax dt0 (0 :: f64)"
  define g1 where "g1 = g\<lparr>gt_idle_energy := gt_idle_energy g + idle_power (gt_model g) * dt\<rparr>"
  have dt: "0 \<le> dt" by (simp add: dt_def fmax_zero)
  have g1: "gait_ok g1" "gt_phase g1 = gt_phase g" using assms by (auto simp: gait_ok_def g1_def)
  have idle: "\<not> gt_idle_energy g1 < gt_idle_energy g"
    using assms grows[OF not_neg_mult[OF _ not_neg_nonneg[OF dt]], of "idle_power (gt_model g)" "gt_idle_energy g"]
    by (simp add: g1_def gait_ok_def physical_def)
  have base: "physical (gt_model g1)" "sane (gt_params g1)" "valid (gt_distance g1)" "valid (gt_elapsed g1)"
    "valid (gt_idle_energy g1)" "valid (gt_actuation_energy g1)"
    using g1(1) by (simp_all add: gait_ok_def)
  have params: "gt_params g1 = gt_params g" "gt_distance g1 = gt_distance g" "gt_elapsed g1 = gt_elapsed g"
    "gt_speed g1 = gt_speed g" "gt_actuation_energy g1 = gt_actuation_energy g" by (simp_all add: g1_def)
  show ?thesis
  proof (cases "gt_phase g")
    case Pulse
    note ph = pulse_phase_ok[OF g1(1) _ dt, unfolded g1(2), OF Pulse]
    have "valid (gt_speed (pulse_phase dt g1))" "valid (gt_actuation_energy (pulse_phase dt g1))"
      by (simp_all add: pulse_phase_def Let_def)
    note fin = finish_step_ok[of "pulse_phase dt g1" dt, simplified, OF base(1,2) ph(1) this(1) dt base(3,4) this(2) base(5) _ ph(3) ph(4)]
    have "\<not> peak_speed (gt_params g1) < gt_speed (pulse_phase dt g1)" if "gt_phase (pulse_phase dt g1) = Pulse"
      using ph(2)[OF that] flt_less_imp_le by blast
    note fin = fin[OF this]
    have "\<not> gt_actuation_energy (pulse_phase dt g1) < gt_actuation_energy g"
      unfolding ph(5) using grows[OF ph(6) base(6)] by (simp add: params)
    then show ?thesis using Pulse fin idle
      by (simp add: gait_step_phases Let_def dt_def[symmetric] g1_def[symmetric] gait_progress_def params finish_step_def fmax_zero)
  next
    case Drift
    note ph = drift_phase_ok[OF g1(1) _ dt, unfolded g1(2), OF Drift]
    have "valid (gt_speed (drift_phase dt g1))" by (simp add: drift_phase_def Let_def)
    note fin = finish_step_ok[of "drift_phase dt g1" dt, simplified, OF base(1,2) ph(2) this dt base(3,4) _ base(5) _ ph(4)]
    have "\<not> peak_speed (gt_params g1) < gt_speed (drift_phase dt g1)" if "gt_phase (drift_phase dt g1) = Pulse"
      using ph(3)[OF that] base(2) flt_less_le_trans[of _ "gt_speed (drift_phase dt g1)"] by (auto simp: sane_def)
    note fin = fin[OF _ this]
    have "gait_ok (finish_step dt (drift_phase dt g1)) \<and> \<not> gt_distance (finish_step dt (drift_phase dt g1)) < gt_distance g1 \<and>
        \<not> gt_elapsed (finish_step dt (drift_phase dt g1)) < gt_elapsed g1"
      using fin base(6) ph(4,5) by simp
    then show ?thesis using Drift idle ph(1,5)
      by (simp add: gait_step_phases Let_def dt_def[symmetric] g1_def[symmetric] gait_progress_def params finish_step_def fmax_zero)
  qed
qed

definition gait_run :: "pulse_drift_gait \<Rightarrow> f64 list \<Rightarrow> pulse_drift_gait" where
  "gait_run g dts = foldl (\<lambda>g dt. fst (gait_step dt g)) g dts"

interpretation gait_runs: op_invariant "\<lambda>g dt. fst (gait_step dt g)" gait_ok
  by unfold_locales (use gait_step_ok in blast)

lemma gait_run_ok: "gait_ok g \<Longrightarrow> gait_ok (gait_run g dts)"
  unfolding gait_run_def by (rule gait_runs.run_inv)

text \<open>
  C16. For an energy model without negative parameters and valid parameters \<open>new\<close> does not panic, and over every run of steps of any length, NaN and negative lengths
  included: a pulse never overshoots the peak speed without turning into a drift, a drift has no unpaid impulse left,
  never gains speed and costs no actuation energy (the idle load is charged while drifting as well), and speed is a number that is not
  negative while no counter of the telemetry ever decreases.
\<close>
theorem gait_stays_in_its_band:
  assumes "physical m" "valid_params p"
  shows "\<exists>g0. gait_new m p = Some g0 \<and> gait_ok (gait_run g0 dts) \<and>
    gait_progress (gait_run g0 dts) (fst (gait_step dt (gait_run g0 dts)))"
proof -
  obtain q where q: "sanitized p = Some q" "sane q" using sanitized_sane[OF assms(2)] .
  then obtain g0 where g0: "gait_new m p = Some g0" "gait_ok g0"
    using assms(1) by (auto simp: gait_new_def gait_ok_def sane_def)
  then show ?thesis using gait_run_ok gait_step_ok by blast
qed

theorem gait_stays_in_its_band_witness:
  "\<exists>g0. gait_new energy_model_default gait_params_default = Some g0 \<and> gait_ok (gait_run g0 [lit 1, NaN, lit 2]) \<and>
    gait_progress (gait_run g0 [lit 1, NaN, lit 2]) (fst (gait_step (lit 1) (gait_run g0 [lit 1, NaN, lit 2])))"
proof (rule gait_stays_in_its_band)
  show "physical energy_model_default"
    by (simp add: physical_def energy_model_default_def not_neg_nonneg lit_nonneg)
  show "valid_params gait_params_default" by (simp add: valid_params_def gait_params_default_def representable_numeral)
qed

text \<open>
  The documentation says that the realised actuation cost reproduces the closed form whatever the band is. A full cycle with
  drag 1/4, recapture 1/2 and the band from 2 to 6 ends in the phase and at the speed it began with, after
  an energy of 4 and a distance of 32: an eighth per metre, where the closed form gives a sixth.
\<close>

definition cycle_model :: energy_model where
  "cycle_model = \<lparr>drag_k = Fin (1/4), e_per_dv = Fin 1, recapture = Fin (1/2), idle_power = Fin 0\<rparr>"

lemma closed_form_is_only_a_bound:
  "\<exists>g0. gait_new cycle_model gait_params_default = Some g0 \<and>
    gt_phase (gait_run g0 [Fin 1, Fin 4, Fin 4]) = gt_phase g0 \<and> gt_speed (gait_run g0 [Fin 1, Fin 4, Fin 4]) = gt_speed g0 \<and>
    pulse_paid_dv (gait_run g0 [Fin 1, Fin 4, Fin 4]) = pulse_paid_dv g0 \<and>
    realized_energy_per_metre (telemetry (gait_run g0 [Fin 1, Fin 4, Fin 4])) = Fin (1/8) \<and>
    Fin (5/32) < actuation_energy_per_metre cycle_model PulseDrift"
proof -
  have reps: "representable TYPE(64) (1/1024)" "representable TYPE(64) (1/512)" by (rule representable_fraction; simp)+
  obtain c where c: "(lit (1/1000) :: f64) = Fin c" "1/1024 \<le> c" "c \<le> 1/512" using lit_between[OF reps, of "1/1000"] by auto
  have "representable TYPE(64) (1/8)" "representable TYPE(64) (1/4)" by (rule representable_fraction; simp)+
  then obtain d where d: "(lit (2/10) :: f64) = Fin d" "1/8 \<le> d" "d \<le> 1/4" using lit_between[of "1/8" "1/4" "2/10", where 'a = 64] by auto
  obtain b where b: "(lit (999/1000) :: f64) = Fin b" "0 < b" "b < 1" by (rule recapture_bound)
  have "(lit (1/2) :: f64) \<le> lit (999/1000)" unfolding lit_def by (rule rnd_mono) simp
  then have b2: "1/2 \<le> b" by (simp add: b(1))
  have "(rnd (6 - 1/512) :: f64) \<le> rnd (6 - c)" by (rule rnd_mono) (use c in simp)
  then have "(Fin (3071/512) :: f64) \<le> rnd (6 - c)" by simp
  then have "\<not> rnd (6 - c) < (Fin 2 :: f64)" "(0 :: f64) \<le> rnd (6 - c)" by (cases "rnd (6 - c) :: f64"; simp)+
  then have s: "sanitized gait_params_default = Some \<lparr>peak_speed = Fin 6, drift_floor = Fin 2, pulse_accel = Fin 4\<rparr>"
    using c d by (simp add: sanitized_def gait_params_default_def fmax_def fclamp_def Let_def Fin_sub mk_def)
  obtain g0 where g0: "gait_new cycle_model gait_params_default = Some g0" and
    g: "g0 = \<lparr>gt_model = cycle_model, gt_params = \<lparr>peak_speed = Fin 6, drift_floor = Fin 2, pulse_accel = Fin 4\<rparr>, gt_phase = Pulse,
      gt_speed = Fin 2, gt_distance = 0, gt_elapsed = 0, gt_actuation_energy = 0, gt_idle_energy = 0, pulse_paid_dv = 0\<rparr>"
    by (simp add: gait_new_def s)
  have 1: "fst (gait_step (Fin 1) g0) = g0\<lparr>gt_phase := Drift, gt_speed := Fin 8, gt_distance := Fin 8, gt_elapsed := Fin 1, gt_actuation_energy := Fin 4\<rparr>"
    using b b2 by (simp add: g gait_step_phases Let_def finish_step_def pulse_phase_def cycle_model_def fin_arith fmax_def clamp_lit_def)
  have 2: "fst (gait_step (Fin 4) (fst (gait_step (Fin 1) g0))) =
      g0\<lparr>gt_phase := Drift, gt_speed := Fin 4, gt_distance := Fin 24, gt_elapsed := Fin 5, gt_actuation_energy := Fin 4\<rparr>"
    unfolding 1 by (simp add: g gait_step_phases Let_def finish_step_def drift_phase_def cycle_model_def fin_arith fmax_def)
  have 3: "gait_run g0 [Fin 1, Fin 4, Fin 4] =
      g0\<lparr>gt_phase := Pulse, gt_speed := Fin 2, gt_distance := Fin 32, gt_elapsed := Fin 9, gt_actuation_energy := Fin 4\<rparr>"
    unfolding gait_run_def foldl_Cons foldl_Nil 2 by (simp add: g gait_step_phases Let_def finish_step_def drift_phase_def cycle_model_def fin_arith fmax_def)
  have "(lit (1 / 1000000000) :: f64) \<le> lit 1" unfolding lit_def by (rule rnd_mono) simp
  then have "(lit (1 / 1000000000) :: f64) < Fin 32" using flt_le_less_trans[of _ "lit 1" "Fin 32"] by simp
  then have real: "realized_energy_per_metre (telemetry (gait_run g0 [Fin 1, Fin 4, Fin 4])) = Fin (1/8)"
    unfolding 3 by (simp add: realized_energy_per_metre_def telemetry_def g fin_arith)
  have "recapture_fraction cycle_model = Fin (1/2)" using b b2 by (simp add: recapture_fraction_def clamp_lit_def cycle_model_def zero_flt_def)
  moreover have "(rnd (21/128) :: f64) \<le> rnd (1/6)" by (rule rnd_mono) simp
  then have "Fin (5/32) < (rnd (1/6) :: f64)" by (cases "rnd (1/6) :: f64") auto
  ultimately have "Fin (5/32) < actuation_energy_per_metre cycle_model PulseDrift"
    by (simp add: cycle_model_def fin_arith)
  moreover have "gt_phase (gait_run g0 [Fin 1, Fin 4, Fin 4]) = gt_phase g0" "gt_speed (gait_run g0 [Fin 1, Fin 4, Fin 4]) = gt_speed g0"
    "pulse_paid_dv (gait_run g0 [Fin 1, Fin 4, Fin 4]) = pulse_paid_dv g0" unfolding 3 by (simp_all add: g)
  ultimately show ?thesis using g0 real by blast
qed

end
