(* ===== verification/JellyBloom.thy ===== *)
theory JellyBloom
  imports JellyEnergy
begin

text \<open>
  The bloom aggregation of the crate \<open>ruv-jellyfish\<close>: the pluggable fields of \<open>field.rs\<close> and the local steering rule of
  \<open>bloom.rs\<close>, with the range of its aggregation weight and its locality. A trait object is the record of its methods.
\<close>

section \<open>Fields\<close>

type_synonym flow_field = "vec3 \<Rightarrow> f64 \<Rightarrow> vec3"

record value_field =
  value_at :: "vec3 \<Rightarrow> f64"
  gradient_at :: "vec3 \<Rightarrow> f64 \<Rightarrow> vec3"

text \<open>The default method: a central difference over the ground plane.\<close>

definition default_gradient :: "(vec3 \<Rightarrow> f64) \<Rightarrow> vec3 \<Rightarrow> f64 \<Rightarrow> vec3" where
  "default_gradient v p h0 =
    (let h = fmax h0 (lit (1 / 1000000));
         dx = v (p\<lparr>vec_x := vec_x p + h\<rparr>) - v (p\<lparr>vec_x := vec_x p - h\<rparr>);
         dy = v (p\<lparr>vec_y := vec_y p + h\<rparr>) - v (p\<lparr>vec_y := vec_y p - h\<rparr>)
     in \<lparr>vec_x = dx / (lit 2 * h), vec_y = dy / (lit 2 * h), vec_z = 0\<rparr>)"

definition no_flow :: flow_field where "no_flow p t = vec_zero"

definition uniform_flow :: "vec3 \<Rightarrow> flow_field" where "uniform_flow v p t = v"

record convergent_flow =
  cf_centre :: vec3
  cf_strength :: f64
  cf_scale :: f64

definition convergent_flow_at :: "convergent_flow \<Rightarrow> flow_field" where
  "convergent_flow_at c p t =
    (let to_centre = vec_sub (cf_centre c) p; d = vec_norm to_centre
     in if d < lit (1 / 1000000) then vec_zero
        else let speed = cf_strength c * (d / (d + fmax (cf_scale c) (lit (1 / 1000000))))
             in vec_scale to_centre (speed / d))"

record gaussian_hotspot =
  hs_centre :: vec3
  hs_peak :: f64
  hs_sigma :: f64

text \<open>\<open>e\<close> is \<open>f64::exp\<close>.\<close>

definition hotspot_value :: "(f64 \<Rightarrow> f64) \<Rightarrow> gaussian_hotspot \<Rightarrow> vec3 \<Rightarrow> f64" where
  "hotspot_value e h p =
    (let d2 = norm_sq (vec_sub (hs_centre h) p); s = fmax (hs_sigma h) (lit (1 / 1000000)); s2 = s * s
     in hs_peak h * e (- d2 / (lit 2 * s2)))"

definition hotspot_gradient :: "(f64 \<Rightarrow> f64) \<Rightarrow> gaussian_hotspot \<Rightarrow> vec3 \<Rightarrow> f64 \<Rightarrow> vec3" where
  "hotspot_gradient e h p step =
    (let s = fmax (hs_sigma h) (lit (1 / 1000000)); s2 = s * s;
         v = hotspot_value e h p; to_centre = vec_sub (hs_centre h) p
     in vec_scale \<lparr>vec_x = vec_x to_centre, vec_y = vec_y to_centre, vec_z = 0\<rparr> (v / s2))"

type_synonym hotspot_field = "gaussian_hotspot list"

definition hotspot_push :: "gaussian_hotspot \<Rightarrow> hotspot_field \<Rightarrow> hotspot_field" where
  "hotspot_push h hs = hs @ [h]"

definition hotspots :: "(f64 \<Rightarrow> f64) \<Rightarrow> hotspot_field \<Rightarrow> value_field" where
  "hotspots e hs =
    \<lparr>value_at = (\<lambda>p. fsum (map (\<lambda>h. hotspot_value e h p) hs)),
     gradient_at = (\<lambda>p step. foldl (\<lambda>acc h. vec_add acc (hotspot_gradient e h p step)) vec_zero hs)\<rparr>"

section \<open>The local rule\<close>

record bloom_params =
  grad_gain :: f64
  min_spacing :: f64
  separation_gain :: f64
  neighbour_radius :: f64
  cohesion_gain :: f64
  dispersion_gain :: f64
  flat_gradient :: f64
  gradient_step :: f64
  bp_max_speed :: f64
  max_airspeed :: f64

definition bloom_params_default :: bloom_params where
  "bloom_params_default =
    \<lparr>grad_gain = lit 2, min_spacing = lit 8, separation_gain = lit 3, neighbour_radius = lit 40, cohesion_gain = lit 1,
     dispersion_gain = lit (3/2), flat_gradient = lit (1/1000), gradient_step = lit 1, bp_max_speed = lit 5,
     max_airspeed = lit 10\<rparr>"

record bloom_command =
  desired_ground_velocity :: vec3
  commanded_airspeed :: vec3
  expected_ground_velocity :: vec3
  relative_flow_speed :: f64
  aggregation :: f64

definition aggregation_weight :: "bloom_params \<Rightarrow> vec3 \<Rightarrow> f64" where
  "aggregation_weight p grad = (let gmag = vec_norm grad in gmag / (gmag + fmax (flat_gradient p) tiny))"

definition separation :: "bloom_params \<Rightarrow> vec3 \<Rightarrow> vec3 list \<Rightarrow> vec3" where
  "separation p pos neighbours =
    foldl (\<lambda>sep n. let away = vec_sub pos n; d = vec_norm away
                   in if lit (1 / 1000000) < d \<and> d < min_spacing p
                      then vec_add sep (vec_scale (normalized away) ((min_spacing p - d) / min_spacing p))
                      else sep) vec_zero neighbours"

definition centroid_sum :: "bloom_params \<Rightarrow> vec3 \<Rightarrow> vec3 list \<Rightarrow> vec3 \<times> f64" where
  "centroid_sum p pos neighbours =
    foldl (\<lambda>(c, count) n. if vec_distance pos n < neighbour_radius p then (vec_add c n, count + lit 1) else (c, count))
      (vec_zero, 0) neighbours"

definition bloom_command_at ::
  "bloom_params \<Rightarrow> vec3 \<Rightarrow> vec3 list \<Rightarrow> value_field \<Rightarrow> flow_field \<Rightarrow> f64 \<Rightarrow> bloom_command" where
  "bloom_command_at p pos neighbours v flow t =
    (let grad = gradient_at v pos (gradient_step p);
         aggr = aggregation_weight p grad;
         climb = vec_scale (normalized grad) (grad_gain p * aggr);
         sep = vec_scale (separation p pos neighbours) (separation_gain p);
         (centroid, count) = centroid_sum p pos neighbours;
         (coh, disp) =
           (if 0 < count then
              let to_centroid = normalized (vec_sub (vec_scale centroid (lit 1 / count)) pos)
              in (vec_scale to_centroid (cohesion_gain p * aggr), vec_scale to_centroid (- dispersion_gain p * (lit 1 - aggr)))
            else (vec_zero, vec_zero));
         desired = clamped (vec_add (vec_add (vec_add climb sep) coh) disp) (bp_max_speed p);
         f = flow pos t;
         airspeed = clamped (vec_sub desired f) (max_airspeed p)
     in \<lparr>desired_ground_velocity = desired, commanded_airspeed = airspeed, expected_ground_velocity = vec_add airspeed f,
         relative_flow_speed = vec_norm airspeed, aggregation = aggr\<rparr>)"

definition bloom_advance ::
  "bloom_params \<Rightarrow> vec3 \<Rightarrow> vec3 list \<Rightarrow> value_field \<Rightarrow> flow_field \<Rightarrow> f64 \<Rightarrow> f64 \<Rightarrow> vec3" where
  "bloom_advance p pos neighbours v flow t dt =
    vec_add pos (vec_scale (expected_ground_velocity (bloom_command_at p pos neighbours v flow t)) dt)"

definition step_fleet :: "bloom_params \<Rightarrow> vec3 list \<Rightarrow> value_field \<Rightarrow> flow_field \<Rightarrow> f64 \<Rightarrow> f64 \<Rightarrow> vec3 list" where
  "step_fleet p positions v flow t dt =
    map (\<lambda>(i, pos). bloom_advance p pos (map snd (filter (\<lambda>(j, _). j \<noteq> i) (enumerate 0 positions))) v flow t dt)
      (enumerate 0 positions)"

section \<open>The aggregation weight\<close>

lemma norm_sq_not_neg: "not_neg (norm_sq a)"
proof -
  have "not_neg (x * x)" for x :: f64 using square_nonneg[of x] by (cases "is_nan x") (auto simp: not_neg_def)
  then show ?thesis by (simp add: norm_sq_def vec_dot_def not_neg_add)
qed

lemma vec_norm_not_neg: "not_neg (vec_norm a)"
  using norm_sq_not_neg[of a] fsqrt_nonneg[of "norm_sq a"] by (auto simp: vec_norm_def not_neg_def)

lemma tiny_pos: "0 < tiny"
proof -
  have "(rnd (1 / 1000000000000) :: f64) = Fin (4951760157141521 / 2 ^ 92)"
    using rnd_decimal[of 4951760157141521 92 "1 / 1000000000000", where 'a = 64] by (simp add: abs_if)
  then show ?thesis by (simp add: tiny_def lit_def)
qed

lemma share_le_one:
  assumes "valid x" "0 \<le> x" "0 < c" "0 < x + c" "\<not> is_nan (x / (x + c))"
  shows "x / (x + c) \<le> (1 :: 'a::len flt)"
proof -
  have "\<not> is_nan (x + c)" by (rule not_nan_parts(6)[OF assms(5)])
  then have "x \<le> x + c" using assms by (intro flt_add_ge) (simp_all add: flt_less_imp_le)
  then show ?thesis using assms by (intro flt_quotient_le_one)
qed

lemma vec_norm_valid: "valid (vec_norm a)"
  by (simp add: vec_norm_def norm_sq_def vec_dot_def fsqrt_valid)

lemma aggregation_weight_range: "is_nan (aggregation_weight p grad) \<or> in_range 0 1 (aggregation_weight p grad)"
proof -
  let ?g = "vec_norm grad" and ?c = "fmax (flat_gradient p) tiny"
  have c: "0 < ?c" using fmax_not_nan(2)[of tiny "flat_gradient p"] tiny_pos flt_less_le_trans flt_less_nan by blast
  show ?thesis
  proof (cases "is_nan (?g / (?g + ?c))")
    case False
    note n = not_nan_parts(5,6)[OF False]
    have g: "0 \<le> ?g" using vec_norm_not_neg not_neg_number n(1) by blast
    have v: "valid tiny" by (simp add: tiny_def lit_def)
    then have "tiny \<le> 0 + tiny" using zero_add_number[of tiny] tiny_pos flt_less_nan by blast
    also have "0 + tiny \<le> ?g + ?c"
      using g n(2) flt_le_nan[OF calculation] fmax_not_nan(2)[of tiny "flat_gradient p"] flt_less_nan[OF tiny_pos] by (intro flt_add_mono) auto
    finally (flt_le_trans) have pos: "0 < ?g + ?c" using tiny_pos flt_less_le_trans by blast
    then have "not_neg (?g / (?g + ?c))" using vec_norm_not_neg by (intro not_neg_div) auto
    then show ?thesis using share_le_one[OF vec_norm_valid g c pos False] not_neg_number False
      by (auto simp: aggregation_weight_def Let_def in_range_def)
  qed (simp add: aggregation_weight_def Let_def)
qed

lemma bloom_command_aggregation:
  "aggregation (bloom_command_at p pos ns v flow t) = aggregation_weight p (gradient_at v pos (gradient_step p))"
  by (simp add: bloom_command_at_def Let_def split: prod.split)

section \<open>Locality\<close>

text \<open>The neighbours the rule looks at: nearer than the spacing or the radius; a distance that is not a number is neither.\<close>

definition near :: "bloom_params \<Rightarrow> vec3 \<Rightarrow> vec3 \<Rightarrow> bool" where
  "near p pos n \<longleftrightarrow> vec_distance pos n < min_spacing p \<or> vec_distance pos n < neighbour_radius p"

lemma foldl_filter_id: "(\<And>acc x. \<not> P x \<Longrightarrow> f acc x = acc) \<Longrightarrow> foldl f a (filter P xs) = foldl f a xs"
  by (induction xs arbitrary: a) auto

lemma separation_near: "separation p pos (filter (near p pos) ns) = separation p pos ns"
  unfolding separation_def by (rule foldl_filter_id) (simp add: near_def vec_distance_def Let_def)

lemma centroid_near: "centroid_sum p pos (filter (near p pos) ns) = centroid_sum p pos ns"
  unfolding centroid_sum_def by (rule foldl_filter_id) (simp add: near_def split: prod.split)

lemma bloom_command_near: "bloom_command_at p pos (filter (near p pos) ns) v flow t = bloom_command_at p pos ns v flow t"
  by (simp add: bloom_command_at_def separation_near centroid_near)

lemma others_of: "i < length xs \<Longrightarrow>
    map snd (filter (\<lambda>(j, _). j \<noteq> i) (enumerate 0 xs)) = take i xs @ drop (Suc i) xs"
proof -
  assume i: "i < length xs"
  have below: "map snd (filter (\<lambda>(j, _). j \<noteq> i) (enumerate n ys)) = ys" if "i < n \<or> n + length ys \<le> i" for n and ys :: "'a list"
    using that by (induction ys arbitrary: n) auto
  have "enumerate 0 xs = enumerate 0 (take i xs) @ (i, xs ! i) # enumerate (Suc i) (drop (Suc i) xs)"
    using i by (metis add_0 enumerate_append_eq enumerate_simps(2) id_take_nth_drop length_take min.absorb4)
  then show ?thesis using below[of 0 "take i xs"] below[of "Suc i" "drop (Suc i) xs"] i by simp
qed

text \<open>
  The bloom is a local rule with a bounded weight: every drone of the fleet moves by its own command on the drones
  nearer than its spacing or radius, in the order of the fleet, so that a drone out of reach, or one whose
  position is not a number, changes nothing; and the aggregation weight of every command is between 0 and 1,
  both included, or not a number.
\<close>
theorem bloom_is_local:
  "step_fleet p ps v flow t dt =
     map (\<lambda>i. bloom_advance p (ps ! i) (filter (near p (ps ! i)) (take i ps @ drop (Suc i) ps)) v flow t dt) [0..<length ps]
   \<and> (let w = aggregation (bloom_command_at p pos ns v flow t) in is_nan w \<or> in_range 0 1 w)"
proof
  show "step_fleet p ps v flow t dt =
     map (\<lambda>i. bloom_advance p (ps ! i) (filter (near p (ps ! i)) (take i ps @ drop (Suc i) ps)) v flow t dt) [0..<length ps]"
    by (rule nth_equalityI)
      (simp_all add: step_fleet_def nth_enumerate_eq others_of bloom_advance_def bloom_command_near del: filter_append)
  show "let w = aggregation (bloom_command_at p pos ns v flow t) in is_nan w \<or> in_range 0 1 w"
    by (simp add: Let_def bloom_command_aggregation aggregation_weight_range)
qed

text \<open>A drone whose position is not a number is seen by nobody.\<close>

lemma nan_is_not_near: "is_nan (vec_x n) \<or> is_nan (vec_y n) \<or> is_nan (vec_z n) \<Longrightarrow> \<not> near p pos n"
proof -
  assume "is_nan (vec_x n) \<or> is_nan (vec_y n) \<or> is_nan (vec_z n)"
  then have "is_nan (norm_sq (vec_sub pos n))"
    by (auto simp: norm_sq_def vec_dot_def vec_sub_def)
  then have "is_nan (vec_distance pos n)" by (simp add: vec_distance_def vec_norm_def)
  then show ?thesis by (auto simp: near_def dest: flt_less_nan)
qed

text \<open>The documentation gives the weight as less than one; a steep gradient reaches one, where dispersion vanishes.\<close>

lemma weight_reaches_one:
  "aggregation_weight bloom_params_default \<lparr>vec_x = Fin 6755399441055744, vec_y = 0, vec_z = 0\<rparr> = 1"
proof -
  have "representable TYPE(64) (9 * 2 ^ 102)"
    unfolding representable_def by (rule exI[of _ 9], rule exI[of _ 102]) (simp add: power_int_def)
  then have "(rnd (9 * 2 ^ 102) :: f64) = Fin (9 * 2 ^ 102)" by (rule rnd_exact)
  then have norm: "vec_norm \<lparr>vec_x = Fin 6755399441055744, vec_y = 0, vec_z = 0\<rparr> = Fin 6755399441055744"
    using fsqrt_squares[of 6755399441055744, where 'a = 64] by (simp add: vec_norm_def norm_sq_def vec_dot_def fin_arith)
  have reps: "representable TYPE(64) (1/1024)" "representable TYPE(64) (1/512)" by (rule representable_fraction; simp)+
  obtain c where c: "(lit (1/1000) :: f64) = Fin c" "1/1024 \<le> c" "c \<le> 1/512" using lit_between[OF reps, of "1/1000"] by auto
  have "tiny \<le> Fin (1/1024)"
    using rnd_mono[of "1 / 1000000000000" "1 / 1024", where 'a = 64] rnd_exact[OF reps(1)] by (simp add: tiny_def lit_def)
  then have "tiny \<le> Fin c" using c(2) flt_le_trans[of tiny "Fin (1/1024)" "Fin c"] by simp
  then have m: "fmax (Fin c) tiny = Fin c" using flt_le_not_less by (auto simp: fmax_def)
  have "(rnd (6755399441055744 + c) :: f64) = Fin 6755399441055744"
    using rnd_decimal[of 6755399441055744 0 "6755399441055744 + c", where 'a = 64] c by simp
  then show ?thesis
    using c(2) by (simp add: aggregation_weight_def Let_def norm bloom_params_default_def c(1) m) (simp add: fin_arith)
qed

end
