(* ===== verification/JellyControl.thy ===== *)
theory JellyControl
  imports JellyGait JellyBloom
begin

text \<open>
  The per-drone facade of \<open>controller.rs\<close>: cruising with the gait and loitering with the bloom, both paid from one energy
  budget, and what the budget guarantees over every run.
\<close>

section \<open>The controller\<close>

record jelly =
  jc_energy :: energy_model
  jc_gait :: pulse_drift_gait
  jc_bloom :: bloom_params
  jc_budget :: f64
  jc_spent :: f64
  gait_energy_mark :: f64

record loiter_step =
  ls_command :: bloom_command
  ls_power :: f64
  ls_budget_remaining :: f64

text \<open>\<open>None\<close> stands for the panic of \<open>clamp\<close> in \<open>sanitized\<close>.\<close>

definition jelly_new :: "energy_model \<Rightarrow> gait_params \<Rightarrow> bloom_params \<Rightarrow> f64 \<Rightarrow> jelly option" where
  "jelly_new m gp bp budget = map_option (\<lambda>g.
     \<lparr>jc_energy = m, jc_gait = g, jc_bloom = bp, jc_budget = fmax budget 0, jc_spent = 0, gait_energy_mark = 0\<rparr>) (gait_new m gp)"

definition with_budget :: "f64 \<Rightarrow> jelly option" where
  "with_budget budget = jelly_new energy_model_default gait_params_default bloom_params_default budget"

definition debit :: "f64 \<Rightarrow> jelly \<Rightarrow> jelly" where
  "debit joules c = c\<lparr>jc_spent := fmin (jc_spent c + joules) (jc_budget c)\<rparr>"

definition budget_remaining :: "jelly \<Rightarrow> f64" where
  "budget_remaining c = fmax (jc_budget c - jc_spent c) 0"

definition depleted :: "jelly \<Rightarrow> bool" where
  "depleted c \<longleftrightarrow> budget_remaining c \<le> 0"

definition jelly_cruise :: "f64 \<Rightarrow> jelly \<Rightarrow> jelly \<times> f64" where
  "jelly_cruise dt c =
    (let (g, speed) = gait_step dt (jc_gait c);
         tot = total_energy (telemetry g);
         delta = fmax (tot - gait_energy_mark c) 0
     in (debit delta (c\<lparr>jc_gait := g, gait_energy_mark := tot\<rparr>), speed))"

definition jelly_loiter ::
  "vec3 \<Rightarrow> vec3 list \<Rightarrow> value_field \<Rightarrow> flow_field \<Rightarrow> f64 \<Rightarrow> f64 \<Rightarrow> jelly \<Rightarrow> jelly \<times> loiter_step" where
  "jelly_loiter pos ns v flow t dt c =
    (let cmd = bloom_command_at (jc_bloom c) pos ns v flow t;
         power = station_keeping_power (jc_energy c) PulseDrift (relative_flow_speed cmd);
         c' = debit (power * fmax dt 0) c
     in (c', \<lparr>ls_command = cmd, ls_power = power, ls_budget_remaining = budget_remaining c'\<rparr>))"

definition jelly_loiter_endurance :: "f64 \<Rightarrow> jelly \<Rightarrow> f64" where
  "jelly_loiter_endurance rel_flow c = loiter_endurance_secs (jc_energy c) PulseDrift (budget_remaining c) rel_flow"

definition jelly_cruise_range :: "f64 \<Rightarrow> jelly \<Rightarrow> f64" where
  "jelly_cruise_range v c = range_metres (jc_energy c) PulseDrift (budget_remaining c) v"

datatype jelly_event = Cruise f64 | Loiter vec3 "vec3 list" value_field flow_field f64 f64

fun jelly_exec :: "jelly \<Rightarrow> jelly_event \<Rightarrow> jelly" where
  "jelly_exec c (Cruise dt) = fst (jelly_cruise dt c)"
| "jelly_exec c (Loiter pos ns v flow t dt) = fst (jelly_loiter pos ns v flow t dt c)"

section \<open>The ledger\<close>

text \<open>Spent energy is a number between zero and the budget, and only grows.\<close>

definition ledger_ok :: "jelly \<Rightarrow> bool" where
  "ledger_ok c \<longleftrightarrow> physical (jc_energy c) \<and> valid (jc_budget c) \<and> valid (jc_spent c) \<and> 0 \<le> jc_spent c \<and> jc_spent c \<le> jc_budget c"

definition ledger_grows :: "jelly \<Rightarrow> jelly \<Rightarrow> bool" where
  "ledger_grows c c' \<longleftrightarrow> jc_budget c' = jc_budget c \<and> \<not> jc_spent c' < jc_spent c"

lemma debit_ok:
  assumes "ledger_ok c" "not_neg joules"
  shows "ledger_ok (debit joules c) \<and> ledger_grows c (debit joules c)"
proof -
  note ok = assms(1)[unfolded ledger_ok_def]
  have nan: "\<not> is_nan (jc_budget c)" "\<not> is_nan (jc_spent c)" using ok flt_le_nan by blast+
  have "jc_spent c \<le> fmin (jc_spent c + joules) (jc_budget c)" "fmin (jc_spent c + joules) (jc_budget c) \<le> jc_budget c"
  proof -
    have "jc_spent c \<le> jc_spent c + joules" if n: "\<not> is_nan (jc_spent c + joules)"
      using flt_add_ge[of "jc_spent c" joules] ok n not_neg_number[OF assms(2) not_nan_parts(2)[OF n]] by blast
    then show "jc_spent c \<le> fmin (jc_spent c + joules) (jc_budget c)"
      using ok nan by (auto simp: fmin_def)
    show "fmin (jc_spent c + joules) (jc_budget c) \<le> jc_budget c"
      using nan by (auto simp: fmin_def flt_not_less)
  qed
  moreover have "0 \<le> fmin (jc_spent c + joules) (jc_budget c)" using calculation(1) ok flt_le_trans by blast
  ultimately show ?thesis
    using ok by (auto simp: ledger_ok_def ledger_grows_def debit_def valid_fmin dest: flt_le_not_less)
qed

lemma ledger_step: "ledger_ok c \<Longrightarrow> ledger_ok (jelly_exec c e) \<and> ledger_grows c (jelly_exec c e)"
proof (cases e)
  case (Cruise dt)
  assume ok: "ledger_ok c"
  define c1 where "c1 = c\<lparr>jc_gait := fst (gait_step dt (jc_gait c)), gait_energy_mark := total_energy (telemetry (fst (gait_step dt (jc_gait c))))\<rparr>"
  have c1: "ledger_ok c1" "\<And>x. ledger_grows c1 x = ledger_grows c x" using ok by (simp_all add: ledger_ok_def ledger_grows_def c1_def)
  have "jelly_exec c e = debit (fmax (total_energy (telemetry (fst (gait_step dt (jc_gait c)))) - gait_energy_mark c) 0) c1"
    by (simp add: Cruise jelly_cruise_def Let_def c1_def split: prod.split)
  then show ?thesis using debit_ok[OF c1(1) not_neg_nonneg[OF fmax_zero(1)]] c1(2) by simp
next
  case (Loiter pos ns v flow t dt)
  assume ok: "ledger_ok c"
  then have "not_neg (station_keeping_power (jc_energy c) PulseDrift f * fmax dt 0)" for f
    by (intro not_neg_mult power_not_neg not_neg_nonneg fmax_zero(1)) (simp add: ledger_ok_def)
  from debit_ok[OF ok this] show ?thesis by (simp add: Loiter jelly_loiter_def Let_def)
qed

lemma ledger_ok_numbers: "ledger_ok c \<Longrightarrow> \<not> is_nan (jc_budget c) \<and> \<not> is_nan (jc_spent c)"
  unfolding ledger_ok_def using flt_le_nan by blast

interpretation ledger: op_invariant jelly_exec ledger_ok
  by unfold_locales (simp add: ledger_step)

lemma ledger_run:
  "ledger_ok c \<Longrightarrow> ledger_grows c (foldl jelly_exec c es)"
proof (induction es rule: rev_induct)
  case (snoc e es)
  then have ok: "ledger_ok (foldl jelly_exec c es)" by (intro ledger.run_inv)
  note n = ledger_ok_numbers[OF ok] ledger_ok_numbers[OF snoc.prems]
  have "ledger_ok (jelly_exec (foldl jelly_exec c es) e)" using ledger_step[OF ok] by blast
  note n = n ledger_ok_numbers[OF this]
  show ?case using snoc ledger_step[OF ok, of e] n flt_le_trans
    unfolding ledger_grows_def by (simp add: flt_not_less) blast
qed (auto simp: ledger_grows_def)

lemma remaining_mono:
  assumes "ledger_ok c" "ledger_ok c'" "ledger_grows c c'"
  shows "budget_remaining c' \<le> budget_remaining c"
proof -
  note n = ledger_ok_numbers[OF assms(1)] ledger_ok_numbers[OF assms(2)]
  have le: "jc_spent c \<le> jc_spent c'" and b: "jc_budget c' = jc_budget c"
    using assms(3) n by (auto simp: ledger_grows_def flt_not_less)
  show ?thesis
  proof (cases "is_nan (jc_budget c - jc_spent c') \<or> is_nan (jc_budget c - jc_spent c)")
    case True
    have sp: "0 \<le> jc_spent c" "0 \<le> jc_spent c'" using assms by (simp_all add: ledger_ok_def)
    have "is_nan (jc_budget c - jc_spent c) \<Longrightarrow> jc_spent c = PInf"
      using nan_difference[of "jc_budget c" "jc_spent c"] n sp(1) by (cases "jc_spent c") auto
    then have "is_nan (jc_budget c - jc_spent c) \<Longrightarrow> is_nan (jc_budget c - jc_spent c')"
      using le by auto
    with True have "is_nan (jc_budget c - jc_spent c')" by blast
    then have "budget_remaining c' = 0" by (simp add: budget_remaining_def b fmax_def)
    then show ?thesis using fmax_zero(1) by (simp add: budget_remaining_def)
  next
    case False
    then have "jc_budget c - jc_spent c' \<le> jc_budget c - jc_spent c" using le n by (intro flt_sub_mono) auto
    then show ?thesis using False
      by (auto simp: budget_remaining_def b fmax_def dest: flt_le_not_less intro: flt_less_imp_le)
        (meson flt_le_trans flt_less_imp_le flt_not_less zero_flt_simps(3))+
  qed
qed

text \<open>
  A loiter whose price is not a number empties the budget, but a cruise whose price is not a number is free: \<open>max\<close> turns the
  difference into zero, and the mark stays NaN for good.
\<close>

lemma nan_model_cruises_free:
  assumes "ledger_ok c" "is_nan (idle_power (gt_model (jc_gait c)))"
  shows "jc_spent (fst (jelly_cruise dt c)) \<le> jc_spent c"
proof -
  let ?g = "fst (gait_step dt (jc_gait c))"
  have "is_nan (gt_idle_energy ?g)"
    using assms(2) by (simp add: gait_step_phases Let_def finish_step_def split: phase.split)
  then have "is_nan (total_energy (telemetry ?g))" by (simp add: total_energy_def telemetry_def)
  then have "fmax (total_energy (telemetry ?g) - gait_energy_mark c) 0 = 0" by (simp add: fmax_def)
  then have "jc_spent (fst (jelly_cruise dt c)) = fmin (jc_spent c + 0) (jc_budget c)"
    by (cases "gait_step dt (jc_gait c)") (simp add: jelly_cruise_def Let_def debit_def)
  moreover have "jc_spent c + 0 \<le> jc_spent c"
    using assms(1) ledger_ok_numbers[OF assms(1)] by (cases "jc_spent c") (auto simp: ledger_ok_def plus_flt_def mk_le_rval zero_flt_def rnd_le_valid)
  ultimately show ?thesis using ledger_ok_numbers[OF assms(1)] flt_le_trans[of _ "jc_spent c + 0" "jc_spent c"]
    by (auto simp: fmin_def dest: flt_less_imp_le flt_le_nan)
qed

text \<open>
  C15. The energy ledger is sound. For a model without negative parameters and valid parameters \<open>new\<close> does not panic,
  and over every run of cruises and loiters, whatever fields, positions, neighbours and time steps they get, NaN and
  infinity included: the remaining energy is a number that is not negative, it never grows again, and a depleted
  drone stays depleted.
\<close>
theorem energy_ledger_is_sound:
  assumes "physical m" "valid_params gp" "valid budget"
  shows "\<exists>c0. jelly_new m gp bp budget = Some c0 \<and>
    0 \<le> budget_remaining (foldl jelly_exec c0 es) \<and>
    budget_remaining (foldl jelly_exec c0 (es @ es')) \<le> budget_remaining (foldl jelly_exec c0 es) \<and>
    (depleted (foldl jelly_exec c0 es) \<longrightarrow> depleted (foldl jelly_exec c0 (es @ es')))"
proof -
  obtain q where "sanitized gp = Some q" using sanitized_sane[OF assms(2)] by blast
  then obtain c0 where c0: "jelly_new m gp bp budget = Some c0" "jc_energy c0 = m" "jc_budget c0 = fmax budget 0" "jc_spent c0 = 0"
    by (auto simp: jelly_new_def gait_new_def)
  then have "ledger_ok c0" using assms fmax_zero[of budget] by (simp add: ledger_ok_def valid_fmax)
  then have ok: "ledger_ok (foldl jelly_exec c0 es)" for es by (rule ledger.run_inv)
  have "budget_remaining (foldl jelly_exec c0 (es @ es')) \<le> budget_remaining (foldl jelly_exec c0 es)"
    using remaining_mono[OF ok[of es] ok[of "es @ es'"]] ledger_run[OF ok[of es], of es'] by simp
  then show ?thesis using c0(1) fmax_zero(1) flt_le_trans by (auto simp: depleted_def budget_remaining_def)
qed

theorem energy_ledger_is_sound_witness:
  "\<exists>c0. with_budget (lit 500000) = Some c0 \<and>
    budget_remaining (foldl jelly_exec c0 [Cruise (lit 1), Loiter vec_zero [] (hotspots (\<lambda>x. x) []) no_flow NaN (lit 2)])
      \<le> budget_remaining (foldl jelly_exec c0 [Cruise (lit 1)])"
proof -
  have "physical energy_model_default" by (simp add: physical_def energy_model_default_def not_neg_nonneg lit_nonneg)
  moreover have "valid_params gait_params_default" by (simp add: valid_params_def gait_params_default_def representable_numeral)
  moreover have "valid (lit 500000 :: f64)" unfolding lit_def by (rule valid_rnd)
  ultimately show ?thesis
    using energy_ledger_is_sound[of energy_model_default gait_params_default "lit 500000" bloom_params_default "[Cruise (lit 1)]"
        "[Loiter vec_zero [] (hotspots (\<lambda>x. x) []) no_flow NaN (lit 2)]"]
    by (auto simp: with_budget_def)
qed

end
