(* ===== verification/Grid.thy ===== *)
theory Grid
  imports Types Floats
begin

text \<open>
  The search grid of \<open>src/planning/probability_grid.rs\<close> with the pheromones of \<open>pheromone.rs\<close>: Bayesian updates,
  scanning, the serpentine sweep and the merge of a peer's grid. An index out of bounds panics in the source; such an
  operation returns \<open>None\<close> here.
\<close>

section \<open>The grid\<close>

record probability_grid =
  cells :: "grid_cell list list"
  cell_size_m :: f64
  grid_width :: u32
  grid_height :: u32

definition words_below :: "u32 \<Rightarrow> u32 list" where
  "words_below n = map of_nat [0..<unat n]"

definition grid_new :: "u32 \<Rightarrow> u32 \<Rightarrow> f64 \<Rightarrow> probability_grid" where
  "grid_new w h size_m =
    \<lparr>cells = map (\<lambda>y. map (\<lambda>x. \<lparr>x_idx = x, y_idx = y, victim_probability = lit (1/2), pheromone_level = 0, last_scanned_ms = 0\<rparr>)
        (words_below w)) (words_below h),
     cell_size_m = size_m, grid_width = w, grid_height = h\<rparr>"

text \<open>\<open>cells[y][x]\<close> read and written.\<close>

definition cell_at :: "probability_grid \<Rightarrow> u32 \<times> u32 \<Rightarrow> grid_cell option" where
  "cell_at g = (\<lambda>(x, y). if unat y < length (cells g) \<and> unat x < length (cells g ! unat y)
     then Some (cells g ! unat y ! unat x) else None)"

definition put_cell :: "u32 \<times> u32 \<Rightarrow> grid_cell \<Rightarrow> probability_grid \<Rightarrow> probability_grid" where
  "put_cell = (\<lambda>(x, y) c g. g\<lparr>cells := (cells g)[unat y := (cells g ! unat y)[unat x := c]]\<rparr>)"

definition inside :: "probability_grid \<Rightarrow> u32 \<times> u32 \<Rightarrow> bool" where
  "inside g = (\<lambda>(x, y). x < grid_width g \<and> y < grid_height g)"

definition posterior :: "f32 \<Rightarrow> f32 \<Rightarrow> bool \<Rightarrow> f32" where
  "posterior p confidence detected =
    (let prior = (fcast p :: f64);
         likelihood = (if detected then fcast confidence else lit 1 - fcast confidence);
         denom = likelihood * prior + (lit 1 - likelihood) * (lit 1 - prior)
     in if lit (1 / 1000000000) < denom then fcast (likelihood * prior / denom) else fcast prior)"

definition update_bayesian :: "u32 \<times> u32 \<Rightarrow> f32 \<Rightarrow> bool \<Rightarrow> probability_grid \<Rightarrow> probability_grid option" where
  "update_bayesian xy confidence detected g =
    (if \<not> inside g xy then Some g
     else map_option (\<lambda>c. put_cell xy
            (c\<lparr>victim_probability := posterior (victim_probability c) confidence detected,
               pheromone_level := fmin (pheromone_level c + lit (1/10)) (lit 1)\<rparr>) g) (cell_at g xy))"

definition priority_score :: "grid_cell \<Rightarrow> f32" where
  "priority_score c = (let scanned_weight = (if 0 < last_scanned_ms c then pheromone_level c else 0)
     in victim_probability c * (lit 1 - scanned_weight))"

definition better_cell :: "((u32 \<times> u32) \<times> f32) option \<Rightarrow> grid_cell \<Rightarrow> ((u32 \<times> u32) \<times> f32) option" where
  "better_cell best c =
    (let score = priority_score c in
     if (case best of None \<Rightarrow> True | Some (_, bs) \<Rightarrow> bs < score) then Some ((x_idx c, y_idx c), score) else best)"

definition highest_priority_unscanned :: "probability_grid \<Rightarrow> (u32 \<times> u32) option" where
  "highest_priority_unscanned g = map_option fst (foldl better_cell None (concat (cells g)))"

definition mark_scanned :: "u32 \<times> u32 \<Rightarrow> probability_grid \<Rightarrow> (probability_grid \<times> bool) option" where
  "mark_scanned xy g =
    (if \<not> inside g xy then Some (g, False)
     else map_option (\<lambda>c. if last_scanned_ms c = 0 then (put_cell xy (c\<lparr>last_scanned_ms := 1\<rparr>) g, True) else (g, False)) (cell_at g xy))"

definition coverage_pct :: "probability_grid \<Rightarrow> f64" where
  "coverage_pct g =
    (let tot = length (concat (cells g)); scanned = length (filter (\<lambda>c. 0 < last_scanned_ms c) (concat (cells g)))
     in if tot = 0 then lit 1 else rnd (of_nat scanned) / rnd (of_nat tot))"

text \<open>The order of the sweep: rows in order, alternating direction; the first unscanned cell of it.\<close>

definition snake_row :: "u32 \<Rightarrow> u32 \<Rightarrow> (u32 \<times> u32) list" where
  "snake_row w y = map (\<lambda>x. (x, y)) (if y mod 2 = 0 then words_below w else rev (words_below w))"

definition serpentine :: "probability_grid \<Rightarrow> (u32 \<times> u32) list" where
  "serpentine g = concat (map (snake_row (grid_width g)) (words_below (grid_height g)))"

fun first_unscanned :: "probability_grid \<Rightarrow> (u32 \<times> u32) list \<Rightarrow> (u32 \<times> u32) option option" where
  "first_unscanned g [] = Some None"
| "first_unscanned g (xy # rest) =
    (case cell_at g xy of
       None \<Rightarrow> None
     | Some c \<Rightarrow> if last_scanned_ms c = 0 then Some (Some xy) else first_unscanned g rest)"

definition next_systematic_cell :: "probability_grid \<Rightarrow> (u32 \<times> u32) option option" where
  "next_systematic_cell g = first_unscanned g (serpentine g)"

definition gossip_cell :: "probability_grid \<Rightarrow> probability_grid option \<Rightarrow> u32 \<times> u32 \<Rightarrow> probability_grid option" where
  "gossip_cell remote acc xy =
    Option.bind acc (\<lambda>g. Option.bind (cell_at g xy) (\<lambda>l. Option.bind (cell_at remote xy) (\<lambda>r.
      Some (put_cell xy (l\<lparr>victim_probability := (victim_probability l + victim_probability r) / lit 2\<rparr>) g))))"

definition apply_gossip_update :: "probability_grid \<Rightarrow> probability_grid \<Rightarrow> probability_grid option" where
  "apply_gossip_update remote g =
    foldl (gossip_cell remote) (Some g)
      (concat (map (\<lambda>y. map (\<lambda>x. (x, y)) (words_below (min (grid_width g) (grid_width remote))))
        (words_below (min (grid_height g) (grid_height remote)))))"

section \<open>Pheromones\<close>

definition evaporate :: "f32 \<Rightarrow> grid_cell list list \<Rightarrow> grid_cell list list" where
  "evaporate rate = map (map (\<lambda>c. c\<lparr>pheromone_level := fmax (pheromone_level c * (lit 1 - rate)) 0\<rparr>))"

definition deposit :: "u32 \<Rightarrow> u32 \<Rightarrow> f32 \<Rightarrow> grid_cell list list \<Rightarrow> grid_cell list list" where
  "deposit x y amount rows =
    (if unat y < length rows \<and> unat x < length (rows ! unat y)
     then rows[unat y := (rows ! unat y)[unat x := (rows ! unat y ! unat x)\<lparr>pheromone_level :=
        fmin (pheromone_level (rows ! unat y ! unat x) + amount) (lit 1)\<rparr>]]
     else rows)"

section \<open>Rectangular grids\<close>

definition rectangular :: "probability_grid \<Rightarrow> bool" where
  "rectangular g \<longleftrightarrow> length (cells g) = unat (grid_height g) \<and> (\<forall>row \<in> set (cells g). length row = unat (grid_width g))"

lemma length_words_below [simp]: "length (words_below n) = unat n"
  by (simp add: words_below_def)

lemma unat_small: "k < unat (n :: u32) \<Longrightarrow> unat (of_nat k :: u32) = k"
  using unat_bound[of n] by (simp add: unsigned_of_nat take_bit_nat_eq_self)

lemma set_words_below [simp]: "set (words_below n) = {x. x < n}"
proof -
  have "x \<in> of_nat ` {0..<unat n}" if "x < n" for x :: u32
    using that by (intro image_eqI[of _ _ "unat x"]) (simp_all add: word_less_nat_alt)
  then show ?thesis by (auto simp: words_below_def word_less_nat_alt unat_small)
qed

lemma distinct_words_below: "distinct (words_below n)"
proof -
  have "inj_on (of_nat :: nat \<Rightarrow> u32) {0..<unat n}"
    by (rule inj_on_inverseI[where g = unat]) (simp add: unat_small)
  then show ?thesis by (simp add: words_below_def distinct_map)
qed

lemma grid_new_rectangular: "rectangular (grid_new w h s)"
  by (auto simp: rectangular_def grid_new_def)

lemma cell_at_inside: "rectangular g \<Longrightarrow> cell_at g xy \<noteq> None \<longleftrightarrow> inside g xy"
  by (cases xy) (auto simp: rectangular_def cell_at_def inside_def word_less_nat_alt)

lemma put_cell_frame [simp]:
  "grid_width (put_cell xy c g) = grid_width g" "grid_height (put_cell xy c g) = grid_height g"
  "cell_size_m (put_cell xy c g) = cell_size_m g"
  by (cases xy; simp add: put_cell_def)+

lemma put_cell_rectangular: "rectangular g \<Longrightarrow> rectangular (put_cell xy c g)"
  by (cases xy; cases "unat (snd xy) < length (cells g)")
    (auto simp: rectangular_def put_cell_def list_update_beyond dest: set_update_subset_insert[THEN subsetD])

lemma cell_at_put: "rectangular g \<Longrightarrow> inside g xy \<Longrightarrow> cell_at (put_cell xy c g) zw = (if zw = xy then Some c else cell_at g zw)"
  by (cases xy; cases zw) (auto simp: rectangular_def cell_at_def put_cell_def inside_def word_less_nat_alt nth_list_update word_unat_eq_iff)

lemma set_cells: "set (concat (cells g)) = {c. \<exists>i < length (cells g). \<exists>j < length (cells g ! i). c = cells g ! i ! j}"
  by (auto simp: in_set_conv_nth) (metis nth_mem)+

lemma cells_cell_at: "rectangular g \<Longrightarrow> c \<in> set (concat (cells g)) \<longleftrightarrow> (\<exists>xy. cell_at g xy = Some c)"
proof
  assume g: "rectangular g" and "c \<in> set (concat (cells g))"
  then obtain i j where ij: "i < length (cells g)" "j < length (cells g ! i)" "c = cells g ! i ! j"
    unfolding set_cells by blast
  then have "i < unat (grid_height g)" "j < unat (grid_width g)" using g by (auto simp: rectangular_def)
  then have "cell_at g (of_nat j, of_nat i) = Some c" using ij by (simp add: cell_at_def unat_small)
  then show "\<exists>xy. cell_at g xy = Some c" ..
qed (unfold set_cells, auto simp: cell_at_def split: if_splits)

section \<open>Scanning\<close>

definition scanned :: "probability_grid \<Rightarrow> (u32 \<times> u32) set" where
  "scanned g = {xy. \<exists>c. cell_at g xy = Some c \<and> last_scanned_ms c \<noteq> 0}"

lemma snake_row_facts: "set (snake_row w y) = {x. x < w} \<times> {y}" "distinct (snake_row w y)" "length (snake_row w y) = unat w"
  by (auto simp: snake_row_def distinct_map inj_on_def distinct_words_below)

lemma set_serpentine: "set (serpentine g) = {xy. inside g xy}"
  by (auto simp: serpentine_def inside_def snake_row_facts)

lemma distinct_serpentine: "distinct (serpentine g)"
proof -
  have "distinct ys \<Longrightarrow> distinct (concat (map (snake_row w) ys))" for w ys
    by (induction ys) (auto simp: snake_row_facts)
  then show ?thesis by (simp add: serpentine_def distinct_words_below)
qed

lemma length_serpentine: "length (serpentine g) = unat (grid_width g) * unat (grid_height g)"
  by (simp add: serpentine_def length_concat comp_def snake_row_facts sum_list_triv)

lemma serpentine_mark: "mark_scanned xy g = Some (g', b) \<Longrightarrow> serpentine g' = serpentine g"
  by (auto simp: mark_scanned_def serpentine_def split: if_splits)

lemma mark_scanned_spec:
  assumes "rectangular g"
  obtains g' where "mark_scanned xy g = Some (g', inside g xy \<and> xy \<notin> scanned g)" "rectangular g'"
    "scanned g' = scanned g \<union> (if inside g xy then {xy} else {})" "inside g' = inside g"
proof (cases "inside g xy")
  case False
  then show thesis using assms by (intro that[of g]) (simp_all add: mark_scanned_def)
next
  case True
  then obtain c where c: "cell_at g xy = Some c" using cell_at_inside[OF assms] by blast
  define g' where "g' = (if last_scanned_ms c = 0 then put_cell xy (c\<lparr>last_scanned_ms := 1\<rparr>) g else g)"
  have "mark_scanned xy g = Some (g', inside g xy \<and> xy \<notin> scanned g)"
    using True c by (auto simp: mark_scanned_def g'_def scanned_def)
  moreover have "scanned g' = scanned g \<union> (if inside g xy then {xy} else {})"
    using True c by (auto simp: scanned_def g'_def cell_at_put[OF assms] split: if_splits)
  moreover have "rectangular g'" "inside g' = inside g" using assms by (auto simp: g'_def put_cell_rectangular inside_def)
  ultimately show thesis by (intro that)
qed

lemma first_unscanned_find:
  assumes "rectangular g" "set xs \<subseteq> {xy. inside g xy}"
  shows "first_unscanned g xs = Some (find (\<lambda>xy. xy \<notin> scanned g) xs)"
  using assms(2)
proof (induction xs)
  case (Cons xy xs)
  then obtain c where "cell_at g xy = Some c" using cell_at_inside[OF assms(1)] by fastforce
  then show ?case using Cons by (auto simp: scanned_def)
qed simp

lemma next_systematic_find: "rectangular g \<Longrightarrow> next_systematic_cell g = Some (find (\<lambda>xy. xy \<notin> scanned g) (serpentine g))"
  by (simp add: next_systematic_cell_def first_unscanned_find set_serpentine)

text \<open>\<open>n\<close> rounds of going to the next cell and marking it: the cells visited, and the grid afterwards.\<close>

fun sweep :: "nat \<Rightarrow> probability_grid \<Rightarrow> ((u32 \<times> u32) list \<times> probability_grid) option" where
  "sweep 0 g = Some ([], g)"
| "sweep (Suc n) g = Option.bind (next_systematic_cell g) (\<lambda>next. case next of
      None \<Rightarrow> Some ([], g)
    | Some xy \<Rightarrow> Option.bind (mark_scanned xy g) (\<lambda>(g1, _). map_option (\<lambda>(xys, g2). (xy # xys, g2)) (sweep n g1)))"

lemma sweep_rest:
  assumes "rectangular g" "serpentine g = pre @ post" "scanned g \<inter> set (serpentine g) = set pre"
  shows "\<exists>g'. sweep (length post) g = Some (post, g') \<and> rectangular g' \<and> set (serpentine g) \<subseteq> scanned g' \<and> serpentine g' = serpentine g"
  using assms
proof (induction post arbitrary: g pre)
  case (Cons xy post)
  have d: "distinct (serpentine g)" by (rule distinct_serpentine)
  have skip: "find P (pre @ xs) = find P xs" if "\<forall>x \<in> set pre. \<not> P x" for P xs
    using that by (induction pre) auto
  have "xy \<notin> set pre" using d Cons.prems(2) by auto
  then have xy: "xy \<notin> scanned g" using Cons.prems by auto
  have "find (\<lambda>xy. xy \<notin> scanned g) (serpentine g) = Some xy"
    using skip[of "\<lambda>xy. xy \<notin> scanned g" "xy # post"] Cons.prems xy by auto
  then have n: "next_systematic_cell g = Some (Some xy)" using Cons.prems(1) by (simp add: next_systematic_find)
  have i: "inside g xy" using Cons.prems(2) set_serpentine[of g] by auto
  obtain g1 where g1: "mark_scanned xy g = Some (g1, inside g xy \<and> xy \<notin> scanned g)" "rectangular g1"
    "scanned g1 = scanned g \<union> (if inside g xy then {xy} else {})" using mark_scanned_spec[OF Cons.prems(1)] by metis
  have s: "serpentine g1 = serpentine g" by (rule serpentine_mark[OF g1(1)])
  obtain g' where "sweep (length post) g1 = Some (post, g')" "rectangular g'" "set (serpentine g1) \<subseteq> scanned g'" "serpentine g' = serpentine g1"
    using Cons.IH[of g1 "pre @ [xy]"] g1 i Cons.prems s by auto
  then show ?case using n g1(1) s by auto
qed auto

lemma count_cells: "rectangular g \<Longrightarrow> length (concat (cells g)) = unat (grid_height g) * unat (grid_width g)"
  by (auto simp: rectangular_def length_concat sum_list_triv cong: map_cong)

lemma count_cells_bound: "rectangular g \<Longrightarrow> length (concat (cells g)) < 2 ^ 64"
proof -
  assume "rectangular g"
  then have "length (concat (cells g)) = unat (grid_height g) * unat (grid_width g)" by (rule count_cells)
  moreover have "unat (grid_height g) < 2 ^ 32" "unat (grid_width g) < 2 ^ 32"
    using unat_bound[of "grid_height g"] unat_bound[of "grid_width g"] by simp_all
  then have "unat (grid_height g) * unat (grid_width g) < 2 ^ 32 * 2 ^ 32" by (intro mult_strict_mono) simp_all
  ultimately show ?thesis by simp
qed

lemma successively_append:
  "successively P xs \<Longrightarrow> successively P ys \<Longrightarrow> (xs \<noteq> [] \<Longrightarrow> ys \<noteq> [] \<Longrightarrow> P (last xs) (hd ys)) \<Longrightarrow> successively P (xs @ ys)"
  by (auto simp: successively_append_iff)

text \<open>The next cell of the sweep is a neighbour of the last one: one column or one row further.\<close>

definition adjacent :: "u32 \<times> u32 \<Rightarrow> u32 \<times> u32 \<Rightarrow> bool" where
  "adjacent a b \<longleftrightarrow> (snd a = snd b \<and> (unat (fst b) = unat (fst a) + 1 \<or> unat (fst a) = unat (fst b) + 1)) \<or>
     (fst a = fst b \<and> unat (snd b) = unat (snd a) + 1)"

lemma snake_row_adjacent: "successively adjacent (snake_row w y)"
proof -
  have up: "successively (\<lambda>a b. unat b = unat a + 1) (words_below w)"
    by (auto simp: successively_conv_nth words_below_def unat_small[where n = w] simp del: of_nat_Suc)
  then have "successively (\<lambda>a b. unat a = unat b + 1) (rev (words_below w))" by simp
  with up show ?thesis
    by (auto simp: snake_row_def successively_map adjacent_def elim!: successively_mono)
qed

lemma serpentine_adjacent: "successively adjacent (serpentine g)"
proof (cases "grid_width g = 0")
  case True
  then have "serpentine g = []" by (simp add: serpentine_def concat_eq_Nil_conv snake_row_def words_below_def)
  then show ?thesis by simp
next
  case False
  then have w: "0 < unat (grid_width g)" using unat_gt_0 by blast
  then have ne: "snake_row (grid_width g) y \<noteq> []" for y using snake_row_facts(3)[of "grid_width g" y] by auto
  have ends: "hd (words_below (grid_width g)) = 0" "last (words_below (grid_width g)) = of_nat (unat (grid_width g) - 1)"
    "words_below (grid_width g) \<noteq> []"
    using w by (simp_all add: words_below_def hd_map last_map)
  have "successively adjacent (concat (map (snake_row (grid_width g)) (map of_nat [0..<n]))) \<and>
      (0 < n \<longrightarrow> last (concat (map (snake_row (grid_width g)) (map of_nat [0..<n]))) = last (snake_row (grid_width g) (of_nat (n - 1))))"
    if "n \<le> unat (grid_height g)" for n
    using that
  proof (induction n)
    case (Suc n)
    then have n: "unat (of_nat n :: u32) = n" using unat_small[of n "grid_height g"] by simp
    have step: "adjacent (last (snake_row (grid_width g) (of_nat (n - 1)))) (hd (snake_row (grid_width g) (of_nat n)))" if "0 < n"
    proof -
      have m: "unat (of_nat (n - 1) :: u32) = n - 1" using Suc.prems by (intro unat_small[of _ "grid_height g"]) simp
      have "((of_nat n :: u32) mod 2 = 0) = (n mod 2 = 0)" "((of_nat (n - 1) :: u32) mod 2 = 0) = ((n - 1) mod 2 = 0)"
        using n m by (simp_all add: word_unat_eq_iff unat_mod_distrib)
      moreover have "(n mod 2 = 0) = ((n - 1) mod 2 \<noteq> 0)" using that by presburger
      ultimately show ?thesis using that n m ends
        by (auto simp: snake_row_def adjacent_def hd_map last_map hd_rev last_rev)
    qed
    show ?case using Suc ne step snake_row_adjacent
      by (cases "n = 0") (auto intro!: successively_append)
  qed simp
  then show ?thesis by (simp add: serpentine_def words_below_def)
qed

text \<open>
  C21. On a new grid the systematic sweep returns and covers everything: going to the next systematic cell and marking it,
  width times height times, visits every cell exactly once, each cell next to the one before, never indexes outside
  the grid, and ends with no cell left and a coverage of one.
\<close>
theorem sweep_covers_the_grid:
  "\<exists>route g'. sweep (unat w * unat h) (grid_new w h size_m) = Some (route, g') \<and>
     distinct route \<and> set route = {(x, y). x < w \<and> y < h} \<and> successively adjacent route \<and>
     next_systematic_cell g' = Some None \<and> coverage_pct g' = lit 1"
proof -
  let ?g = "grid_new w h size_m"
  have r: "rectangular ?g" by (rule grid_new_rectangular)
  have "last_scanned_ms c = 0" if "c \<in> set (concat (cells ?g))" for c
    using that by (auto simp: grid_new_def)
  then have "scanned ?g = {}" using cells_cell_at[OF r] by (auto simp: scanned_def)
  moreover have "length (serpentine ?g) = unat w * unat h" by (simp add: length_serpentine grid_new_def)
  ultimately obtain g' where g': "sweep (unat w * unat h) ?g = Some (serpentine ?g, g')" "rectangular g'"
    "set (serpentine ?g) \<subseteq> scanned g'" "serpentine g' = serpentine ?g"
    using sweep_rest[OF r, of "[]" "serpentine ?g"] by auto
  have "find (\<lambda>xy. xy \<notin> scanned g') (serpentine g') = None" using g'(3,4) by (auto simp: find_None_iff)
  then have "next_systematic_cell g' = Some None" using g'(2) by (simp add: next_systematic_find)
  moreover have "coverage_pct g' = lit 1"
  proof -
    have "0 < last_scanned_ms c" if c: "c \<in> set (concat (cells g'))" for c
    proof -
      obtain xy where xy: "cell_at g' xy = Some c" using cells_cell_at[OF g'(2), THEN iffD1, OF c] ..
      then have "inside g' xy" using cell_at_inside[OF g'(2), of xy] by simp
      then have "xy \<in> set (serpentine g')" unfolding set_serpentine by simp
      then show ?thesis using g'(3,4) xy by (auto simp: scanned_def word_greater_zero_iff)
    qed
    then have f: "filter (\<lambda>c. 0 < last_scanned_ms c) (concat (cells g')) = concat (cells g')" by (intro filter_True ballI)
    show ?thesis unfolding coverage_pct_def Let_def f
      using count_ratio_one[OF _ count_cells_bound[OF g'(2)]] by (cases "length (concat (cells g')) = 0") (simp_all only: simp_thms if_True if_False neq0_conv if_cancel)
  qed
  moreover have "set (serpentine ?g) = {(x, y). x < w \<and> y < h}" by (auto simp: set_serpentine inside_def grid_new_def)
  ultimately show ?thesis using g'(1) distinct_serpentine[of ?g] serpentine_adjacent[of ?g] by blast
qed

section \<open>Probabilities\<close>

definition unit_f32 :: "f32 \<Rightarrow> bool" where
  "unit_f32 p \<longleftrightarrow> 0 \<le> p \<and> p \<le> 1"

text \<open>Whatever the confidence, a NaN included, a posterior of a probability is a probability when the confidence is one or not a number.\<close>

lemma posterior_unit:
  assumes p: "unit_f32 p" and c: "is_nan c \<or> unit_f32 c"
  shows "unit_f32 (posterior p c detected)"
proof -
  define prior where "prior = (fcast p :: f64)"
  define l where "l = (if detected then fcast c else lit 1 - fcast c :: f64)"
  define denom where "denom = l * prior + (lit 1 - l) * (lit 1 - prior)"
  have pr: "0 \<le> prior" "prior \<le> 1" using p fcast_unit[of p, where 'b = 64] by (simp_all add: prior_def unit_f32_def)
  have eq: "posterior p c detected = (if lit (1 / 1000000000) < denom then fcast (l * prior / denom) else fcast prior)"
    by (simp only: posterior_def Let_def prior_def l_def denom_def)
  show ?thesis
  proof (cases "lit (1 / 1000000000) < denom")
    case False
    then show ?thesis using pr fcast_unit[of prior, where 'b = 32] by (simp add: eq unit_f32_def)
  next
    case True
    have "\<not> is_nan denom" using True flt_less_nan by blast
    then have "\<not> is_nan l" using not_nan_parts unfolding denom_def by blast
    then have "\<not> is_nan c" unfolding l_def by (cases c) (auto split: if_splits)
    then have "0 \<le> (fcast c :: f64) \<and> (fcast c :: f64) \<le> 1" using c fcast_unit[of c, where 'b = 64] by (auto simp: unit_f32_def)
    then have l: "0 \<le> l" "l \<le> 1" using one_minus_unit[of "fcast c :: f64"] by (auto simp: l_def)
    have lp: "0 \<le> l * prior" "l * prior \<le> 1" using unit_times[OF l pr] by simp_all
    have q: "0 \<le> (lit 1 - l) * (lit 1 - prior)" using unit_times one_minus_unit[OF l] one_minus_unit[OF pr] by blast
    have dpos: "0 < denom" using True flt_le_less_trans[OF lit_small_nonneg] by blast
    have "l * prior \<le> denom" unfolding denom_def
      by (rule flt_add_ge) (use q \<open>\<not> is_nan denom\<close> in \<open>auto simp: denom_def\<close>)
    moreover have "\<not> is_nan (l * prior / denom)"
      using lp finite_between[of 0 "l * prior" 1] dpos by (intro finite_over_positive) (simp_all add: one_flt_def)
    ultimately have "0 \<le> l * prior / denom" "l * prior / denom \<le> 1"
      using dpos flt_quotient_le_one[OF lp(1)] not_neg_number[OF not_neg_div[of "l * prior" denom]] lp(1) by (auto simp: not_neg_nonneg)
    then show ?thesis using True fcast_unit[of "l * prior / denom", where 'b = 32] by (simp add: eq unit_f32_def)
  qed
qed

lemma average_unit: "unit_f32 a \<Longrightarrow> unit_f32 b \<Longrightarrow> unit_f32 ((a + b) / lit 2)"
proof -
  assume a: "unit_f32 a" and b: "unit_f32 b"
  have f: "is_finite a" "is_finite b" using a b finite_between[of 0 _ 1] by (auto simp: unit_f32_def one_flt_def)
  then have n: "\<not> is_nan (a + b)" by (simp add: finite_add)
  have "0 \<le> a + b" using a b by (simp add: unit_f32_def flt_add_nonneg)
  moreover have "a + b \<le> 1 + 1" using a b n by (intro flt_add_mono) (simp_all add: unit_f32_def one_flt_def Fin_add)
  then have le: "a + b \<le> Fin 2" by (simp add: one_flt_def Fin_add mk_def)
  moreover have fin: "\<not> is_nan ((a + b) / Fin 2)" using calculation finite_between[of 0 "a + b" "Fin 2"] by (intro finite_over_positive) simp_all
  ultimately have "(a + b) / Fin 2 \<le> Fin 2 / Fin 2" by (intro flt_div_mono) (simp_all add: Fin_div)
  moreover have "0 \<le> (a + b) / Fin 2" using \<open>0 \<le> a + b\<close> by (rule flt_div_nonneg) simp
  ultimately show ?thesis by (simp add: unit_f32_def one_flt_def Fin_div mk_def)
qed

lemma capped_sum_unit: "0 \<le> a \<Longrightarrow> 0 \<le> b \<Longrightarrow> unit_f32 (fmin (a + b) (lit 1))"
  using flt_add_nonneg[of a b] by (auto simp: unit_f32_def fmin_def one_flt_def flt_not_less dest: flt_le_nan)

lemma decayed_unit: "unit_f32 a \<Longrightarrow> is_nan r \<or> unit_f32 r \<Longrightarrow> unit_f32 (fmax (a * (lit 1 - r)) 0)"
  using unit_times[of a "lit 1 - r"] one_minus_unit[of r]
  by (auto simp: unit_f32_def fmax_def one_flt_def dest: flt_le_not_less) 

section \<open>The invariant\<close>

definition cell_ok :: "grid_cell \<Rightarrow> bool" where
  "cell_ok c \<longleftrightarrow> unit_f32 (victim_probability c) \<and> unit_f32 (pheromone_level c)"

definition grid_ok :: "probability_grid \<Rightarrow> bool" where
  "grid_ok g \<longleftrightarrow> rectangular g \<and> list_all (list_all cell_ok) (cells g)"

lemma grid_ok_cell: "grid_ok g \<Longrightarrow> cell_at g xy = Some c \<Longrightarrow> cell_ok c"
  by (cases xy) (auto simp: grid_ok_def cell_at_def list_all_length split: if_splits)

lemma list_all_put: "list_all P xs \<Longrightarrow> P x \<Longrightarrow> list_all P (xs[i := x])"
  by (auto simp: list_all_iff dest!: set_update_subset_insert[THEN subsetD])

lemma put_cell_ok:
  assumes "grid_ok g" "cell_at g xy \<noteq> None" "cell_ok c"
  shows "grid_ok (put_cell xy c g)"
proof -
  obtain x y where xy: "xy = (x, y)" by fastforce
  have rows: "list_all (list_all cell_ok) (cells g)" using assms(1) by (simp add: grid_ok_def)
  then have "list_all cell_ok (cells g ! unat y)" using assms(2) by (simp add: xy cell_at_def list_all_length split: if_splits)
  then have "list_all cell_ok ((cells g ! unat y)[unat x := c])" using assms(3) by (rule list_all_put)
  with rows show ?thesis using assms(1) put_cell_rectangular[of g xy c]
    by (simp add: grid_ok_def xy put_cell_def list_all_put)
qed

datatype grid_event =
    GridUpdate "u32 \<times> u32" f32 bool
  | GridMark "u32 \<times> u32"
  | GridGossip probability_grid
  | GridEvaporate f32
  | GridDeposit u32 u32 f32

fun grid_exec :: "probability_grid \<Rightarrow> grid_event \<Rightarrow> probability_grid option" where
  "grid_exec g (GridUpdate xy confidence detected) = update_bayesian xy confidence detected g"
| "grid_exec g (GridMark xy) = map_option fst (mark_scanned xy g)"
| "grid_exec g (GridGossip remote) = apply_gossip_update remote g"
| "grid_exec g (GridEvaporate rate) = Some (g\<lparr>cells := evaporate rate (cells g)\<rparr>)"
| "grid_exec g (GridDeposit x y amount) = Some (g\<lparr>cells := deposit x y amount (cells g)\<rparr>)"

text \<open>The inputs the callers pass: confidences and rates are fractions or NaN, amounts are not negative, peers' grids are grids.\<close>

fun event_ok :: "grid_event \<Rightarrow> bool" where
  "event_ok (GridUpdate _ confidence _) = (is_nan confidence \<or> unit_f32 confidence)"
| "event_ok (GridMark _) = True"
| "event_ok (GridGossip remote) = grid_ok remote"
| "event_ok (GridEvaporate rate) = (is_nan rate \<or> unit_f32 rate)"
| "event_ok (GridDeposit _ _ amount) = (0 \<le> amount)"

definition same_shape :: "probability_grid \<Rightarrow> probability_grid \<Rightarrow> bool" where
  "same_shape g g' \<longleftrightarrow> grid_width g' = grid_width g \<and> grid_height g' = grid_height g \<and> scanned g \<subseteq> scanned g'"

lemma same_shape_refl: "same_shape g g"
  by (simp add: same_shape_def)

lemma same_shape_trans: "same_shape g h \<Longrightarrow> same_shape h k \<Longrightarrow> same_shape g k"
  by (auto simp: same_shape_def)

lemma put_cell_shape:
  "grid_ok g \<Longrightarrow> cell_at g xy = Some c \<Longrightarrow> last_scanned_ms c \<noteq> 0 \<longrightarrow> last_scanned_ms c' \<noteq> 0 \<Longrightarrow> same_shape g (put_cell xy c' g)"
  using cell_at_inside[of g xy] cell_at_put[of g xy c'] by (auto simp: same_shape_def scanned_def grid_ok_def)

lemma update_ok:
  assumes "grid_ok g" "is_nan confidence \<or> unit_f32 confidence"
  shows "\<exists>g'. update_bayesian xy confidence detected g = Some g' \<and> grid_ok g' \<and> same_shape g g'"
proof (cases "inside g xy")
  case True
  then obtain c where c: "cell_at g xy = Some c" using cell_at_inside[of g xy] assms(1) by (auto simp: grid_ok_def)
  then have "cell_ok c" using assms(1) by (rule grid_ok_cell[rotated])
  then have "cell_ok (c\<lparr>victim_probability := posterior (victim_probability c) confidence detected,
      pheromone_level := fmin (pheromone_level c + lit (1/10)) (lit 1)\<rparr>)"
    using posterior_unit assms(2) capped_sum_unit[of "pheromone_level c" "lit (1/10)"]
    by (auto simp: cell_ok_def unit_f32_def lit_def rnd_nonneg)
  then show ?thesis using True c assms(1) put_cell_ok put_cell_shape[OF assms(1) c] by (auto simp: update_bayesian_def)
qed (use assms same_shape_refl in \<open>auto simp: update_bayesian_def\<close>)

lemma mark_ok: "grid_ok g \<Longrightarrow> \<exists>g' b. mark_scanned xy g = Some (g', b) \<and> grid_ok g' \<and> same_shape g g'"
proof (cases "inside g xy")
  case True
  assume ok: "grid_ok g"
  then obtain c where c: "cell_at g xy = Some c" using True cell_at_inside[of g xy] by (auto simp: grid_ok_def)
  then have "cell_ok (c\<lparr>last_scanned_ms := 1\<rparr>)" using grid_ok_cell[OF ok c] by (simp add: cell_ok_def)
  then show ?thesis using True c ok put_cell_ok put_cell_shape[OF ok c] same_shape_refl by (auto simp: mark_scanned_def)
qed (use same_shape_refl in \<open>auto simp: mark_scanned_def\<close>)

lemma gossip_ok:
  assumes "grid_ok g" "grid_ok remote"
  shows "\<exists>g'. apply_gossip_update remote g = Some g' \<and> grid_ok g' \<and> same_shape g g'"
proof -
  have run: "\<exists>g'. foldl (gossip_cell remote) (Some g) xys = Some g' \<and> grid_ok g' \<and> same_shape g g'"
    if "grid_ok g" "\<And>xy. xy \<in> set xys \<Longrightarrow> inside g xy \<and> inside remote xy" for xys
    using that
  proof (induction xys arbitrary: g)
    case (Cons xy xys)
    then obtain l r where lr: "cell_at g xy = Some l" "cell_at remote xy = Some r"
      using cell_at_inside[of g xy] cell_at_inside[of remote xy] assms(2) by (auto simp: grid_ok_def)
    let ?l = "l\<lparr>victim_probability := (victim_probability l + victim_probability r) / lit 2\<rparr>"
    have "cell_ok ?l" using grid_ok_cell[OF Cons.prems(1) lr(1)] grid_ok_cell[OF assms(2) lr(2)] average_unit
      by (simp add: cell_ok_def)
    then have ok: "grid_ok (put_cell xy ?l g)" "same_shape g (put_cell xy ?l g)"
      using put_cell_ok[OF Cons.prems(1)] put_cell_shape[OF Cons.prems(1) lr(1)] lr(1) by simp_all
    moreover have "inside (put_cell xy ?l g) = inside g" by (auto simp: inside_def)
    ultimately obtain g' where g': "foldl (gossip_cell remote) (Some (put_cell xy ?l g)) xys = Some g'" "grid_ok g'" "same_shape (put_cell xy ?l g) g'"
      using Cons.IH[of "put_cell xy ?l g"] Cons.prems(2) by auto
    have "gossip_cell remote (Some g) xy = Some (put_cell xy ?l g)" by (simp add: gossip_cell_def lr)
    with same_shape_trans[OF ok(2) g'(3)] g'(1,2) show ?case by auto
  qed (simp add: same_shape_refl)
  show ?thesis unfolding apply_gossip_update_def by (rule run[OF assms(1)]) (auto simp: inside_def)
qed

lemma evaporate_ok:
  assumes "grid_ok g" "is_nan rate \<or> unit_f32 rate"
  shows "grid_ok (g\<lparr>cells := evaporate rate (cells g)\<rparr>) \<and> same_shape g (g\<lparr>cells := evaporate rate (cells g)\<rparr>)"
proof -
  let ?g = "g\<lparr>cells := evaporate rate (cells g)\<rparr>"
  have "cell_at ?g xy = map_option (\<lambda>c. c\<lparr>pheromone_level := fmax (pheromone_level c * (lit 1 - rate)) 0\<rparr>) (cell_at g xy)" for xy
    by (cases xy) (auto simp: cell_at_def evaporate_def)
  then have "scanned ?g = scanned g" by (auto simp: scanned_def)
  moreover have "list_all (list_all cell_ok) (evaporate rate (cells g))"
    using assms decayed_unit by (auto simp: grid_ok_def evaporate_def list_all_iff cell_ok_def)
  ultimately show ?thesis using assms(1) by (auto simp: grid_ok_def same_shape_def rectangular_def evaporate_def)
qed

lemma deposit_ok:
  assumes "grid_ok g" "0 \<le> amount"
  shows "grid_ok (g\<lparr>cells := deposit x y amount (cells g)\<rparr>) \<and> same_shape g (g\<lparr>cells := deposit x y amount (cells g)\<rparr>)"
proof (cases "cell_at g (x, y)")
  case None
  then have "deposit x y amount (cells g) = cells g" by (auto simp: cell_at_def deposit_def split: if_splits)
  then show ?thesis using assms(1) same_shape_refl by simp
next
  case (Some c)
  let ?c = "c\<lparr>pheromone_level := fmin (pheromone_level c + amount) (lit 1)\<rparr>"
  have "g\<lparr>cells := deposit x y amount (cells g)\<rparr> = put_cell (x, y) ?c g"
    using Some by (auto simp: cell_at_def deposit_def put_cell_def split: if_splits)
  moreover have "cell_ok ?c" using grid_ok_cell[OF assms(1) Some] capped_sum_unit assms(2) by (simp add: cell_ok_def unit_f32_def)
  ultimately show ?thesis using put_cell_ok[OF assms(1), of "(x, y)"] put_cell_shape[OF assms(1) Some] Some by simp
qed

lemma grid_exec_ok: "grid_ok g \<Longrightarrow> event_ok e \<Longrightarrow> \<exists>g'. grid_exec g e = Some g' \<and> grid_ok g' \<and> same_shape g g'"
  using update_ok mark_ok gossip_ok evaporate_ok deposit_ok by (cases e) fastforce+

interpretation grids: op_total grid_exec grid_ok event_ok same_shape
  by unfold_locales (simp_all add: grid_exec_ok same_shape_refl same_shape_trans[of _ _ _])

lemma grid_new_ok: "grid_ok (grid_new w h s)"
  by (auto simp: grid_ok_def grid_new_rectangular)
     (auto simp: grid_new_def list_all_iff cell_ok_def unit_f32_def one_flt_def representable_fraction)

text \<open>
  C22. Over every run of Bayesian updates, scans, merges of peers' grids, evaporations and deposits no index leaves the
  grid and no operation panics; every victim probability and every pheromone level stays between 0 and 1, and
  a scanned cell stays scanned. Confidences and the rates of evaporation are within the unit interval or NaN, deposits are numbers that are not negative, and the
  grids of the peers are themselves valid.
\<close>
theorem grid_stays_a_probability_map:
  assumes "list_all event_ok es" "list_all event_ok es'"
  shows "\<exists>g g'. prun grid_exec (grid_new w h s) es = Some g \<and> prun grid_exec g es' = Some g' \<and>
     list_all (list_all (\<lambda>c. unit_f32 (victim_probability c) \<and> unit_f32 (pheromone_level c))) (cells g') \<and>
     scanned g \<subseteq> scanned g'"
proof -
  obtain g where g: "prun grid_exec (grid_new w h s) es = Some g" "grid_ok g" using grids.run_total[OF grid_new_ok assms(1)] by blast
  obtain g' where "prun grid_exec g es' = Some g'" "grid_ok g'" "same_shape g g'" using grids.run_total[OF g(2) assms(2)] by blast
  then show ?thesis using g(1) by (auto simp: grid_ok_def same_shape_def cell_ok_def[abs_def])
qed

theorem grid_stays_a_probability_map_witness:
  "\<exists>g. prun grid_exec (grid_new 2 2 (lit 5)) [GridMark (0, 1), GridUpdate (1, 1) NaN True] = Some g \<and>
     list_all (list_all (\<lambda>c. unit_f32 (victim_probability c) \<and> unit_f32 (pheromone_level c))) (cells g)"
  using grid_stays_a_probability_map[of "[GridMark (0, 1)]" "[GridUpdate (1, 1) NaN True]" 2 2 "lit 5"]
  by (auto split: Option.bind_splits)

end
