(* ===== verification/Coverage.thy ===== *)
theory Coverage
  imports Grid
begin

text \<open>
  The coverage strategy of \<open>src/planning/coverage.rs\<close>: its three phases, the choice of the next target and the
  transitions, over the grid of \<open>Grid\<close>.
\<close>

section \<open>The strategy\<close>

datatype coverage_phase = Systematic | ProbabilisticPursuit | Convergence "node_id list"

record coverage_strategy =
  cov_phase :: coverage_phase
  assignments :: "(node_id \<times> (u32 \<times> u32)) list"
  convergence_threshold :: f32

definition coverage_new :: "f32 \<Rightarrow> coverage_strategy" where
  "coverage_new threshold = \<lparr>cov_phase = Systematic, assignments = [], convergence_threshold = threshold\<rparr>"

definition cell_corner :: "probability_grid \<Rightarrow> f64 \<Rightarrow> u32 \<times> u32 \<Rightarrow> position3d" where
  "cell_corner g z = (\<lambda>(cx, cy). \<lparr>px = of_unsigned cx * cell_size_m g, py = of_unsigned cy * cell_size_m g, pz = z\<rparr>)"

definition next_waypoint :: "node_id \<Rightarrow> drone_state \<Rightarrow> probability_grid \<Rightarrow> f64 \<Rightarrow> coverage_strategy \<Rightarrow> position3d" where
  "next_waypoint i st g altitude c =
    (let default_wp = (case highest_priority_unscanned g of
         Some xy \<Rightarrow> cell_corner g (- altitude) xy
       | None \<Rightarrow> ds_position st)
     in case cov_phase c of
       Convergence _ \<Rightarrow> (case map_of (assignments c) i of Some xy \<Rightarrow> cell_corner g (- altitude) xy | None \<Rightarrow> default_wp)
     | _ \<Rightarrow> default_wp)"

definition cell_centre :: "probability_grid \<Rightarrow> f64 \<Rightarrow> u32 \<times> u32 \<Rightarrow> position3d" where
  "cell_centre g z = (\<lambda>(cx, cy). let r = cell_size_m g in
     \<lparr>px = of_unsigned cx * r + r / lit 2, py = of_unsigned cy * r + r / lit 2, pz = z\<rparr>)"

text \<open>The outer \<open>None\<close> is the panic of an index outside the grid.\<close>

definition next_target :: "drone_state \<Rightarrow> probability_grid \<Rightarrow> coverage_strategy \<Rightarrow> position3d option option" where
  "next_target st g c =
    (case cov_phase c of
       Systematic \<Rightarrow> map_option (map_option (cell_centre g (pz (ds_position st)))) (next_systematic_cell g)
     | _ \<Rightarrow> Some (map_option (cell_centre g (pz (ds_position st))) (highest_priority_unscanned g)))"

definition max_probability :: "probability_grid \<Rightarrow> f32" where
  "max_probability g = foldl fmax 0 (map victim_probability (concat (cells g)))"

definition phase_transition :: "probability_grid \<Rightarrow> coverage_strategy \<Rightarrow> coverage_strategy" where
  "phase_transition g c =
    (let max_p = max_probability g in
     c\<lparr>cov_phase := (case cov_phase c of
          Systematic \<Rightarrow> if convergence_threshold c \<le> max_p then ProbabilisticPursuit else Systematic
        | ProbabilisticPursuit \<Rightarrow> if lit (9/10) \<le> max_p then Convergence [] else ProbabilisticPursuit
        | Convergence ds \<Rightarrow> Convergence ds)\<rparr>)"

definition phase_transition_with_threshold :: "probability_grid \<Rightarrow> f32 \<Rightarrow> coverage_strategy \<Rightarrow> coverage_strategy" where
  "phase_transition_with_threshold g threshold c = phase_transition g c"

section \<open>Phases\<close>

fun phase_rank :: "coverage_phase \<Rightarrow> nat" where
  "phase_rank Systematic = 0"
| "phase_rank ProbabilisticPursuit = 1"
| "phase_rank (Convergence _) = 2"

lemma phase_transition_rank:
  "phase_rank (cov_phase (phase_transition g c)) \<le> phase_rank (cov_phase c) + 1 \<and>
   phase_rank (cov_phase c) \<le> phase_rank (cov_phase (phase_transition g c))"
  by (cases "cov_phase c") (auto simp: phase_transition_def Let_def)

interpretation phases: op_progress "\<lambda>c g. phase_transition g c" "\<lambda>_. True" "\<lambda>c c'. phase_rank (cov_phase c) \<le> phase_rank (cov_phase c')"
  by unfold_locales (use phase_transition_rank in auto)

lemma fold_fmax_upper: "0 \<le> a \<Longrightarrow> 0 \<le> foldl fmax a xs \<and> (\<forall>x \<in> set xs. \<not> foldl fmax a xs < x) \<and> \<not> foldl fmax a xs < a"
  for a :: "'a::len flt"
proof (induction xs arbitrary: a)
  case (Cons x xs)
  have a: "0 \<le> fmax a x" "\<not> fmax a x < x" "\<not> fmax a x < a"
    using Cons.prems flt_le_nan[OF Cons.prems]
    by (auto simp: fmax_def intro: flt_le_trans dest: flt_le_nan flt_le_not_less flt_less_nan dest!: flt_less_imp_le[of a x])
  note ih = Cons.IH[OF a(1)]
  have n: "\<not> is_nan (fmax a x)" "\<not> is_nan (foldl fmax (fmax a x) xs)" "\<not> is_nan a" using a(1) ih Cons.prems flt_le_nan by blast+
  have "\<not> foldl fmax (fmax a x) xs < y" if "\<not> fmax a x < y" for y
    using that ih n by (cases "is_nan y") (auto simp: flt_not_less intro: flt_le_trans dest: flt_less_nan)
  then show ?case using ih a by auto
qed simp

text \<open>
  The strategy moves through its phases in order: a transition never goes back and never skips a phase; the sweep ends
  exactly when some cell has reached the convergence threshold, the pursuit exactly when some cell has reached nine
  tenths, for every positive threshold.
\<close>
theorem phases_advance_on_evidence:
  assumes "0 < convergence_threshold c"
  shows "phase_rank (cov_phase c) \<le> phase_rank (cov_phase (phase_transition g c))
    \<and> (cov_phase c = Systematic \<longrightarrow> (cov_phase (phase_transition g c) =
        (if \<exists>k \<in> set (concat (cells g)). convergence_threshold c \<le> victim_probability k then ProbabilisticPursuit else Systematic)))
    \<and> (cov_phase c = ProbabilisticPursuit \<longrightarrow> (cov_phase (phase_transition g c) =
        (if \<exists>k \<in> set (concat (cells g)). lit (9/10) \<le> victim_probability k then Convergence [] else ProbabilisticPursuit)))"
proof -
  have mem: "foldl fmax a xs = a \<or> foldl fmax a xs \<in> set xs" for a :: f32 and xs
  proof (induction xs arbitrary: a)
    case (Cons x xs)
    then show ?case using Cons[of "fmax a x"] by (auto simp: fmax_def split: if_splits)
  qed simp
  have reached: "t \<le> max_probability g \<longleftrightarrow> (\<exists>k \<in> set (concat (cells g)). t \<le> victim_probability k)" if t: "0 < t" for t
  proof
    assume le: "t \<le> max_probability g"
    then have "max_probability g \<noteq> 0" using t flt_less_le_trans[OF t le] by auto
    then have "max_probability g \<in> victim_probability ` set (concat (cells g))"
      using mem[of 0 "map victim_probability (concat (cells g))"] by (auto simp: max_probability_def)
    then show "\<exists>k \<in> set (concat (cells g)). t \<le> victim_probability k" using le by (metis imageE)
  next
    assume "\<exists>k \<in> set (concat (cells g)). t \<le> victim_probability k"
    then obtain k where k: "k \<in> set (concat (cells g))" "t \<le> victim_probability k" by blast
    have "0 \<le> max_probability g" and "\<not> max_probability g < victim_probability k"
      using fold_fmax_upper[of 0 "map victim_probability (concat (cells g))"] k(1) by (auto simp: max_probability_def)
    then have "victim_probability k \<le> max_probability g"
      using flt_le_nan[OF k(2)] flt_le_nan[of 0 "max_probability g"] by (simp add: flt_not_less)
    then show "t \<le> max_probability g" using k(2) flt_le_trans by blast
  qed
  have "(lit (1/2) :: f32) \<le> lit (9/10)" unfolding lit_def by (rule rnd_mono) simp
  then have "0 < (lit (9/10) :: f32)" using flt_less_le_trans[of 0 "lit (1/2)"] by simp
  then show ?thesis using reached[OF assms] reached phase_transition_rank[of g c]
    by (auto simp: phase_transition_def Let_def)
qed

theorem phases_advance_on_evidence_witness:
  "cov_phase (phase_transition (grid_new 1 1 (lit 5)) (coverage_new (lit (1/2)))) = ProbabilisticPursuit \<and>
   cov_phase (phase_transition (grid_new 1 1 (lit 5)) (coverage_new (lit (3/4)))) = Systematic"
  using phases_advance_on_evidence[where c = "coverage_new (lit (1/2))" and g = "grid_new 1 1 (lit 5)"]
    phases_advance_on_evidence[where c = "coverage_new (lit (3/4))" and g = "grid_new 1 1 (lit 5)"]
  by (simp add: coverage_new_def grid_new_def words_below_def)

text \<open>
  \<open>highest_priority_unscanned\<close> does not look for unscanned cells: on a grid that is scanned completely it still returns a
  cell, so that \<open>next_waypoint\<close> never falls back to the drone's own position on a grid with a cell.
\<close>

lemma better_cell_some: "foldl better_cell (Some b) cs \<noteq> None"
  by (induction cs arbitrary: b) (auto simp: better_cell_def Let_def split: option.splits prod.splits)

lemma priority_ignores_scans: "concat (cells g) \<noteq> [] \<Longrightarrow> highest_priority_unscanned g \<noteq> None"
  using better_cell_some by (cases "concat (cells g)") (auto simp: highest_priority_unscanned_def better_cell_def Let_def)

end
