(* ===== verification/Sensing.thy ===== *)
theory Sensing
  imports Types Floats
begin

text \<open>
  The sensing payload of \<open>src/sensing\<close>: the scan of the CSI pipeline (\<open>payload.rs\<close>), the fusion of several drones'
  detections (\<open>multiview.rs\<close>) and the occupancy prior (\<open>occworld_bridge.rs\<close>). The random generator, \<open>exp\<close>, \<open>acos\<close> and the
  clock are parameters; a panic is \<open>None\<close>.
\<close>

section \<open>The payload\<close>

record payload_config =
  scan_freq_hz :: f64
  detection_range_m :: f64
  confidence_threshold :: f32
  esp32_baud_rate :: u32

definition payload_config_default :: payload_config where
  "payload_config_default =
    \<lparr>scan_freq_hz = lit 10, detection_range_m = lit 28, confidence_threshold = lit (6/10), esp32_baud_rate = 921600\<rparr>"

datatype pipeline_mode =
    Live string
  | Synthetic "position3d list" f64 u64
  | Replay string bool

record csi_pipeline =
  csi_node :: node_id
  csi_config :: payload_config
  mode :: pipeline_mode

definition new_live :: "node_id \<Rightarrow> payload_config \<Rightarrow> string \<Rightarrow> csi_pipeline" where
  "new_live i c port = \<lparr>csi_node = i, csi_config = c, mode = Live port\<rparr>"

definition new_synthetic :: "node_id \<Rightarrow> payload_config \<Rightarrow> position3d list \<Rightarrow> f64 \<Rightarrow> u64 \<Rightarrow> csi_pipeline" where
  "new_synthetic i c victims noise_std seed = \<lparr>csi_node = i, csi_config = c, mode = Synthetic victims noise_std seed\<rparr>"

definition new_replay :: "node_id \<Rightarrow> payload_config \<Rightarrow> string \<Rightarrow> bool \<Rightarrow> csi_pipeline" where
  "new_replay i c path loop_replay = \<lparr>csi_node = i, csi_config = c, mode = Replay path loop_replay\<rparr>"

text \<open>
  What one scan takes from outside: its \<open>n\<close>-th draw of \<open>gen_range(lo..hi)\<close>, \<open>None\<close> when that panics, \<open>f64::exp\<close> and the
  wall clock in milliseconds.
\<close>

record scan_env =
  draw :: "nat \<Rightarrow> f64 \<Rightarrow> f64 \<Rightarrow> f64 option"
  env_exp :: "f64 \<Rightarrow> f64"
  wall_clock_ms :: u64

definition scan_confidence :: "scan_env \<Rightarrow> payload_config \<Rightarrow> f64 \<Rightarrow> f64 \<Rightarrow> f32" where
  "scan_confidence env c distance noise =
    fcast (clamp_lit 0 (lit 1) (env_exp env (- distance / detection_range_m c) + noise))"

fun synthetic_scan :: "scan_env \<Rightarrow> csi_pipeline \<Rightarrow> position3d \<Rightarrow> f64 \<Rightarrow> nat \<Rightarrow> position3d list \<Rightarrow> csi_detection option option" where
  "synthetic_scan env p pos noise_std n [] = Some None"
| "synthetic_scan env p pos noise_std n (victim # victims) =
    (let distance = distance_to pos victim in
     if distance < detection_range_m (csi_config p) then
       Option.bind (draw env n (- noise_std) noise_std) (\<lambda>noise.
         let confidence = scan_confidence env (csi_config p) distance noise in
         if confidence_threshold (csi_config p) \<le> confidence then
           Option.bind (draw env (n + 1) (- noise_std * lit 5) (noise_std * lit 5)) (\<lambda>nx.
           Option.bind (draw env (n + 2) (- noise_std * lit 5) (noise_std * lit 5)) (\<lambda>ny.
             Some (Some \<lparr>det_drone_id = csi_node p, det_confidence = confidence,
               victim_position = Some \<lparr>px = px victim + nx, py = py victim + ny, pz = pz victim\<rparr>,
               det_timestamp_ms = wall_clock_ms env\<rparr>)))
         else synthetic_scan env p pos noise_std (n + 1) victims)
     else synthetic_scan env p pos noise_std n victims)"

definition scan :: "scan_env \<Rightarrow> csi_pipeline \<Rightarrow> position3d \<Rightarrow> csi_detection option option" where
  "scan env p pos = (case mode p of
     Synthetic victims noise_std _ \<Rightarrow> synthetic_scan env p pos noise_std 0 victims
   | _ \<Rightarrow> Some None)"

section \<open>Multi-view fusion\<close>

record fused_detection =
  fused_confidence :: f32
  estimated_position :: position3d
  contributing_drones :: "node_id list"
  uncertainty_m :: f64

record multiview_fusion =
  min_viewpoints :: u64
  min_confidence :: f32

definition multiview_fusion_default :: multiview_fusion where
  "multiview_fusion_default = \<lparr>min_viewpoints = 2, min_confidence = lit (1/2)\<rparr>"

definition pi_f64 :: f64 where
  "pi_f64 = Fin (884279719003555 / 281474976710656)"

definition centroid_of :: "position3d list \<Rightarrow> f64 \<times> f64" where
  "centroid_of ps = (let n = rnd (of_nat (length ps)) in (fsum (map px ps) / n, fsum (map py ps) / n))"

definition pair_angle :: "(f64 \<Rightarrow> f64) \<Rightarrow> f64 \<times> f64 \<Rightarrow> position3d \<Rightarrow> position3d \<Rightarrow> f64" where
  "pair_angle acos = (\<lambda>(cx, cy) p q.
    let a0 = px p - cx; a1 = py p - cy; b0 = px q - cx; b1 = py q - cy;
        dot = a0 * b0 + a1 * b1;
        mag_a = fmax (fsqrt (a0 * a0 + a1 * a1)) (lit (1 / 1000000000));
        mag_b = fmax (fsqrt (b0 * b0 + b1 * b1)) (lit (1 / 1000000000))
    in acos (clamp_lit (lit (-1)) (lit 1) (dot / (mag_a * mag_b))))"

fun pairs_of :: "'a list \<Rightarrow> ('a \<times> 'a) list" where
  "pairs_of [] = []"
| "pairs_of (x # xs) = map (Pair x) xs @ pairs_of xs"

definition geometric_diversity_index :: "(f64 \<Rightarrow> f64) \<Rightarrow> position3d list \<Rightarrow> f64" where
  "geometric_diversity_index acos ps =
    (if length ps < 2 then 0
     else let c = centroid_of ps;
              total_angle = foldl (\<lambda>s (p, q). s + pair_angle acos c p q) 0 (pairs_of ps)
          in if 0 < length (pairs_of ps) then total_angle / rnd (of_nat (length (pairs_of ps))) else 0)"

definition usable :: "multiview_fusion \<Rightarrow> csi_detection \<Rightarrow> bool" where
  "usable f d \<longleftrightarrow> is_finite (det_confidence d) \<and> min_confidence f \<le> det_confidence d \<and>
    (case victim_position d of Some p \<Rightarrow> is_finite (px p) \<and> is_finite (py p) \<and> is_finite (pz p) | None \<Rightarrow> False)"

definition viewpoints :: "multiview_fusion \<Rightarrow> csi_detection list \<Rightarrow> (node_id \<times> position3d) list \<Rightarrow> (csi_detection \<times> position3d) list" where
  "viewpoints f detections drone_positions =
    List.map_filter (\<lambda>d. map_option (Pair d) (map_of drone_positions (det_drone_id d))) (filter (usable f) detections)"

definition weigh :: "f32 \<Rightarrow> f64 \<times> f64 \<times> f64 \<times> f32 \<Rightarrow> csi_detection \<Rightarrow> f64 \<times> f64 \<times> f64 \<times> f32" where
  "weigh total_weight = (\<lambda>(x, y, z, conf) d.
    let w = det_confidence d / total_weight; vp = the (victim_position d)
    in (x + fcast w * px vp, y + fcast w * py vp, z + fcast w * pz vp, conf + w * det_confidence d))"

definition fuse :: "(f64 \<Rightarrow> f64) \<Rightarrow> multiview_fusion \<Rightarrow> csi_detection list \<Rightarrow> (node_id \<times> position3d) list \<Rightarrow> fused_detection option" where
  "fuse acos f detections drone_positions =
    (let vs = viewpoints f detections drone_positions in
     if length vs < unat (min_viewpoints f) then None
     else
       let gdi = geometric_diversity_index acos (map snd vs);
           total_weight = fsum (map (det_confidence \<circ> fst) vs)
       in case foldl (weigh total_weight) (0, 0, 0, 0) (map fst vs) of (x, y, z, conf) \<Rightarrow>
            let n = rnd (of_nat (length vs));
                gdi_factor = clamp_lit (lit 1) (lit 2) (lit 1 + gdi / pi_f64)
            in Some \<lparr>fused_confidence = conf, estimated_position = \<lparr>px = x, py = y, pz = z\<rparr>,
                 contributing_drones = map (det_drone_id \<circ> fst) vs, uncertainty_m = lit 5 / (fsqrt n * gdi_factor)\<rparr>)"

section \<open>The occupancy prior\<close>

record voxel_cell =
  vox_x :: f32
  vox_y :: f32
  vox_z :: f32
  occupancy :: f32
  semantic_class :: u8

record occupancy_prior =
  voxels :: "voxel_cell list"
  resolution_m :: f32
  origin :: "f32 \<times> f32 \<times> f32"
  prior_timestamp_ms :: u64

definition free_cells_at_altitude :: "f32 \<Rightarrow> f32 \<Rightarrow> f32 \<Rightarrow> occupancy_prior \<Rightarrow> (f32 \<times> f32) list" where
  "free_cells_at_altitude target_z band_m threshold p =
    map (\<lambda>v. (vox_x v, vox_y v))
      (filter (\<lambda>v. occupancy v < threshold \<and> fabs (vox_z v - target_z) < band_m) (voxels p))"

definition voxel_position :: "voxel_cell \<Rightarrow> position3d" where
  "voxel_position v = \<lparr>px = fcast (vox_x v), py = fcast (vox_y v), pz = fcast (vox_z v)\<rparr>"

definition obstacle_cells :: "f32 \<Rightarrow> occupancy_prior \<Rightarrow> position3d list" where
  "obstacle_cells threshold p = map voxel_position (filter (\<lambda>v. threshold \<le> occupancy v) (voxels p))"

definition person_cells :: "occupancy_prior \<Rightarrow> position3d list" where
  "person_cells p = map voxel_position (filter (\<lambda>v. semantic_class v = 3) (voxels p))"

definition room_voxel :: "f32 \<Rightarrow> nat \<Rightarrow> nat \<Rightarrow> nat \<Rightarrow> nat \<Rightarrow> voxel_cell" where
  "room_voxel res steps xi yi zi =
    (let is_wall = (xi = 0 \<or> xi = steps - 1 \<or> yi = 0 \<or> yi = steps - 1)
     in \<lparr>vox_x = rnd (of_nat xi) * res - lit 20 / lit 2, vox_y = rnd (of_nat yi) * res - lit 20 / lit 2,
         vox_z = rnd (of_nat zi) * res, occupancy = (if is_wall then lit 1 else 0),
         semantic_class = (if is_wall then 1 else if zi = 0 then 2 else 0)\<rparr>)"

definition room_steps :: "f32 \<Rightarrow> nat" where
  "room_steps res = nat (sint (as_signed (lit 20 / res) :: i32))"

definition synthetic_room :: "f32 \<Rightarrow> occupancy_prior" where
  "synthetic_room res = (let steps = room_steps res in
    \<lparr>voxels = concat (map (\<lambda>xi. concat (map (\<lambda>yi. map (room_voxel res steps xi yi) [0..<15]) [0..<steps])) [0..<steps]),
     resolution_m = res, origin = (0, 0, 0), prior_timestamp_ms = 0\<rparr>)"

record occworld_bridge =
  script_path :: string
  last_prior :: "occupancy_prior option"

definition bridge_new :: "string \<Rightarrow> occworld_bridge" where
  "bridge_new path = \<lparr>script_path = path, last_prior = None\<rparr>"

definition bridge_default :: occworld_bridge where
  "bridge_default = \<lparr>script_path = ''occworld_infer.py'', last_prior = None\<rparr>"

definition infer_demo :: "occworld_bridge \<Rightarrow> occworld_bridge \<times> occupancy_prior" where
  "infer_demo b = (let p = synthetic_room (lit (2/10)) in (b\<lparr>last_prior := Some p\<rparr>, p))"

definition infer :: "bool \<Rightarrow> occworld_bridge \<Rightarrow> occworld_bridge \<times> occupancy_prior" where
  "infer demo_mode b =
    (if demo_mode then let p = synthetic_room (lit (2/10)) in (b\<lparr>last_prior := Some p\<rparr>, p)
     else let p = synthetic_room (lit (2/10)) in (b\<lparr>last_prior := Some p\<rparr>, p))"


section \<open>What a scan reports\<close>

text \<open>
  The contract of \<open>rand\<close>'s \<open>gen_range\<close> on floats: a value of the half-open range, and a panic for a range that is empty
  or of infinite width.
\<close>

definition gen_range_ok :: "scan_env \<Rightarrow> bool" where
  "gen_range_ok env \<longleftrightarrow> (\<forall>n lo hi.
     if lo < hi \<and> is_finite (hi - lo) then \<exists>v. draw env n lo hi = Some v \<and> lo \<le> v \<and> v < hi else draw env n lo hi = None)"

definition range_sound :: "f64 \<Rightarrow> f64 \<Rightarrow> bool" where
  "range_sound lo hi \<longleftrightarrow> lo < hi \<and> is_finite (hi - lo)"

definition noise_sound :: "csi_pipeline \<Rightarrow> bool" where
  "noise_sound p = (case mode p of
     Synthetic _ s _ \<Rightarrow> range_sound (- s) s \<and> range_sound (- s * lit 5) (s * lit 5) | _ \<Rightarrow> True)"

lemma draw_sound: "gen_range_ok env \<Longrightarrow> range_sound lo hi \<Longrightarrow> \<exists>v. draw env n lo hi = Some v \<and> lo \<le> v \<and> v < hi"
  by (simp add: gen_range_ok_def range_sound_def)

definition truthful :: "csi_pipeline \<Rightarrow> position3d \<Rightarrow> f64 \<Rightarrow> position3d list \<Rightarrow> csi_detection \<Rightarrow> bool" where
  "truthful p pos s victims d \<longleftrightarrow>
    det_drone_id d = csi_node p \<and> confidence_threshold (csi_config p) \<le> det_confidence d \<and>
    0 \<le> det_confidence d \<and> det_confidence d \<le> 1 \<and>
    (\<exists>v \<in> set victims. distance_to pos v < detection_range_m (csi_config p) \<and>
       (\<exists>nx ny. - s * lit 5 \<le> nx \<and> nx < s * lit 5 \<and> - s * lit 5 \<le> ny \<and> ny < s * lit 5 \<and>
         victim_position d = Some \<lparr>px = px v + nx, py = py v + ny, pz = pz v\<rparr>))"

lemma scan_confidence_unit:
  "\<not> is_nan (scan_confidence env c x n) \<Longrightarrow> 0 \<le> scan_confidence env c x n \<and> scan_confidence env c x n \<le> 1"
  using clamp_lit_range[of 0 "lit 1" "env_exp env (- x / detection_range_m c) + n"] fcast_unit
  by (cases "env_exp env (- x / detection_range_m c) + n") (auto simp: scan_confidence_def one_flt_def zero_flt_def)

lemma synthetic_scan_truthful:
  assumes g: "gen_range_ok env" and s: "range_sound (- s) s" "range_sound (- s * lit 5) (s * lit 5)"
  shows "\<exists>r. synthetic_scan env p pos s n victims = Some r \<and> (\<forall>d. r = Some d \<longrightarrow> truthful p pos s victims d)"
proof (induction victims arbitrary: n)
  case (Cons v vs)
  have weaken: "truthful p pos s vs d \<Longrightarrow> truthful p pos s (v # vs) d" for d by (auto simp: truthful_def)
  obtain e where e: "draw env n (- s) s = Some e" using draw_sound[OF g s(1)] by blast
  obtain nx ny where xy: "draw env (n + 1) (- s * lit 5) (s * lit 5) = Some nx" "- s * lit 5 \<le> nx" "nx < s * lit 5"
      "draw env (n + 2) (- s * lit 5) (s * lit 5) = Some ny" "- s * lit 5 \<le> ny" "ny < s * lit 5"
    using draw_sound[OF g s(2)] by metis
  let ?c = "scan_confidence env (csi_config p) (distance_to pos v) e"
  have "\<not> is_nan ?c" if "confidence_threshold (csi_config p) \<le> ?c" using that flt_le_nan by blast
  then have unit: "confidence_threshold (csi_config p) \<le> ?c \<Longrightarrow> 0 \<le> ?c \<and> ?c \<le> 1" using scan_confidence_unit by blast
  show ?case
    using Cons.IH[of n] Cons.IH[of "n + 1"] e xy unit by (auto simp: Let_def dest: weaken) (auto simp: truthful_def)
qed (simp add: truthful_def)

lemma scan_reports_ok:
  assumes "gen_range_ok env" "noise_sound p"
  shows "\<exists>r. scan env p pos = Some r \<and>
    (\<forall>d. r = Some d \<longrightarrow> (\<exists>victims s seed. mode p = Synthetic victims s seed \<and> truthful p pos s victims d))"
proof (cases "mode p")
  case (Synthetic victims s seed)
  then show ?thesis using synthetic_scan_truthful[OF assms(1), of s p pos 0 victims] assms(2)
    by (simp add: scan_def noise_sound_def)
qed (simp_all add: scan_def)

text \<open>
  With a random generator that keeps its contract and a noise that gives it proper ranges, a scan never panics, and
  what it reports is a victim in detection range: under the node's own identifier, with a confidence that
  reaches the threshold and lies in the unit interval, at the victim's position up to the noise, depth unchanged. Live and replay pipelines report nothing.
\<close>
theorem scan_reports_victims_in_range:
  assumes "gen_range_ok env" "noise_sound p"
  shows "\<exists>r. scan env p pos = Some r \<and>
    (\<forall>d. r = Some d \<longrightarrow> (\<exists>victims s seed. mode p = Synthetic victims s seed \<and> truthful p pos s victims d))"
  using assms by (rule scan_reports_ok)

definition demo_env :: scan_env where
  "demo_env = \<lparr>draw = (\<lambda>n lo hi. if lo < hi \<and> is_finite (hi - lo) then Some lo else None), env_exp = (\<lambda>_. Fin 1), wall_clock_ms = 5\<rparr>"

lemma demo_env_ok: "gen_range_ok demo_env"
  using flt_less_imp_le by (auto simp: gen_range_ok_def demo_env_def dest: flt_less_nan)

theorem scan_reports_victims_in_range_witness:
  "\<exists>r. scan demo_env (new_synthetic 3 (payload_config_default\<lparr>confidence_threshold := lit (1/2)\<rparr>) [position_zero] (lit (1/16)) 1) position_zero = Some r"
  using scan_reports_victims_in_range[OF demo_env_ok, of "new_synthetic 3 (payload_config_default\<lparr>confidence_threshold := lit (1/2)\<rparr>) [position_zero] (lit (1/16)) 1" position_zero]
  by (auto simp: noise_sound_def new_synthetic_def range_sound_def representable_fraction Fin_mult mk_def Fin_sub)

text \<open>
  A noise of zero, which a configuration may ask for, makes every range empty: the first scan with a victim in
  range panics.
\<close>

lemma scan_without_noise_panics:
  "gen_range_ok env \<Longrightarrow> distance_to pos v < detection_range_m (csi_config p) \<Longrightarrow>
   mode p = Synthetic (v # vs) 0 seed \<Longrightarrow> scan env p pos = None"
  by (simp add: scan_def gen_range_ok_def zero_flt_def)


section \<open>What a fusion reports\<close>

lemma map_filter_Cons [simp]: "List.map_filter f (x # xs) = (case f x of Some y \<Rightarrow> y # List.map_filter f xs | None \<Rightarrow> List.map_filter f xs)"
  by (cases "f x") (simp_all add: List.map_filter_def)

lemma map_filter_Nil [simp]: "List.map_filter f [] = []"
  by (simp add: List.map_filter_def)

lemma viewpoints_usable:
  "vp \<in> set (viewpoints f ds ps) \<Longrightarrow> usable f (fst vp) \<and> fst vp \<in> set ds \<and> map_of ps (det_drone_id (fst vp)) = Some (snd vp)"
  by (auto simp: viewpoints_def List.map_filter_def)

lemma fuse_filter: "fuse acos f (filter (usable f) ds) ps = fuse acos f ds ps"
  by (simp add: fuse_def viewpoints_def)

lemma fsum_positive:
  assumes "xs \<noteq> []" "\<forall>x \<in> set xs. 0 < x \<and> valid (x :: 'a::len flt)"
  shows "0 < fsum xs"
proof -
  have more: "0 < foldl (+) a ys" if "0 < a" "valid a" "\<forall>x \<in> set ys. 0 < x \<and> valid x" for a :: "'a flt" and ys
    using that
  proof (induction ys arbitrary: a)
    case (Cons y ys)
    have "\<not> is_nan (a + y)" using Cons.prems(1,3) by (cases a; cases y) (auto simp: plus_flt_def)
    then have "a \<le> a + y" using Cons.prems by (intro flt_add_ge) (auto intro: flt_less_imp_le)
    then have "0 < a + y" using Cons.prems(1) flt_less_le_trans by blast
    with Cons show ?case by simp
  qed simp
  obtain x ys where xs: "xs = x # ys" using assms(1) by (cases xs) auto
  have "NZero + x = x" using assms(2) xs by (cases x) (auto simp: plus_flt_def mk_def rnd_exact)
  then show ?thesis using more[of x ys] assms(2) by (simp add: fsum_def xs)
qed

lemma weights_nonneg:
  assumes "\<forall>d \<in> set ds. 0 < det_confidence d \<and> is_finite (det_confidence d)" "0 < t" "not_neg c"
  shows "case foldl (weigh t) (x, y, z, c) ds of (_, _, _, c') \<Rightarrow> not_neg c'"
  using assms(1,3)
proof (induction ds arbitrary: x y z c)
  case (Cons d ds)
  then have "not_neg (det_confidence d / t * det_confidence d)"
    using assms(2) by (intro not_neg_mult not_neg_div) (auto simp: not_neg_def flt_less_imp_le)
  with Cons show ?case by (simp add: weigh_def Let_def not_neg_add)
qed simp

lemma clamp_one_two: "clamp_lit (lit 1) (lit 2) g = NaN \<or> 1 \<le> clamp_lit (lit 1) (lit 2) (g :: f64)"
  using clamp_lit_range[of "lit 1" "lit 2" g] by (cases g) (auto simp: one_flt_def)

lemma uncertainty_bounded:
  assumes "0 < n" "n < 2 ^ 64"
  shows "is_nan (lit 5 / (fsqrt (rnd (of_nat n)) * clamp_lit (lit 1) (lit 2) (g :: f64))) \<or>
    0 \<le> lit 5 / (fsqrt (rnd (of_nat n)) * clamp_lit (lit 1) (lit 2) g) \<and>
    lit 5 / (fsqrt (rnd (of_nat n)) * clamp_lit (lit 1) (lit 2) g) \<le> Fin 5"
proof -
  let ?c = "clamp_lit (lit 1) (lit 2) g" and ?s = "fsqrt (rnd (of_nat n)) :: f64"
  obtain q where q: "(rnd (of_nat n) :: f64) = Fin q" "1 \<le> q" using rnd_count[OF assms] .
  have s: "1 \<le> ?s" using q by (intro fsqrt_ge_one) (simp add: one_flt_def)
  have five: "(lit 5 :: f64) = Fin 5" by simp
  show ?thesis
  proof (cases "is_nan (lit 5 / (?s * ?c))")
    case False
    then have nn: "\<not> is_nan (?s * ?c)" "\<not> is_nan ?c" using not_nan_parts by blast+
    then have c: "1 \<le> ?c" using clamp_one_two[of g] by auto
    have "1 * 1 \<le> ?s * ?c" using s c nn by (intro flt_mult_mono) (simp_all add: one_flt_def Fin_mult)
    then have d: "1 \<le> ?s * ?c" by (simp add: one_flt_def Fin_mult mk_def)
    then have "0 < ?s * ?c" using flt_less_le_trans[of 0 1] by (simp add: one_flt_def)
    then have "not_neg (lit 5 / (?s * ?c))" by (intro not_neg_div) (auto simp: not_neg_def five)
    moreover have "lit 5 / (?s * ?c) \<le> lit 5" using d False by (intro flt_div_le) (auto simp: five representable_numeral)
    ultimately show ?thesis using False by (simp add: not_neg_def five)
  qed simp
qed

text \<open>
  C23. Fusion fails closed: unusable detections (not confident, not finite, without a position) change nothing; a result stands for at least the
  required number of detections, each of them usable and from a drone whose position is known; its
  confidence is not negative or not a number, and its uncertainty between zero and five metres or not a number. The thresholds are positive. It is
  detections that are counted: several of one drone count as several viewpoints.
\<close>
theorem fusion_fails_closed:
  assumes "0 < min_confidence f" "0 < min_viewpoints f"
    and "length ds < 2 ^ 64" "list_all (\<lambda>d. valid (det_confidence d)) ds"
  shows "fuse acos f (filter (usable f) ds) ps = fuse acos f ds ps \<and>
    (case fuse acos f ds ps of None \<Rightarrow> length (viewpoints f ds ps) < unat (min_viewpoints f)
     | Some r \<Rightarrow> unat (min_viewpoints f) \<le> length (contributing_drones r) \<and>
         set (contributing_drones r) \<subseteq> {i. \<exists>d \<in> set ds. det_drone_id d = i \<and> usable f d \<and> map_of ps i \<noteq> None} \<and>
         (is_nan (fused_confidence r) \<or> 0 \<le> fused_confidence r) \<and>
         (is_nan (uncertainty_m r) \<or> 0 \<le> uncertainty_m r \<and> uncertainty_m r \<le> Fin 5))"
proof -
  define vs where "vs = viewpoints f ds ps"
  have conf: "0 < det_confidence d \<and> is_finite (det_confidence d)" if "d \<in> set (map fst vs)" for d
    using that viewpoints_usable assms(1) flt_less_le_trans[of 0 "min_confidence f"] unfolding vs_def by (fastforce simp: usable_def)
  have len: "length vs \<le> length ds" unfolding vs_def viewpoints_def List.map_filter_def by (simp add: le_trans[OF length_filter_le] length_filter_le)
  show ?thesis
  proof (cases "length vs < unat (min_viewpoints f)")
    case True
    then have "fuse acos f ds ps = None" by (simp add: fuse_def Let_def vs_def)
    with True show ?thesis by (simp add: fuse_filter vs_def)
  next
    case False
    then have pos: "0 < length vs" "length vs < 2 ^ 64" using assms(2,3) len unat_gt_0[of "min_viewpoints f"] by auto
    define t where "t = fsum (map (det_confidence \<circ> fst) vs)"
    obtain x y z c where xyzc: "foldl (weigh t) (0, 0, 0, 0) (map fst vs) = (x, y, z, c)" by (metis prod_cases4)
    then obtain r where r: "fuse acos f ds ps = Some r" and rf: "fused_confidence r = c" "contributing_drones r = map (det_drone_id \<circ> fst) vs"
        "uncertainty_m r = lit 5 / (fsqrt (rnd (of_nat (length vs))) *
           clamp_lit (lit 1) (lit 2) (lit 1 + geometric_diversity_index acos (map snd vs) / pi_f64))"
      using False by (auto simp: fuse_def Let_def vs_def[symmetric] t_def[symmetric])
    have "0 < t" unfolding t_def using pos(1) conf assms(4) viewpoints_usable[of _ f ds ps]
      by (intro fsum_positive) (fastforce simp: vs_def[symmetric] list_all_iff)+
    then have "not_neg c" using weights_nonneg[of "map fst vs" t 0 0 0 0] conf xyzc by auto
    moreover have "set (contributing_drones r) \<subseteq> {i. \<exists>d \<in> set ds. det_drone_id d = i \<and> usable f d \<and> map_of ps i \<noteq> None}"
      using viewpoints_usable[of _ f ds ps] by (fastforce simp: rf vs_def[symmetric])
    ultimately show ?thesis using False uncertainty_bounded[OF pos] by (simp add: fuse_filter r rf not_neg_def)
  qed
qed

theorem fusion_fails_closed_witness:
  "fuse (\<lambda>x. x) multiview_fusion_default
     [\<lparr>det_drone_id = 0, det_confidence = Fin 1, victim_position = Some position_zero, det_timestamp_ms = 0\<rparr>,
      \<lparr>det_drone_id = 1, det_confidence = Fin 1, victim_position = Some \<lparr>px = NaN, py = 0, pz = 0\<rparr>, det_timestamp_ms = 0\<rparr>]
     [(0, position_zero), (1, position_zero)] = None"
proof -
  let ?f = multiview_fusion_default
  let ?d0 = "\<lparr>det_drone_id = 0, det_confidence = Fin 1, victim_position = Some position_zero, det_timestamp_ms = 0\<rparr>"
  let ?d1 = "\<lparr>det_drone_id = 1, det_confidence = Fin 1, victim_position = Some \<lparr>px = NaN, py = 0, pz = 0\<rparr>, det_timestamp_ms = 0\<rparr>"
  have u: "usable ?f ?d0" "\<not> usable ?f ?d1"
    by (simp_all add: usable_def multiview_fusion_default_def position_zero_def representable_fraction zero_flt_def)
  then have "fuse (\<lambda>x. x) ?f (filter (usable ?f) [?d0, ?d1]) [(0, position_zero), (1, position_zero)] = None"
    by (simp add: fuse_def viewpoints_def multiview_fusion_default_def)
  then show ?thesis
    by (subst fusion_fails_closed[of ?f "[?d0, ?d1]" "\<lambda>x. x" "[(0, position_zero), (1, position_zero)]", THEN conjunct1, symmetric])
      (simp_all add: multiview_fusion_default_def representable_fraction representable_numeral)
qed

text \<open>
  The viewpoints are not required to be of different drones: two detections of one drone count as two.
\<close>

lemma one_drone_is_two_viewpoints:
  "usable f d \<Longrightarrow> min_viewpoints f = 2 \<Longrightarrow> fuse acos f [d, d] [(det_drone_id d, p)] \<noteq> None"
  by (simp add: fuse_def Let_def viewpoints_def split: prod.splits)

text \<open>
  A confidence is not bounded from above: a single detection with a huge confidence outweighs all others, and the
  fused confidence is its own.
\<close>

lemma one_confidence_decides:
  "fst (foldl (weigh (fsum [Fin 12582912, Fin (1/4)])) (0, 0, 0, 0)
     [\<lparr>det_drone_id = 0, det_confidence = Fin 12582912, victim_position = Some \<lparr>px = Fin 100, py = 0, pz = 0\<rparr>, det_timestamp_ms = 0\<rparr>,
      \<lparr>det_drone_id = 1, det_confidence = Fin (1/4), victim_position = Some \<lparr>px = 0, py = 0, pz = 0\<rparr>, det_timestamp_ms = 0\<rparr>])
   = Fin 100"
proof -
  have r: "(rnd (12582912 + 1/4) :: f32) = Fin 12582912"
    using rnd_decimal[of 12582912 0 "12582912 + 1/4", where 'a = 32] by simp
  have "NZero + Fin 12582912 = (Fin 12582912 :: f32)" by (simp add: plus_flt_def mk_def)
  then have t: "fsum [Fin 12582912, Fin (1/4)] = (Fin 12582912 :: f32)" using r by (simp add: fsum_def Fin_add mk_def)
  obtain v where v: "(rnd (1 / 50331648) :: f32) = Fin v" "v \<le> 1" "0 \<le> v"
    using rnd_le_valid[of 1 "1 / 50331648", where 'a = 32] rnd_nonneg[of "1 / 50331648", where 'a = 32]
    by (cases "rnd (1 / 50331648) :: f32") (auto simp: representable_numeral rnd_def Let_def split: if_splits)
  obtain v' where "(rnd v :: f64) = Fin v'" "0 \<le> v'"
    using rnd_le_valid[of 1 v, where 'a = 64] rnd_nonneg[of v, where 'a = 64] v by (cases "rnd v :: f64") (auto simp: representable_numeral rnd_def Let_def split: if_splits)
  then show ?thesis unfolding t using v by (simp add: weigh_def fin_arith)
qed

section \<open>The demonstration room\<close>

lemma edge_sum:
  assumes "2 \<le> n" "\<And>i. 0 < i \<Longrightarrow> i < n - 1 \<Longrightarrow> g i = c"
  shows "sum_list (map g [0..<n]) = g 0 + (n - 2) * c + (g (n - 1) :: nat)"
proof -
  have "[0..<n] = 0 # [1..<n - 1] @ [n - 1]"
    using assms(1) upt_conv_Cons[of 0 n] upt_Suc_append[of 1 "n - 1"] by simp
  moreover have "sum_list (map g [1..<n - 1]) = (n - 2) * c"
  proof -
    have "map g [1..<n - 1] = replicate (n - 2) c"
      by (rule nth_equalityI) (auto intro: assms(2))
    then show ?thesis by (simp add: sum_list_replicate)
  qed
  ultimately show ?thesis by simp
qed

text \<open>The synthetic room is closed: exactly the voxels of its perimeter are obstacles, and no voxel holds a person.\<close>

lemma room_is_walled:
  assumes "2 \<le> room_steps res"
  shows "length (voxels (synthetic_room res)) = 15 * (room_steps res)\<^sup>2 \<and>
    length (obstacle_cells (lit (1/2)) (synthetic_room res)) = 15 * (4 * room_steps res - 4) \<and>
    person_cells (synthetic_room res) = []"
proof -
  let ?n = "room_steps res"
  define wall where "wall xi yi \<longleftrightarrow> xi = 0 \<or> xi = ?n - 1 \<or> yi = 0 \<or> yi = ?n - 1" for xi yi :: nat
  have occ: "lit (1/2) \<le> occupancy (room_voxel res ?n xi yi zi) \<longleftrightarrow> wall xi yi" for xi yi zi
    by (simp add: room_voxel_def Let_def wall_def representable_fraction)
  have slice: "length (filter (\<lambda>v. lit (1/2) \<le> occupancy v) (map (room_voxel res ?n xi yi) [0..<15])) = (if wall xi yi then 15 else 0)" for xi yi
    by (simp only: filter_map comp_def occ length_map) simp
  have row: "sum_list (map (\<lambda>yi. if wall xi yi then 15 else 0) [0..<?n]) = (if xi = 0 \<or> xi = ?n - 1 then 15 * ?n else 30)" for xi
    using assms edge_sum[OF assms, of "\<lambda>yi. if wall xi yi then 15 else 0" "if xi = 0 \<or> xi = ?n - 1 then 15 else 0"]
    by (auto simp: wall_def)
  have "length (obstacle_cells (lit (1/2)) (synthetic_room res)) = sum_list (map (\<lambda>xi. if xi = 0 \<or> xi = ?n - 1 then 15 * ?n else 30) [0..<?n])"
    unfolding obstacle_cells_def synthetic_room_def Let_def
    by (simp only: length_map occupancy_prior.simps filter_concat length_concat map_map comp_def slice row)
  also have "\<dots> = 15 * (4 * ?n - 4)"
    using assms edge_sum[OF assms, of "\<lambda>xi. if xi = 0 \<or> xi = ?n - 1 then 15 * ?n else 30" 30] by auto
  finally have "length (obstacle_cells (lit (1/2)) (synthetic_room res)) = 15 * (4 * ?n - 4)" .
  moreover have "length (voxels (synthetic_room res)) = 15 * ?n\<^sup>2"
    by (simp add: synthetic_room_def Let_def length_concat comp_def sum_list_triv power2_eq_square)
  moreover have "person_cells (synthetic_room res) = []"
    by (auto simp: person_cells_def synthetic_room_def Let_def room_voxel_def filter_empty_conv)
  ultimately show ?thesis by blast
qed

end
