(* ===== verification/Config.thy ===== *)
theory Config
  imports Types Floats
begin

text \<open>
  The configuration of \<open>src/config/mod.rs\<close>: the records of its sections and the built-in mission profiles. Reading TOML
  is the \<open>toml\<close> crate's work and not modelled.
\<close>

section \<open>Records\<close>

record swarm_params =
  max_agents :: u64
  cluster_size :: u64
  raft_election_timeout_ms :: u64
  raft_heartbeat_ms :: u64
  gossip_fanout :: u64

record formation_config =
  formation_mode :: string
  min_separation_m :: f64
  grid_spacing_m :: f64

record planning_config =
  flight_altitude_m :: f64
  max_speed_ms :: f64
  csi_scan_width_m :: f64
  lateral_overlap_pct :: f64
  pl_convergence_threshold :: f32

record security_config =
  mavlink_signing :: bool
  uwb_antispoofing :: bool
  uwb_tolerance_m :: f64
  geofence_hard_margin_m :: f64
  geofence_soft_margin_m :: f64
  remote_id_broadcast_hz :: f64

record mission_config =
  profile :: string
  area_width_m :: f64
  area_height_m :: f64
  grid_resolution_m :: f64
  max_flight_time_mins :: f64

record demo_config =
  synthetic_csi :: bool
  demo_victim_positions :: "(f64 \<times> f64 \<times> f64) list"
  wind_noise_ms :: f64
  csi_noise_std :: f64
  packet_loss_pct :: f64
  replay_speed :: f64

record swarm_config =
  cfg_swarm :: swarm_params
  cfg_formation :: formation_config
  cfg_planning :: planning_config
  cfg_security :: security_config
  cfg_mission :: mission_config
  cfg_demo :: "demo_config option"

section \<open>Profiles\<close>

definition sar_default :: swarm_config where
  "sar_default =
    \<lparr>cfg_swarm = \<lparr>max_agents = 12, cluster_size = 4, raft_election_timeout_ms = 300, raft_heartbeat_ms = 100, gossip_fanout = 3\<rparr>,
     cfg_formation = \<lparr>formation_mode = ''virtual_structure'', min_separation_m = lit 5, grid_spacing_m = lit 20\<rparr>,
     cfg_planning = \<lparr>flight_altitude_m = lit 30, max_speed_ms = lit 8, csi_scan_width_m = lit 28,
       lateral_overlap_pct = lit 20, pl_convergence_threshold = lit (3/4)\<rparr>,
     cfg_security = \<lparr>mavlink_signing = True, uwb_antispoofing = True, uwb_tolerance_m = lit 2,
       geofence_hard_margin_m = lit 20, geofence_soft_margin_m = lit 50, remote_id_broadcast_hz = lit 1\<rparr>,
     cfg_mission = \<lparr>profile = ''sar'', area_width_m = lit 500, area_height_m = lit 500, grid_resolution_m = lit 5,
       max_flight_time_mins = lit 25\<rparr>,
     cfg_demo = None\<rparr>"

definition inspection_default :: swarm_config where
  "inspection_default = (let c = sar_default in
    c\<lparr>cfg_mission := (cfg_mission c)\<lparr>profile := ''inspection''\<rparr>,
      cfg_planning := (cfg_planning c)\<lparr>flight_altitude_m := lit 15, max_speed_ms := lit 4\<rparr>,
      cfg_formation := (cfg_formation c)\<lparr>formation_mode := ''leader_follower''\<rparr>\<rparr>)"

definition agriculture_default :: swarm_config where
  "agriculture_default = (let c = sar_default in
    c\<lparr>cfg_mission := (cfg_mission c)\<lparr>profile := ''agriculture''\<rparr>,
      cfg_planning := (cfg_planning c)\<lparr>flight_altitude_m := lit 10, max_speed_ms := lit 6, csi_scan_width_m := lit 15\<rparr>,
      cfg_formation := (cfg_formation c)\<lparr>formation_mode := ''virtual_structure'', grid_spacing_m := lit 12\<rparr>\<rparr>)"

definition mine_default :: swarm_config where
  "mine_default = (let c = sar_default in
    c\<lparr>cfg_mission := (cfg_mission c)\<lparr>profile := ''mine''\<rparr>,
      cfg_planning := (cfg_planning c)\<lparr>flight_altitude_m := lit 5, max_speed_ms := lit 2\<rparr>,
      cfg_security := (cfg_security c)\<lparr>uwb_antispoofing := True\<rparr>\<rparr>)"

definition wi2sar_reference :: swarm_config where
  "wi2sar_reference = (let c = sar_default in
    c\<lparr>cfg_mission := (cfg_mission c)\<lparr>area_width_m := lit 400, area_height_m := lit 400\<rparr>,
      cfg_planning := (cfg_planning c)\<lparr>max_speed_ms := lit 8, csi_scan_width_m := lit 28, lateral_overlap_pct := lit 20\<rparr>\<rparr>)"

definition demo_default :: swarm_config where
  "demo_default = (let c = sar_default in
    c\<lparr>cfg_demo := Some \<lparr>synthetic_csi = True,
        demo_victim_positions = [(lit 50, lit 80, 0), (lit 150, lit 200, 0), (lit 300, lit 100, 0)],
        wind_noise_ms = lit 2, csi_noise_std = lit (5/100), packet_loss_pct = lit 5, replay_speed = lit 1\<rparr>\<rparr>)"

lemmas profile_defs = sar_default_def inspection_default_def agriculture_default_def mine_default_def
  wi2sar_reference_def demo_default_def Let_def

section \<open>Sound profiles\<close>

text \<open>
  What the other components need of a configuration: an area and a grid of it, a heartbeat faster than the election timeout,
  a scan strip that is left after the overlap, a convergence threshold strictly between the prior of
  a new grid and certainty, a hard margin inside the soft one and a separation above the fail-safe's.
\<close>

definition profile_sound :: "swarm_config \<Rightarrow> bool" where
  "profile_sound c \<longleftrightarrow>
    0 < area_width_m (cfg_mission c) \<and> 0 < area_height_m (cfg_mission c) \<and> 0 < grid_resolution_m (cfg_mission c) \<and>
    (fceil (area_width_m (cfg_mission c) / grid_resolution_m (cfg_mission c)) :: f64)
      = area_width_m (cfg_mission c) / grid_resolution_m (cfg_mission c) \<and>
    (fceil (area_height_m (cfg_mission c) / grid_resolution_m (cfg_mission c)) :: f64)
      = area_height_m (cfg_mission c) / grid_resolution_m (cfg_mission c) \<and>
    0 < raft_heartbeat_ms (cfg_swarm c) \<and> raft_heartbeat_ms (cfg_swarm c) < raft_election_timeout_ms (cfg_swarm c) \<and>
    0 < cluster_size (cfg_swarm c) \<and> cluster_size (cfg_swarm c) \<le> max_agents (cfg_swarm c) \<and>
    0 < max_speed_ms (cfg_planning c) \<and> 0 < csi_scan_width_m (cfg_planning c) \<and>
    0 \<le> lateral_overlap_pct (cfg_planning c) \<and> lateral_overlap_pct (cfg_planning c) < lit 100 \<and>
    lit (1/2) < pl_convergence_threshold (cfg_planning c) \<and> pl_convergence_threshold (cfg_planning c) < lit 1 \<and>
    geofence_hard_margin_m (cfg_security c) < geofence_soft_margin_m (cfg_security c) \<and>
    lit 1 \<le> remote_id_broadcast_hz (cfg_security c) \<and>
    lit (3/2) < min_separation_m (cfg_formation c)"

lemma profiles_are_sound:
  "list_all profile_sound [sar_default, inspection_default, agriculture_default, mine_default, wi2sar_reference, demo_default]"
  by (simp add: profile_sound_def profile_defs Fin_div mk_def fceil.simps signed_int_def)

end
