(* ===== verification/Summary.thy ===== *)
theory Summary
  imports Types Floats
begin

text \<open>
  The statistics of a mission (\<open>MissionStats\<close> of \<open>src/orchestrator/mod.rs\<close>) and the summary the orchestrator stores of them,
  \<open>src/ruflo/mission_summary.rs\<close>. The formatted description is output only.
\<close>

record mission_stats =
  cells_covered :: u32
  victims_confirmed :: u32
  collision_events :: u32
  steps :: u64
  elapsed_total :: f64

definition mission_stats_default :: mission_stats where
  "mission_stats_default = \<lparr>cells_covered = 0, victims_confirmed = 0, collision_events = 0, steps = 0, elapsed_total = 0\<rparr>"

record mission_summary =
  mission_profile :: string
  sum_num_drones :: u64
  sum_area_width_m :: f64
  sum_area_height_m :: f64
  sum_victims_total :: u64
  sum_victims_confirmed :: u32
  sum_cells_covered :: u32
  sum_coverage_pct :: f64
  sum_elapsed_secs :: f64
  sum_collision_events :: u32
  sum_localization_error_m :: "f64 option"

definition from_stats :: "mission_stats \<Rightarrow> string \<Rightarrow> u64 \<Rightarrow> f64 \<Rightarrow> f64 \<Rightarrow> u64 \<Rightarrow> f64 \<Rightarrow> mission_summary" where
  "from_stats st profile num_drones area_width area_height victims_total coverage =
    \<lparr>mission_profile = profile, sum_num_drones = num_drones, sum_area_width_m = area_width, sum_area_height_m = area_height,
     sum_victims_total = victims_total, sum_victims_confirmed = victims_confirmed st, sum_cells_covered = cells_covered st,
     sum_coverage_pct = coverage, sum_elapsed_secs = elapsed_total st, sum_collision_events = collision_events st,
     sum_localization_error_m = None\<rparr>"

definition pattern_type :: "mission_summary \<Rightarrow> string" where
  "pattern_type s =
    (if mission_profile s = ''sar'' then ''sar-mission''
     else if mission_profile s = ''inspection'' then ''inspection-mission''
     else if mission_profile s = ''mine'' then ''mine-mission''
     else ''swarm-mission'')"

definition pattern_confidence :: "mission_summary \<Rightarrow> f32" where
  "pattern_confidence s =
    (let victim_score = (if 0 < sum_victims_total s then of_unsigned (sum_victims_confirmed s) / of_unsigned (sum_victims_total s) else lit (1/2));
         coverage_score = fcast (sum_coverage_pct s);
         collision_penalty = fmin (of_unsigned (sum_collision_events s) * lit (1/10)) (lit (1/2))
     in clamp_lit 0 (lit 1) (victim_score * lit (1/2) + coverage_score * lit (1/2) - collision_penalty))"

text \<open>The confidence is a fraction, or not a number.\<close>

lemma pattern_confidence_unit: "is_nan (pattern_confidence s) \<or> 0 \<le> pattern_confidence s \<and> pattern_confidence s \<le> 1"
proof -
  have r: "0 \<le> (lit 1 :: f32)" by simp
  have one: "(lit 1 :: f32) = 1" by (simp add: one_flt_def)
  show ?thesis unfolding pattern_confidence_def Let_def
    using clamp_lit_range[OF r] by (metis one)
qed

end
