(* ===== verification/Orchestrator.thy ===== *)
theory Orchestrator
  imports FailSafe Coverage Sensing Config Forecast Node Summary
begin

text \<open>
  The orchestrator of one drone, \<open>src/orchestrator/mod.rs\<close>: the step that composes fail-safe, sensing, search grid,
  coverage strategy, motion and forecast, and the operations the communication layer calls. The features
  \<open>latentmesh\<close>, \<open>ruforecast\<close> and \<open>ruflo\<close> are on. The clock readings, the random draws, \<open>exp\<close>, \<open>atan2\<close> and the answers of the ruflo
  backend are inputs; a panic is \<open>None\<close>. Counters wrap, as in the release profile.
\<close>

section \<open>The state\<close>

record ('sc, 'q, 'd) orchestrator =
  orch_node :: node_id
  orch_config :: swarm_config
  orch_state :: drone_state
  orch_failsafe :: failsafe_machine
  orch_coverage :: coverage_strategy
  orch_grid :: probability_grid
  orch_csi :: csi_pipeline
  orch_fusion :: multiview_fusion
  peer_states :: "(node_id \<times> drone_state) list"
  peer_detections :: "csi_detection list"
  orch_stats :: mission_stats
  latentmesh_advisories :: "(node_id \<times> verified_advisory) list"
  orch_forecast :: "('sc, 'q, 'd) forecast_engine"
  ruflo_attached :: bool
  trajectory_id :: "string option"

definition new_demo ::
  "('sc, 'q, 'p, 'c, 's, 'r, 'f, 'd) forecast_ops \<Rightarrow> node_id \<Rightarrow> swarm_config \<Rightarrow> position3d \<Rightarrow> position3d list
     \<Rightarrow> ('sc, 'q, 'd) orchestrator option" where
  "new_demo F i c start victims =
    (let m = cfg_mission c;
         grid_w = (as_unsigned (fceil (area_width_m m / grid_resolution_m m)) :: u32);
         grid_h = (as_unsigned (fceil (area_height_m m / grid_resolution_m m)) :: u32);
         noise_std = (case cfg_demo c of Some d \<Rightarrow> csi_noise_std d | None \<Rightarrow> lit (5/100))
     in map_option (\<lambda>engine.
       \<lparr>orch_node = i, orch_config = c,
        orch_state = \<lparr>ds_id = i, ds_position = start, ds_velocity = velocity_default, heading_rad = 0,
          altitude_agl_m = flight_altitude_m (cfg_planning c), battery_pct = lit 100, link_quality = lit 1, timestamp_ms = 0\<rparr>,
        orch_failsafe = failsafe_new,
        orch_coverage = coverage_new (pl_convergence_threshold (cfg_planning c)),
        orch_grid = grid_new grid_w grid_h (grid_resolution_m m),
        orch_csi = new_synthetic i \<lparr>scan_freq_hz = lit 10, detection_range_m = csi_scan_width_m (cfg_planning c),
          confidence_threshold = lit (1/2), esp32_baud_rate = 921600\<rparr> victims noise_std (ucast i),
        orch_fusion = multiview_fusion_default,
        peer_states = [], peer_detections = [], orch_stats = mission_stats_default,
        latentmesh_advisories = [], orch_forecast = engine, ruflo_attached = False, trajectory_id = None\<rparr>)
       (engine_new F forecast_policy_default))"

section \<open>One step\<close>

record step_env =
  tick_insert :: nat
  tick_read :: nat
  env_scan :: scan_env
  env_atan2 :: "f64 \<Rightarrow> f64 \<Rightarrow> f64"

definition nearest_peer_distance :: "('sc, 'q, 'd) orchestrator \<Rightarrow> f64" where
  "nearest_peer_distance r =
    (let ds = map (\<lambda>(_, p). distance_to (ds_position (orch_state r)) (ds_position p)) (peer_states r)
     in if list_all is_finite ds then foldl fmin (Fin (max_fin TYPE(64))) ds else NaN)"

definition pos_to_cell :: "mission_config \<Rightarrow> position3d \<Rightarrow> u32 \<times> u32" where
  "pos_to_cell m p =
    (let r = grid_resolution_m m;
         w = (as_unsigned (area_width_m m / r) :: u32); h = (as_unsigned (area_height_m m / r) :: u32);
         xi = as_unsigned (fmax (px p / r) 0); yi = as_unsigned (fmax (py p / r) 0)
     in (min xi (sat_sub w 1), min yi (sat_sub h 1)))"

definition move_toward :: "step_env \<Rightarrow> f64 \<Rightarrow> position3d \<Rightarrow> f64 \<Rightarrow> drone_state \<Rightarrow> drone_state" where
  "move_toward env max_speed goal dt st =
    (let p = ds_position st; dx = px goal - px p; dy = py goal - py p; d = fsqrt (dx * dx + dy * dy)
     in if d < lit (1/2) then st\<lparr>ds_velocity := velocity_default\<rparr>
        else let speed = fmin max_speed (d / dt); wx = dx / d * speed; wy = dy / d * speed
             in st\<lparr>ds_position := p\<lparr>px := px p + wx * dt, py := py p + wy * dt\<rparr>,
                   ds_velocity := \<lparr>vx = wx, vy = wy, vz = 0\<rparr>, heading_rad := env_atan2 env wy wx\<rparr>)"

definition absorb_detection :: "mission_config \<Rightarrow> f32 \<Rightarrow> csi_detection option \<Rightarrow> probability_grid \<Rightarrow> probability_grid option" where
  "absorb_detection m threshold r g = (case r of
     Some d \<Rightarrow> if threshold \<le> det_confidence d
       then (case victim_position d of
         Some vp \<Rightarrow> update_bayesian (pos_to_cell m vp) (det_confidence d) True g
       | None \<Rightarrow> Some g)
       else Some g
   | None \<Rightarrow> Some g)"

definition drain_battery :: "f64 \<Rightarrow> drone_state \<Rightarrow> drone_state" where
  "drain_battery dt st = st\<lparr>battery_pct := fmax (battery_pct st - fcast (dt / lit 30)) 0,
     timestamp_ms := timestamp_ms st + as_unsigned (dt * lit 1000)\<rparr>"

definition search_step :: "step_env \<Rightarrow> ('sc, 'q, 'd) orchestrator \<Rightarrow> ('sc, 'q, 'd) orchestrator option" where
  "search_step env r =
    (let pos = ds_position (orch_state r); m = cfg_mission (orch_config r) in
     Option.bind (scan (env_scan env) (orch_csi r) pos) (\<lambda>detection.
     Option.bind (absorb_detection m (confidence_threshold (csi_config (orch_csi r))) detection (orch_grid r)) (\<lambda>g1.
     Option.bind (mark_scanned (pos_to_cell m pos) g1) (\<lambda>(g2, was_new).
     Some (r\<lparr>orch_grid := g2,
       orch_stats := (if was_new then (orch_stats r)\<lparr>cells_covered := cells_covered (orch_stats r) + 1\<rparr> else orch_stats r),
       orch_coverage := phase_transition g2 (orch_coverage r)\<rparr>)))))"

definition motion_step :: "step_env \<Rightarrow> f64 \<Rightarrow> ('sc, 'q, 'd) orchestrator \<Rightarrow> ('sc, 'q, 'd) orchestrator option" where
  "motion_step env dt r =
    Option.bind (next_target (orch_state r) (orch_grid r) (orch_coverage r)) (\<lambda>goal.
      let st = (case goal of
            Some p \<Rightarrow> move_toward env (max_speed_ms (cfg_planning (orch_config r))) p dt (orch_state r)
          | None \<Rightarrow> orch_state r)
      in Some (r\<lparr>orch_state := drain_battery dt st\<rparr>))"

definition forecast_step :: "('sc, 'q, 'p, 'c, 's, 'r, 'f, 'd) forecast_ops \<Rightarrow> ('sc, 'q, 'd) orchestrator \<Rightarrow> ('sc, 'q, 'd) orchestrator" where
  "forecast_step F r =
    r\<lparr>orch_forecast := observe_and_forecast F (timestamp_ms (orch_state r)) (battery_pct (orch_state r))
        (link_quality (orch_state r)) (fcast (coverage_pct (orch_grid r))) (orch_forecast r)\<rparr>"

definition step ::
  "('sc, 'q, 'p, 'c, 's, 'r, 'f, 'd) forecast_ops \<Rightarrow> step_env \<Rightarrow> f64 \<Rightarrow> bool \<Rightarrow> ('sc, 'q, 'd) orchestrator
     \<Rightarrow> (('sc, 'q, 'd) orchestrator \<times> fail_safe_state) option" where
  "step F env dt link_alive r =
    (let r1 = r\<lparr>orch_stats := (orch_stats r)\<lparr>steps := steps (orch_stats r) + 1, elapsed_total := elapsed_total (orch_stats r) + dt\<rparr>,
                peer_detections := []\<rparr>;
         (fs, s) = tick (tick_insert env) (tick_read env) (orch_state r1) link_alive (nearest_peer_distance r1) (orch_failsafe r1);
         r2 = r1\<lparr>orch_failsafe := fs\<rparr>
     in if s \<noteq> Nominal \<and> s \<noteq> LowBatteryWarn then Some (r2, s)
        else map_option (\<lambda>r3. (forecast_step F r3, s)) (Option.bind (search_step env r2) (motion_step env dt)))"

section \<open>What others call\<close>

definition with_forecast_policy ::
  "('sc, 'q, 'p, 'c, 's, 'r, 'f, 'd) forecast_ops \<Rightarrow> forecast_policy \<Rightarrow> ('sc, 'q, 'd) orchestrator \<Rightarrow> ('sc, 'q, 'd) orchestrator option" where
  "with_forecast_policy F p r = map_option (\<lambda>e. r\<lparr>orch_forecast := e\<rparr>) (engine_new F p)"

definition forecast_is_eligible_for_new_work :: "('sc, 'q, 'd) orchestrator \<Rightarrow> u64 \<Rightarrow> bool" where
  "forecast_is_eligible_for_new_work r now = is_eligible_for_new_work (orch_forecast r) now"

definition fuse_detections :: "(f64 \<Rightarrow> f64) \<Rightarrow> ('sc, 'q, 'd) orchestrator \<Rightarrow> csi_detection list \<Rightarrow> (node_id \<times> position3d) list \<Rightarrow> fused_detection option" where
  "fuse_detections acos r detections positions = fuse acos (orch_fusion r) detections positions"

definition receive_peer_state :: "drone_state \<Rightarrow> ('sc, 'q, 'd) orchestrator \<Rightarrow> ('sc, 'q, 'd) orchestrator" where
  "receive_peer_state peer r = r\<lparr>peer_states := AList.update (ds_id peer) peer (peer_states r)\<rparr>"

definition receive_peer_detection :: "csi_detection \<Rightarrow> ('sc, 'q, 'd) orchestrator \<Rightarrow> ('sc, 'q, 'd) orchestrator" where
  "receive_peer_detection d r = r\<lparr>peer_detections := peer_detections r @ [d]\<rparr>"

text \<open>The order of an advisory: its epoch, then its logical sequence.\<close>

definition advisory_mark :: "verified_advisory \<Rightarrow> u32 \<times> u64" where
  "advisory_mark a = (md_epoch (rs_metadata (received a)), md_logical_sequence (rs_metadata (received a)))"

definition advisory_source :: "verified_advisory \<Rightarrow> node_id" where
  "advisory_source a = ds_id (snap_drone (rs_snapshot (received a)))"

definition mark_le :: "u32 \<times> u64 \<Rightarrow> u32 \<times> u64 \<Rightarrow> bool" where
  "mark_le = (\<lambda>(e, q) (e', q'). e < e' \<or> e = e' \<and> q \<le> q')"

definition receive_latentmesh_advisory :: "verified_advisory \<Rightarrow> ('sc, 'q, 'd) orchestrator \<Rightarrow> ('sc, 'q, 'd) orchestrator \<times> bool" where
  "receive_latentmesh_advisory a r =
    (if (case map_of (latentmesh_advisories r) (advisory_source a) of
           Some b \<Rightarrow> mark_le (advisory_mark a) (advisory_mark b) | None \<Rightarrow> False)
     then (r, False)
     else (r\<lparr>latentmesh_advisories := AList.update (advisory_source a) a (latentmesh_advisories r)\<rparr>, True))"

definition latentmesh_peer_is_eligible :: "node_id \<Rightarrow> u64 \<Rightarrow> ('sc, 'q, 'd) orchestrator \<Rightarrow> bool" where
  "latentmesh_peer_is_eligible source now r = (case map_of (latentmesh_advisories r) source of
     None \<Rightarrow> False
   | Some a \<Rightarrow> let s = rs_snapshot (received a) in
       now \<le> expires_at_ms (advisory_security a) \<and> battery_warn_pct (orch_failsafe r) \<le> battery_pct (snap_drone s) \<and>
       lit (2/10) \<le> link_quality (snap_drone s) \<and> snap_failsafe s = Nominal)"

definition expire_latentmesh_advisories :: "u64 \<Rightarrow> ('sc, 'q, 'd) orchestrator \<Rightarrow> ('sc, 'q, 'd) orchestrator \<times> nat" where
  "expire_latentmesh_advisories now r =
    (let kept = filter (\<lambda>(_, a). now \<le> expires_at_ms (advisory_security a)) (latentmesh_advisories r)
     in (r\<lparr>latentmesh_advisories := kept\<rparr>, length (latentmesh_advisories r) - length kept))"

text \<open>
  The ruflo backend's answers are arguments: the started trajectory, and whether it calls a detection safe. What
  \<open>finish_trajectory\<close> stores with it is the summary it returns here.
\<close>

definition with_ruflo :: "('sc, 'q, 'd) orchestrator \<Rightarrow> ('sc, 'q, 'd) orchestrator" where
  "with_ruflo r = r\<lparr>ruflo_attached := True\<rparr>"

definition start_trajectory :: "'e + string \<Rightarrow> ('sc, 'q, 'd) orchestrator \<Rightarrow> ('sc, 'q, 'd) orchestrator" where
  "start_trajectory answer r =
    (if ruflo_attached r then (case answer of Inr tid \<Rightarrow> r\<lparr>trajectory_id := Some tid\<rparr> | Inl _ \<Rightarrow> r) else r)"

definition finish_trajectory :: "('sc, 'q, 'd) orchestrator \<Rightarrow> ('sc, 'q, 'd) orchestrator \<times> mission_summary option" where
  "finish_trajectory r =
    (if ruflo_attached r then
       let m = cfg_mission (orch_config r)
       in (r\<lparr>trajectory_id := None\<rparr>,
           Some (from_stats (orch_stats r) (profile m) 1 (area_width_m m) (area_height_m m) 0 (coverage_pct (orch_grid r))))
     else (r, None))"

definition receive_peer_detection_checked :: "'e + bool \<Rightarrow> csi_detection \<Rightarrow> ('sc, 'q, 'd) orchestrator \<Rightarrow> ('sc, 'q, 'd) orchestrator \<times> bool" where
  "receive_peer_detection_checked answer d r =
    (if ruflo_attached r \<and> (case answer of Inr False \<Rightarrow> True | _ \<Rightarrow> False) then (r, False)
     else (receive_peer_detection d r, True))"

definition is_mission_complete :: "('sc, 'q, 'd) orchestrator \<Rightarrow> bool" where
  "is_mission_complete r \<longleftrightarrow> lit (95/100) < coverage_pct (orch_grid r)"


section \<open>Runs\<close>

datatype orch_event =
    Step step_env f64 bool
  | PeerState drone_state
  | PeerDetection csi_detection
  | CheckedDetection "unit + bool" csi_detection
  | Advisory verified_advisory
  | ExpireAdvisories u64
  | AttachRuflo
  | StartTrajectory "unit + string"
  | FinishTrajectory

fun orch_exec :: "('sc, 'q, 'p, 'c, 's, 'r, 'f, 'd) forecast_ops \<Rightarrow> ('sc, 'q, 'd) orchestrator \<Rightarrow> orch_event \<Rightarrow> ('sc, 'q, 'd) orchestrator option" where
  "orch_exec F r (Step env dt alive) = map_option fst (step F env dt alive r)"
| "orch_exec F r (PeerState p) = Some (receive_peer_state p r)"
| "orch_exec F r (PeerDetection d) = Some (receive_peer_detection d r)"
| "orch_exec F r (CheckedDetection answer d) = Some (fst (receive_peer_detection_checked answer d r))"
| "orch_exec F r (Advisory a) = Some (fst (receive_latentmesh_advisory a r))"
| "orch_exec F r (ExpireAdvisories now) = Some (fst (expire_latentmesh_advisories now r))"
| "orch_exec F r AttachRuflo = Some (with_ruflo r)"
| "orch_exec F r (StartTrajectory answer) = Some (start_trajectory answer r)"
| "orch_exec F r FinishTrajectory = Some (fst (finish_trajectory r))"

text \<open>What a run may be given: a random generator that keeps its contract and time that does not run backwards.\<close>

fun orch_event_ok :: "orch_event \<Rightarrow> bool" where
  "orch_event_ok (Step env dt _) = (gen_range_ok (env_scan env) \<and> 0 \<le> dt)"
| "orch_event_ok _ = True"

section \<open>Searching\<close>

lemma update_scanned: "rectangular g \<Longrightarrow> update_bayesian xy conf det g = Some g' \<Longrightarrow> scanned g' = scanned g"
  using cell_at_inside[of g xy]
  by (auto simp: update_bayesian_def scanned_def cell_at_put split: if_splits)

lemma absorb_ok:
  assumes "grid_ok g" "\<And>d. r = Some d \<Longrightarrow> threshold \<le> det_confidence d \<Longrightarrow> unit_f32 (det_confidence d)"
  shows "\<exists>g'. absorb_detection m threshold r g = Some g' \<and> grid_ok g' \<and> scanned g' = scanned g \<and> same_shape g g'"
proof (cases r)
  case (Some d)
  show ?thesis
  proof (cases "threshold \<le> det_confidence d \<and> victim_position d \<noteq> None")
    case True
    then obtain vp where vp: "victim_position d = Some vp" by blast
    obtain g' where "update_bayesian (pos_to_cell m vp) (det_confidence d) True g = Some g'" "grid_ok g'" "same_shape g g'"
      using update_ok[OF assms(1), of "det_confidence d" "pos_to_cell m vp" True] assms(2)[OF Some] True by blast
    with True vp Some update_scanned[of g] assms(1) show ?thesis by (auto simp: absorb_detection_def grid_ok_def)
  qed (use assms(1) Some same_shape_refl in \<open>auto simp: absorb_detection_def\<close>)
qed (use assms(1) same_shape_refl in \<open>auto simp: absorb_detection_def\<close>)

text \<open>The cells a drone can be in: the truncated quotients, not the ceilings the grid is built with.\<close>

definition reachable :: "mission_config \<Rightarrow> (u32 \<times> u32) set" where
  "reachable m = {(x, y). x \<le> sat_sub (as_unsigned (area_width_m m / grid_resolution_m m)) 1 \<and>
     y \<le> sat_sub (as_unsigned (area_height_m m / grid_resolution_m m)) 1}"

lemma pos_to_cell_reachable: "pos_to_cell m p \<in> reachable m"
  by (simp add: pos_to_cell_def reachable_def Let_def)

definition covered :: "('sc, 'q, 'd) orchestrator \<Rightarrow> bool" where
  "covered r \<longleftrightarrow> cells_covered (orch_stats r) = of_nat (card (scanned (orch_grid r))) \<and>
     scanned (orch_grid r) \<subseteq> reachable (cfg_mission (orch_config r))"

text \<open>The fields that only the search changes.\<close>

definition other_fields :: "('sc, 'q, 'd) orchestrator \<Rightarrow> _" where
  "other_fields r = (orch_node r, orch_config r, orch_csi r, orch_state r)"

lemma search_step_ok:
  assumes "grid_ok (orch_grid r)" "noise_sound (orch_csi r)" "covered r" "gen_range_ok (env_scan env)"
  shows "\<exists>r'. search_step env r = Some r' \<and> grid_ok (orch_grid r') \<and> covered r' \<and>
    same_shape (orch_grid r) (orch_grid r') \<and> other_fields r' = other_fields r"
proof -
  let ?m = "cfg_mission (orch_config r)" and ?pos = "ds_position (orch_state r)"
  obtain d where d: "scan (env_scan env) (orch_csi r) ?pos = Some d"
      "\<And>x. d = Some x \<Longrightarrow> \<exists>victims s seed. truthful (orch_csi r) ?pos s victims x"
    using scan_reports_ok[OF assms(4,2)] by metis
  obtain g1 where g1: "absorb_detection ?m (confidence_threshold (csi_config (orch_csi r))) d (orch_grid r) = Some g1"
      "grid_ok g1" "scanned g1 = scanned (orch_grid r)" "same_shape (orch_grid r) g1"
    using absorb_ok[OF assms(1), of d] d(2) by (metis truthful_def unit_f32_def)
  let ?xy = "pos_to_cell ?m ?pos"
  obtain g2 where g2: "mark_scanned ?xy g1 = Some (g2, inside g1 ?xy \<and> ?xy \<notin> scanned g1)"
      "scanned g2 = scanned g1 \<union> (if inside g1 ?xy then {?xy} else {})"
    using mark_scanned_spec g1(2) unfolding grid_ok_def by metis
  have ok2: "grid_ok g2" "same_shape g1 g2" using mark_ok[OF g1(2), of ?xy] g2(1) by auto
  have "finite (scanned (orch_grid r))" using finite by blast
  then have "(of_nat (card (scanned g2)) :: u32) = of_nat (card (scanned (orch_grid r))) + (if inside g1 ?xy \<and> ?xy \<notin> scanned g1 then 1 else 0)"
    by (auto simp: g2(2) g1(3) insert_absorb)
  moreover have "scanned g2 \<subseteq> reachable ?m" using assms(3) pos_to_cell_reachable by (auto simp: g2(2) g1(3) covered_def)
  ultimately show ?thesis using d(1) g1 g2(1) ok2 assms(3) same_shape_trans[OF g1(4) ok2(2)]
    by (auto simp: search_step_def Let_def covered_def other_fields_def)
qed


section \<open>The battery\<close>

lemma fmax_drain:
  fixes b :: f32
  assumes "0 \<le> b" "b \<le> lit 100" "valid b" "not_neg x"
  shows "0 \<le> fmax (b - x) 0 \<and> fmax (b - x) 0 \<le> b \<and> valid (fmax (b - x) 0)"
proof -
  have "b - x \<le> b" if "\<not> is_nan (b - x)"
  proof (cases "x = PInf")
    case True
    with that have "b - x = NInf" using assms(1,2) by (cases b) (auto simp: minus_flt_def)
    then show ?thesis using assms(1) by (cases b) auto
  next
    case False
    then have fin: "is_finite x" "0 \<le> x" using assms(4) that by (cases x; auto simp: minus_flt_def not_neg_def)+
    have fb: "is_finite b" using assms(1,2) finite_between[of 0 b "lit 100"] by simp
    have "b - x = mk (b = NZero \<and> - x = NZero) (rval b - rval x)"
      unfolding minus_flt_def using fb fin by (subst finite_add) (cases x; auto)+
    moreover have "rval b - rval x \<le> rval b" using fin by (cases x) auto
    ultimately show ?thesis using assms(3) fb by (cases b) (auto simp: mk_le_rval intro: rnd_le_valid flt_le_trans[OF rnd_nonpos])
  qed
  moreover have "valid (0 :: f32)" by simp
  ultimately show ?thesis using fmax_zero[of "b - x"] assms(1,3) valid_fmax[OF valid_sub[of b x]]
    by (auto simp: fmax_def)
qed

definition battery_ok :: "drone_state \<Rightarrow> bool" where
  "battery_ok st \<longleftrightarrow> 0 \<le> battery_pct st \<and> battery_pct st \<le> lit 100 \<and> valid (battery_pct st)"

lemma drain_ok:
  assumes "battery_ok st" "0 \<le> dt"
  shows "battery_ok (drain_battery dt st) \<and> battery_pct (drain_battery dt st) \<le> battery_pct st"
proof -
  have "not_neg (dt / lit 30)" using assms(2) by (intro not_neg_div not_neg_nonneg) simp_all
  then have "not_neg (fcast (dt / lit 30) :: f32)" using fcast_nonneg[of "dt / lit 30"] by (cases "dt / lit 30") (auto simp: not_neg_def)
  then show ?thesis using assms(1) fmax_drain[of "battery_pct st"] flt_le_trans by (fastforce simp: battery_ok_def drain_battery_def)
qed

lemma move_toward_frame [simp]:
  "battery_pct (move_toward env v p dt st) = battery_pct st" "ds_id (move_toward env v p dt st) = ds_id st"
  "timestamp_ms (move_toward env v p dt st) = timestamp_ms st" "link_quality (move_toward env v p dt st) = link_quality st"
  by (simp_all add: move_toward_def Let_def)

section \<open>No step panics\<close>

definition orch_ok :: "('sc, 'q, 'd) orchestrator \<Rightarrow> bool" where
  "orch_ok r \<longleftrightarrow> grid_ok (orch_grid r) \<and> noise_sound (orch_csi r) \<and> covered r \<and> battery_ok (orch_state r)"

definition orch_le :: "('sc, 'q, 'd) orchestrator \<Rightarrow> ('sc, 'q, 'd) orchestrator \<Rightarrow> bool" where
  "orch_le r r' \<longleftrightarrow> orch_node r' = orch_node r \<and> orch_config r' = orch_config r \<and> same_shape (orch_grid r) (orch_grid r') \<and>
     (battery_pct (orch_state r') \<le> battery_pct (orch_state r) \<or> battery_pct (orch_state r') = battery_pct (orch_state r))"

lemma orch_le_refl: "orch_le r r"
  by (simp add: orch_le_def same_shape_refl)

lemma orch_le_trans: "orch_le r s \<Longrightarrow> orch_le s t \<Longrightarrow> orch_le r t"
proof -
  assume rs: "orch_le r s" and st: "orch_le s t"
  have "same_shape (orch_grid r) (orch_grid t)" using rs st same_shape_trans unfolding orch_le_def by blast
  moreover have "battery_pct (orch_state t) \<le> battery_pct (orch_state r) \<or> battery_pct (orch_state t) = battery_pct (orch_state r)"
    using rs st flt_le_trans unfolding orch_le_def by fastforce
  ultimately show ?thesis using rs st by (simp add: orch_le_def)
qed

lemma next_target_total: "grid_ok g \<Longrightarrow> \<exists>goal. next_target st g c = Some goal"
  by (auto simp: next_target_def grid_ok_def next_systematic_find split: coverage_phase.splits)

lemma motion_step_ok:
  assumes "orch_ok r" "0 \<le> dt"
  shows "\<exists>r'. motion_step env dt r = Some r' \<and> orch_ok r' \<and> orch_le r r'"
proof -
  obtain goal where g: "next_target (orch_state r) (orch_grid r) (orch_coverage r) = Some goal"
    using next_target_total[of "orch_grid r"] assms(1) unfolding orch_ok_def by blast
  define st where "st = (case goal of Some p \<Rightarrow> move_toward env (max_speed_ms (cfg_planning (orch_config r))) p dt (orch_state r) | None \<Rightarrow> orch_state r)"
  have b: "battery_pct st = battery_pct (orch_state r)" by (simp add: st_def split: option.splits)
  then have "battery_ok st" using assms(1) by (simp add: orch_ok_def battery_ok_def)
  note d = drain_ok[OF this assms(2)]
  have "motion_step env dt r = Some (r\<lparr>orch_state := drain_battery dt st\<rparr>)" by (simp add: motion_step_def g st_def)
  then show ?thesis using d b assms(1) same_shape_refl by (simp add: orch_ok_def orch_le_def covered_def)
qed

lemma step_ok:
  assumes "orch_ok r" "gen_range_ok (env_scan env)" "0 \<le> dt"
  shows "\<exists>r' s. step F env dt alive r = Some (r', s) \<and> orch_ok r' \<and> orch_le r r'"
proof -
  define r1 where "r1 = r\<lparr>orch_stats := (orch_stats r)\<lparr>steps := steps (orch_stats r) + 1, elapsed_total := elapsed_total (orch_stats r) + dt\<rparr>, peer_detections := []\<rparr>"
  obtain fs s where fs: "tick (tick_insert env) (tick_read env) (orch_state r1) alive (nearest_peer_distance r1) (orch_failsafe r1) = (fs, s)"
    by fastforce
  define r2 where "r2 = r1\<lparr>orch_failsafe := fs\<rparr>"
  have r2: "orch_ok r2" "orch_le r r2" using assms(1) same_shape_refl by (simp_all add: r2_def r1_def orch_ok_def orch_le_def covered_def)
  have eq: "step F env dt alive r = (if s \<noteq> Nominal \<and> s \<noteq> LowBatteryWarn then Some (r2, s)
      else map_option (\<lambda>r3. (forecast_step F r3, s)) (Option.bind (search_step env r2) (motion_step env dt)))"
    unfolding step_def Let_def r1_def[symmetric] fs r2_def by simp
  show ?thesis
  proof (cases "s \<noteq> Nominal \<and> s \<noteq> LowBatteryWarn")
    case True
    then show ?thesis using r2 by (simp add: eq)
  next
    case False
    obtain r3 where r3: "search_step env r2 = Some r3" "grid_ok (orch_grid r3)" "covered r3" "same_shape (orch_grid r2) (orch_grid r3)"
        "other_fields r3 = other_fields r2"
      using search_step_ok[of r2 env] r2(1) assms(2) by (auto simp: orch_ok_def)
    then have o3: "orch_ok r3" "orch_le r2 r3" using r2(1) by (simp_all add: orch_ok_def orch_le_def other_fields_def)
    obtain r4 where r4: "motion_step env dt r3 = Some r4" "orch_ok r4" "orch_le r3 r4" using motion_step_ok[OF o3(1) assms(3)] by blast
    have "orch_ok (forecast_step F r4)" "orch_le r4 (forecast_step F r4)"
      using r4(2) same_shape_refl by (simp_all add: forecast_step_def orch_ok_def orch_le_def covered_def)
    moreover have "orch_le r r4" by (rule orch_le_trans[OF orch_le_trans[OF r2(2) o3(2)] r4(3)])
    moreover have "step F env dt alive r = Some (forecast_step F r4, s)" using False r3(1) r4(1) by (auto simp: eq)
    ultimately show ?thesis using orch_le_trans by blast
  qed
qed

lemma orch_exec_ok:
  assumes "orch_ok r" "orch_event_ok e"
  shows "\<exists>r'. orch_exec F r e = Some r' \<and> orch_ok r' \<and> orch_le r r'"
proof (cases e)
  case (Step env dt alive)
  then show ?thesis using step_ok[of r env dt F alive] assms by auto
qed (use assms same_shape_refl in \<open>auto simp: orch_ok_def orch_le_def covered_def receive_peer_state_def receive_peer_detection_def
  receive_peer_detection_checked_def receive_latentmesh_advisory_def expire_latentmesh_advisories_def Let_def
  with_ruflo_def start_trajectory_def finish_trajectory_def Let_def split: sum.splits\<close>)

interpretation missions: op_total "orch_exec F" orch_ok orch_event_ok orch_le
  by unfold_locales (rule orch_exec_ok, assumption+, rule orch_le_refl, rule orch_le_trans)

lemma new_demo_ok:
  assumes "new_demo F i c start victims = Some r" "noise_sound (orch_csi r)"
  shows "orch_ok r"
proof -
  have "scanned (grid_new w h s) = {}" for w h s
  proof -
    have "last_scanned_ms c = 0" if "c \<in> set (concat (cells (grid_new w h s)))" for c using that by (auto simp: grid_new_def)
    then show ?thesis using cells_cell_at[OF grid_new_rectangular] by (auto simp: scanned_def)
  qed
  then show ?thesis using assms grid_new_ok
    by (auto simp: new_demo_def Let_def orch_ok_def covered_def mission_stats_default_def battery_ok_def representable_numeral)
qed


text \<open>
  C17. A mission with a proper noise in its sensor (a positive spread whose range of draws is finite), steps of non-negative length and draws within
  their ranges never panics: over every run of steps, peer messages, advisories and trajectories of a new orchestrator,
  whatever clock, positions and peers, each operation returns. The cell counter is the number of scanned cells, a
  scanned cell stays scanned and lies on the grid, and the charge falls from 100 towards 0 and never rises.
\<close>
theorem missions_never_panic:
  assumes "new_demo F i c start victims = Some r0" "noise_sound (orch_csi r0)"
    and "list_all orch_event_ok es" "list_all orch_event_ok es'"
  shows "\<exists>r r'. prun (orch_exec F) r0 es = Some r \<and> prun (orch_exec F) r es' = Some r' \<and>
    cells_covered (orch_stats r') = of_nat (card (scanned (orch_grid r'))) \<and>
    scanned (orch_grid r) \<subseteq> scanned (orch_grid r') \<and>
    scanned (orch_grid r') \<subseteq> {xy. inside (orch_grid r') xy} \<inter> reachable (cfg_mission c) \<and>
    0 \<le> battery_pct (orch_state r') \<and> battery_pct (orch_state r') \<le> battery_pct (orch_state r) \<and>
    battery_pct (orch_state r) \<le> lit 100"
proof -
  have o: "orch_ok r0" by (rule new_demo_ok[OF assms(1,2)])
  have c: "orch_config r0 = c" using assms(1) by (auto simp: new_demo_def Let_def)
  obtain r where r: "prun (orch_exec F) r0 es = Some r" "orch_ok r" "orch_le r0 r"
    using missions.run_total[OF o assms(3)] by blast
  obtain r' where r': "prun (orch_exec F) r es' = Some r'" "orch_ok r'" "orch_le r r'"
    using missions.run_total[OF r(2) assms(4)] by blast
  have "xy \<in> scanned (orch_grid r') \<Longrightarrow> inside (orch_grid r') xy" for xy
    using r'(2) cell_at_inside[of "orch_grid r'" xy] by (auto simp: scanned_def orch_ok_def grid_ok_def)
  moreover have "scanned (orch_grid r') \<subseteq> reachable (cfg_mission c)" using r r' c by (simp add: orch_ok_def covered_def orch_le_def)
  moreover have "battery_pct (orch_state r') \<le> battery_pct (orch_state r)"
    using r'(2,3) flt_le_nan[of 0 "battery_pct (orch_state r)"] r(2)
    by (auto simp: orch_le_def orch_ok_def battery_ok_def)
  ultimately show ?thesis using r r' by (auto simp: orch_ok_def covered_def battery_ok_def orch_le_def same_shape_def)
qed

definition demo_mission :: swarm_config where
  "demo_mission = sar_default\<lparr>cfg_demo := Some \<lparr>synthetic_csi = True, demo_victim_positions = [], wind_noise_ms = 0,
     csi_noise_std = lit (1/16), packet_loss_pct = 0, replay_speed = lit 1\<rparr>\<rparr>"

definition demo_orchestrator :: "(unit, unit, unit) orchestrator" where
  "demo_orchestrator = the (new_demo demo_forecaster 1 demo_mission position_zero [position_zero])"

definition demo_step_env :: step_env where
  "demo_step_env = \<lparr>tick_insert = 0, tick_read = 0, env_scan = demo_env, env_atan2 = (\<lambda>_ _. 0)\<rparr>"

section \<open>A grid larger than the reachable area\<close>

text \<open>
  The grid is built with the ceiling of the quotients and positions are truncated to it. When the resolution does not divide the
  area, the last column (or row) is never scanned by any run: the sweep goes to its cells forever.
\<close>

lemma sweep_never_ends:
  assumes "new_demo F i c start victims = Some r0" "noise_sound (orch_csi r0)" "list_all orch_event_ok es"
    and "prun (orch_exec F) r0 es = Some r"
    and w: "0 < w" "w < grid_width (orch_grid r0)" "w = as_unsigned (area_width_m (cfg_mission c) / grid_resolution_m (cfg_mission c))"
    and h: "0 < grid_height (orch_grid r0)"
  shows "\<exists>xy. next_systematic_cell (orch_grid r) = Some (Some xy)"
proof -
  have c: "orch_config r0 = c" using assms(1) by (auto simp: new_demo_def Let_def)
  have r: "orch_ok r" "orch_le r0 r" using missions.run_total[where F = F, OF new_demo_ok[OF assms(1,2)] assms(3)] assms(4) by auto
  let ?xy = "(grid_width (orch_grid r0) - 1, 0)"
  have "?xy \<notin> reachable (cfg_mission c)"
    using w(1,2) unfolding reachable_def w(3)[symmetric] by (simp add: sat_sub_def word_le_nat_alt word_less_nat_alt unat_sub_if')
  then have "?xy \<notin> scanned (orch_grid r)" using r c by (auto simp: orch_ok_def covered_def orch_le_def)
  moreover have "inside (orch_grid r) ?xy"
    using w h r(2) by (auto simp: inside_def orch_le_def same_shape_def word_less_nat_alt unat_sub_if')
  ultimately have "find (\<lambda>xy. xy \<notin> scanned (orch_grid r)) (serpentine (orch_grid r)) \<noteq> None"
    by (auto simp: find_None_iff set_serpentine)
  then show ?thesis using next_systematic_find[of "orch_grid r"] r(1) by (auto simp: orch_ok_def grid_ok_def)
qed

text \<open>Ten metres in cells of four: three by three cells, of which four can be scanned.\<close>

lemma uneven_area:
  "(as_unsigned (fceil (lit 10 / lit 4 :: f64)) :: u32) = 3" "(as_unsigned (lit 10 / lit 4 :: f64) :: u32) = 2"
proof -
  have "\<lceil>5 / 2 :: rat\<rceil> = 3" "\<lfloor>5 / 2 :: rat\<rfloor> = 2" by (simp_all add: ceiling_unique floor_unique)
  then show "(as_unsigned (fceil (lit 10 / lit 4 :: f64)) :: u32) = 3" "(as_unsigned (lit 10 / lit 4 :: f64) :: u32) = 2"
    by (simp_all add: Fin_div mk_def trunc_def signed_int_def representable_fraction)
qed

section \<open>Too close\<close>

lemma foldl_fmin_le: "\<not> is_nan a \<Longrightarrow> \<forall>x \<in> set xs. \<not> is_nan x \<Longrightarrow> foldl fmin a xs \<le> a \<and> (\<forall>x \<in> set xs. foldl fmin a xs \<le> x)"
  for a :: "'a::len flt"
proof (induction xs arbitrary: a)
  case (Cons x xs)
  have n: "\<not> is_nan (fmin a x)" "fmin a x \<le> a" "fmin a x \<le> x"
    using Cons.prems flt_not_less[of x a] flt_not_less[of a x] flt_less_imp_le[of a x] flt_less_imp_le[of x a] by (auto simp: fmin_def)
  have "foldl fmin (fmin a x) xs \<le> fmin a x" "\<forall>y \<in> set xs. foldl fmin (fmin a x) xs \<le> y"
    using Cons.IH[OF n(1)] Cons.prems(2) by simp_all
  then show ?case using flt_le_trans[OF _ n(2)] flt_le_trans[OF _ n(3)] by simp
qed simp

text \<open>
  C18. A peer that is closer than the collision distance, or whose distance is not finite, stops the mission within the same step:
  the step reports \<open>EmergencyDiverge\<close> and neither moves the drone nor touches its battery, its grid, its phase
  or its forecast, whatever the link and the sensors say.
\<close>
theorem close_peer_stops_the_mission:
  assumes "map_of (peer_states r) p = Some st"
    and "\<not> is_finite (distance_to (ds_position (orch_state r)) (ds_position st)) \<or>
         distance_to (ds_position (orch_state r)) (ds_position st) < collision_dist_m (orch_failsafe r)"
  shows "\<exists>r'. step F env dt alive r = Some (r', EmergencyDiverge) \<and> orch_state r' = orch_state r \<and>
    orch_grid r' = orch_grid r \<and> orch_coverage r' = orch_coverage r \<and> orch_forecast r' = orch_forecast r \<and>
    cells_covered (orch_stats r') = cells_covered (orch_stats r)"
proof -
  define r1 where "r1 = r\<lparr>orch_stats := (orch_stats r)\<lparr>steps := steps (orch_stats r) + 1, elapsed_total := elapsed_total (orch_stats r) + dt\<rparr>, peer_detections := []\<rparr>"
  let ?d = "distance_to (ds_position (orch_state r)) (ds_position st)"
  define ds where "ds = map (\<lambda>(_, p). distance_to (ds_position (orch_state r)) (ds_position p)) (peer_states r)"
  have d: "?d \<in> set ds" using map_of_SomeD[OF assms(1)] by (force simp: ds_def)
  have n: "nearest_peer_distance r1 = (if list_all is_finite ds then foldl fmin (Fin (max_fin TYPE(64))) ds else NaN)"
    by (simp add: nearest_peer_distance_def r1_def Let_def ds_def)
  have "\<not> is_finite (nearest_peer_distance r1) \<or> nearest_peer_distance r1 < collision_dist_m (orch_failsafe r1)"
  proof (cases "list_all is_finite ds")
    case True
    then have fin: "\<forall>x \<in> set ds. is_finite x" by (simp only: list_all_iff)
    then have "?d < collision_dist_m (orch_failsafe r)" using d assms(2) by blast
    moreover have "foldl fmin (Fin (max_fin TYPE(64))) ds \<le> ?d"
      using foldl_fmin_le[of "Fin (max_fin TYPE(64))" ds] d fin by (auto simp: is_finite_iff)
    ultimately have "foldl fmin (Fin (max_fin TYPE(64))) ds < collision_dist_m (orch_failsafe r)" using flt_le_less_trans by blast
    moreover have "orch_failsafe r1 = orch_failsafe r" by (simp add: r1_def)
    ultimately show ?thesis using True unfolding n by simp
  qed (simp add: n)
  then have t: "tick (tick_insert env) (tick_read env) (orch_state r1) alive (nearest_peer_distance r1) (orch_failsafe r1)
      = ((orch_failsafe r1)\<lparr>fs_state := EmergencyDiverge\<rparr>, EmergencyDiverge)" by (rule tick_poisoned_distance)
  show ?thesis unfolding step_def Let_def r1_def[symmetric] t by (simp add: r1_def)
qed

section \<open>Advisories and forecasts never steer\<close>

text \<open>Everything an orchestrator holds but the advisories and the forecast.\<close>

definition flight_view :: "('sc, 'q, 'd) orchestrator \<Rightarrow> _" where
  "flight_view r = (orch_node r, orch_config r, orch_state r, orch_failsafe r, orch_coverage r, orch_grid r, orch_csi r, orch_fusion r,
     peer_states r, peer_detections r, orch_stats r, ruflo_attached r, trajectory_id r)"

fun flight_event :: "orch_event \<Rightarrow> bool" where
  "flight_event (Advisory _) = False"
| "flight_event (ExpireAdvisories _) = False"
| "flight_event _ = True"

lemma search_view:
  "flight_view r = flight_view r' \<Longrightarrow> map_option flight_view (search_step env r) = map_option flight_view (search_step env r')"
  by (cases r; cases r') (auto simp: flight_view_def search_step_def Let_def split: Option.bind_splits prod.splits)

lemma motion_view:
  "flight_view r = flight_view r' \<Longrightarrow> map_option flight_view (motion_step env dt r) = map_option flight_view (motion_step env dt r')"
  by (cases r; cases r') (auto simp: flight_view_def motion_step_def Let_def split: Option.bind_splits option.splits)

lemma forecast_view [simp]: "flight_view (forecast_step F r) = flight_view r"
  by (simp add: flight_view_def forecast_step_def)

lemma nearest_view: "flight_view r = flight_view r' \<Longrightarrow> nearest_peer_distance r = nearest_peer_distance r'"
  by (simp add: flight_view_def nearest_peer_distance_def)


lemma step_view:
  fixes r :: "('x, 'y, 'z) orchestrator" and r' :: "('x2, 'y2, 'z2) orchestrator"
  assumes "flight_view r = flight_view r'"
  shows "map_option (\<lambda>(q, s). (flight_view q, s)) (step F env dt alive r) =
         map_option (\<lambda>(q, s). (flight_view q, s)) (step F' env dt alive r')"
proof -
  define r1 where "r1 = r\<lparr>orch_stats := (orch_stats r)\<lparr>steps := steps (orch_stats r) + 1, elapsed_total := elapsed_total (orch_stats r) + dt\<rparr>, peer_detections := []\<rparr>"
  define r1' where "r1' = r'\<lparr>orch_stats := (orch_stats r')\<lparr>steps := steps (orch_stats r') + 1, elapsed_total := elapsed_total (orch_stats r') + dt\<rparr>, peer_detections := []\<rparr>"
  have v: "flight_view r1 = flight_view r1'" using assms by (simp add: flight_view_def r1_def r1'_def)
  then have same: "orch_state r1 = orch_state r1'" "orch_failsafe r1 = orch_failsafe r1'" by (simp_all add: flight_view_def)
  obtain fs s where t: "tick (tick_insert env) (tick_read env) (orch_state r1) alive (nearest_peer_distance r1) (orch_failsafe r1) = (fs, s)"
    by fastforce
  let ?a = "r1\<lparr>orch_failsafe := fs\<rparr>" and ?b = "r1'\<lparr>orch_failsafe := fs\<rparr>"
  have ab: "flight_view ?a = flight_view ?b" using v by (simp add: flight_view_def)
  have search: "map_option flight_view (Option.bind (search_step env ?a) (motion_step env dt)) =
      map_option flight_view (Option.bind (search_step env ?b) (motion_step env dt))"
    using search_view[OF ab, of env] motion_view by (cases "search_step env ?a"; cases "search_step env ?b") auto
  have "step F env dt alive r = (if s \<noteq> Nominal \<and> s \<noteq> LowBatteryWarn then Some (?a, s)
      else map_option (\<lambda>q. (forecast_step F q, s)) (Option.bind (search_step env ?a) (motion_step env dt)))"
    unfolding step_def Let_def r1_def[symmetric] t by simp
  moreover have "step F' env dt alive r' = (if s \<noteq> Nominal \<and> s \<noteq> LowBatteryWarn then Some (?b, s)
      else map_option (\<lambda>q. (forecast_step F' q, s)) (Option.bind (search_step env ?b) (motion_step env dt)))"
    unfolding step_def Let_def r1'_def[symmetric] t[unfolded same nearest_view[OF v]] by simp
  moreover have "map_option (\<lambda>q. (flight_view q, s)) x = map_option (\<lambda>q. (flight_view q, s)) y"
    if "map_option flight_view x = map_option flight_view y" for x :: "('x, 'y, 'z) orchestrator option" and y :: "('x2, 'y2, 'z2) orchestrator option"
    using that by (cases x; cases y) auto
  ultimately show ?thesis using search ab by (cases "s \<noteq> Nominal \<and> s \<noteq> LowBatteryWarn") (simp_all add: option.map_comp comp_def)
qed

lemma exec_view:
  assumes "flight_view r = flight_view r'"
  shows "map_option flight_view (orch_exec F r e) = map_option flight_view (orch_exec F' r' e)"
proof (cases e)
  case (Step env dt alive)
  have "map_option flight_view (map_option fst x) = map_option fst (map_option (\<lambda>(q, s). (flight_view q, s)) x)"
    for x :: "(('x, 'y, 'z) orchestrator \<times> fail_safe_state) option" by (cases x) auto
  then show ?thesis using step_view[OF assms, of F env dt alive F'] Step
    by (cases "step F env dt alive r"; cases "step F' env dt alive r'") auto
qed (use assms in \<open>auto simp: flight_view_def receive_peer_state_def receive_peer_detection_def
  receive_peer_detection_checked_def receive_latentmesh_advisory_def expire_latentmesh_advisories_def Let_def
  with_ruflo_def start_trajectory_def finish_trajectory_def Let_def split: sum.splits\<close>)

lemma exec_other:
  "\<not> flight_event e \<Longrightarrow> \<exists>q. orch_exec F r e = Some q \<and> flight_view q = flight_view r"
  by (cases e) (auto simp: flight_view_def receive_latentmesh_advisory_def expire_latentmesh_advisories_def Let_def)

text \<open>
  C19. Non-interference: two orchestrators that agree on everything but their advisories and forecasts (their engines, policies and
  forecasters may differ) still agree on it after any run, even when one of them receives all the
  advisories and expiries of the run and the other none: neither input reaches motion, battery, grid, phase, fail-safe or peers.
\<close>
theorem advisories_and_forecasts_never_steer:
  assumes "flight_view r = flight_view r'"
  shows "map_option flight_view (prun (orch_exec F) r es) =
         map_option flight_view (prun (orch_exec F') r' (filter flight_event es))"
  using assms
proof (induction es arbitrary: r r')
  case (Cons e es)
  show ?case
  proof (cases "flight_event e")
    case True
    have "map_option flight_view (orch_exec F r e) = map_option flight_view (orch_exec F' r' e)" by (rule exec_view[OF Cons.prems])
    then show ?thesis using Cons.IH True by (cases "orch_exec F r e"; cases "orch_exec F' r' e") auto
  next
    case False
    then obtain q where "orch_exec F r e = Some q" "flight_view q = flight_view r" using exec_other by blast
    then show ?thesis using Cons.IH[of q r'] Cons.prems False by simp
  qed
qed simp

section \<open>What makes a peer eligible\<close>

definition store_ok :: "orch_event list \<Rightarrow> ('sc, 'q, 'd) orchestrator \<Rightarrow> bool" where
  "store_ok es r \<longleftrightarrow> (\<forall>i a. map_of (latentmesh_advisories r) i = Some a \<longrightarrow> Advisory a \<in> set es \<and> advisory_source a = i) \<and>
     distinct (map fst (latentmesh_advisories r)) \<and>
     ((\<forall>t. ExpireAdvisories t \<notin> set es) \<longrightarrow> (\<forall>b. Advisory b \<in> set es \<longrightarrow>
        (\<exists>a. map_of (latentmesh_advisories r) (advisory_source b) = Some a \<and> mark_le (advisory_mark b) (advisory_mark a))))"

lemma mark_le_props: "mark_le x x" "mark_le x y \<Longrightarrow> mark_le y z \<Longrightarrow> mark_le x z" "\<not> mark_le x y \<Longrightarrow> mark_le y x"
  by (auto simp: mark_le_def split: prod.splits)

lemma step_advisories: "step F env dt alive r = Some (q, s) \<Longrightarrow> latentmesh_advisories q = latentmesh_advisories r"
  by (auto simp: step_def search_step_def motion_step_def forecast_step_def Let_def bind_eq_Some_conv split: prod.splits if_splits)

lemma store_ok_exec:
  assumes "store_ok es r" "orch_exec F r e = Some q"
  shows "store_ok (es @ [e]) q"
proof (cases e)
  case (Step env dt alive)
  then have "latentmesh_advisories q = latentmesh_advisories r" using assms(2) step_advisories by auto
  then show ?thesis using assms(1) Step by (auto simp: store_ok_def)
next
  case (Advisory a)
  show ?thesis
  proof (cases "case map_of (latentmesh_advisories r) (advisory_source a) of Some b \<Rightarrow> mark_le (advisory_mark a) (advisory_mark b) | None \<Rightarrow> False")
    case True
    then have "q = r" using assms(2) Advisory by (simp add: receive_latentmesh_advisory_def)
    then show ?thesis using assms(1) Advisory True by (auto simp: store_ok_def split: option.splits)
  next
    case False
    then have q: "latentmesh_advisories q = AList.update (advisory_source a) a (latentmesh_advisories r)"
      using assms(2) Advisory by (auto simp: receive_latentmesh_advisory_def)
    have newer: "mark_le (advisory_mark c) (advisory_mark a)" if "map_of (latentmesh_advisories r) (advisory_source a) = Some c" for c
      using False that mark_le_props(3) by simp
    have m: "map_of (latentmesh_advisories q) = (map_of (latentmesh_advisories r))(advisory_source a \<mapsto> a)" by (simp add: q update_conv')
    have "\<exists>c. map_of (latentmesh_advisories q) (advisory_source b) = Some c \<and> mark_le (advisory_mark b) (advisory_mark c)"
      if noexp: "\<forall>t. ExpireAdvisories t \<notin> set es" and b: "Advisory b \<in> set (es @ [e])" for b
    proof (cases "b = a")
      case False
      then have "Advisory b \<in> set es" using b Advisory by simp
      then obtain c where c: "map_of (latentmesh_advisories r) (advisory_source b) = Some c" "mark_le (advisory_mark b) (advisory_mark c)"
        using noexp assms(1) unfolding store_ok_def by blast
      then show ?thesis using newer[of c] mark_le_props(2) by (cases "advisory_source b = advisory_source a") (auto simp: m)
    qed (simp add: m mark_le_props(1))
    moreover have "distinct (map fst (latentmesh_advisories q))" using assms(1) by (simp add: q store_ok_def distinct_update)
    ultimately show ?thesis using assms(1) Advisory unfolding store_ok_def m by auto
  qed
next
  case (ExpireAdvisories t)
  have "map_of (filter (\<lambda>(_, a). P a) m) i = Some a \<Longrightarrow> distinct (map fst m) \<Longrightarrow> map_of m i = Some a" for P m i and a :: verified_advisory
    by (metis (no_types, lifting) map_of_SomeD map_of_is_SomeI mem_Collect_eq set_filter)
  then show ?thesis using assms ExpireAdvisories
    by (auto simp: store_ok_def expire_latentmesh_advisories_def Let_def distinct_map_filter)
qed (use assms in \<open>auto simp: store_ok_def receive_peer_state_def receive_peer_detection_def receive_peer_detection_checked_def
  with_ruflo_def start_trajectory_def finish_trajectory_def Let_def split: sum.splits if_splits\<close>)


lemma store_ok_run:
  "latentmesh_advisories r0 = [] \<Longrightarrow> prun (orch_exec F) r0 es = Some r \<Longrightarrow> store_ok es r"
proof (induction es arbitrary: r rule: rev_induct)
  case (snoc e es)
  then obtain q where "prun (orch_exec F) r0 es = Some q" "orch_exec F q e = Some r"
    by (auto simp: prun_append split: Option.bind_splits)
  then show ?case using snoc.IH[OF snoc.prems(1)] store_ok_exec by blast
qed (simp add: store_ok_def)

text \<open>
  C29. A peer is eligible for new cooperative work only on a verified advisory of its own that was received in the run, that has not
  expired and reports a charge above the local warning level, a usable link and a nominal fail-safe; as long as
  nothing was expired, no received advisory of that peer is newer.
\<close>
theorem eligibility_needs_the_newest_report:
  assumes "latentmesh_advisories r0 = []" "prun (orch_exec F) r0 es = Some r" "latentmesh_peer_is_eligible source now r"
  shows "\<exists>a. Advisory a \<in> set es \<and> advisory_source a = source \<and> now \<le> expires_at_ms (advisory_security a) \<and>
    battery_warn_pct (orch_failsafe r) \<le> battery_pct (snap_drone (rs_snapshot (received a))) \<and>
    lit (2/10) \<le> link_quality (snap_drone (rs_snapshot (received a))) \<and> snap_failsafe (rs_snapshot (received a)) = Nominal \<and>
    ((\<forall>t. ExpireAdvisories t \<notin> set es) \<longrightarrow>
      (\<forall>b. Advisory b \<in> set es \<longrightarrow> advisory_source b = source \<longrightarrow> mark_le (advisory_mark b) (advisory_mark a)))"
proof -
  obtain a where a: "map_of (latentmesh_advisories r) source = Some a"
    using assms(3) by (auto simp: latentmesh_peer_is_eligible_def split: option.splits)
  note s = store_ok_run[OF assms(1,2), unfolded store_ok_def]
  have "Advisory a \<in> set es" "advisory_source a = source" using s a by blast+
  moreover have "mark_le (advisory_mark b) (advisory_mark a)"
    if "\<forall>t. ExpireAdvisories t \<notin> set es" "Advisory b \<in> set es" "advisory_source b = source" for b
    using s that a by (metis option.inject)
  ultimately show ?thesis using assms(3) a by (auto simp: latentmesh_peer_is_eligible_def Let_def)
qed

section \<open>A mission at work\<close>

lemma demo_engine_default: "engine_new demo_forecaster forecast_policy_default \<noteq> None"
proof -
  obtain q where "(lit (7/20) :: f32) = Fin q" "1/4 \<le> q" "q \<le> 1/2"
    using lit_between[of "1/4" "1/2" "7/20", where 'a = 32] by (auto simp: representable_fraction)
  then show ?thesis
    by (simp add: engine_new_def engine_try_new_def demo_forecaster_def forecast_policy_default_def
      checked_mul_def percent_range_def unit_range_def in_range_def one_flt_def)
qed

lemma demo_orchestrator:
  obtains e where "new_demo demo_forecaster 1 demo_mission position_zero [position_zero] = Some demo_orchestrator"
    "orch_forecast demo_orchestrator = e" "noise_sound (orch_csi demo_orchestrator)" "latentmesh_advisories demo_orchestrator = []"
    "orch_failsafe demo_orchestrator = failsafe_new" "orch_state demo_orchestrator = (default_at_origin 1)\<lparr>altitude_agl_m := lit 30\<rparr>"
  using demo_engine_default that
  by (auto simp: demo_orchestrator_def new_demo_def Let_def demo_mission_def new_synthetic_def noise_sound_def range_sound_def
    representable_fraction Fin_mult mk_def Fin_sub sar_default_def default_at_origin_def)

definition demo_advisory :: verified_advisory where
  "demo_advisory = \<lparr>received = \<lparr>rs_snapshot = \<lparr>snap_drone = default_at_origin 7, snap_failsafe = Nominal\<rparr>,
       rs_metadata = \<lparr>md_source_id = 7, md_epoch = 1, md_message_id = 1, md_logical_sequence = 1, md_wire_sequence = 0,
         md_stream_id = 0, md_priority = 0, md_state_hash = [], md_encoded_message_bytes = 0,
         md_fragment_count = 1, md_keyframe = True, md_learned_residuals = 0\<rparr>\<rparr>,
     advisory_security = verified_observe_only 0 100\<rparr>"

theorem missions_never_panic_witness:
  "\<exists>r. prun (orch_exec demo_forecaster) demo_orchestrator [Step demo_step_env (lit 1) True, Advisory demo_advisory] = Some r"
proof -
  obtain e where d: "new_demo demo_forecaster 1 demo_mission position_zero [position_zero] = Some demo_orchestrator"
    "noise_sound (orch_csi demo_orchestrator)" by (rule demo_orchestrator)
  have "orch_event_ok (Step demo_step_env (lit 1) True)" using demo_env_ok by (simp add: demo_step_env_def)
  then show ?thesis
    using missions_never_panic[OF d, of "[Step demo_step_env (lit 1) True, Advisory demo_advisory]" "[]"] by auto
qed

theorem close_peer_stops_the_mission_witness:
  "\<exists>r'. step demo_forecaster demo_step_env (lit 1) True (receive_peer_state ((default_at_origin 2)\<lparr>ds_position := \<lparr>px = NaN, py = 0, pz = 0\<rparr>\<rparr>) demo_orchestrator)
     = Some (r', EmergencyDiverge)"
proof -
  let ?p = "(default_at_origin 2)\<lparr>ds_position := \<lparr>px = NaN, py = 0, pz = 0\<rparr>\<rparr>"
  have "map_of (peer_states (receive_peer_state ?p demo_orchestrator)) 2 = Some ?p"
    by (simp add: receive_peer_state_def update_conv' default_at_origin_def)
  moreover have "is_nan (distance_to p (ds_position ?p))" for p by (rule distance_to_nan) simp
  ultimately show ?thesis
    using close_peer_stops_the_mission[of "receive_peer_state ?p demo_orchestrator" 2 ?p demo_forecaster demo_step_env "lit 1" True]
    by (auto simp: is_finite_iff)
qed

theorem advisories_and_forecasts_never_steer_witness:
  "map_option flight_view (prun (orch_exec demo_forecaster) demo_orchestrator [Advisory demo_advisory, Step demo_step_env (lit 1) True]) =
   map_option flight_view (prun (orch_exec demo_forecaster) demo_orchestrator [Step demo_step_env (lit 1) True])"
  using advisories_and_forecasts_never_steer[OF refl, of demo_forecaster demo_orchestrator
      "[Advisory demo_advisory, Step demo_step_env (lit 1) True]" demo_forecaster] by (simp del: prun.simps)

theorem eligibility_needs_the_newest_report_witness:
  "\<exists>a. Advisory a \<in> set [Advisory demo_advisory] \<and> advisory_source a = 7"
proof -
  obtain e where d: "latentmesh_advisories demo_orchestrator = []" "orch_failsafe demo_orchestrator = failsafe_new" by (rule demo_orchestrator)
  obtain q where q: "(lit (2/10) :: f32) = Fin q" "1/8 \<le> q" "q \<le> 1/4"
    using lit_between[of "1/8" "1/4" "2/10", where 'a = 32] by (auto simp: representable_fraction)
  define r where "r = fst (receive_latentmesh_advisory demo_advisory demo_orchestrator)"
  have run: "prun (orch_exec demo_forecaster) demo_orchestrator [Advisory demo_advisory] = Some r" by (simp add: r_def)
  have "latentmesh_peer_is_eligible 7 5 r"
    using q by (simp add: r_def receive_latentmesh_advisory_def d latentmesh_peer_is_eligible_def Let_def demo_advisory_def
      advisory_source_def default_at_origin_def verified_observe_only_def failsafe_new_def)
  then show ?thesis using eligibility_needs_the_newest_report[OF d(1) run] by blast
qed

end
