(* ===== verification/Scenario.thy ===== *)
theory Scenario
  imports Config Sensing
begin

text \<open>
  The demonstration scenarios of \<open>src/demo\<close>: the bundled configurations of \<open>scenario.rs\<close> with the estimate of the coverage
  time, and the synthetic detections of \<open>synthetic_csi.rs\<close>.
\<close>

section \<open>Synthetic detections\<close>

record csi_generator =
  gen_victims :: "position3d list"
  gen_noise_std :: f64
  gen_range_m :: f64

definition generator_new :: "position3d list \<Rightarrow> f64 \<Rightarrow> f64 \<Rightarrow> csi_generator" where
  "generator_new vs noise_std range_m = \<lparr>gen_victims = vs, gen_noise_std = noise_std, gen_range_m = range_m\<rparr>"

definition stronger :: "csi_detection \<Rightarrow> csi_detection option \<Rightarrow> csi_detection option" where
  "stronger d best = (case best of
     None \<Rightarrow> Some d
   | Some b \<Rightarrow> if det_confidence b < det_confidence d then Some d else Some b)"

fun detect_from :: "scan_env \<Rightarrow> csi_generator \<Rightarrow> node_id \<Rightarrow> position3d \<Rightarrow> u64 \<Rightarrow> nat \<Rightarrow> csi_detection option \<Rightarrow> position3d list \<Rightarrow> csi_detection option option" where
  "detect_from env g i pos ts n best [] = Some best"
| "detect_from env g i pos ts n best (v # vs) =
    (let distance = distance_to pos v in
     if gen_range_m g \<le> distance then detect_from env g i pos ts n best vs
     else Option.bind (draw env n (- gen_noise_std g) (gen_noise_std g)) (\<lambda>noise.
       let confidence = (fcast (clamp_lit 0 (lit 1) (env_exp env (- distance / gen_range_m g) + noise)) :: f32) in
       if confidence \<le> lit (4/10) then detect_from env g i pos ts (n + 1) best vs
       else let jitter = gen_noise_std g * lit 10 in
         Option.bind (draw env (n + 1) (- jitter) jitter) (\<lambda>nx.
         Option.bind (draw env (n + 2) (- jitter) jitter) (\<lambda>ny.
           detect_from env g i pos ts (n + 3)
             (stronger \<lparr>det_drone_id = i, det_confidence = confidence,
                victim_position = Some \<lparr>px = px v + nx, py = py v + ny, pz = pz v\<rparr>, det_timestamp_ms = ts\<rparr> best) vs))))"

definition detect :: "scan_env \<Rightarrow> csi_generator \<Rightarrow> node_id \<Rightarrow> position3d \<Rightarrow> u64 \<Rightarrow> csi_detection option option" where
  "detect env g i pos ts = detect_from env g i pos ts 0 None (gen_victims g)"

section \<open>Scenarios\<close>

record demo_scenario =
  scenario_name :: string
  scenario_config :: swarm_config
  num_drones :: u64
  scenario_victims :: "position3d list"

definition spot :: "rat \<Rightarrow> rat \<Rightarrow> rat \<Rightarrow> position3d" where
  "spot x y z = \<lparr>px = lit x, py = lit y, pz = lit z\<rparr>"

definition sar_rubble_field :: "u64 \<Rightarrow> demo_scenario" where
  "sar_rubble_field n = \<lparr>scenario_name = ''SAR Rubble Field'', scenario_config = demo_default, num_drones = n,
     scenario_victims = [spot 50 80 0, spot 150 200 0, spot 300 100 0]\<rparr>"

definition open_field_search :: "u64 \<Rightarrow> demo_scenario" where
  "open_field_search n = \<lparr>scenario_name = ''Open Field Search'', scenario_config = demo_default, num_drones = n,
     scenario_victims = [spot 200 150 0]\<rparr>"

definition mine_corridor :: "u64 \<Rightarrow> demo_scenario" where
  "mine_corridor n = \<lparr>scenario_name = ''Mine Corridor GPS-Denied'',
     scenario_config = mine_default\<lparr>cfg_demo := Some \<lparr>synthetic_csi = True,
       demo_victim_positions = [(lit 30, lit 10, lit (-2)), (lit 80, lit 15, lit (-2))],
       wind_noise_ms = lit (1/10), csi_noise_std = lit (8/100), packet_loss_pct = lit 10, replay_speed = lit (1/2)\<rparr>\<rparr>,
     num_drones = n, scenario_victims = [spot 30 10 (-2), spot 80 15 (-2)]\<rparr>"

definition make_csi_generator :: "demo_scenario \<Rightarrow> csi_generator" where
  "make_csi_generator s =
    (let (noise_std, range_m) = (case cfg_demo (scenario_config s) of
         Some d \<Rightarrow> (csi_noise_std d, csi_scan_width_m (cfg_planning (scenario_config s)) / lit 2)
       | None \<Rightarrow> (lit (5/100), lit 14))
     in generator_new (scenario_victims s) noise_std range_m)"

definition scan_strip :: "planning_config \<Rightarrow> f64" where
  "scan_strip p = csi_scan_width_m p * (lit 1 - lateral_overlap_pct p / lit 100)"

definition estimate_coverage_time_secs :: "demo_scenario \<Rightarrow> f64" where
  "estimate_coverage_time_secs s =
    (let p = cfg_planning (scenario_config s); m = cfg_mission (scenario_config s);
         area = area_width_m m * area_height_m m;
         strip = scan_strip p
     in if strip \<le> 0 \<or> max_speed_ms p \<le> 0 \<or> num_drones s = 0 then PInf
        else let total_track_m = area / strip;
                 per_drone_track = total_track_m / of_unsigned (num_drones s)
             in per_drone_track / max_speed_ms p)"


section \<open>What the generator reports\<close>

text \<open>A detection is of a victim in range, with a confidence above 0.4, up to the jitter.\<close>

definition detected_ok :: "csi_generator \<Rightarrow> node_id \<Rightarrow> position3d \<Rightarrow> position3d list \<Rightarrow> csi_detection \<Rightarrow> bool" where
  "detected_ok g i pos vs d \<longleftrightarrow> det_drone_id d = i \<and> lit (4/10) < det_confidence d \<and> det_confidence d \<le> 1 \<and>
    (\<exists>v \<in> set vs. distance_to pos v < gen_range_m g \<and>
      (\<exists>nx ny. victim_position d = Some \<lparr>px = px v + nx, py = py v + ny, pz = pz v\<rparr> \<and>
        nx < gen_noise_std g * lit 10 \<and> ny < gen_noise_std g * lit 10))"

definition jitter_sound :: "f64 \<Rightarrow> bool" where
  "jitter_sound s \<longleftrightarrow> range_sound (- s) s \<and> range_sound (- (s * lit 10)) (s * lit 10)"

lemma lit_fraction_not_nan [simp]: "\<not> is_nan (lit q)"
  by (simp add: lit_def)

lemma detect_from_ok:
  assumes e: "gen_range_ok env" and s: "jitter_sound (gen_noise_std g)"
    and fin: "\<not> is_nan (gen_range_m g)" "\<And>v. v \<in> set vs \<Longrightarrow> \<not> is_nan (distance_to pos v)"
    and ex: "\<And>x n. \<not> is_nan (env_exp env x + n)"
    and best: "\<And>d. best = Some d \<Longrightarrow> detected_ok g i pos ws d" and sub: "set vs \<subseteq> set ws"
  shows "\<exists>r. detect_from env g i pos ts n best vs = Some r \<and> (\<forall>d. r = Some d \<longrightarrow> detected_ok g i pos ws d)"
  using fin(2) best sub
proof (induction vs arbitrary: n best)
  case (Cons v vs)
  let ?D = "distance_to pos v"
  show ?case
  proof (cases "gen_range_m g \<le> ?D")
    case True
    then show ?thesis using Cons.IH[of best n] Cons.prems by (simp add: Let_def)
  next
    case False
    then have near: "?D < gen_range_m g" using fin(1) Cons.prems(1)[of v] flt_not_less[of ?D "gen_range_m g"] by auto
    obtain a where a: "draw env n (- gen_noise_std g) (gen_noise_std g) = Some a"
      using draw_sound[OF e] s by (metis jitter_sound_def)
    let ?c = "fcast (clamp_lit 0 (lit 1) (env_exp env (- ?D / gen_range_m g) + a)) :: f32"
    have c1: "?c \<le> 1" "\<not> is_nan ?c"
      using clamp_lit_range[of 0 "lit 1" "env_exp env (- ?D / gen_range_m g) + a"] ex fcast_unit flt_le_nan
      by (fastforce simp: one_flt_def zero_flt_def)+
    show ?thesis
    proof (cases "?c \<le> lit (4/10)")
      case True
      then show ?thesis using Cons.IH[of best "n + 1"] Cons.prems False a by (simp add: Let_def)
    next
      case high: False
      then have c0: "lit (4/10) < ?c" using c1 flt_not_less[of "lit (4/10)" ?c] by auto
      obtain nx ny where xy: "draw env (n + 1) (- (gen_noise_std g * lit 10)) (gen_noise_std g * lit 10) = Some nx" "nx < gen_noise_std g * lit 10"
          "draw env (n + 2) (- (gen_noise_std g * lit 10)) (gen_noise_std g * lit 10) = Some ny" "ny < gen_noise_std g * lit 10"
        using draw_sound[OF e] s by (metis jitter_sound_def)
      let ?d = "\<lparr>det_drone_id = i, det_confidence = ?c, victim_position = Some \<lparr>px = px v + nx, py = py v + ny, pz = pz v\<rparr>, det_timestamp_ms = ts\<rparr>"
      have "detected_ok g i pos ws ?d" using near c0 c1 xy Cons.prems(3) by (auto simp: detected_ok_def simp del: lit_simps)
      then have st: "\<And>d. stronger ?d best = Some d \<Longrightarrow> detected_ok g i pos ws d"
        using Cons.prems(2) by (auto simp: stronger_def split: option.splits if_splits)
      obtain r where r: "detect_from env g i pos ts (n + 3) (stronger ?d best) vs = Some r" "\<forall>d. r = Some d \<longrightarrow> detected_ok g i pos ws d"
        using Cons.IH[of "stronger ?d best" "n + 3"] Cons.prems st by auto
      show ?thesis using r False high a xy by (simp add: Let_def del: lit_simps)
    qed
  qed
qed simp

text \<open>
  A position that is not a number passes both tests of \<open>detect\<close> (the tests of \<open>scan\<close> are written the other way round): a drone that
  does not know where it is detects a victim with a confidence that is not a number.
\<close>

lemma nan_position_is_detected:
  assumes "gen_range_ok env" "jitter_sound (gen_noise_std g)" "gen_victims g = [v]" "is_nan (px pos)" "\<And>x. is_nan x \<Longrightarrow> is_nan (env_exp env x)"
  shows "\<exists>d. detect env g i pos ts = Some (Some d) \<and> is_nan (det_confidence d)"
proof -
  have D: "is_nan (distance_to pos v)" using assms(4) by (simp add: distance_to_def Let_def)
  obtain a where a: "draw env 0 (- gen_noise_std g) (gen_noise_std g) = Some a"
    using draw_sound[OF assms(1)] assms(2) by (metis jitter_sound_def)
  obtain nx ny where xy: "draw env 1 (- (gen_noise_std g * lit 10)) (gen_noise_std g * lit 10) = Some nx"
      "draw env 2 (- (gen_noise_std g * lit 10)) (gen_noise_std g * lit 10) = Some ny"
    using draw_sound[OF assms(1)] assms(2) by (metis jitter_sound_def)
  let ?y = "env_exp env (- distance_to pos v / gen_range_m g) + a"
  have "is_nan ?y" using assms(5)[of "- distance_to pos v / gen_range_m g"] D by simp
  then have c: "is_nan (fcast (clamp_lit 0 (lit 1) ?y) :: f32)"
    using clamp_lit_range[of 0 "lit 1" ?y] by (cases ?y) (auto simp: clamp_lit_def)
  moreover have "\<not> gen_range_m g \<le> distance_to pos v" "\<not> (fcast (clamp_lit 0 (lit 1) ?y) :: f32) \<le> lit (4/10)"
    using D c flt_le_nan by blast+
  ultimately show ?thesis using a xy by (simp add: detect_def assms(3) Let_def stronger_def numeral_2_eq_2 del: lit_simps)
qed

section \<open>Coverage estimates\<close>

text \<open>
  The estimate of the coverage time: more drones never take longer, whatever the configuration, and a configuration
  without drones, speed or strip takes forever; for an area and speed above zero it is not negative.
\<close>
theorem more_drones_cover_faster:
  assumes "num_drones s \<le> num_drones s'" "scenario_config s' = scenario_config s"
    and "0 \<le> area_width_m (cfg_mission (scenario_config s))" "0 \<le> area_height_m (cfg_mission (scenario_config s))"
  shows "is_nan (estimate_coverage_time_secs s) \<or> is_nan (estimate_coverage_time_secs s') \<or>
    0 \<le> estimate_coverage_time_secs s' \<and> estimate_coverage_time_secs s' \<le> estimate_coverage_time_secs s"
proof -
  define c where "c = scenario_config s"
  define track where "track = area_width_m (cfg_mission c) * area_height_m (cfg_mission c) / scan_strip (cfg_planning c)"
  define v where "v = max_speed_ms (cfg_planning c)"
  define d where "d = (of_unsigned (num_drones s) :: f64)"
  define d' where "d' = (of_unsigned (num_drones s') :: f64)"
  have est: "estimate_coverage_time_secs s = (if scan_strip (cfg_planning c) \<le> 0 \<or> v \<le> 0 \<or> num_drones s = 0 then PInf else track / d / v)"
    "estimate_coverage_time_secs s' = (if scan_strip (cfg_planning c) \<le> 0 \<or> v \<le> 0 \<or> num_drones s' = 0 then PInf else track / d' / v)"
    by (simp_all add: estimate_coverage_time_secs_def Let_def assms(2) c_def[symmetric] track_def v_def d_def d'_def)
  show ?thesis
  proof (cases "scan_strip (cfg_planning c) \<le> 0 \<or> v \<le> 0 \<or> num_drones s' = 0 \<or> is_nan (track / d' / v)")
    case True
    then show ?thesis using assms(1) unfolding est by auto
  next
    case False
    then have n0: "\<not> is_nan (track / d' / v)" by blast
    note n1 = not_nan_parts(5)[OF n0]
    note n2 = not_nan_parts(5)[OF n1]
    note nn = n0 n1 n2 not_nan_parts(6)[OF n0] not_nan_parts(6)[OF n2[unfolded track_def]]
    have pos: "0 < v" "0 < scan_strip (cfg_planning c)"
      using False nn flt_not_less[of 0 v] flt_not_less[of 0 "scan_strip (cfg_planning c)"] by auto
    then have t: "0 \<le> track" using assms(3,4) nn(3)
      by (simp add: track_def c_def not_neg_number not_neg_div not_neg_mult not_neg_nonneg)
    have d': "0 < d'" using False of_unsigned_positive[of "num_drones s'"] by (simp add: d'_def word_neq_0_conv)
    have ge: "0 \<le> track / d' / v" using t d' pos nn by (simp add: not_neg_number not_neg_div not_neg_nonneg)
    show ?thesis
    proof (cases "num_drones s = 0 \<or> is_nan (track / d / v)")
      case True
      then show ?thesis using False ge nn(1) unfolding est by auto
    next
      case s: False
      then have m0: "\<not> is_nan (track / d / v)" by blast
      note n2 = m0 not_nan_parts(5)[OF m0]
      have d: "0 < d" "d \<le> d'" using s of_unsigned_positive[of "num_drones s"] of_unsigned_mono[OF assms(1)] by (simp_all add: d_def d'_def word_neq_0_conv)
      have le: "track / d' \<le> track / d" using t d n2(2) nn(2,3) by (intro flt_div_mono) simp_all
      have ge': "0 \<le> track / d'" using t d' nn(2) by (simp add: not_neg_number not_neg_div not_neg_nonneg)
      have "track / d' / v \<le> track / d / v"
        by (rule flt_div_mono[OF ge' le pos(1) _ n0 m0]) (use nn in simp)
      then show ?thesis using ge s False unfolding est by simp
    qed
  qed
qed

theorem more_drones_cover_faster_witness:
  "is_nan (estimate_coverage_time_secs (sar_rubble_field 2)) \<or> is_nan (estimate_coverage_time_secs (sar_rubble_field 4)) \<or>
   0 \<le> estimate_coverage_time_secs (sar_rubble_field 4) \<and>
   estimate_coverage_time_secs (sar_rubble_field 4) \<le> estimate_coverage_time_secs (sar_rubble_field 2)"
  using more_drones_cover_faster[of "sar_rubble_field 2" "sar_rubble_field 4"]
  by (simp add: sar_rubble_field_def profile_defs)

text \<open>
  The documentation of \<open>sar_rubble_field\<close> names an area of 400 by 400 metres; the configuration it bundles has 500 by 500.
\<close>

lemma rubble_field_area:
  "area_width_m (cfg_mission (scenario_config (sar_rubble_field n))) = lit 500 \<and>
   area_height_m (cfg_mission (scenario_config (sar_rubble_field n))) = lit 500"
  by (simp add: sar_rubble_field_def profile_defs)

end
