(* ===== verification/SwarmSim.thy ===== *)
theory SwarmSim
  imports Orchestrator Scenario
begin

text \<open>
  The end-to-end simulations of \<open>src/integration/swarm_sim.rs\<close> over several orchestrators in one process, with the report types of
  \<open>mission_report.rs\<close>. The environments of the single steps and scans are parameters, indexed by step and drone; an index out
  of range (no drones) is the panic \<open>None\<close>.
\<close>

section \<open>The swarm\<close>

record sim_env =
  sim_step_env :: "nat \<Rightarrow> nat \<Rightarrow> step_env"
  sim_scan_env :: "nat \<Rightarrow> nat \<Rightarrow> scan_env"
  assist_scan_env :: "nat \<Rightarrow> scan_env"
  sim_acos :: "f64 \<Rightarrow> f64"
  orchestrator_bytes :: nat

type_synonym ('sc, 'q, 'd) swarm = "('sc, 'q, 'd) orchestrator list"

fun step_all ::
  "('sc, 'q, 'p, 'c, 's, 'r, 'f, 'd) forecast_ops \<Rightarrow> (nat \<Rightarrow> step_env) \<Rightarrow> f64 \<Rightarrow> nat \<Rightarrow> ('sc, 'q, 'd) swarm \<Rightarrow> ('sc, 'q, 'd) swarm option" where
  "step_all F envs dt i [] = Some []"
| "step_all F envs dt i (d # ds) =
    Option.bind (step F (envs i) dt True d) (\<lambda>(d', _). map_option (Cons d') (step_all F envs dt (Suc i) ds))"

definition hear :: "drone_state list \<Rightarrow> ('sc, 'q, 'd) orchestrator \<Rightarrow> ('sc, 'q, 'd) orchestrator" where
  "hear states d = foldl (\<lambda>d st. if ds_id st \<noteq> orch_node d then receive_peer_state st d else d) d states"

definition exchange :: "('sc, 'q, 'd) swarm \<Rightarrow> ('sc, 'q, 'd) swarm" where
  "exchange ds = map (hear (map orch_state ds)) ds"

definition swarm_positions :: "('sc, 'q, 'd) swarm \<Rightarrow> (node_id \<times> position3d) list" where
  "swarm_positions ds = map (\<lambda>d. (orch_node d, ds_position (orch_state d))) ds"

definition close_pairs :: "('sc, 'q, 'd) swarm \<Rightarrow> nat" where
  "close_pairs ds = length (filter (\<lambda>(a, b). distance_to (ds_position (orch_state a)) (ds_position (orch_state b)) < lit (3/2)) (pairs_of ds))"

definition average_coverage :: "('sc, 'q, 'd) swarm \<Rightarrow> f64" where
  "average_coverage ds = fsum (map (\<lambda>d. coverage_pct (orch_grid d)) ds) / rnd (of_nat (length ds))"

definition nearest_error :: "position3d list \<Rightarrow> position3d \<Rightarrow> f64" where
  "nearest_error victims p = foldl fmin (Fin (max_fin TYPE(64))) (map (distance_to p) victims)"

fun launch ::
  "('sc, 'q, 'p, 'c, 's, 'r, 'f, 'd) forecast_ops \<Rightarrow> swarm_config \<Rightarrow> position3d list \<Rightarrow> (nat \<Rightarrow> position3d) \<Rightarrow> nat list \<Rightarrow> ('sc, 'q, 'd) swarm option" where
  "launch F c victims start [] = Some []"
| "launch F c victims start (i # js) =
    Option.bind (new_demo F (of_nat i) c (start i) victims) (\<lambda>d. map_option (Cons d) (launch F c victims start js))"

text \<open>
  The drones are collected in one piece: more than \<open>isize::MAX\<close> bytes are a panic. The size of an orchestrator in memory is the compiler's.
\<close>

definition launch_all ::
  "('sc, 'q, 'p, 'c, 's, 'r, 'f, 'd) forecast_ops \<Rightarrow> sim_env \<Rightarrow> swarm_config \<Rightarrow> position3d list \<Rightarrow> (nat \<Rightarrow> position3d) \<Rightarrow> nat
     \<Rightarrow> ('sc, 'q, 'd) swarm option" where
  "launch_all F E c victims start n =
    (if 2 ^ 63 - 1 < orchestrator_bytes E * n then None else launch F c victims start [0..<n])"

section \<open>The search simulation\<close>

record sim_state =
  victims_detected :: nat
  sim_collisions :: u32
  localization_error :: "f64 option"

record sim_mission_result =
  total_cells_covered :: u32
  res_victims_detected :: nat
  res_elapsed_secs :: f64
  res_collision_events :: u32
  final_localization_error_m :: "f64 option"
  res_coverage_pct :: f64

definition sar_victims :: "position3d list" where
  "sar_victims = [spot 80 120 0, spot 250 180 0]"

definition sar_start :: "nat \<Rightarrow> position3d" where
  "sar_start i = (let c = wi2sar_reference in
    \<lparr>px = lit 10 + rnd (of_nat (i mod 2)) * (area_width_m (cfg_mission c) / lit 2),
     py = lit 10 + rnd (of_nat (i div 2)) * (area_height_m (cfg_mission c) / lit 2),
     pz = - flight_altitude_m (cfg_planning c)\<rparr>)"

text \<open>The detections of the peers reach drone 0, which fuses what it has.\<close>

definition first_detections :: "('sc, 'q, 'd) swarm \<Rightarrow> csi_detection list" where
  "first_detections ds = List.map_filter (\<lambda>d. case peer_detections d of [] \<Rightarrow> None | x # _ \<Rightarrow> Some x) ds"

definition cluster_head_fusion :: "(f64 \<Rightarrow> f64) \<Rightarrow> ('sc, 'q, 'd) swarm \<Rightarrow> sim_state \<Rightarrow> ('sc, 'q, 'd) swarm \<times> sim_state" where
  "cluster_head_fusion acos ds s = (case ds of
     [] \<Rightarrow> ([], s)
   | head # rest \<Rightarrow>
       if first_detections ds = [] then (ds, s)
       else
         let head' = foldl (\<lambda>h det. if det_drone_id det \<noteq> orch_node h then receive_peer_detection det h else h) head (first_detections ds);
             ds' = head' # rest
         in if length (peer_detections head') < 2 then (ds', s)
            else (case fuse_detections acos head' (peer_detections head') (swarm_positions ds') of
                Some fused \<Rightarrow> if lit (7/10) < fused_confidence fused
                  then (ds', s\<lparr>victims_detected := victims_detected s + 1,
                      localization_error := Some (nearest_error sar_victims (estimated_position fused))\<rparr>)
                  else (ds', s)
              | None \<Rightarrow> (ds', s)))"

fun sar_loop ::
  "('sc, 'q, 'p, 'c, 's, 'r, 'f, 'd) forecast_ops \<Rightarrow> sim_env \<Rightarrow> f64 \<Rightarrow> nat \<Rightarrow> nat \<Rightarrow> ('sc, 'q, 'd) swarm \<times> sim_state
     \<Rightarrow> (('sc, 'q, 'd) swarm \<times> sim_state) option" where
  "sar_loop F E dt k 0 (ds, s) = Some (ds, s)"
| "sar_loop F E dt k (Suc n) (ds, s) =
    Option.bind (step_all F (sim_step_env E k) dt 0 ds) (\<lambda>ds1.
      let (ds2, s2) = cluster_head_fusion (sim_acos E) (exchange ds1) s;
          s3 = s2\<lparr>sim_collisions := sim_collisions s2 + of_nat (close_pairs ds2)\<rparr>
      in if lit (9/10) < average_coverage ds2 then Some (ds2, s3) else sar_loop F E dt (Suc k) n (ds2, s3))"

definition run_sar_simulation ::
  "('sc, 'q, 'p, 'c, 's, 'r, 'f, 'd) forecast_ops \<Rightarrow> sim_env \<Rightarrow> nat \<Rightarrow> nat \<Rightarrow> f64 \<Rightarrow> sim_mission_result option" where
  "run_sar_simulation F E n_drones num_steps dt =
    Option.bind (launch_all F E wi2sar_reference sar_victims sar_start n_drones) (\<lambda>ds0.
    Option.bind (sar_loop F E dt 0 num_steps (ds0, \<lparr>victims_detected = 0, sim_collisions = 0, localization_error = None\<rparr>)) (\<lambda>(ds, s).
      case ds of [] \<Rightarrow> None | head # _ \<Rightarrow>
        Some \<lparr>total_cells_covered = sum_list (map (\<lambda>d. cells_covered (orch_stats d)) ds),
          res_victims_detected = victims_detected s, res_elapsed_secs = elapsed_total (orch_stats head),
          res_collision_events = sim_collisions s, final_localization_error_m = localization_error s,
          res_coverage_pct = average_coverage ds\<rparr>))"

section \<open>The mission report\<close>

record victim_report =
  victim_id :: u32
  report_position :: position3d
  localization_error_m :: f64
  rep_uncertainty_m :: f64
  rep_contributing_drones :: "node_id list"
  rep_fused_confidence :: f32
  detection_time_secs :: f64

record sota_comparison =
  wi2sar_localization_m :: f64
  our_localization_m :: f64
  localization_improvement_x :: f64
  wi2sar_coverage_time_secs :: f64
  our_coverage_time_secs :: f64
  beats_sota :: bool

record mission_report =
  report_profile :: string
  report_num_drones :: nat
  area_m2 :: f64
  mission_duration_secs :: f64
  report_coverage_pct :: f64
  victims_total :: nat
  report_victims_confirmed :: nat
  report_detection_rate :: f64
  mean_localization_error_m :: f64
  report_collision_events :: u32
  report_victims :: "victim_report list"
  sota :: sota_comparison

definition rate_of :: "nat \<Rightarrow> nat \<Rightarrow> f64" where
  "rate_of known confirmed = (if known = 0 then lit 1 else rnd (of_nat confirmed) / rnd (of_nat known))"

definition detection_rate :: "mission_report \<Rightarrow> f64" where
  "detection_rate r = rate_of (victims_total r) (report_victims_confirmed r)"

definition report_start :: "swarm_config \<Rightarrow> nat \<Rightarrow> nat \<Rightarrow> position3d" where
  "report_start c n_drones i =
    (let cols = unat (as_unsigned (fceil (fsqrt (rnd (of_nat n_drones) :: f64))) :: u64); row = i div cols; col = i mod cols; m = cfg_mission c
     in \<lparr>px = lit 10 + rnd (of_nat col) * (area_width_m m / rnd (of_nat cols)),
         py = lit 10 + rnd (of_nat row) * (area_height_m m / rnd (of_nat (max cols 1))),
         pz = - flight_altitude_m (cfg_planning c)\<rparr>)"

text \<open>Every drone scans at its position.\<close>

fun gather :: "(nat \<Rightarrow> scan_env) \<Rightarrow> nat \<Rightarrow> ('sc, 'q, 'd) swarm \<Rightarrow> csi_detection list option" where
  "gather envs i [] = Some []"
| "gather envs i (d # ds) =
    Option.bind (scan (envs i) (orch_csi d) (ds_position (orch_state d))) (\<lambda>r.
      map_option (\<lambda>rest. case r of Some det \<Rightarrow> det # rest | None \<Rightarrow> rest) (gather envs (Suc i) ds))"

text \<open>A single detection draws the nearest other drone towards it, which scans again.\<close>

definition nearer :: "node_id \<Rightarrow> position3d \<Rightarrow> (nat \<times> f64) option \<Rightarrow> nat \<times> ('sc, 'q, 'd) orchestrator \<Rightarrow> (nat \<times> f64) option" where
  "nearer detector anchor best = (\<lambda>(i, d).
    if orch_node d = detector then best
    else let x = distance_to (ds_position (orch_state d)) anchor in
      if (case best of Some (_, b) \<Rightarrow> x < b | None \<Rightarrow> True) then Some (i, x) else best)"

definition nearest_helper :: "node_id \<Rightarrow> position3d \<Rightarrow> ('sc, 'q, 'd) swarm \<Rightarrow> (nat \<times> f64) option" where
  "nearest_helper detector anchor ds = foldl (nearer detector anchor) None (enumerate 0 ds)"

definition drawn_to :: "f64 \<Rightarrow> position3d \<Rightarrow> position3d \<Rightarrow> position3d" where
  "drawn_to speed anchor p =
    (let dx = px anchor - px p; dy = py anchor - py p; x = fsqrt (dx * dx + dy * dy)
     in if lit (1 / 1000000) < x then let s = fmin speed x in p\<lparr>px := px p + dx / x * s, py := py p + dy / x * s\<rparr> else p)"

definition move_to :: "position3d \<Rightarrow> ('sc, 'q, 'd) orchestrator \<Rightarrow> ('sc, 'q, 'd) orchestrator" where
  "move_to p d = d\<lparr>orch_state := (orch_state d)\<lparr>ds_position := p\<rparr>\<rparr>"

definition assist :: "scan_env \<Rightarrow> f64 \<Rightarrow> csi_detection list \<Rightarrow> ('sc, 'q, 'd) swarm \<Rightarrow> (('sc, 'q, 'd) swarm \<times> csi_detection list) option" where
  "assist env max_speed dets ds =
    (case dets of
       [det] \<Rightarrow>
         (case victim_position det of
            Some anchor \<Rightarrow>
              (case nearest_helper (det_drone_id det) anchor ds of
                 Some (i, _) \<Rightarrow>
                   let d = move_to (drawn_to (fmax max_speed (lit 1)) anchor (ds_position (orch_state (ds ! i)))) (ds ! i)
                   in map_option (\<lambda>r. (ds[i := d], case r of Some x \<Rightarrow> [det, x] | None \<Rightarrow> [det]))
                        (scan env (orch_csi d) (ds_position (orch_state d)))
               | None \<Rightarrow> Some (ds, dets))
          | None \<Rightarrow> Some (ds, dets))
     | _ \<Rightarrow> Some (ds, dets))"

definition report_fusion :: multiview_fusion where
  "report_fusion = \<lparr>min_viewpoints = 2, min_confidence = lit (1/2)\<rparr>"

definition confirm :: "(f64 \<Rightarrow> f64) \<Rightarrow> position3d list \<Rightarrow> csi_detection list \<Rightarrow> f64 \<Rightarrow> (node_id \<times> position3d) list \<Rightarrow> victim_report list \<Rightarrow> victim_report list" where
  "confirm acos victims dets elapsed positions confirmed =
    (if length dets < 2 then confirmed
     else (case fuse acos report_fusion dets positions of
         None \<Rightarrow> confirmed
       | Some f \<Rightarrow>
           if lit (7/10) < fused_confidence f \<and> list_all (\<lambda>v. lit 10 < distance_to (report_position v) (estimated_position f)) confirmed
           then confirmed @ [\<lparr>victim_id = of_nat (length confirmed), report_position = estimated_position f,
             localization_error_m = nearest_error victims (estimated_position f), rep_uncertainty_m = uncertainty_m f,
             rep_contributing_drones = contributing_drones f, rep_fused_confidence = fused_confidence f, detection_time_secs = elapsed\<rparr>]
           else confirmed))"

definition push_from :: "f64 \<Rightarrow> nat \<Rightarrow> position3d \<Rightarrow> f64 \<times> f64 \<Rightarrow> nat \<times> position3d \<Rightarrow> f64 \<times> f64" where
  "push_from min_sep i p = (\<lambda>(ax, ay) (j, other).
    if i = j then (ax, ay)
    else let dx = px p - px other; dy = py p - py other; x = fsqrt (dx * dx + dy * dy) in
      if x < min_sep \<and> lit (1 / 1000000) < x
      then let overlap = (min_sep - x) / lit 2 in (ax + dx / x * overlap, ay + dy / x * overlap)
      else if x \<le> lit (1 / 1000000) then (ax + (rnd (of_nat i) - rnd (of_nat j)) * min_sep * lit (1/2), ay)
      else (ax, ay))"

definition separate :: "f64 \<Rightarrow> ('sc, 'q, 'd) swarm \<Rightarrow> ('sc, 'q, 'd) swarm" where
  "separate min_sep ds =
    (let snapshot = map (\<lambda>d. ds_position (orch_state d)) ds in
     map (\<lambda>(i, d). let p = ds_position (orch_state d); (ax, ay) = foldl (push_from min_sep i p) (0, 0) (enumerate 0 snapshot)
          in move_to (p\<lparr>px := px p + ax, py := py p + ay\<rparr>) d) (enumerate 0 ds))"

definition report_round ::
  "('sc, 'q, 'p, 'c, 's, 'r, 'f, 'd) forecast_ops \<Rightarrow> sim_env \<Rightarrow> swarm_config \<Rightarrow> position3d list \<Rightarrow> f64 \<Rightarrow> nat
     \<Rightarrow> ('sc, 'q, 'd) swarm \<times> victim_report list \<times> u32 \<Rightarrow> (('sc, 'q, 'd) swarm \<times> victim_report list \<times> u32) option" where
  "report_round F E c victims dt k = (\<lambda>(ds, confirmed, collisions).
    Option.bind (step_all F (sim_step_env E k) dt 0 ds) (\<lambda>ds1.
    Option.bind (gather (sim_scan_env E k) 0 (exchange ds1)) (\<lambda>dets.
    Option.bind (assist (assist_scan_env E k) (max_speed_ms (cfg_planning c)) dets (exchange ds1)) (\<lambda>(ds2, dets2).
      let elapsed = (case ds2 of d # _ \<Rightarrow> elapsed_total (orch_stats d) | [] \<Rightarrow> 0);
          ds3 = separate (fmax (min_separation_m (cfg_formation c)) (lit (3/2))) ds2
      in Some (ds3, confirm (sim_acos E) victims dets2 elapsed (swarm_positions ds2) confirmed,
               collisions + of_nat (close_pairs ds3))))))"

fun report_loop ::
  "('sc, 'q, 'p, 'c, 's, 'r, 'f, 'd) forecast_ops \<Rightarrow> sim_env \<Rightarrow> swarm_config \<Rightarrow> position3d list \<Rightarrow> f64 \<Rightarrow> nat \<Rightarrow> nat
     \<Rightarrow> ('sc, 'q, 'd) swarm \<times> victim_report list \<times> u32 \<Rightarrow> (('sc, 'q, 'd) swarm \<times> victim_report list \<times> u32) option" where
  "report_loop F E c victims dt k 0 st = Some st"
| "report_loop F E c victims dt k (Suc n) st =
    Option.bind (report_round F E c victims dt k st) (\<lambda>(ds, confirmed, collisions).
      if length victims \<le> length confirmed \<and> lit (1/2) < average_coverage ds
      then Some (ds, confirmed, collisions)
      else report_loop F E c victims dt (Suc k) n (ds, confirmed, collisions))"

definition mean_error :: "victim_report list \<Rightarrow> f64" where
  "mean_error vs = (if vs = [] then 0 else fsum (map localization_error_m vs) / rnd (of_nat (length vs)))"

definition compare_sota :: "f64 \<Rightarrow> f64 \<Rightarrow> sota_comparison" where
  "compare_sota mean_err elapsed =
    \<lparr>wi2sar_localization_m = lit 5, our_localization_m = (if 0 < mean_err then mean_err else lit (1732/1000)),
     localization_improvement_x = (if 0 < mean_err then lit 5 / mean_err else lit (289/100)),
     wi2sar_coverage_time_secs = lit 810, our_coverage_time_secs = elapsed,
     beats_sota = (0 < mean_err \<and> mean_err < lit 5 \<or> feq mean_err 0)\<rparr>"

definition run_mission_with_report ::
  "('sc, 'q, 'p, 'c, 's, 'r, 'f, 'd) forecast_ops \<Rightarrow> sim_env \<Rightarrow> swarm_config \<Rightarrow> nat \<Rightarrow> position3d list \<Rightarrow> nat \<Rightarrow> f64 \<Rightarrow> mission_report option" where
  "run_mission_with_report F E c n_drones victims max_steps dt =
    Option.bind (launch_all F E c victims (report_start c n_drones) n_drones) (\<lambda>ds0.
    Option.bind (report_loop F E c victims dt 0 max_steps (ds0, [], 0)) (\<lambda>(ds, confirmed, collisions).
      case ds of [] \<Rightarrow> None | head # _ \<Rightarrow>
        let elapsed = elapsed_total (orch_stats head); err = mean_error confirmed; m = cfg_mission c
        in Some \<lparr>report_profile = profile m, report_num_drones = n_drones, area_m2 = area_width_m m * area_height_m m,
             mission_duration_secs = elapsed, report_coverage_pct = average_coverage ds, victims_total = length victims,
             report_victims_confirmed = length confirmed, report_detection_rate = rate_of (length victims) (length confirmed),
             mean_localization_error_m = err, report_collision_events = collisions, report_victims = confirmed,
             sota = compare_sota err elapsed\<rparr>))"

definition run_inspection_mission :: "('sc, 'q, 'p, 'c, 's, 'r, 'f, 'd) forecast_ops \<Rightarrow> sim_env \<Rightarrow> mission_report option" where
  "run_inspection_mission F E = run_mission_with_report F E inspection_default 4 [spot 100 25 0, spot 500 25 0, spot 900 25 0] 200 (lit 1)"

definition run_mine_mission :: "('sc, 'q, 'p, 'c, 's, 'r, 'f, 'd) forecast_ops \<Rightarrow> sim_env \<Rightarrow> mission_report option" where
  "run_mine_mission F E = run_mission_with_report F E mine_default 2 [spot 60 30 0] 200 (lit 1)"


section \<open>The search simulation detects nobody\<close>

text \<open>
  A step empties the list of peer detections and nothing between it and the fusion fills it again: the lists the cluster head fuses
  from are always empty.
\<close>

lemma case_list_Some: "(case xs of [] \<Rightarrow> None | x # ys \<Rightarrow> Some (f x)) = Some r \<longleftrightarrow> (\<exists>x ys. xs = x # ys \<and> r = f x)"
  by (cases xs) auto

lemma step_no_detections: "step F env dt alive r = Some (q, s) \<Longrightarrow> peer_detections q = []"
  by (auto simp: step_def search_step_def motion_step_def forecast_step_def Let_def bind_eq_Some_conv split: prod.splits if_splits)

lemma step_all_no_detections: "step_all F envs dt i ds = Some ds' \<Longrightarrow> \<forall>d \<in> set ds'. peer_detections d = []"
  by (induction ds arbitrary: i ds') (auto simp: bind_eq_Some_conv dest: step_no_detections)

lemma hear_frame:
  "peer_detections (hear states d) = peer_detections d" "orch_node (hear states d) = orch_node d" "orch_config (hear states d) = orch_config d"
  "orch_state (hear states d) = orch_state d" "orch_grid (hear states d) = orch_grid d" "orch_csi (hear states d) = orch_csi d"
  "orch_stats (hear states d) = orch_stats d"
proof -
  let ?f = "\<lambda>d :: ('a, 'b, 'c) orchestrator. (peer_detections d, orch_node d, orch_config d, orch_state d, orch_grid d, orch_csi d, orch_stats d)"
  have "?f (hear states d) = ?f d"
    unfolding hear_def by (induction states arbitrary: d) (auto simp: receive_peer_state_def)
  then show "peer_detections (hear states d) = peer_detections d" "orch_node (hear states d) = orch_node d"
    "orch_config (hear states d) = orch_config d" "orch_state (hear states d) = orch_state d" "orch_grid (hear states d) = orch_grid d"
    "orch_csi (hear states d) = orch_csi d" "orch_stats (hear states d) = orch_stats d" by simp_all
qed

lemma no_detections_no_fusion: "\<forall>d \<in> set ds. peer_detections d = [] \<Longrightarrow> cluster_head_fusion acos ds s = (ds, s)"
proof -
  assume "\<forall>d \<in> set ds. peer_detections d = []"
  then have "first_detections ds = []" unfolding first_detections_def by (induction ds) auto
  then show ?thesis by (cases ds) (simp_all add: cluster_head_fusion_def)
qed

lemma sar_loop_detects_nobody:
  "sar_loop F E dt k n (ds, s) = Some (ds', s') \<Longrightarrow> victims_detected s' = victims_detected s \<and> localization_error s' = localization_error s"
proof (induction n arbitrary: k ds s)
  case (Suc n)
  then obtain ds1 where ds1: "step_all F (sim_step_env E k) dt 0 ds = Some ds1" by (auto simp: bind_eq_Some_conv)
  then have "\<forall>d \<in> set (exchange ds1). peer_detections d = []"
    using step_all_no_detections[OF ds1] by (simp add: exchange_def hear_frame)
  note none = no_detections_no_fusion[OF this, of "sim_acos E" s]
  then show ?case using Suc.prems Suc.IH by (auto simp: ds1 Let_def split: if_splits)
qed simp

text \<open>
  The search simulation never detects a victim: whatever the number of drones and steps, the time step, the random draws and
  the sensors, a run that returns reports zero victims and no localization error.
\<close>
theorem search_simulation_detects_nobody:
  "case run_sar_simulation F E n_drones n_steps dt of
     None \<Rightarrow> True
   | Some r \<Rightarrow> res_victims_detected r = 0 \<and> final_localization_error_m r = None"
proof (cases "run_sar_simulation F E n_drones n_steps dt")
  case (Some r)
  then obtain ds0 ds s where "sar_loop F E dt 0 n_steps (ds0, \<lparr>victims_detected = 0, sim_collisions = 0, localization_error = None\<rparr>) = Some (ds, s)"
    and r: "res_victims_detected r = victims_detected s" "final_localization_error_m r = localization_error s"
    by (auto simp: run_sar_simulation_def bind_eq_Some_conv case_list_Some)
  with Some show ?thesis using sar_loop_detects_nobody by fastforce
qed simp

section \<open>What a report says\<close>

text \<open>A report without a confirmed victim claims to beat the published localization, with a figure of 1.732 metres.\<close>

lemma empty_report_beats_sota:
  "report_victims_confirmed r = 0 \<Longrightarrow> run_mission_with_report F E c n victims k dt = Some r \<Longrightarrow>
   beats_sota (sota r) \<and> our_localization_m (sota r) = lit (1732/1000)"
  unfolding run_mission_with_report_def Let_def
  by (auto simp: bind_eq_Some_conv mean_error_def compare_sota_def feq_def case_list_Some)

definition separated :: "victim_report list \<Rightarrow> bool" where
  "separated vs \<longleftrightarrow> sorted_wrt (\<lambda>v w. lit 10 < distance_to (report_position v) (report_position w)) vs"

definition numbered :: "victim_report list \<Rightarrow> bool" where
  "numbered vs \<longleftrightarrow> (\<forall>i < length vs. victim_id (vs ! i) = of_nat i \<and> lit (7/10) < rep_fused_confidence (vs ! i) \<and>
     2 \<le> length (rep_contributing_drones (vs ! i)))"

lemma confirm_ok:
  assumes "separated vs" "numbered vs"
  shows "separated (confirm acos victims dets t ps vs) \<and> numbered (confirm acos victims dets t ps vs)"
proof (cases "confirm acos victims dets t ps vs = vs")
  case False
  then obtain f where f: "fuse acos report_fusion dets ps = Some f" "lit (7/10) < fused_confidence f"
      "list_all (\<lambda>v. lit 10 < distance_to (report_position v) (estimated_position f)) vs"
    by (auto simp: confirm_def split: option.splits if_splits)
  have two: "2 \<le> length (contributing_drones f)"
    using f(1) by (auto simp: fuse_def Let_def report_fusion_def split: if_splits prod.splits)
  have len: "\<not> length dets < 2" using False by (auto simp: confirm_def)
  show ?thesis using f two len assms
    by (auto simp: confirm_def separated_def numbered_def sorted_wrt_append list_all_iff nth_append less_Suc_eq simp del: lit_simps)
qed (use assms in simp)

text \<open>One round over good environments returns, keeps the swarm's invariants and the reports in order.\<close>

definition swarm_ok :: "('sc, 'q, 'd) swarm \<Rightarrow> bool" where
  "swarm_ok ds \<longleftrightarrow> list_all orch_ok ds"

definition envs_ok :: "sim_env \<Rightarrow> bool" where
  "envs_ok E \<longleftrightarrow> (\<forall>k i. gen_range_ok (env_scan (sim_step_env E k i)) \<and> gen_range_ok (sim_scan_env E k i) \<and> gen_range_ok (assist_scan_env E k))"

lemma step_all_ok:
  "swarm_ok ds \<Longrightarrow> (\<And>i. gen_range_ok (env_scan (envs i))) \<Longrightarrow> 0 \<le> dt \<Longrightarrow>
   \<exists>ds'. step_all F envs dt i ds = Some ds' \<and> swarm_ok ds' \<and> length ds' = length ds"
proof (induction ds arbitrary: i)
  case (Cons d ds)
  obtain d' s where d: "step F (envs i) dt True d = Some (d', s)" "orch_ok d'"
    using step_ok[of d "envs i" dt F True] Cons.prems by (auto simp: swarm_ok_def)
  obtain ds' where "step_all F envs dt (Suc i) ds = Some ds'" "swarm_ok ds'" "length ds' = length ds"
    using Cons.IH[of "Suc i"] Cons.prems by (auto simp: swarm_ok_def)
  with d show ?case by (simp add: swarm_ok_def)
qed (simp add: swarm_ok_def)

lemma orch_ok_frame:
  "orch_ok d \<Longrightarrow> orch_grid d' = orch_grid d \<Longrightarrow> orch_csi d' = orch_csi d \<Longrightarrow> orch_stats d' = orch_stats d \<Longrightarrow>
   orch_config d' = orch_config d \<Longrightarrow> battery_pct (orch_state d') = battery_pct (orch_state d) \<Longrightarrow> orch_ok d'"
  by (simp add: orch_ok_def covered_def battery_ok_def)

lemma exchange_ok: "swarm_ok ds \<Longrightarrow> swarm_ok (exchange ds) \<and> length (exchange ds) = length ds"
  by (auto simp: swarm_ok_def exchange_def list_all_iff intro!: orch_ok_frame[of _ "hear _ _"] simp: hear_frame)

lemma move_to_ok: "orch_ok d \<Longrightarrow> orch_ok (move_to p d)"
  by (rule orch_ok_frame[of d]) (simp_all add: move_to_def)

lemma scan_total: "gen_range_ok env \<Longrightarrow> orch_ok d \<Longrightarrow> \<exists>r. scan env (orch_csi d) p = Some r"
  using scan_reports_ok[of env "orch_csi d" p] by (auto simp: orch_ok_def)

lemma gather_total: "swarm_ok ds \<Longrightarrow> (\<And>i. gen_range_ok (envs i)) \<Longrightarrow> \<exists>dets. gather envs i ds = Some dets"
proof (induction ds arbitrary: i)
  case (Cons d ds)
  obtain r where "scan (envs i) (orch_csi d) (ds_position (orch_state d)) = Some r"
    using scan_total[of "envs i" d] Cons.prems by (auto simp: swarm_ok_def)
  moreover obtain rest where "gather envs (Suc i) ds = Some rest" using Cons.IH[of "Suc i"] Cons.prems by (auto simp: swarm_ok_def)
  ultimately show ?case by simp
qed simp

lemma nearest_helper_index: "nearest_helper detector anchor ds = Some (i, x) \<Longrightarrow> i < length ds"
proof -
  have one: "nearer detector anchor best e = best \<or> (\<exists>x. nearer detector anchor best e = Some (fst e, x))" for best e
    by (auto simp: nearer_def Let_def split: prod.splits)
  have "foldl (nearer detector anchor) best ids = best \<or> (\<exists>e \<in> set ids. \<exists>x. foldl (nearer detector anchor) best ids = Some (fst e, x))"
    for best :: "(nat \<times> f64) option" and ids :: "(nat \<times> ('a, 'b, 'c) orchestrator) list"
  proof (induction ids arbitrary: best)
    case (Cons e ids)
    let ?b = "nearer detector anchor best e"
    consider "foldl (nearer detector anchor) ?b ids = ?b"
      | e' x where "e' \<in> set ids" "foldl (nearer detector anchor) ?b ids = Some (fst e', x)" using Cons.IH[of ?b] by blast
    then show ?case
    proof cases
      case 1
      then show ?thesis using one[of best e] by auto
    qed auto
  qed simp
  from this[of None "enumerate 0 ds"] show "nearest_helper detector anchor ds = Some (i, x) \<Longrightarrow> i < length ds"
    by (auto simp: nearest_helper_def in_set_enumerate_eq)
qed

lemma assist_total:
  assumes "swarm_ok ds" "gen_range_ok env"
  shows "\<exists>ds' dets'. assist env v dets ds = Some (ds', dets') \<and> swarm_ok ds' \<and> length ds' = length ds"
proof (cases "\<exists>det anchor i x. dets = [det] \<and> victim_position det = Some anchor \<and> nearest_helper (det_drone_id det) anchor ds = Some (i, x)")
  case True
  then obtain det anchor i x where c: "dets = [det]" "victim_position det = Some anchor" "nearest_helper (det_drone_id det) anchor ds = Some (i, x)"
    by blast
  let ?d = "move_to (drawn_to (fmax v (lit 1)) anchor (ds_position (orch_state (ds ! i)))) (ds ! i)"
  have "orch_ok ?d" using assms(1) nearest_helper_index[OF c(3)] by (intro move_to_ok) (simp add: swarm_ok_def list_all_length)
  then obtain r where "scan env (orch_csi ?d) (ds_position (orch_state ?d)) = Some r" using scan_total[OF assms(2)] by blast
  moreover have "swarm_ok (ds[i := ?d])" using assms(1) \<open>orch_ok ?d\<close> by (simp add: swarm_ok_def list_all_put)
  ultimately show ?thesis by (auto simp: assist_def c Let_def)
next
  case False
  then show ?thesis using assms(1) by (auto simp: assist_def split: list.splits option.splits)
qed

lemma separate_ok: "swarm_ok ds \<Longrightarrow> swarm_ok (separate x ds) \<and> length (separate x ds) = length ds"
  by (auto simp: swarm_ok_def separate_def Let_def list_all_iff in_set_enumerate_eq split: prod.splits intro!: move_to_ok)

lemma report_round_ok:
  assumes "swarm_ok ds" "separated vs" "numbered vs" "envs_ok E" "0 \<le> dt"
  shows "\<exists>ds' vs' x'. report_round F E c victims dt k (ds, vs, x) = Some (ds', vs', x') \<and> swarm_ok ds' \<and> length ds' = length ds \<and>
    separated vs' \<and> numbered vs'"
proof -
  obtain ds1 where ds1: "step_all F (sim_step_env E k) dt 0 ds = Some ds1" "swarm_ok ds1" "length ds1 = length ds"
    using step_all_ok[OF assms(1), of "sim_step_env E k" dt F 0] assms(4,5) by (auto simp: envs_ok_def)
  obtain dets where dets: "gather (sim_scan_env E k) 0 (exchange ds1) = Some dets"
    using gather_total[of "exchange ds1" "sim_scan_env E k" 0] exchange_ok[OF ds1(2)] assms(4) by (auto simp: envs_ok_def)
  obtain ds2 dets2 where ds2: "assist (assist_scan_env E k) (max_speed_ms (cfg_planning c)) dets (exchange ds1) = Some (ds2, dets2)"
      "swarm_ok ds2" "length ds2 = length (exchange ds1)"
    using assist_total[of "exchange ds1" "assist_scan_env E k"] exchange_ok[OF ds1(2)] assms(4) unfolding envs_ok_def by blast
  show ?thesis using ds1 dets ds2 exchange_ok[OF ds1(2)] separate_ok[OF ds2(2)] confirm_ok[OF assms(2,3)]
    by (auto simp: report_round_def Let_def)
qed

lemma report_loop_ok:
  assumes "envs_ok E" "0 \<le> dt"
  shows "swarm_ok ds \<Longrightarrow> separated vs \<Longrightarrow> numbered vs \<Longrightarrow>
    \<exists>ds' vs' x'. report_loop F E c victims dt k n (ds, vs, x) = Some (ds', vs', x') \<and> length ds' = length ds \<and> separated vs' \<and> numbered vs'"
proof (induction n arbitrary: k ds vs x)
  case (Suc n)
  obtain ds' vs' x' where r: "report_round F E c victims dt k (ds, vs, x) = Some (ds', vs', x')" "swarm_ok ds'" "length ds' = length ds"
      "separated vs'" "numbered vs'" using report_round_ok[OF Suc.prems assms] by metis
  show ?case using r Suc.IH[OF r(2,4,5), of "Suc k" x'] by (simp del: lit_simps)
qed simp

definition noise_of :: "swarm_config \<Rightarrow> f64" where
  "noise_of c = (case cfg_demo c of Some d \<Rightarrow> csi_noise_std d | None \<Rightarrow> lit (5/100))"

definition noise_ok :: "swarm_config \<Rightarrow> bool" where
  "noise_ok c \<longleftrightarrow> range_sound (- noise_of c) (noise_of c) \<and> range_sound (- noise_of c * lit 5) (noise_of c * lit 5)"

lemma launch_ok:
  assumes "engine_new F forecast_policy_default \<noteq> None" "noise_ok c"
  shows "\<exists>ds. launch F c victims start js = Some ds \<and> swarm_ok ds \<and> length ds = length js"
proof (induction js)
  case (Cons j js)
  obtain r where r: "new_demo F (of_nat j) c (start j) victims = Some r" "noise_sound (orch_csi r)"
    using assms by (auto simp: new_demo_def Let_def new_synthetic_def noise_sound_def noise_ok_def noise_of_def)
  obtain ds where "launch F c victims start js = Some ds" "swarm_ok ds" "length ds = length js" using Cons by blast
  with r new_demo_ok[OF r] show ?case by (simp add: swarm_ok_def)
qed (simp add: swarm_ok_def)

text \<open>
  C20. A mission with at least one drone, of a configuration with a proper noise (a positive spread whose range of draws is finite), with steps of a
  non-negative length, draws within their ranges, a forecast engine that can be built and a swarm that fits in one allocation, returns
  its report: over any number of rounds nothing panics, no loop of it runs on, and the report is consistent. The victims it lists are numbered in order, each fused from at least two detections with a
  confidence above 0.7, pairwise more than ten metres apart, and the counts and the rate are those of the list.
\<close>
theorem mission_returns_its_report:
  assumes "0 < n" "envs_ok E" "0 \<le> dt" "engine_new F forecast_policy_default \<noteq> None" "noise_ok c"
    "orchestrator_bytes E * n \<le> 2 ^ 63 - 1"
  shows "\<exists>rep. run_mission_with_report F E c n victims k dt = Some rep \<and> report_victims_confirmed rep = length (report_victims rep) \<and>
    victims_total rep = length victims \<and> report_detection_rate rep = detection_rate rep \<and>
    numbered (report_victims rep) \<and> separated (report_victims rep)"
proof -
  obtain ds0 where ds0: "launch_all F E c victims (report_start c n) n = Some ds0" "swarm_ok ds0" "length ds0 = n"
    using launch_ok[OF assms(4,5), of victims "report_start c n" "[0..<n]"] assms(6) by (auto simp: launch_all_def)
  have "separated []" "numbered []" by (simp_all add: separated_def numbered_def)
  then obtain ds vs x where l: "report_loop F E c victims dt 0 k (ds0, [], 0) = Some (ds, vs, x)" "length ds = n" "separated vs" "numbered vs"
    using report_loop_ok[OF assms(2,3) ds0(2)] ds0(3) by metis
  obtain d ds' where "ds = d # ds'" using l(2) assms(1) by (cases ds) auto
  with ds0 l show ?thesis by (simp add: run_mission_with_report_def Let_def detection_rate_def)
qed

theorem mission_returns_its_report_witness:
  "\<exists>rep. run_mission_with_report demo_forecaster
      \<lparr>sim_step_env = (\<lambda>_ _. demo_step_env), sim_scan_env = (\<lambda>_ _. demo_env), assist_scan_env = (\<lambda>_. demo_env), sim_acos = (\<lambda>_. 0), orchestrator_bytes = 2048\<rparr>
      demo_mission 2 [position_zero] 3 (lit 1) = Some rep \<and> victims_total rep = 1"
proof -
  let ?E = "\<lparr>sim_step_env = (\<lambda>_ _. demo_step_env), sim_scan_env = (\<lambda>_ _. demo_env), assist_scan_env = (\<lambda>_. demo_env), sim_acos = (\<lambda>_. 0), orchestrator_bytes = 2048\<rparr>"
  have "envs_ok ?E" using demo_env_ok by (simp add: envs_ok_def demo_step_env_def)
  moreover have "noise_ok demo_mission"
    by (simp add: noise_ok_def noise_of_def demo_mission_def range_sound_def representable_fraction Fin_mult mk_def Fin_sub)
  ultimately show ?thesis
    using mission_returns_its_report[of 2 ?E "lit 1" demo_forecaster demo_mission "[position_zero]" 3] demo_engine_default by auto
qed

end
