(* ===== verification/Rrt.thy ===== *)
theory Rrt
  imports Types
begin

text \<open>
  The path planner of \<open>src/planning/rrt_apf.rs\<close>: a random tree grown from the start, pushed away from obstacles, and the path traced
  back through the parents. The generator is a parameter: a function from its state to a draw and the next state. The trace is a
  \<open>partial_function\<close>; not returning and an index out of bounds are \<open>None\<close>.
\<close>

section \<open>The planner\<close>

record waypoint =
  wp_position :: position3d
  speed_ms :: f64

record rrt_planner =
  obstacle_cells :: "position3d list"
  apf_repulsion_dist :: f64
  step_size_m :: f64

definition rrt_new :: "f64 \<Rightarrow> rrt_planner" where
  "rrt_new d = \<lparr>obstacle_cells = [], apf_repulsion_dist = d, step_size_m = lit 2\<rparr>"

definition apf_term :: "f64 \<Rightarrow> position3d \<Rightarrow> f64 \<times> f64 \<times> f64 \<Rightarrow> position3d \<Rightarrow> f64 \<times> f64 \<times> f64" where
  "apf_term reach p = (\<lambda>(fx, fy, fz) obs.
    let d = distance_to p obs in
    if d < reach \<and> lit (1 / 1000000) < d
    then let s = (reach - d) / (d * d)
      in (fx + s * (px p - px obs), fy + s * (py p - py obs), fz + s * (pz p - pz obs))
    else (fx, fy, fz))"

definition apf_force :: "rrt_planner \<Rightarrow> position3d \<Rightarrow> position3d list \<Rightarrow> f64 \<times> f64 \<times> f64" where
  "apf_force pl p neighbors = foldl (apf_term (apf_repulsion_dist pl) p) (0, 0, 0) (obstacle_cells pl @ neighbors)"

type_synonym rrt_tree = "(position3d \<times> nat) list"

text \<open>A sample: the goal for a draw below a tenth, else a point of the square of 200 metres around the start.\<close>

definition rrt_sample :: "('r \<Rightarrow> f64 \<times> 'r) \<Rightarrow> position3d \<Rightarrow> position3d \<Rightarrow> 'r \<Rightarrow> position3d \<times> 'r" where
  "rrt_sample gen start goal r =
    (let (u, r1) = gen r in
     if u < lit (1 / 10) then (goal, r1)
     else let (a, r2) = gen r1; (b, r3) = gen r2
       in (\<lparr>px = px start + (a - lit (1/2)) * lit 200, py = py start + (b - lit (1/2)) * lit 200, pz = pz start\<rparr>, r3))"

definition nearest_node :: "rrt_tree \<Rightarrow> position3d \<Rightarrow> position3d \<Rightarrow> nat \<times> position3d" where
  "nearest_node tree start sample =
    (case min_by (\<lambda>(_, a, _) (_, b, _). partial_cmp_or_equal (distance_to a sample) (distance_to b sample)) (enumerate 0 tree) of
       Some (i, p, _) \<Rightarrow> (i, p) | None \<Rightarrow> (0, start))"

text \<open>One step of \<open>step_size_m\<close> towards the sample, and three tenths of the repulsion at its end.\<close>

definition steer :: "rrt_planner \<Rightarrow> position3d \<Rightarrow> position3d \<Rightarrow> position3d" where
  "steer pl p sample =
    (let scale = step_size_m pl / distance_to p sample;
         q = \<lparr>px = px p + (px sample - px p) * scale, py = py p + (py sample - py p) * scale, pz = pz p + (pz sample - pz p) * scale\<rparr>;
         (fx, fy, fz) = apf_force pl q []; k = lit (3 / 10)
     in \<lparr>px = px q + fx * k, py = py q + fy * k, pz = pz q + fz * k\<rparr>)"

definition waypoint_at :: "f64 \<Rightarrow> position3d \<Rightarrow> waypoint" where
  "waypoint_at v p = \<lparr>wp_position = p, speed_ms = v\<rparr>"

text \<open>The trace from a node to the root, the node first.\<close>

partial_function (option) trace_back :: "rrt_tree \<Rightarrow> nat \<Rightarrow> position3d list option" where
  "trace_back tree i =
    (if i = 0 then Some []
     else if length tree \<le> i then None
     else Option.bind (trace_back tree (snd (tree ! i))) (\<lambda>ps. Some (fst (tree ! i) # ps)))"

definition traced_path :: "rrt_tree \<Rightarrow> position3d \<Rightarrow> position3d \<Rightarrow> waypoint list option" where
  "traced_path tree start goal =
    map_option (\<lambda>ps. rev (map (waypoint_at (lit 5)) ps @ [waypoint_at (lit 5) start]) @ [waypoint_at (lit 2) goal])
      (trace_back tree (length tree - 1))"

fun plan_loop ::
  "rrt_planner \<Rightarrow> ('r \<Rightarrow> f64 \<times> 'r) \<Rightarrow> position3d \<Rightarrow> position3d \<Rightarrow> nat \<Rightarrow> rrt_tree \<Rightarrow> 'r \<Rightarrow> waypoint list option" where
  "plan_loop pl gen start goal 0 tree r = Some [waypoint_at (lit 5) start, waypoint_at (lit 5) goal]"
| "plan_loop pl gen start goal (Suc n) tree r =
    (let (sample, r') = rrt_sample gen start goal r; (i, p) = nearest_node tree start sample in
     if distance_to p sample < lit (1 / 1000000000) then plan_loop pl gen start goal n tree r'
     else let q = steer pl p sample; tree' = tree @ [(q, i)] in
       if distance_to q goal \<le> step_size_m pl * lit (3/2) then traced_path tree' start goal
       else plan_loop pl gen start goal n tree' r')"

definition plan :: "rrt_planner \<Rightarrow> position3d \<Rightarrow> position3d \<Rightarrow> nat \<Rightarrow> ('r \<Rightarrow> f64 \<times> 'r) \<Rightarrow> 'r \<Rightarrow> waypoint list option" where
  "plan pl start goal max_iter gen r = plan_loop pl gen start goal max_iter [(start, 0)] r"



section \<open>The tree\<close>

text \<open>
  A tree is well formed when its root is the start and every other node was steered from an earlier one. Parents lie before their
  children, so a trace returns; the path it gives runs along the edges.
\<close>

definition edge :: "rrt_planner \<Rightarrow> position3d \<Rightarrow> position3d \<Rightarrow> bool" where
  "edge pl p q \<longleftrightarrow> (\<exists>sample. q = steer pl p sample)"

definition tree_ok :: "rrt_planner \<Rightarrow> position3d \<Rightarrow> rrt_tree \<Rightarrow> bool" where
  "tree_ok pl start tree \<longleftrightarrow> tree \<noteq> [] \<and> fst (tree ! 0) = start \<and>
     (\<forall>i < length tree. 0 < i \<longrightarrow> snd (tree ! i) < i \<and> edge pl (fst (tree ! snd (tree ! i))) (fst (tree ! i)))"

lemma tree_ok_root: "tree_ok pl start [(start, 0)]"
  by (simp add: tree_ok_def)

lemma tree_ok_extend:
  "tree_ok pl start tree \<Longrightarrow> i < length tree \<Longrightarrow> tree_ok pl start (tree @ [(steer pl (fst (tree ! i)) sample, i)])"
  by (auto simp: tree_ok_def nth_append less_Suc_eq edge_def)

lemma nearest_node_index:
  "tree_ok pl start tree \<Longrightarrow> nearest_node tree start sample = (i, p) \<Longrightarrow> i < length tree \<and> p = fst (tree ! i)"
  by (auto simp: nearest_node_def tree_ok_def enumerate_eq_zip in_set_zip dest!: min_by_mem split: option.splits)

text \<open>The trace of a well-formed tree, from the root on, is a path of edges that ends in the node.\<close>

lemma trace_back_returns:
  assumes "tree_ok pl start tree" "i < length tree"
  obtains ps where "trace_back tree i = Some ps" "successively (edge pl) (start # rev ps)" "last (start # rev ps) = fst (tree ! i)"
  using assms(2)
proof (induction i arbitrary: thesis rule: less_induct)
  case (less i)
  show ?case
  proof (cases "i = 0")
    case True
    then show ?thesis using assms(1) less.prems(1)[of "[]"] by (simp add: trace_back.simps tree_ok_def)
  next
    case False
    let ?j = "snd (tree ! i)"
    have j: "?j < i" "edge pl (fst (tree ! ?j)) (fst (tree ! i))" using assms(1) less.prems(2) False by (auto simp: tree_ok_def)
    moreover have "?j < length tree" using j(1) less.prems(2) by simp
    ultimately obtain ps where ps: "trace_back tree ?j = Some ps" "successively (edge pl) (start # rev ps)"
        "last (start # rev ps) = fst (tree ! ?j)" using less.IH by blast
    have "successively (edge pl) ((start # rev ps) @ [fst (tree ! i)])"
      unfolding successively_append_iff using ps(2,3) j(2) by simp
    then show ?thesis using False less.prems ps(1) by (simp add: trace_back.simps[of tree i])
  qed
qed

section \<open>The plan\<close>

text \<open>
  A plan is the direct line, or a path of steered edges from the start to a last point within one and a half steps of the goal,
  at cruise speed, with a slow approach of the goal at its end.
\<close>

definition planned :: "rrt_planner \<Rightarrow> position3d \<Rightarrow> position3d \<Rightarrow> waypoint list \<Rightarrow> bool" where
  "planned pl start goal path \<longleftrightarrow>
     path = [waypoint_at (lit 5) start, waypoint_at (lit 5) goal] \<or>
     (\<exists>ps. ps \<noteq> [] \<and> path = map (waypoint_at (lit 5)) (start # ps) @ [waypoint_at (lit 2) goal] \<and>
        successively (edge pl) (start # ps) \<and> distance_to (last ps) goal \<le> step_size_m pl * lit (3/2))"

lemma trace_back_nonempty: "i \<noteq> 0 \<Longrightarrow> trace_back tree i \<noteq> Some []"
  by (subst trace_back.simps) (simp add: bind_eq_Some_conv)

lemma traced_path_planned:
  assumes "tree_ok pl start tree" "1 < length tree" "distance_to (fst (last tree)) goal \<le> step_size_m pl * lit (3/2)"
  shows "\<exists>path. traced_path tree start goal = Some path \<and> planned pl start goal path"
proof -
  have ne: "tree \<noteq> []" and i: "length tree - 1 < length tree" "length tree - 1 \<noteq> 0" using assms(2) by auto
  obtain ps where ps: "trace_back tree (length tree - 1) = Some ps" "successively (edge pl) (start # rev ps)"
      "last (start # rev ps) = fst (tree ! (length tree - 1))"
    using trace_back_returns[OF assms(1) i(1)] .
  have "ps \<noteq> []" using ps(1) i(2) trace_back_nonempty by blast
  then show ?thesis using ps assms(3) last_conv_nth[OF ne]
    by (auto simp: traced_path_def planned_def rev_map intro!: exI[of _ "rev ps"])
qed

lemma plan_loop_planned: "tree_ok pl start tree \<Longrightarrow> \<exists>path. plan_loop pl gen start goal n tree r = Some path \<and> planned pl start goal path"
proof (induction n arbitrary: tree r)
  case (Suc n)
  obtain sample r' where s: "rrt_sample gen start goal r = (sample, r')" by fastforce
  obtain i p where n: "nearest_node tree start sample = (i, p)" by fastforce
  have i: "i < length tree" "p = fst (tree ! i)" using nearest_node_index[OF Suc.prems n] by simp_all
  have t: "tree_ok pl start (tree @ [(steer pl p sample, i)])" using tree_ok_extend[OF Suc.prems i(1)] i(2) by simp
  have l: "1 < length (tree @ [(steer pl p sample, i)])" using i(1) by auto
  show ?case using Suc.IH[OF Suc.prems] Suc.IH[OF t] traced_path_planned[OF t l, of goal] by (simp add: s n Let_def)
qed (simp add: planned_def)

text \<open>
  C26. Planning always returns, whatever the generator draws, the obstacles are and the positions hold: the trace through the parents ends
  and no index is out of bounds; and what it returns is the direct line or a connected path along the tree to the goal.
\<close>
theorem plan_returns_a_path: "\<exists>path. plan pl start goal max_iter gen r = Some path \<and> planned pl start goal path"
  unfolding plan_def by (rule plan_loop_planned, rule tree_ok_root)

text \<open>A coincident or distant obstacle does not push; without obstacles a step is not corrected at all.\<close>

lemma apf_force_outside:
  "\<forall>obs \<in> set (obstacle_cells pl @ ns). \<not> (distance_to p obs < apf_repulsion_dist pl \<and> lit (1 / 1000000) < distance_to p obs) \<Longrightarrow>
   apf_force pl p ns = (0, 0, 0)"
proof -
  have "foldl (apf_term reach p) (0, 0, 0) obs = (0, 0, 0)" if "\<forall>o' \<in> set obs. \<not> (distance_to p o' < reach \<and> lit (1 / 1000000) < distance_to p o')"
    for reach and obs :: "position3d list" using that by (induction obs) (auto simp: apf_term_def Let_def)
  then show "\<forall>obs \<in> set (obstacle_cells pl @ ns). \<not> (distance_to p obs < apf_repulsion_dist pl \<and> lit (1 / 1000000) < distance_to p obs) \<Longrightarrow>
   apf_force pl p ns = (0, 0, 0)" by (simp add: apf_force_def)
qed

text \<open>The planner asks no obstacle whether it lies in the way: the fallback is the straight line, through obstacles and all.\<close>

lemma exhausted_plan_ignores_obstacles:
  "plan pl start goal 0 gen r = Some [waypoint_at (lit 5) start, waypoint_at (lit 5) goal]"
  by (simp add: plan_def)

end
