(* ===== verification/Patterns.thy ===== *)
theory Patterns
  imports Sensing
begin

text \<open>
  The flight patterns of \<open>src/planning/patterns.rs\<close>: where a drone flies next. The trigonometry of the standard library is a
  parameter; \<open>clamp\<close> with unordered bounds and the remainder by a product that wrapped to zero are panics (\<open>None\<close>).
\<close>

section \<open>The patterns and their names\<close>

datatype flight_pattern = Boustrophedon | PartitionedLawnmower | Spiral | Pheromone | PotentialField | LevyFlight

definition flight_default :: flight_pattern where
  "flight_default = PartitionedLawnmower"

text \<open>Lowering the ASCII letters decides the match: no other character is lowered to a letter of a pattern name.\<close>

definition lower_char :: "char \<Rightarrow> char" where
  "lower_char c = (let n = (of_char c :: nat) in if 65 \<le> n \<and> n \<le> 90 then char_of (n + 32) else c)"

definition lowercase :: "string \<Rightarrow> string" where
  "lowercase = map lower_char"

definition flight_from_str :: "string \<Rightarrow> flight_pattern" where
  "flight_from_str s = (let l = lowercase s in
    if l = ''boustrophedon'' \<or> l = ''lawnmower'' then Boustrophedon
    else if l = ''partitioned'' \<or> l = ''partitioned_lawnmower'' then PartitionedLawnmower
    else if l = ''spiral'' then Spiral
    else if l = ''pheromone'' \<or> l = ''stigmergic'' then Pheromone
    else if l = ''potential'' \<or> l = ''potential_field'' then PotentialField
    else if l = ''levy'' \<or> l = ''levyflight'' \<or> l = ''levy_flight'' then LevyFlight
    else flight_default)"

fun flight_name :: "flight_pattern \<Rightarrow> string" where
  "flight_name Boustrophedon = ''boustrophedon''"
| "flight_name PartitionedLawnmower = ''partitioned_lawnmower''"
| "flight_name Spiral = ''spiral''"
| "flight_name Pheromone = ''pheromone''"
| "flight_name PotentialField = ''potential_field''"
| "flight_name LevyFlight = ''levy_flight''"

definition flight_all :: "flight_pattern list" where
  "flight_all = [Boustrophedon, PartitionedLawnmower, Spiral, Pheromone, PotentialField, LevyFlight]"

section \<open>The context of a step\<close>

record math_env =
  m_cos :: "f64 \<Rightarrow> f64"
  m_sin :: "f64 \<Rightarrow> f64"
  m_hypot :: "f64 \<Rightarrow> f64 \<Rightarrow> f64"
  m_powf :: "f64 \<Rightarrow> f64 \<Rightarrow> f64"

record pattern_context =
  ctx_drone_id :: node_id
  swarm_size :: nat
  ctx_current :: position3d
  area_w :: f64
  area_h :: f64
  altitude_z :: f64
  scan_width_m :: f64
  ctx_step :: u64
  visited :: "position3d list"
  ctx_peers :: "position3d list"

definition clamp_to_area :: "f64 \<Rightarrow> f64 \<Rightarrow> pattern_context \<Rightarrow> position3d option" where
  "clamp_to_area x y c =
    Option.bind (fclamp x 0 (area_w c)) (\<lambda>x'.
      map_option (\<lambda>y'. \<lparr>px = x', py = y', pz = altitude_z c\<rparr>) (fclamp y 0 (area_h c)))"

section \<open>The lawnmowers\<close>

definition lawn_count :: "f64 \<Rightarrow> f64 \<Rightarrow> u64" where
  "lawn_count extent w = max (as_unsigned (fceil (fmax extent w / w))) 1"

text \<open>The cell of a step in a serpentine of \<open>cols\<close> columns: its row, and its column counted from the left.\<close>

definition lawn_cell :: "u64 \<Rightarrow> u64 \<Rightarrow> u64 \<times> u64" where
  "lawn_cell cols s = (let row = s div cols; col = s mod cols in (row, if row mod 2 = 0 then col else cols - 1 - col))"

definition serpentine_in_region :: "f64 \<Rightarrow> f64 \<Rightarrow> f64 \<Rightarrow> f64 \<Rightarrow> f64 \<Rightarrow> u64 \<Rightarrow> (f64 \<times> f64) option" where
  "serpentine_in_region x0 x1 y0 y1 w k =
    (let cols = lawn_count (x1 - x0) w; rows = lawn_count (y1 - y0) w; n = cols * rows
     in if n = 0 then None
        else let (row, along) = lawn_cell cols (k mod n)
             in Some (fmin (x0 + (of_unsigned along + lit (1/2)) * w) x1, fmin (y0 + (of_unsigned row + lit (1/2)) * w) y1))"

definition boustrophedon :: "pattern_context \<Rightarrow> position3d option" where
  "boustrophedon c = Option.bind (serpentine_in_region 0 (area_w c) 0 (area_h c) (scan_width_m c) (ctx_step c)) (\<lambda>(x, y). clamp_to_area x y c)"

text \<open>The strip of a drone: \<open>area_w\<close> is split evenly, and the identifier picks the strip.\<close>

definition strip :: "pattern_context \<Rightarrow> f64 \<times> f64" where
  "strip c = (let n = max (swarm_size c) 1; i = unat (ctx_drone_id c) mod n; w = area_w c / rnd (of_nat n); x0 = rnd (of_nat i) * w in (x0, x0 + w))"

definition partitioned_lawnmower :: "pattern_context \<Rightarrow> position3d option" where
  "partitioned_lawnmower c = (let (x0, x1) = strip c in
     Option.bind (serpentine_in_region x0 x1 0 (area_h c) (scan_width_m c) (ctx_step c)) (\<lambda>(x, y). clamp_to_area x y c))"

section \<open>The other patterns\<close>

definition spiral :: "math_env \<Rightarrow> pattern_context \<Rightarrow> position3d option" where
  "spiral M c =
    (let cx = area_w c / lit 2; cy = area_h c / lit 2; theta = of_unsigned (ctx_step c) * lit (6/10);
         b = scan_width_m c / (lit 2 * pi_f64); r = b * theta
     in clamp_to_area (cx + r * m_cos M theta) (cy + r * m_sin M theta) c)"

text \<open>Stigmergy: of eight headings the one with the least pressure of visited cells, the first of several.\<close>

definition visit_pressure :: "math_env \<Rightarrow> position3d list \<Rightarrow> f64 \<Rightarrow> f64 \<Rightarrow> f64" where
  "visit_pressure M vs x y = foldl (\<lambda>acc v. acc + lit 1 / (lit 1 + m_hypot M (x - px v) (y - py v))) 0 vs"

definition try_heading :: "math_env \<Rightarrow> pattern_context \<Rightarrow> (f64 \<times> f64 \<times> f64) option \<Rightarrow> nat \<Rightarrow> (f64 \<times> f64 \<times> f64) option option" where
  "try_heading M c best k =
    (let len = fmax (scan_width_m c) (lit 1); base = of_unsigned (ctx_drone_id c) * (pi_f64 / lit 3);
         theta = base + rnd (of_nat k) * (lit 2 * pi_f64 / lit 8)
     in Option.bind (fclamp (px (ctx_current c) + len * m_cos M theta) 0 (area_w c)) (\<lambda>x.
        Option.bind (fclamp (py (ctx_current c) + len * m_sin M theta) 0 (area_h c)) (\<lambda>y.
          let v = visit_pressure M (visited c) x y
          in Some (if (case best of None \<Rightarrow> True | Some (b, _) \<Rightarrow> v < b) then Some (v, x, y) else best))))"

definition pheromone :: "math_env \<Rightarrow> pattern_context \<Rightarrow> position3d option" where
  "pheromone M c =
    Option.bind (prun (try_heading M c) None [0..<8]) (\<lambda>best.
      let (x, y) = (case best of Some (_, x, y) \<Rightarrow> (x, y) | None \<Rightarrow> (px (ctx_current c), py (ctx_current c)))
      in clamp_to_area x y c)"

text \<open>The potential field: repulsion from visited cells and peers, attraction to the most open of 36 sample points.\<close>

definition repel :: "f64 \<Rightarrow> position3d \<Rightarrow> f64 \<times> f64 \<Rightarrow> position3d \<Rightarrow> f64 \<times> f64" where
  "repel gain p = (\<lambda>(fx, fy) v.
    let dx = px p - px v; dy = py p - py v; d2 = dx * dx + dy * dy + lit 1; mag = gain / d2
    in (fx + dx / fsqrt d2 * mag, fy + dy / fsqrt d2 * mag))"

definition openness :: "math_env \<Rightarrow> pattern_context \<Rightarrow> f64 \<Rightarrow> f64 \<Rightarrow> f64" where
  "openness M c x y =
    (let nearest = foldl (\<lambda>near v. let d = m_hypot M (x - px v) (y - py v) in if d < near then d else near) PInf (visited c)
     in if is_finite nearest then nearest else m_hypot M (x - px (ctx_current c)) (y - py (ctx_current c)))"

definition sample_points :: "pattern_context \<Rightarrow> (f64 \<times> f64) list" where
  "sample_points c = map (\<lambda>(i, j). (area_w c * rnd (of_nat i) / lit 5, area_h c * rnd (of_nat j) / lit 5)) (List.product [0..<6] [0..<6])"

definition more_open :: "math_env \<Rightarrow> pattern_context \<Rightarrow> (f64 \<times> f64 \<times> f64) option \<Rightarrow> f64 \<times> f64 \<Rightarrow> (f64 \<times> f64 \<times> f64) option" where
  "more_open M c best = (\<lambda>(x, y). let v = openness M c x y in
    if (case best of None \<Rightarrow> True | Some (b, _) \<Rightarrow> b < v) then Some (v, x, y) else best)"

definition attract :: "position3d \<Rightarrow> (f64 \<times> f64 \<times> f64) option \<Rightarrow> f64 \<times> f64 \<Rightarrow> f64 \<times> f64" where
  "attract p frontier = (\<lambda>(fx, fy). case frontier of None \<Rightarrow> (fx, fy)
    | Some (_, gx, gy) \<Rightarrow>
        let dx = gx - px p; dy = gy - py p; d = fmax (fsqrt (dx * dx + dy * dy)) (lit (1 / 1000000))
        in (fx + dx / d * lit (3/2), fy + dy / d * lit (3/2)))"

definition potential_field :: "math_env \<Rightarrow> pattern_context \<Rightarrow> position3d option" where
  "potential_field M c =
    (let p = ctx_current c;
         trail = foldl (repel (lit 1) p) (0, 0) (visited c);
         spread = foldl (repel (lit 2) p) trail (ctx_peers c);
         (fx, fy) = attract p (foldl (more_open M c) None (sample_points c)) spread;
         mag = fsqrt (fx * fx + fy * fy); len = fmax (scan_width_m c) (lit 1);
         (x, y) = (if lit (1 / 1000000000) < mag then (px p + fx / mag * len, py p + fy / mag * len) else (px p, py p))
     in clamp_to_area x y c)"

definition lcg :: "u64 \<Rightarrow> u64" where
  "lcg state = state * 6364136223846793005 + 1442695040888963407"

text \<open>The upper 53 bits as a fraction of one.\<close>

definition unit_of :: "u64 \<Rightarrow> f64" where
  "unit_of r = of_unsigned (drop_bit 11 r) / of_unsigned (push_bit 53 1 :: u64)"

definition levy_seed :: "pattern_context \<Rightarrow> u64" where
  "levy_seed c = ucast (ctx_drone_id c) * 0x9E3779B97F4A7C15 + ctx_step c * 0x2545F4914F6CDD1D"

definition levy_flight :: "math_env \<Rightarrow> pattern_context \<Rightarrow> position3d option" where
  "levy_flight M c =
    (let r1 = lcg (levy_seed c); r2 = lcg r1; u_angle = unit_of r1; u_len = fmax (unit_of r2) (lit (1 / 1000000));
         theta = u_angle * lit 2 * pi_f64;
         heavy = fmax (scan_width_m c) (lit 1) * m_powf M u_len (- lit 1 / lit (3/2));
         max_jump = fsqrt (area_w c * area_w c + area_h c * area_h c);
         len = fmin heavy max_jump
     in clamp_to_area (px (ctx_current c) + len * m_cos M theta) (py (ctx_current c) + len * m_sin M theta) c)"

fun pattern_target :: "math_env \<Rightarrow> flight_pattern \<Rightarrow> pattern_context \<Rightarrow> position3d option" where
  "pattern_target M Boustrophedon c = boustrophedon c"
| "pattern_target M PartitionedLawnmower c = partitioned_lawnmower c"
| "pattern_target M Spiral c = spiral M c"
| "pattern_target M Pheromone c = pheromone M c"
| "pattern_target M PotentialField c = potential_field M c"
| "pattern_target M LevyFlight c = levy_flight M c"

section \<open>Names\<close>

lemma flight_names: "flight_from_str (flight_name p) = p"
  by (cases p; hypsubst; code_simp)

lemma flight_all_complete: "p \<in> set flight_all" "distinct flight_all"
  by (cases p) (simp_all add: flight_all_def)

section \<open>Every waypoint lies in the area\<close>

definition inside :: "f64 \<Rightarrow> f64 \<Rightarrow> bool" where
  "inside extent x \<longleftrightarrow> is_nan x \<or> 0 \<le> x \<and> x \<le> extent"

definition area_panics :: "pattern_context \<Rightarrow> bool" where
  "area_panics c \<longleftrightarrow> \<not> (0 \<le> area_w c \<and> 0 \<le> area_h c)"

text \<open>The number of cells of a lawnmower cycle, a product of 64 bits: when it wraps to zero the remainder panics.\<close>

fun cycle_wraps :: "flight_pattern \<Rightarrow> pattern_context \<Rightarrow> bool" where
  "cycle_wraps Boustrophedon c = (lawn_count (area_w c - 0) (scan_width_m c) * lawn_count (area_h c - 0) (scan_width_m c) = 0)"
| "cycle_wraps PartitionedLawnmower c =
    (lawn_count (snd (strip c) - fst (strip c)) (scan_width_m c) * lawn_count (area_h c - 0) (scan_width_m c) = 0)"
| "cycle_wraps _ c = False"

lemma fclamp_inside: "fclamp x 0 hi = Some y \<longleftrightarrow> 0 \<le> hi \<and> y = clamp_lit 0 hi x"
  by (auto simp: fclamp_def clamp_lit_def)

lemma clamp_inside: "0 \<le> hi \<Longrightarrow> inside hi (clamp_lit 0 hi x)"
  using clamp_lit_range[of 0 hi x] by (auto simp: inside_def)

lemma clamp_to_area_ok:
  "case clamp_to_area x y c of None \<Rightarrow> area_panics c
   | Some q \<Rightarrow> \<not> area_panics c \<and> inside (area_w c) (px q) \<and> inside (area_h c) (py q) \<and> pz q = altitude_z c"
  by (auto simp: clamp_to_area_def fclamp_def area_panics_def clamp_inside[unfolded clamp_lit_def] split: option.splits)

lemma clamp_to_area_Some: "\<not> area_panics c \<Longrightarrow>
  clamp_to_area x y c = Some \<lparr>px = clamp_lit 0 (area_w c) x, py = clamp_lit 0 (area_h c) y, pz = altitude_z c\<rparr>"
  by (simp add: clamp_to_area_def area_panics_def fclamp_clamp_lit)

lemma serpentine_None: "serpentine_in_region x0 x1 y0 y1 w k = None \<longleftrightarrow> lawn_count (x1 - x0) w * lawn_count (y1 - y0) w = 0"
  by (simp add: serpentine_in_region_def Let_def split: prod.splits)

lemma headings_ok: "\<not> area_panics c \<Longrightarrow> \<exists>best'. prun (try_heading M c) best ks = Some best'"
  by (induction ks arbitrary: best) (auto simp: try_heading_def Let_def fclamp_clamp_lit area_panics_def)

lemma headings_panic: "area_panics c \<Longrightarrow> prun (try_heading M c) best (k # ks) = None"
  by (auto simp: try_heading_def Let_def fclamp_def area_panics_def)

lemma pheromone_ok:
  "case pheromone M c of None \<Rightarrow> area_panics c
   | Some q \<Rightarrow> \<not> area_panics c \<and> inside (area_w c) (px q) \<and> inside (area_h c) (py q) \<and> pz q = altitude_z c"
proof (cases "area_panics c")
  case True
  then have "prun (try_heading M c) None [0..<8] = None" by (simp only: upt_conv_Cons headings_panic zero_less_numeral)
  with True show ?thesis by (simp add: pheromone_def)
next
  case False
  then obtain best where "prun (try_heading M c) None [0..<8] = Some best" using headings_ok by blast
  then show ?thesis using clamp_to_area_ok[where c = c] by (simp add: pheromone_def split: prod.splits)
qed

lemma lawn_ok:
  "case Option.bind serp (\<lambda>(x, y). clamp_to_area x y c) of None \<Rightarrow> area_panics c \<or> serp = None
   | Some q \<Rightarrow> \<not> (area_panics c \<or> serp = None) \<and> inside (area_w c) (px q) \<and> inside (area_h c) (py q) \<and> pz q = altitude_z c"
proof (cases serp)
  case (Some xy)
  then show ?thesis using clamp_to_area_ok[where x = "fst xy" and y = "snd xy" and c = c] by (simp add: case_prod_beta split: option.splits)
qed simp

lemma pattern_target_spec:
  "case pattern_target M p c of
     None \<Rightarrow> area_panics c \<or> cycle_wraps p c
   | Some q \<Rightarrow> \<not> (area_panics c \<or> cycle_wraps p c) \<and>
       inside (area_w c) (px q) \<and> inside (area_h c) (py q) \<and> pz q = altitude_z c"
proof (cases p)
  case Boustrophedon
  have e: "cycle_wraps Boustrophedon c \<longleftrightarrow> serpentine_in_region 0 (area_w c) 0 (area_h c) (scan_width_m c) (ctx_step c) = None"
    by (simp add: serpentine_None)
  show ?thesis unfolding Boustrophedon pattern_target.simps e boustrophedon_def by (rule lawn_ok)
next
  case PartitionedLawnmower
  have e: "cycle_wraps PartitionedLawnmower c \<longleftrightarrow>
      serpentine_in_region (fst (strip c)) (snd (strip c)) 0 (area_h c) (scan_width_m c) (ctx_step c) = None"
    by (simp add: serpentine_None)
  show ?thesis unfolding PartitionedLawnmower pattern_target.simps e partitioned_lawnmower_def case_prod_beta[of _ "strip c"] Let_def
    by (rule lawn_ok)
next
  case Pheromone
  show ?thesis unfolding Pheromone pattern_target.simps cycle_wraps.simps simp_thms by (rule pheromone_ok)
next
  case Spiral
  show ?thesis unfolding Spiral pattern_target.simps cycle_wraps.simps simp_thms spiral_def Let_def by (rule clamp_to_area_ok)
next
  case PotentialField
  show ?thesis unfolding PotentialField pattern_target.simps cycle_wraps.simps simp_thms potential_field_def Let_def case_prod_beta
    by (rule clamp_to_area_ok)
next
  case LevyFlight
  show ?thesis unfolding LevyFlight pattern_target.simps cycle_wraps.simps simp_thms levy_flight_def Let_def by (rule clamp_to_area_ok)
qed

text \<open>
  C24. Every pattern's waypoint lies in the mission area at the flight altitude, or one of its coordinates is not a number; a panic has
  exactly two causes, an area whose sides are not non-negative numbers and a lawnmower cycle whose length wraps to zero.
\<close>
theorem waypoints_stay_in_the_area:
  "case pattern_target M p c of
     None \<Rightarrow> area_panics c \<or> cycle_wraps p c
   | Some q \<Rightarrow> \<not> (area_panics c \<or> cycle_wraps p c) \<and>
       inside (area_w c) (px q) \<and> inside (area_h c) (py q) \<and> pz q = altitude_z c"
  by (rule pattern_target_spec)

section \<open>A partitioned drone keeps to its strip\<close>

lemma rnd_power: "k < 970 \<Longrightarrow> (rnd (2 ^ k) :: f64) = Fin (2 ^ k)"
  by (rule rnd_exact, unfold representable_def, rule exI[of _ 1], rule exI[of _ "int k"]) (simp add: power_int_def)

lemma half_up_positive: obtains q where "(of_unsigned (a :: u64) + lit (1/2) :: f64) = Fin q" "0 < q"
proof -
  have u: "(0 :: rat) \<le> of_int (uint a)" "(of_int (uint a) :: rat) \<le> of_int (2 ^ 64)"
    using uint_lt2p[of a] by (simp_all only: of_int_le_iff of_int_0_le_iff) simp_all
  then have "(0 :: f64) \<le> of_unsigned a" "(of_unsigned a :: f64) \<le> Fin (2 ^ 64)"
    using rnd_mono[OF u(2), where 'a = 64] rnd_power[of 64] by (simp_all add: of_unsigned_def rnd_nonneg)
  then obtain r where r: "(of_unsigned a :: f64) = Fin r \<or> (of_unsigned a :: f64) = NZero \<and> r = 0" "0 \<le> r" "r \<le> 2 ^ 64"
    by (auto simp: flt_nonneg_cases)
  then have "(of_unsigned a + lit (1/2) :: f64) = rnd (r + 1/2)"
    by (auto simp: plus_flt_def mk_def)
  moreover have "(rnd (1/2) :: f64) \<le> rnd (r + 1/2)" "(rnd (r + 1/2) :: f64) \<le> rnd (2 ^ 65)"
    using r(2,3) by (intro rnd_mono; simp)+
  ultimately show thesis using that rnd_power[of 65] by (cases "rnd (r + 1/2) :: f64") auto
qed

lemma serpentine_between:
  assumes "serpentine_in_region x0 x1 y0 y1 w k = Some (x, y)" "0 \<le> x0" "valid x0" "x0 \<le> x1" "0 \<le> w"
  shows "x0 \<le> x \<and> x \<le> x1"
proof -
  obtain a where x: "x = fmin (x0 + (of_unsigned (a :: u64) + lit (1/2)) * w) x1"
    using assms(1) by (auto simp: serpentine_in_region_def Let_def split: if_splits prod.splits)
  obtain q where q: "(of_unsigned a + lit (1/2) :: f64) = Fin q" "0 < q" by (rule half_up_positive)
  have t: "0 \<le> Fin q * w" using q(2) assms(5)
    by (cases w) (auto simp: times_flt_def is_zero_def signed_inf_def mk_nonneg)
  then have s: "0 \<le> x0 + Fin q * w" using assms(2) by (rule flt_add_nonneg[rotated])
  then have "x0 \<le> x0 + Fin q * w" using t assms(3) flt_le_nan by (intro flt_add_ge) blast+
  then show ?thesis unfolding x q(1) using assms(4) flt_le_nan[of x0] flt_less_imp_le
    by (auto simp: fmin_def flt_not_less)
qed

lemma count_number: "n < 2 ^ 64 \<Longrightarrow> \<exists>r \<ge> 0. (rnd (of_nat n) :: f64) = Fin r"
proof (cases "n = 0")
  case False
  assume "n < 2 ^ 64"
  with False obtain q where "(rnd (of_nat n) :: f64) = Fin q" "1 \<le> q" by (rule_tac rnd_count[of n]) auto
  then show ?thesis by (intro exI[of _ q]) simp
qed (simp add: zero_flt_def)

lemma strip_facts:
  assumes "is_finite (area_w c)" "valid (area_w c)" "0 \<le> area_w c" "swarm_size c < 2 ^ 64"
  shows "0 \<le> fst (strip c) \<and> valid (fst (strip c)) \<and> fst (strip c) \<le> snd (strip c)"
proof -
  let ?n = "max (swarm_size c) 1" and ?i = "unat (ctx_drone_id c) mod max (swarm_size c) 1"
  obtain n where n: "(rnd (of_nat ?n) :: f64) = Fin n" "1 \<le> n" using assms(4) by (rule_tac rnd_count[of ?n]) auto
  define w where "w = area_w c / rnd (of_nat ?n)"
  have w0: "0 \<le> w" using assms(3) n by (simp add: w_def flt_div_nonneg)
  have "w \<le> area_w c" unfolding w_def using assms(2,3) n w0 flt_le_nan[OF w0]
    by (intro flt_div_le) (auto simp: w_def one_flt_def)
  then have w: "is_finite w" using w0 assms(1) finite_between[of 0 w "area_w c"] by simp
  have "?i < 2 ^ 64" using mod_less_divisor[of ?n "unat (ctx_drone_id c)"] assms(4) by linarith
  then obtain r where r: "(rnd (of_nat ?i) :: f64) = Fin r" "0 \<le> r" using count_number by blast
  have x0: "0 \<le> Fin r * w" using w w0 r(2) by (cases w) (auto simp: times_flt_def is_zero_def mk_nonneg)
  moreover have "Fin r * w \<le> Fin r * w + w"
    using x0 w0 flt_le_nan[OF flt_add_nonneg[OF x0 w0]] by (intro flt_add_ge) auto
  ultimately show ?thesis unfolding strip_def Let_def fst_conv snd_conv w_def[symmetric] r(1) by simp
qed

text \<open>
  A partitioned lawnmower flies its drone inside the drone's own strip, up to where the area ends, and never to a coordinate that is
  not a number, whatever the step.
\<close>
theorem partitioned_drone_keeps_its_strip:
  assumes "partitioned_lawnmower c = Some q" "is_finite (area_w c)" "valid (area_w c)" "0 \<le> scan_width_m c" "swarm_size c < 2 ^ 64"
  shows "fmin (fst (strip c)) (area_w c) \<le> px q \<and> px q \<le> snd (strip c)"
proof -
  obtain x y where xy: "serpentine_in_region (fst (strip c)) (snd (strip c)) 0 (area_h c) (scan_width_m c) (ctx_step c) = Some (x, y)"
      and q: "clamp_to_area x y c = Some q"
    using assms(1) by (auto simp: partitioned_lawnmower_def bind_eq_Some_conv split: prod.splits)
  have w: "0 \<le> area_w c" and px: "px q = clamp_lit 0 (area_w c) x"
    using q by (auto simp: clamp_to_area_def bind_eq_Some_conv fclamp_inside)
  note s = strip_facts[OF assms(2,3) w assms(5)]
  have "fst (strip c) \<le> x \<and> x \<le> snd (strip c)" using serpentine_between[OF xy] s assms(4) by blast
  moreover have "0 \<le> x" using calculation s flt_le_trans by blast
  ultimately show ?thesis using w flt_le_nan[OF w] flt_le_trans[of "area_w c" x] flt_less_le_trans[of "area_w c" "fst (strip c)" x]
    by (auto simp: px clamp_lit_def fmin_def Let_def flt_not_less flt_less_imp_le dest: flt_le_not_less flt_le_nan)
qed

section \<open>The lawnmower covers its lattice\<close>

fun nat_cell :: "nat \<Rightarrow> nat \<Rightarrow> nat \<times> nat" where
  "nat_cell c k = (k div c, if even (k div c) then k mod c else c - 1 - k mod c)"

lemma lawn_cell_nat: "0 < cols \<Longrightarrow> map_prod unat unat (lawn_cell cols k) = nat_cell (unat cols) (unat k)"
proof -
  assume c: "0 < cols"
  then have p: "unat (cols - 1) = unat cols - 1" by (intro unat_minus_one) simp
  then have m: "k mod cols \<le> cols - 1"
    using word_mod_less_divisor[OF c, of k] by (simp add: word_le_nat_alt word_less_nat_alt)
  have "even (unat (k div cols)) \<longleftrightarrow> (k div cols) mod 2 = 0"
    by (simp only: unat_eq_0[symmetric]) (simp add: unat_mod even_iff_mod_2_eq_zero)
  with m show ?thesis using c by (simp add: lawn_cell_def Let_def unat_div unat_mod unat_sub p)
qed

text \<open>The order of a serpentine over its lattice: row by row, the odd rows backwards. Each cell comes once.\<close>

definition serpentine_route :: "nat \<Rightarrow> nat \<Rightarrow> (nat \<times> nat) list" where
  "serpentine_route rows cols = concat (map (\<lambda>row. map (Pair row) (if even row then [0..<cols] else rev [0..<cols])) [0..<rows])"

lemma serpentine_route_complete:
  "distinct (serpentine_route rows cols)" "set (serpentine_route rows cols) = {..<rows} \<times> {..<cols}"
  by (induction rows) (auto simp: serpentine_route_def distinct_map inj_on_def)

lemma serpentine_route_cells: "0 < cols \<Longrightarrow> serpentine_route rows cols = map (nat_cell cols) [0..<rows * cols]"
proof (induction rows)
  case (Suc rows)
  have row: "map (nat_cell cols) [rows * cols..<rows * cols + cols] = map (Pair rows) (if even rows then [0..<cols] else rev [0..<cols])"
  proof (rule nth_equalityI)
    fix j assume "j < length (map (nat_cell cols) [rows * cols..<rows * cols + cols])"
    then have j: "j < cols" by simp
    then have "nat_cell cols (rows * cols + j) = (rows, if even rows then j else cols - 1 - j)" by simp
    then show "map (nat_cell cols) [rows * cols..<rows * cols + cols] ! j = map (Pair rows) (if even rows then [0..<cols] else rev [0..<cols]) ! j"
      using j by (simp add: rev_nth del: nat_cell.simps)
  qed simp
  have "[0..<Suc rows * cols] = [0..<rows * cols] @ [rows * cols..<rows * cols + cols]"
    unfolding mult_Suc add.commute[of cols] by (rule upt_add_eq_append) simp
  then have "map (nat_cell cols) [0..<Suc rows * cols] = serpentine_route rows cols @ map (Pair rows) (if even rows then [0..<cols] else rev [0..<cols])"
    using Suc row by (simp only: map_append)
  then show ?case by (simp add: serpentine_route_def del: nat_cell.simps)
qed (simp add: serpentine_route_def)

text \<open>The waypoint of a cell: its centre, no further than the far sides of the region.\<close>

definition cell_centre :: "f64 \<Rightarrow> f64 \<Rightarrow> f64 \<Rightarrow> f64 \<Rightarrow> f64 \<Rightarrow> nat \<times> nat \<Rightarrow> f64 \<times> f64" where
  "cell_centre x0 x1 y0 y1 w = (\<lambda>(row, along).
     (fmin (x0 + (rnd (of_nat along) + lit (1/2)) * w) x1, fmin (y0 + (rnd (of_nat row) + lit (1/2)) * w) y1))"

lemma lawn_count_pos: "0 < lawn_count extent w"
  unfolding lawn_count_def by (rule less_le_trans[of 0 1]) simp_all

lemma serpentine_step:
  assumes "unat (lawn_count (y1 - y0) w) * unat (lawn_count (x1 - x0) w) < 2 ^ 64"
  shows "serpentine_in_region x0 x1 y0 y1 w k = Some (cell_centre x0 x1 y0 y1 w
    (nat_cell (unat (lawn_count (x1 - x0) w)) (unat k mod (unat (lawn_count (y1 - y0) w) * unat (lawn_count (x1 - x0) w)))))"
proof -
  define cols where "cols = lawn_count (x1 - x0) w"
  define rows where "rows = lawn_count (y1 - y0) w"
  have c: "0 < cols" "0 < unat cols" "0 < unat rows" using lawn_count_pos unat_gt_0 by (auto simp: cols_def rows_def word_gt_0)
  have n: "unat (cols * rows) = unat rows * unat cols"
    using assms by (simp add: unat_mult_lem[THEN iffD1] cols_def[symmetric] rows_def[symmetric] mult.commute)
  then have nz: "cols * rows \<noteq> 0" using c by (metis mult_is_0 not_gr0 unat_0)
  obtain row along where cell: "lawn_cell cols (k mod (cols * rows)) = (row, along)" by fastforce
  have "nat_cell (unat cols) (unat (k mod (cols * rows))) = (unat row, unat along)"
    by (simp only: lawn_cell_nat[OF c(1), symmetric] cell map_prod_simp)
  then show ?thesis using nz cell
    by (simp add: serpentine_in_region_def Let_def cell_centre_def of_unsigned_def unat_mod n flip: cols_def rows_def del: nat_cell.simps)
qed

text \<open>
  C25. Over one cycle, begun at any step, the lawnmower of a region visits the centre of every cell of its lattice exactly once, in the
  order of a serpentine: its waypoints are the centres along the route, continued from the place in the cycle at which it began. The lattice has the
  rows and columns the code computes for the region; the hypotheses exclude a product of them, and a step, that wrap at 64 bits.
\<close>
theorem lawnmower_covers_its_lattice:
  assumes "rows = unat (lawn_count (y1 - y0) w)" "cols = unat (lawn_count (x1 - x0) w)"
    and "rows * cols < 2 ^ 64" "unat base + rows * cols \<le> 2 ^ 64"
  shows "map (\<lambda>k. serpentine_in_region x0 x1 y0 y1 w (base + of_nat k)) [0..<rows * cols] =
      map (\<lambda>p. Some (cell_centre x0 x1 y0 y1 w p)) (rotate (unat base mod (rows * cols)) (serpentine_route rows cols)) \<and>
    distinct (serpentine_route rows cols) \<and> set (serpentine_route rows cols) = {..<rows} \<times> {..<cols}"
proof (intro conjI nth_equalityI serpentine_route_complete)
  have c: "0 < cols" using lawn_count_pos unat_gt_0 by (auto simp: assms(2) word_gt_0)
  note route = serpentine_route_cells[OF c, of rows]
  show "length (map (\<lambda>k. serpentine_in_region x0 x1 y0 y1 w (base + of_nat k)) [0..<rows * cols]) =
      length (map (\<lambda>p. Some (cell_centre x0 x1 y0 y1 w p)) (rotate (unat base mod (rows * cols)) (serpentine_route rows cols)))"
    by (simp add: route)
  fix k assume "k < length (map (\<lambda>k. serpentine_in_region x0 x1 y0 y1 w (base + of_nat k)) [0..<rows * cols])"
  then have k: "k < rows * cols" by simp
  then have "unat (base + of_nat k) = unat base + k" using assms(4) by (simp add: unat_word_ariths unat_of_nat)
  moreover have "(unat base + k) mod (rows * cols) < rows * cols" using k by (intro mod_less_divisor) linarith
  ultimately show "map (\<lambda>k. serpentine_in_region x0 x1 y0 y1 w (base + of_nat k)) [0..<rows * cols] ! k =
      map (\<lambda>p. Some (cell_centre x0 x1 y0 y1 w p)) (rotate (unat base mod (rows * cols)) (serpentine_route rows cols)) ! k"
    using k serpentine_step[of y1 y0 w x1 x0 "base + of_nat k"] assms(3)
    by (simp add: route assms(1,2)[symmetric] nth_rotate mod_add_left_eq del: nat_cell.simps)
qed

section \<open>Concrete flights\<close>

definition demo_context :: pattern_context where
  "demo_context = \<lparr>ctx_drone_id = 1, swarm_size = 2, ctx_current = position_zero, area_w = lit 100, area_h = lit 80, altitude_z = - lit 20,
     scan_width_m = lit 5, ctx_step = 7, visited = [], ctx_peers = []\<rparr>"

lemma demo_strip: "strip demo_context = (Fin 50, Fin 100)"
  by (simp add: strip_def Let_def demo_context_def fin_arith)

lemma demo_lawn: "lawn_count (Fin 100 - Fin 50) (Fin 5) = 10" "lawn_count (Fin 80 - 0) (Fin 5) = 16"
  by (simp_all add: lawn_count_def fmax_def fin_arith signed_int_def trunc_def)

theorem partitioned_drone_keeps_its_strip_witness:
  "\<exists>q. partitioned_lawnmower demo_context = Some q \<and>
     fmin (fst (strip demo_context)) (area_w demo_context) \<le> px q \<and> px q \<le> snd (strip demo_context)"
proof -
  have f: "\<not> area_panics demo_context" "area_w demo_context = Fin 100" "area_h demo_context = Fin 80" "scan_width_m demo_context = Fin 5"
    by (simp_all add: area_panics_def demo_context_def)
  then obtain q where "partitioned_lawnmower demo_context = Some q"
    using serpentine_None[of "Fin 50" "Fin 100" 0 "Fin 80" "Fin 5" "ctx_step demo_context"] demo_lawn
    by (auto simp: partitioned_lawnmower_def demo_strip clamp_to_area_Some)
  moreover from this have "fmin (fst (strip demo_context)) (area_w demo_context) \<le> px q \<and> px q \<le> snd (strip demo_context)"
    by (rule partitioned_drone_keeps_its_strip) (simp_all add: f representable_numeral demo_context_def)
  ultimately show ?thesis by blast
qed

theorem lawnmower_covers_its_lattice_witness:
  "map (\<lambda>k. serpentine_in_region (Fin 50) (Fin 100) 0 (Fin 80) (Fin 5) (200 + of_nat k)) [0..<160] =
    map (\<lambda>p. Some (cell_centre (Fin 50) (Fin 100) 0 (Fin 80) (Fin 5) p)) (rotate 40 (serpentine_route 16 10))"
  using lawnmower_covers_its_lattice[of 16 "Fin 80" 0 "Fin 5" 10 "Fin 100" "Fin 50" 200] by (simp only: demo_lawn) simp

text \<open>A cycle of two to the 64 cells wraps: with a scan width of two to the -16 metres over an area of 65536 metres every step panics.\<close>

lemma tiny_scan_width_panics:
  assumes "area_w c = Fin 65536" "area_h c = Fin 65536" "scan_width_m c = Fin (1 / 65536)"
  shows "boustrophedon c = None"
proof -
  have "lawn_count (Fin 65536 - 0) (Fin (1 / 65536)) = 0x100000000"
    by (simp add: lawn_count_def fmax_def fin_arith signed_int_def trunc_def)
  then have "serpentine_in_region 0 (Fin 65536) 0 (Fin 65536) (Fin (1 / 65536)) (ctx_step c) = None" by (simp add: serpentine_None)
  then show ?thesis by (simp add: boustrophedon_def assms)
qed

end
