(* ===== verification/Formation.thy ===== *)
theory Formation
  imports Mesh Patterns Rounding
begin

text \<open>
  Formation keeping of \<open>src/formation\<close>: the virtual structure of fixed offsets, the leader and its followers, and Reynolds flocking in
  its position-only form. Hash maps are association lists.
\<close>

section \<open>Virtual structure\<close>

type_synonym offset = "f64 \<times> f64 \<times> f64"

definition shifted :: "position3d \<Rightarrow> offset \<Rightarrow> position3d" where
  "shifted p = (\<lambda>(dx, dy, dz). \<lparr>px = px p + dx, py = py p + dy, pz = pz p + dz\<rparr>)"

record virtual_structure =
  vs_offsets :: "(node_id \<times> offset) list"

definition grid_slot :: "nat \<Rightarrow> f64 \<Rightarrow> nat \<Rightarrow> offset" where
  "grid_slot cols spacing i = (rnd (of_nat (i div cols)) * spacing, rnd (of_nat (i mod cols)) * spacing, 0)"

text \<open>A division by zero columns is a panic; an empty formation never divides.\<close>

definition grid_columns :: "nat \<Rightarrow> nat" where
  "grid_columns n = unat (as_unsigned (fceil (fsqrt (rnd (of_nat n) :: f64))) :: u64)"

definition grid_formation :: "nat \<Rightarrow> f64 \<Rightarrow> virtual_structure option" where
  "grid_formation n spacing =
    (if grid_columns n = 0 \<and> n \<noteq> 0 then None
     else Some \<lparr>vs_offsets = foldl (\<lambda>m i. AList.update (of_nat i) (grid_slot (grid_columns n) spacing i) m) [] [0..<n]\<rparr>)"

definition tau_f64 :: f64 where
  "tau_f64 = Fin (884279719003555 / 140737488355328)"

definition circle_slot :: "math_env \<Rightarrow> nat \<Rightarrow> f64 \<Rightarrow> nat \<Rightarrow> offset" where
  "circle_slot M n radius i = (let angle = tau_f64 * rnd (of_nat i) / rnd (of_nat n) in (radius * m_cos M angle, radius * m_sin M angle, 0))"

definition circle_formation :: "math_env \<Rightarrow> nat \<Rightarrow> f64 \<Rightarrow> virtual_structure" where
  "circle_formation M n radius = \<lparr>vs_offsets = foldl (\<lambda>m i. AList.update (of_nat i) (circle_slot M n radius i) m) [] [0..<n]\<rparr>"

definition vs_target_position :: "virtual_structure \<Rightarrow> node_id \<Rightarrow> position3d \<Rightarrow> position3d" where
  "vs_target_position v i ref = (case map_of (vs_offsets v) i of Some d \<Rightarrow> shifted ref d | None \<Rightarrow> ref)"

section \<open>Leader and followers\<close>

record leader_follower =
  leader_id :: node_id
  lf_offsets :: "(node_id \<times> offset) list"

definition leader_follower_new :: "node_id \<Rightarrow> leader_follower" where
  "leader_follower_new i = \<lparr>leader_id = i, lf_offsets = []\<rparr>"

definition add_follower :: "node_id \<Rightarrow> offset \<Rightarrow> leader_follower \<Rightarrow> leader_follower" where
  "add_follower i d l = l\<lparr>lf_offsets := AList.update i d (lf_offsets l)\<rparr>"

definition position_or_default :: "(node_id \<times> position3d) list \<Rightarrow> node_id \<Rightarrow> position3d" where
  "position_or_default ps i = (case find (\<lambda>p. fst p = i) ps of Some p \<Rightarrow> snd p | None \<Rightarrow> position_zero)"

definition lf_target_position :: "leader_follower \<Rightarrow> node_id \<Rightarrow> (node_id \<times> position3d) list \<Rightarrow> position3d" where
  "lf_target_position l i ps =
    (let lead = position_or_default ps (leader_id l) in
     if i = leader_id l then lead
     else case map_of (lf_offsets l) i of Some d \<Rightarrow> shifted lead d | None \<Rightarrow> lead)"

section \<open>Reynolds flocking\<close>

record reynolds_params =
  separation_dist_m :: f64
  separation_weight :: f64
  alignment_weight :: f64
  cohesion_weight :: f64
  k_neighbors :: nat

definition reynolds_default :: reynolds_params where
  "reynolds_default = \<lparr>separation_dist_m = lit 3, separation_weight = lit (3/2), alignment_weight = lit 1, cohesion_weight = lit (8 / 10), k_neighbors = 7\<rparr>"

definition neighbours :: "nat \<Rightarrow> node_id \<Rightarrow> position3d \<Rightarrow> (node_id \<times> position3d) list \<Rightarrow> (f64 \<times> position3d) list" where
  "neighbours k i own ps =
    take k (sort_by (\<lambda>a b. partial_cmp_or_equal (fst a) (fst b)) (map (\<lambda>p. (distance_to own (snd p), snd p)) (filter (\<lambda>p. fst p \<noteq> i) ps)))"

definition separation_term :: "f64 \<Rightarrow> position3d \<Rightarrow> f64 \<times> f64 \<times> f64 \<Rightarrow> f64 \<times> position3d \<Rightarrow> f64 \<times> f64 \<times> f64" where
  "separation_term reach own = (\<lambda>(sx, sy, sz) (d, p).
    if d < reach \<and> lit (1 / 1000000) < d
    then let f = (reach - d) / reach
      in (sx + (px own - px p) / d * f, sy + (py own - py p) / d * f, sz + (pz own - pz p) / d * f)
    else (sx, sy, sz))"

definition position_sum :: "(f64 \<times> position3d) list \<Rightarrow> f64 \<times> f64 \<times> f64" where
  "position_sum ns = foldl (\<lambda>(ax, ay, az) (_, p). (ax + px p, ay + py p, az + pz p)) (0, 0, 0) ns"

definition compute_velocity :: "reynolds_params \<Rightarrow> node_id \<Rightarrow> (node_id \<times> position3d) list \<Rightarrow> velocity3d" where
  "compute_velocity r i ps =
    (case find (\<lambda>p. fst p = i) ps of None \<Rightarrow> velocity_default
     | Some (_, own) \<Rightarrow>
         let ns = neighbours (k_neighbors r) i own ps in
         if ns = [] then velocity_default
         else
           let n = rnd (of_nat (length ns));
               (sx, sy, sz) = foldl (separation_term (separation_dist_m r) own) (0, 0, 0) ns;
               (ax, ay, az) = position_sum ns
           in \<lparr>vx = separation_weight r * sx + cohesion_weight r * (ax / n - px own),
               vy = separation_weight r * sy + cohesion_weight r * (ay / n - py own),
               vz = separation_weight r * sz + cohesion_weight r * (az / n - pz own)\<rparr>)"

section \<open>The grid keeps its spacing\<close>

lemma fceil_positive: "1 \<le> x \<Longrightarrow> (as_unsigned (fceil x) :: u64) \<noteq> 0" for x :: f64
proof (cases x)
  case (Fin q)
  assume "1 \<le> x"
  then have "1 \<le> \<lceil>q\<rceil>" using Fin by (simp add: one_flt_def)
  moreover from this have "0 < trunc (of_int \<lceil>q\<rceil>)" by (simp add: trunc_def)
  moreover have "trunc 0 = 0" by (simp add: trunc_def)
  ultimately show ?thesis using Fin by (auto simp: signed_int_def word_of_int_eq_0_iff zdvd_not_zless)
qed (simp_all add: one_flt_def)

lemma grid_columns_positive: "n \<noteq> 0 \<Longrightarrow> grid_columns n \<noteq> 0"
proof -
  assume "n \<noteq> 0"
  then have "(rnd 1 :: f64) \<le> rnd (of_nat n)" by (intro rnd_mono) simp
  then have "(1 :: f64) \<le> rnd (of_nat n)" by (simp add: one_flt_def)
  then show ?thesis using fceil_positive[OF fsqrt_ge_one] by (simp add: grid_columns_def unat_eq_zero)
qed

lemma map_of_numbered:
  assumes "j < 2 ^ 32" "n \<le> 2 ^ 32"
  shows "map_of (foldl (\<lambda>m i. AList.update (of_nat i :: node_id) (f i) m) [] [0..<n]) (of_nat j) = (if j < n then Some (f j) else None)"
  using assms(2)
proof (induction n)
  case (Suc n)
  have "(of_nat j :: node_id) = of_nat n \<longleftrightarrow> j = n"
    using assms(1) Suc.prems by (simp add: word_of_nat_eq_iff take_bit_nat_eq_self)
  then show ?case using Suc by (auto simp: update_conv' less_Suc_eq)
qed simp

lemma count_below: "a < 2 ^ 32 \<Longrightarrow> (of_nat a :: rat) \<le> 2 ^ 32"
proof -
  assume "a < 2 ^ 32"
  then have "(of_nat a :: rat) \<le> of_nat (2 ^ 32)" by (simp only: of_nat_le_iff less_imp_le)
  then show ?thesis by simp
qed

lemma scaled_error:
  assumes "s = (Fin q :: f64)" "1 \<le> q" "q \<le> 2 ^ 40" "a < 2 ^ 32"
  shows "\<bar>rval (rnd (of_nat a) * s) - of_nat a * q\<bar> \<le> of_nat a * q / 2 ^ 53"
proof -
  have a: "(rnd (of_nat a) :: f64) = Fin (of_nat a)" using assms(4) by (intro lit_nat) simp
  have "of_nat a * q \<le> 2 ^ 32 * 2 ^ 40" using count_below[OF assms(4)] assms(2,3) by (intro mult_mono) simp_all
  then have fin: "is_finite (rnd (of_nat a * q) :: f64)" using assms(2) by (intro rnd_finite[of _ 72]) simp_all
  have "of_nat a * q = 0 \<or> 1 / 2 ^ 100 \<le> of_nat a * q"
  proof (cases "a = 0")
    case False
    then have "1 * 1 \<le> of_nat a * q" using assms(2) by (intro mult_mono) auto
    then show ?thesis by simp
  qed simp
  then have "\<bar>rval (rnd (of_nat a * q) :: f64) - of_nat a * q\<bar> \<le> \<bar>of_nat a * q\<bar> / 2 ^ 53"
    using fin assms(2) by (intro rval_error) auto
  moreover have "rval (rnd (of_nat a) * s) = rval (rnd (of_nat a * q) :: f64)"
    using assms(2) by (auto simp: a assms(1) Fin_mult mk_def signed_zero_def zero_flt_def)
  ultimately show ?thesis using assms(2) by simp
qed

lemma steps_apart:
  assumes "s = (Fin q :: f64)" "1 \<le> q" "q \<le> 2 ^ 40" "a < 2 ^ 32" "b < 2 ^ 32" "a \<noteq> b"
  shows "q / 2 \<le> \<bar>rval (rnd (of_nat a) * s) - rval (rnd (of_nat b) * s)\<bar>"
proof -
  let ?e = "q * 2 ^ 32 / 2 ^ 53"
  have "of_nat k * q / 2 ^ 53 \<le> ?e" if "k < 2 ^ 32" for k
    using mult_right_mono[OF count_below[OF that], of q] assms(2) by (intro divide_right_mono) (simp_all add: mult.commute)
  then have e: "\<bar>rval (rnd (of_nat a) * s) - of_nat a * q\<bar> \<le> ?e" "\<bar>rval (rnd (of_nat b) * s) - of_nat b * q\<bar> \<le> ?e"
    using scaled_error[OF assms(1-3)] assms(4,5) order_trans by blast+
  have "(1 :: int) \<le> \<bar>int a - int b\<bar>" using assms(6) by simp
  then have "(1 :: rat) \<le> of_int \<bar>int a - int b\<bar>" by (simp only: of_int_1_le_iff)
  then have "(1 :: rat) \<le> \<bar>of_nat a - of_nat b\<bar>" by simp
  then have "q \<le> \<bar>of_nat a - of_nat b\<bar> * q" using assms(2) by simp
  also have "\<dots> = \<bar>of_nat a * q - of_nat b * q\<bar>" using assms(2) by (simp add: abs_mult left_diff_distrib[symmetric])
  finally have "q \<le> \<bar>of_nat a * q - of_nat b * q\<bar>" .
  moreover have "?e \<le> q / 4" using assms(2) by simp
  ultimately show ?thesis using e by linarith
qed

text \<open>
  A grid formation gives each of up to two to the 32 drones a slot of its own, and two slots are at least half the spacing apart in one of
  the two axes, rounding included; construction never divides by zero.
\<close>
theorem grid_formation_keeps_its_spacing:
  assumes "n \<le> 2 ^ 32" "spacing = Fin q" "1 \<le> q" "q \<le> 2 ^ 40"
  shows "\<exists>f. grid_formation n spacing = Some f \<and>
    (\<forall>i < n. \<forall>j < n. i \<noteq> j \<longrightarrow>
      (\<exists>xi yi xj yj. map_of (vs_offsets f) (of_nat i) = Some (xi, yi, 0) \<and> map_of (vs_offsets f) (of_nat j) = Some (xj, yj, 0) \<and>
         (q / 2 \<le> \<bar>rval xi - rval xj\<bar> \<or> q / 2 \<le> \<bar>rval yi - rval yj\<bar>)))"
proof -
  let ?c = "grid_columns n"
  let ?m = "foldl (\<lambda>m i. AList.update (of_nat i :: node_id) (grid_slot ?c spacing i) m) [] [0..<n]"
  have "grid_formation n spacing = Some \<lparr>vs_offsets = ?m\<rparr>" using grid_columns_positive by (auto simp: grid_formation_def)
  moreover have "\<exists>xi yi xj yj. map_of ?m (of_nat i) = Some (xi, yi, 0) \<and> map_of ?m (of_nat j) = Some (xj, yj, 0) \<and>
      (q / 2 \<le> \<bar>rval xi - rval xj\<bar> \<or> q / 2 \<le> \<bar>rval yi - rval yj\<bar>)" if "i < n" "j < n" "i \<noteq> j" for i j
  proof -
    have b: "i < 2 ^ 32" "j < 2 ^ 32" using that assms(1) by simp_all
    have m: "map_of ?m (of_nat i) = Some (grid_slot ?c spacing i)" "map_of ?m (of_nat j) = Some (grid_slot ?c spacing j)"
      using map_of_numbered[OF b(1) assms(1)] map_of_numbered[OF b(2) assms(1)] that by simp_all
    have le: "k div ?c < 2 ^ 32 \<and> k mod ?c < 2 ^ 32" if "k < 2 ^ 32" for k
      using that by (meson div_le_dividend mod_less_eq_dividend le_less_trans)
    have "i div ?c \<noteq> j div ?c \<or> i mod ?c \<noteq> j mod ?c" using that(3) by (metis div_mult_mod_eq)
    then show ?thesis using m le[OF b(1)] le[OF b(2)] steps_apart[OF assms(2-4)] by (auto simp: grid_slot_def)
  qed
  ultimately show ?thesis by auto
qed

theorem grid_formation_keeps_its_spacing_witness:
  "\<exists>f. grid_formation 9 (Fin 5) = Some f \<and>
    (\<forall>i < 9. \<forall>j < 9. i \<noteq> j \<longrightarrow>
      (\<exists>xi yi xj yj. map_of (vs_offsets f) (of_nat i) = Some (xi, yi, 0) \<and> map_of (vs_offsets f) (of_nat j) = Some (xj, yj, 0) \<and>
         (5 / 2 \<le> \<bar>rval xi - rval xj\<bar> \<or> 5 / 2 \<le> \<bar>rval yi - rval yj\<bar>)))"
  using grid_formation_keeps_its_spacing[of 9 "Fin 5" 5] by simp

section \<open>Followers and flocks\<close>

lemma follower_keeps_its_offset:
  "i \<noteq> leader_id l \<Longrightarrow> find (\<lambda>p. fst p = leader_id l) ps = Some (j, lead) \<Longrightarrow>
   lf_target_position (add_follower i d l) i ps = shifted lead d"
  by (simp add: lf_target_position_def add_follower_def position_or_default_def update_conv')

text \<open>A leader whose position is missing from the list is taken to be at the origin, and its followers with it.\<close>

lemma lost_leader_is_at_the_origin:
  "find (\<lambda>p. fst p = leader_id l) ps = None \<Longrightarrow> map_of (lf_offsets l) i = None \<Longrightarrow> lf_target_position l i ps = position_zero"
  by (simp add: lf_target_position_def position_or_default_def)

interpretation flock: comparator_on "\<lambda>x :: f64 \<times> position3d. \<not> is_nan (fst x)" "\<lambda>a b. partial_cmp_or_equal (fst a) (fst b)"
  by (rule partial_cmp_comparator)

text \<open>The neighbours are the nearest other drones of the list: none left out is closer than one taken.\<close>

lemma neighbours_nearest:
  assumes "\<forall>p \<in> set ps. finite_position (snd p)" "finite_position own"
  shows "\<exists>rest. mset (neighbours k i own ps @ rest) = mset (map (\<lambda>p. (distance_to own (snd p), snd p)) (filter (\<lambda>p. fst p \<noteq> i) ps)) \<and>
    (\<forall>a \<in> set (neighbours k i own ps). \<forall>b \<in> set rest. fst a \<le> fst b)"
proof -
  let ?l = "map (\<lambda>p. (distance_to own (snd p), snd p)) (filter (\<lambda>p. fst p \<noteq> i) ps)"
  let ?s = "sort_by (\<lambda>a b. partial_cmp_or_equal (fst a) (fst b)) ?l"
  have nn: "\<forall>x \<in> set ?l. \<not> is_nan (fst x)" using assms by (auto simp: distance_to_not_nan)
  have "sorted_wrt (\<lambda>a b. partial_cmp_or_equal (fst a) (fst b) \<noteq> Greater) (take k ?s @ drop k ?s)"
    using flock.sort_by_sorted[OF nn] by simp
  then have "\<forall>a \<in> set (take k ?s). \<forall>b \<in> set (drop k ?s). partial_cmp_or_equal (fst a) (fst b) \<noteq> Greater"
    by (simp only: sorted_wrt_append) blast
  moreover have "\<not> is_nan (fst a)" if "a \<in> set (take k ?s) \<union> set (drop k ?s)" for a
    using that nn in_set_takeD[of a k ?s] in_set_dropD[of a k ?s] unfolding set_sort_by by blast
  ultimately have "\<forall>a \<in> set (take k ?s). \<forall>b \<in> set (drop k ?s). fst a \<le> fst b"
    using partial_cmp_not_greater by blast
  moreover have "mset (take k ?s @ drop k ?s) = mset ?l" unfolding append_take_drop_id by simp
  ultimately show ?thesis unfolding neighbours_def by blast
qed

text \<open>A drone alone, or not in the list, gets no velocity; alignment is a weight without a rule.\<close>

lemma lone_drone_rests: "\<forall>p \<in> set ps. fst p = i \<Longrightarrow> compute_velocity r i ps = velocity_default"
  by (auto simp: compute_velocity_def neighbours_def split: option.splits)

lemma alignment_is_ignored: "compute_velocity (r\<lparr>alignment_weight := w\<rparr>) i ps = compute_velocity r i ps"
  by (cases "find (\<lambda>p. fst p = i) ps") (simp_all add: compute_velocity_def Let_def case_prod_beta)

end
