(* ===== verification/Mavlink.thy ===== *)
theory Mavlink
  imports Types Rounding Sensing
begin

text \<open>
  The custom messages of \<open>src/integration/mavlink_messages.rs\<close>, the simulated flight controller of \<open>flight_controller.rs\<close> and the
  frames of \<open>telemetry.rs\<close>. Bytes are 8-bit words, arrays of bytes lists; a cast of a float to an integer truncates and saturates.
\<close>

section \<open>Bytes\<close>

definition le_bytes :: "nat \<Rightarrow> 'a::len word \<Rightarrow> u8 list" where
  "le_bytes n w = map (\<lambda>i. ucast (drop_bit (8 * i) w)) [0..<n]"

fun from_le :: "u8 list \<Rightarrow> 'a::len word" where
  "from_le [] = 0"
| "from_le (b # bs) = or (ucast b) (push_bit 8 (from_le bs))"

section \<open>The messages\<close>

definition swarm_dialect_base :: u32 where
  "swarm_dialect_base = 50000"

datatype swarm_msg_id = NodeStateMsg | CsiReportMsg | TaskAssignMsg | GridTileUpdateMsg | ClusterHeartbeatMsg | VictimConfirmedMsg

fun msg_code :: "swarm_msg_id \<Rightarrow> u32" where
  "msg_code NodeStateMsg = 50000"
| "msg_code CsiReportMsg = 50001"
| "msg_code TaskAssignMsg = 50002"
| "msg_code GridTileUpdateMsg = 50003"
| "msg_code ClusterHeartbeatMsg = 50004"
| "msg_code VictimConfirmedMsg = 50005"

record swarm_node_state =
  sns_node_id :: u32
  pos_north_mm :: i32
  pos_east_mm :: i32
  pos_down_mm :: i32
  speed_cm_s :: u16
  heading_cdeg :: u16
  battery_10th_pct :: u16
  sns_link_quality :: u8
  sns_failsafe_state :: u8
  sns_timestamp_ms :: u32

text \<open>\<open>f64::rem_euclid\<close>: the exact remainder of the truncated quotient, lifted by the modulus when it is negative.\<close>

definition frem :: "f64 \<Rightarrow> f64 \<Rightarrow> f64" where
  "frem x y =
    (if is_nan x \<or> is_nan y \<or> is_inf x \<or> is_zero y then NaN
     else if is_inf y then x
     else mk (neg_bit x) (rval x - rval y * of_int (trunc (rval x / rval y))))"

definition rem_euclid :: "f64 \<Rightarrow> f64 \<Rightarrow> f64" where
  "rem_euclid x y = (let r = frem x y in if r < 0 then r + fabs y else r)"

definition to_degrees :: "f64 \<Rightarrow> f64" where
  "to_degrees x = x * (lit 180 / pi_f64)"

definition mm_of :: "f64 \<Rightarrow> i32" where
  "mm_of x = as_signed (x * lit 1000)"

definition node_state_of :: "drone_state \<Rightarrow> u8 \<Rightarrow> swarm_node_state" where
  "node_state_of st failsafe =
    \<lparr>sns_node_id = ds_id st, pos_north_mm = mm_of (px (ds_position st)), pos_east_mm = mm_of (py (ds_position st)),
     pos_down_mm = mm_of (pz (ds_position st)), speed_cm_s = as_unsigned (magnitude (ds_velocity st) * lit 100),
     heading_cdeg = as_unsigned (rem_euclid (to_degrees (heading_rad st)) (lit 360) * lit 100),
     battery_10th_pct = as_unsigned (battery_pct st * lit 10), sns_link_quality = as_unsigned (link_quality st * lit 255),
     sns_failsafe_state = failsafe, sns_timestamp_ms = ucast (timestamp_ms st)\<rparr>"

definition encode_node_state :: "swarm_node_state \<Rightarrow> u8 list" where
  "encode_node_state m =
    le_bytes 4 (sns_node_id m) @ le_bytes 4 (pos_north_mm m) @ le_bytes 4 (pos_east_mm m) @ le_bytes 4 (pos_down_mm m) @
    [sns_failsafe_state m, sns_link_quality m] @ le_bytes 2 (battery_10th_pct m)"

text \<open>The argument of \<open>decode\<close> is an array of 20 bytes, so no slice is out of bounds.\<close>

definition decode_node_state :: "u8 list \<Rightarrow> swarm_node_state" where
  "decode_node_state buf =
    \<lparr>sns_node_id = from_le (take 4 buf), pos_north_mm = from_le (take 4 (drop 4 buf)), pos_east_mm = from_le (take 4 (drop 8 buf)),
     pos_down_mm = from_le (take 4 (drop 12 buf)), speed_cm_s = 0, heading_cdeg = 0, battery_10th_pct = from_le (take 2 (drop 18 buf)),
     sns_link_quality = buf ! 17, sns_failsafe_state = buf ! 16, sns_timestamp_ms = 0\<rparr>"

record swarm_csi_report =
  scr_node_id :: u32
  confidence_u8 :: u8
  has_position :: bool
  victim_north_mm :: i32
  victim_east_mm :: i32
  victim_down_mm :: i32
  scr_timestamp_ms :: u32

definition csi_report_of :: "csi_detection \<Rightarrow> swarm_csi_report" where
  "csi_report_of det =
    (let (n, e, d) = (case victim_position det of Some p \<Rightarrow> (mm_of (px p), mm_of (py p), mm_of (pz p)) | None \<Rightarrow> (0, 0, 0))
     in \<lparr>scr_node_id = det_drone_id det, confidence_u8 = as_unsigned (det_confidence det * lit 255), has_position = victim_position det \<noteq> None,
         victim_north_mm = n, victim_east_mm = e, victim_down_mm = d, scr_timestamp_ms = ucast (det_timestamp_ms det)\<rparr>)"

definition metres_of :: "i32 \<Rightarrow> f64" where
  "metres_of w = of_signed w / lit 1000"

definition to_detection :: "swarm_csi_report \<Rightarrow> csi_detection" where
  "to_detection m =
    \<lparr>det_drone_id = scr_node_id m, det_confidence = of_unsigned (confidence_u8 m) / lit 255,
     victim_position = (if has_position m
       then Some \<lparr>px = metres_of (victim_north_mm m), py = metres_of (victim_east_mm m), pz = metres_of (victim_down_mm m)\<rparr> else None),
     det_timestamp_ms = ucast (scr_timestamp_ms m)\<rparr>"

record swarm_cluster_heartbeat =
  hb_leader_id :: u32
  hb_raft_term :: u64
  hb_cluster_size :: u8
  hb_active_drones :: u8
  hb_mission_phase :: u8
  hb_timestamp_ms :: u32

record swarm_victim_confirmed =
  vc_victim_id :: u8
  vc_north_mm :: i32
  vc_east_mm :: i32
  vc_down_mm :: i32
  vc_uncertainty_mm :: u16
  vc_contributing_drones :: u8
  vc_fused_confidence_u8 :: u8
  vc_timestamp_ms :: u32

section \<open>The simulated flight controller\<close>

datatype flight_mode = Offboard | Loiter | ReturnToLaunch | Land | Stabilize

record simulated_flight_controller =
  fc_state :: drone_state

definition fc_new :: "node_id \<Rightarrow> simulated_flight_controller" where
  "fc_new i = \<lparr>fc_state = default_at_origin i\<rparr>"

text \<open>The calls of the interface, all of which succeed; the state is behind a mutex, one call at a time.\<close>

datatype fc_call = SetTargetPosition position3d f64 | GetState | SetMode flight_mode | Arm | Disarm | Rtl | FcEmergencyLand

fun fc_exec :: "simulated_flight_controller \<Rightarrow> fc_call \<Rightarrow> simulated_flight_controller" where
  "fc_exec c (SetTargetPosition p _) = c\<lparr>fc_state := (fc_state c)\<lparr>ds_position := p\<rparr>\<rparr>"
| "fc_exec c Rtl = c\<lparr>fc_state := (fc_state c)\<lparr>ds_position := position_zero\<rparr>\<rparr>"
| "fc_exec c FcEmergencyLand =
    c\<lparr>fc_state := (fc_state c)\<lparr>altitude_agl_m := 0, ds_position := (ds_position (fc_state c))\<lparr>pz := 0\<rparr>\<rparr>\<rparr>"
| "fc_exec c _ = c"

definition fc_get_state :: "simulated_flight_controller \<Rightarrow> drone_state" where
  "fc_get_state c = fc_state c"

section \<open>Telemetry frames\<close>

record drone_frame =
  fr_id :: u32
  fr_x :: f64
  fr_y :: f64
  fr_heading_rad :: f64
  fr_battery_pct :: f32
  fr_detected :: bool

definition frame_of :: "drone_state \<Rightarrow> bool \<Rightarrow> drone_frame" where
  "frame_of st detected =
    \<lparr>fr_id = ds_id st, fr_x = px (ds_position st), fr_y = py (ds_position st), fr_heading_rad = heading_rad st,
     fr_battery_pct = battery_pct st, fr_detected = detected\<rparr>"

section \<open>The wire format\<close>

lemma le_bytes_Suc: "le_bytes (Suc n) w = ucast w # le_bytes n (drop_bit 8 w)"
  by (simp add: le_bytes_def upt_conv_Cons map_Suc_upt[symmetric] drop_bit_drop_bit comp_def add.commute del: upt_Suc)

lemma length_le_bytes [simp]: "length (le_bytes n w) = n"
  by (simp add: le_bytes_def)

lemma from_le_bytes: "from_le (le_bytes n w) = take_bit (8 * n) w"
proof (induction n arbitrary: w)
  case (Suc n)
  show ?case unfolding le_bytes_Suc from_le.simps Suc
    by (rule bit_word_eqI) (auto simp: bit_simps)
qed (simp add: le_bytes_def)

text \<open>
  The wire format of a node state: 20 bytes, from which decoding restores every field it carries; speed, heading and timestamp are not
  carried and come back as zero.
\<close>
theorem node_state_wire_round_trip:
  "length (encode_node_state m) = 20 \<and>
   decode_node_state (encode_node_state m) = m\<lparr>speed_cm_s := 0, heading_cdeg := 0, sns_timestamp_ms := 0\<rparr>"
proof -
  have "take_bit 32 w = w" for w :: "32 word" by (rule bit_word_eqI) (simp add: bit_simps)
  moreover have "take_bit 16 w = w" for w :: "16 word" by (rule bit_word_eqI) (simp add: bit_simps)
  ultimately show ?thesis
    by (cases m) (simp add: encode_node_state_def decode_node_state_def from_le_bytes nth_append)
qed

text \<open>The heading is lost with the rest: two drones that differ in it only send the same bytes.\<close>

lemma heading_is_not_sent: "encode_node_state (m\<lparr>heading_cdeg := h, speed_cm_s := v, sns_timestamp_ms := t\<rparr>) = encode_node_state m"
  by (simp add: encode_node_state_def)

section \<open>What a report keeps of a detection\<close>

lemma trunc_near: "\<bar>of_int (trunc q) - q\<bar> < 1" "\<bar>trunc q\<bar> \<le> k" if "\<bar>q\<bar> \<le> of_int k"
proof -
  show "\<bar>of_int (trunc q) - q\<bar> < 1" by (auto simp: trunc_def abs_if) linarith+
  show "\<bar>trunc q\<bar> \<le> k" using that by (auto simp: trunc_def abs_le_iff floor_le_iff ceiling_le_iff le_ceiling_iff le_floor_iff) linarith+
qed

lemma as_signed_trunc:
  assumes "is_finite v" "\<bar>rval v\<bar> \<le> of_int 2147483647"
  shows "sint (as_signed v :: i32) = trunc (rval v)"
proof -
  note t = trunc_near(2)[OF assms(2)]
  have "sint (word_of_int k :: i32) = k" if "\<bar>k\<bar> \<le> 2147483647" for k
    using that by (simp add: sint_sbintrunc' signed_take_bit_int_eq_self)
  then show ?thesis using t assms by (cases v) (auto simp: trunc_def)
qed

text \<open>A coordinate within 2000 kilometres survives the millimetres up to a millimetre.\<close>

lemma millimetres:
  assumes "is_finite x" "\<bar>rval x\<bar> \<le> 2000000"
  shows "is_finite (metres_of (mm_of x)) \<and> \<bar>rval (metres_of (mm_of x)) - rval x\<bar> \<le> 1001 / 1000000"
proof -
  let ?v = "x * lit 1000 :: f64"
  have v: "is_finite ?v" "\<bar>rval ?v - rval x * 1000\<bar> \<le> \<bar>rval x * 1000\<bar> / 2 ^ 53 + 1 / 2 ^ 100"
  proof -
    have e: "?v = mk (neg_bit x) (rval x * 1000)" using assms(1) by (simp add: finite_mult)
    have f: "is_finite (rnd (rval x * 1000) :: f64)" using assms(2) by (intro rnd_finite[of _ 32]) (simp_all add: abs_mult)
    show "is_finite ?v" unfolding e using f by (simp add: mk_def signed_zero_def)
    show "\<bar>rval ?v - rval x * 1000\<bar> \<le> \<bar>rval x * 1000\<bar> / 2 ^ 53 + 1 / 2 ^ 100"
      unfolding e using rval_near[OF f] by (simp add: mk_def signed_zero_def)
  qed
  then have b: "\<bar>rval ?v\<bar> \<le> of_int 2147483647" using assms(2) by (simp add: abs_if split: if_splits)
  define k where "k = trunc (rval ?v)"
  have k: "\<bar>of_int k - rval ?v\<bar> < 1" "\<bar>k\<bar> \<le> 2147483647" unfolding k_def by (rule trunc_near[OF b])+
  have s: "sint (mm_of x) = k" using as_signed_trunc[OF v(1) b] by (simp add: mm_of_def k_def)
  have kr: "(of_int \<bar>k\<bar> :: rat) \<le> of_int 2147483647" using k(2) by (simp only: of_int_le_iff)
  have i: "(rnd (of_int k) :: f64) = Fin (of_int k)" using k(2) by (intro rnd_exact representable_int) simp
  have m: "metres_of (mm_of x) = mk (k < 0) (of_int k / 1000)" by (simp add: metres_of_def of_signed_def s i Fin_div)
  have f: "is_finite (rnd (of_int k / 1000) :: f64)" using kr by (intro rnd_finite[of _ 32]) (simp_all add: abs_divide)
  have r: "\<bar>rval (metres_of (mm_of x)) - of_int k / 1000\<bar> \<le> \<bar>of_int k / 1000\<bar> / 2 ^ 53 + 1 / 2 ^ 100"
    unfolding m using rval_near[OF f] by (simp add: mk_def signed_zero_def)
  have small: "\<bar>rval x * 1000\<bar> / 2 ^ 53 + 1 / 2 ^ 100 \<le> (1 :: rat) / 1000000" "\<bar>of_int k / 1000\<bar> / 2 ^ 53 + 1 / 2 ^ 100 \<le> (1 :: rat) / 1000000000"
    using assms(2) kr by (simp_all add: abs_mult abs_divide)
  have "is_finite (metres_of (mm_of x))" unfolding m using f by (simp add: mk_def signed_zero_def)
  moreover have "\<bar>rval (metres_of (mm_of x)) - rval x\<bar> \<le> 1001 / 1000000"
    using order_trans[OF v(2) small(1)] k(1) order_trans[OF r small(2)] unfolding abs_le_iff abs_less_iff by linarith
  ultimately show ?thesis ..
qed

lemma rnd_f32_between:
  assumes "0 \<le> q" "q \<le> of_nat n" "n < 2 ^ 24"
  shows "is_finite (rnd q :: f32) \<and> 0 \<le> rval (rnd q :: f32) \<and> rval (rnd q :: f32) \<le> of_nat n"
proof -
  have e: "(rnd (of_nat n) :: f32) = Fin (of_nat n)"
    using assms(3) representable_int[of "int n" "TYPE(32)"] by (intro rnd_exact) simp
  have b: "(rnd 0 :: f32) \<le> rnd q" "(rnd q :: f32) \<le> rnd (of_nat n)" using rnd_mono[OF assms(1), where 'a = 32] rnd_mono[OF assms(2), where 'a = 32] by simp_all
  then have f: "is_finite (rnd q :: f32)" unfolding e rnd_0 by (rule finite_between) simp_all
  then show ?thesis using b unfolding e rnd_0 by (simp add: finite_le_rval)
qed

lemma confidence_byte:
  assumes "0 \<le> c" "c \<le> (1 :: f32)"
  shows "\<bar>rval (of_unsigned (as_unsigned (c * lit 255) :: u8) / lit 255 :: f32) - rval c\<bar> \<le> 1 / 254"
proof -
  define q where "q = rval c"
  have f: "is_finite c" using assms finite_between[of 0 c 1] by (simp add: one_flt_def)
  have q: "0 \<le> q" "q \<le> 1" using assms f by (simp_all add: q_def finite_le_rval one_flt_def)
  let ?v = "rnd (q * 255) :: f32"
  have v: "is_finite ?v" "0 \<le> rval ?v" "rval ?v \<le> 255" using rnd_f32_between[of "q * 255" 255] q by simp_all
  have vn: "\<bar>rval ?v - q * 255\<bar> \<le> \<bar>q * 255\<bar> / 2 ^ 24 + 1 / 2 ^ 100" by (rule rval_near_f32[OF v(1)])
  define k where "k = trunc (rval ?v)"
  have k: "\<bar>of_int k - rval ?v\<bar> < 1" "0 \<le> k" "k \<le> 255"
    unfolding k_def using trunc_near(1)[of "rval ?v" 255] v by (auto simp: trunc_def floor_le_iff)
  have c: "c * lit 255 = mk (neg_bit c) (q * 255)" using f by (simp add: finite_mult q_def)
  have w: "uint (as_unsigned (c * lit 255) :: u8) = k"
    using v(1) k(2,3) unfolding c k_def
    by (cases ?v) (auto simp: mk_def signed_zero_def trunc_def uint_word_of_int_eq take_bit_int_eq_self)
  have kr: "0 \<le> (of_int k :: rat)" "(of_int k :: rat) \<le> 255" using k(2,3) by simp_all
  have i: "(rnd (of_int k) :: f32) = Fin (of_int k)" using k(2,3) by (intro rnd_exact representable_int) simp
  have d: "(of_unsigned (as_unsigned (c * lit 255) :: u8) / lit 255 :: f32) = mk False (of_int k / 255)"
    using kr(1) by (simp only: of_unsigned_def w i) (simp add: Fin_div not_less)
  have "is_finite (rnd (of_int k / 255) :: f32)" using rnd_f32_between[of "of_int k / 255" 1] kr by simp
  from rval_near_f32[OF this]
  have r: "\<bar>rval (mk False (of_int k / 255) :: f32) - of_int k / 255\<bar> \<le> \<bar>of_int k / 255\<bar> / 2 ^ 24 + 1 / 2 ^ 100"
    by (simp add: mk_def signed_zero_def)
  have small: "\<bar>q * 255\<bar> / 2 ^ 24 + 1 / 2 ^ 100 \<le> (1 :: rat) / 10000" "\<bar>of_int k / 255\<bar> / 2 ^ 24 + 1 / 2 ^ 100 \<le> (1 :: rat) / 1000000"
    using q kr by (simp_all add: abs_mult abs_divide)
  show ?thesis unfolding d q_def[symmetric]
    using order_trans[OF vn small(1)] k(1) order_trans[OF r small(2)] unfolding abs_le_iff abs_less_iff by linarith
qed

definition near_position :: "position3d \<Rightarrow> position3d \<Rightarrow> bool" where
  "near_position p q \<longleftrightarrow> (\<forall>c \<in> {px, py, pz}. is_finite (c q) \<and> \<bar>rval (c q) - rval (c p)\<bar> \<le> 1001 / 1000000)"

definition reportable :: "csi_detection \<Rightarrow> bool" where
  "reportable det \<longleftrightarrow> 0 \<le> det_confidence det \<and> det_confidence det \<le> 1 \<and>
     (\<forall>p. victim_position det = Some p \<longrightarrow> (\<forall>c \<in> {px, py, pz}. is_finite (c p) \<and> \<bar>rval (c p)\<bar> \<le> 2000000))"

text \<open>
  C28. A detection whose confidence lies in the unit interval and whose victim, if any, is within 2000 kilometres in each coordinate, sent as a report
  and read back: the drone is the same, the time is the same modulo two to the 32 milliseconds, a victim position is there exactly when it was, within
  1.001 millimetres in each coordinate, and the confidence is within a 254th.
\<close>
theorem csi_report_round_trip:
  assumes "reportable det"
  shows "let back = to_detection (csi_report_of det) in
    det_drone_id back = det_drone_id det \<and> unat (det_timestamp_ms back) = unat (det_timestamp_ms det) mod 2 ^ 32 \<and>
    \<bar>rval (det_confidence back) - rval (det_confidence det)\<bar> \<le> 1 / 254 \<and> rel_option near_position (victim_position det) (victim_position back)"
proof -
  have "unat (ucast (ucast (det_timestamp_ms det) :: u32) :: u64) = unat (det_timestamp_ms det) mod 2 ^ 32"
    by (simp add: unsigned_ucast_eq take_bit_eq_mod unat_mod)
  moreover have "near_position p \<lparr>px = metres_of (mm_of (px p)), py = metres_of (mm_of (py p)), pz = metres_of (mm_of (pz p))\<rparr>"
    if "victim_position det = Some p" for p
    using assms that millimetres by (auto simp: near_position_def reportable_def)
  ultimately show ?thesis using assms confidence_byte[of "det_confidence det"]
    by (auto simp: Let_def to_detection_def csi_report_of_def reportable_def split: option.splits)
qed

definition demo_detection :: csi_detection where
  "demo_detection = \<lparr>det_drone_id = 1, det_confidence = lit (3/4), victim_position = Some \<lparr>px = lit 50, py = lit 75, pz = 0\<rparr>, det_timestamp_ms = 9999\<rparr>"

theorem csi_report_round_trip_witness:
  "let back = to_detection (csi_report_of demo_detection) in
    det_drone_id back = det_drone_id demo_detection \<and> unat (det_timestamp_ms back) = unat (det_timestamp_ms demo_detection) mod 2 ^ 32 \<and>
    \<bar>rval (det_confidence back) - rval (det_confidence demo_detection)\<bar> \<le> 1 / 254 \<and>
    rel_option near_position (victim_position demo_detection) (victim_position back)"
  by (rule csi_report_round_trip) (simp add: reportable_def demo_detection_def one_flt_def word_less_nat_alt)

text \<open>A time of two to the 32 milliseconds, 49 days after its epoch, comes back as zero.\<close>

lemma report_time_wraps: "det_timestamp_ms det = 0x100000000 \<Longrightarrow> det_timestamp_ms (to_detection (csi_report_of det)) = 0"
  by (simp add: to_detection_def csi_report_of_def Let_def split: prod.splits)

section \<open>The controller does what the last call said\<close>

text \<open>Calls change nothing but the position and the altitude, and the position is that of the last command.\<close>

lemma fc_frame:
  "ds_id (fc_get_state (foldl fc_exec c calls)) = ds_id (fc_get_state c)"
  "battery_pct (fc_get_state (foldl fc_exec c calls)) = battery_pct (fc_get_state c)"
  "ds_velocity (fc_get_state (foldl fc_exec c calls)) = ds_velocity (fc_get_state c)"
proof -
  let ?f = "\<lambda>c. (ds_id (fc_state c), battery_pct (fc_state c), ds_velocity (fc_state c))"
  have "?f (fc_exec c call) = ?f c" for c call by (cases call) simp_all
  then have "?f (foldl fc_exec c calls) = ?f c" by (induction calls arbitrary: c) simp_all
  then show "ds_id (fc_get_state (foldl fc_exec c calls)) = ds_id (fc_get_state c)"
    "battery_pct (fc_get_state (foldl fc_exec c calls)) = battery_pct (fc_get_state c)"
    "ds_velocity (fc_get_state (foldl fc_exec c calls)) = ds_velocity (fc_get_state c)" by (simp_all add: fc_get_state_def)
qed

lemma fc_reaches_target: "ds_position (fc_get_state (foldl fc_exec c (calls @ [SetTargetPosition p v]))) = p"
  by (simp add: fc_get_state_def)

end
