(* ===== verification/EvalStats.thy ===== *)
theory EvalStats
  imports Patterns Rounding
begin

text \<open>
  The statistics of the evaluation harness: \<open>src/evals/stats.rs\<close>, \<open>gdop.rs\<close> and \<open>metrics.rs\<close>. An index out of bounds is a panic
  (\<open>None\<close>); the generator is the linear congruential one of the source. The order of samples that are not numbers, which the standard
  library leaves open, is the one of an insertion sort.
\<close>

section \<open>Robust statistics\<close>

definition mean_of :: "'a::len flt list \<Rightarrow> 'a flt" where
  "mean_of xs = fsum xs / rnd (of_nat (length xs))"

definition iqm :: "f64 list \<Rightarrow> f64" where
  "iqm samples =
    (if samples = [] then 0
     else if length samples < 4 then mean_of samples
     else
       let ordered = sort_by partial_cmp_or_equal samples; n = length ordered; lo = n div 4; hi = n - lo; mid = take (hi - lo) (drop lo ordered)
       in if mid = [] then fsum ordered / rnd (of_nat n) else mean_of mid)"

record confidence_interval =
  ci_point :: f64
  ci_lo :: f64
  ci_hi :: f64

text \<open>The generator: its state is its last output.\<close>

definition stats_lcg_new :: "u64 \<Rightarrow> u64" where
  "stats_lcg_new seed = xor seed 0x9E3779B97F4A7C15"

definition lcg_index :: "u64 \<Rightarrow> nat \<Rightarrow> nat \<times> u64" where
  "lcg_index r n = (if n = 0 then (0, r) else let r' = lcg r in (unat (drop_bit 11 r') mod n, r'))"

text \<open>A resample: \<open>length stratum\<close> draws with replacement from every stratum.\<close>

fun draw_from :: "f64 list \<Rightarrow> nat \<Rightarrow> u64 \<Rightarrow> (f64 list \<times> u64) option" where
  "draw_from stratum 0 r = Some ([], r)"
| "draw_from stratum (Suc k) r =
    (let (i, r') = lcg_index r (length stratum) in
     if length stratum \<le> i then None
     else map_option (\<lambda>(xs, r''). (stratum ! i # xs, r'')) (draw_from stratum k r'))"

fun resample :: "f64 list list \<Rightarrow> u64 \<Rightarrow> (f64 list \<times> u64) option" where
  "resample [] r = Some ([], r)"
| "resample (s # ss) r =
    Option.bind (draw_from s (length s) r) (\<lambda>(xs, r'). map_option (\<lambda>(ys, r''). (xs @ ys, r'')) (resample ss r'))"

fun replicates :: "f64 list list \<Rightarrow> nat \<Rightarrow> u64 \<Rightarrow> f64 list option" where
  "replicates strata 0 r = Some []"
| "replicates strata (Suc n) r = Option.bind (resample strata r) (\<lambda>(buf, r'). map_option (Cons (iqm buf)) (replicates strata n r'))"

definition ffloor :: "'a::len flt \<Rightarrow> 'a flt" where
  "ffloor x = - fceil (- x)"

definition percentile :: "f64 list \<Rightarrow> f64 \<Rightarrow> f64 option" where
  "percentile ordered p =
    (case ordered of [] \<Rightarrow> Some 0 | [x] \<Rightarrow> Some x
     | _ \<Rightarrow>
       let rank = (p / lit 100) * (rnd (of_nat (length ordered)) - lit 1);
           lo = unat (as_unsigned (ffloor rank) :: u64); hi = unat (as_unsigned (fceil rank) :: u64)
       in if lo = hi then (if lo < length ordered then Some (ordered ! lo) else None)
          else if lo < length ordered \<and> hi < length ordered
            then let frac = rank - rnd (of_nat lo) in Some (ordered ! lo * (lit 1 - frac) + ordered ! hi * frac)
            else None)"

definition stratified_bootstrap_ci :: "f64 list list \<Rightarrow> nat \<Rightarrow> u64 \<Rightarrow> confidence_interval option" where
  "stratified_bootstrap_ci strata n_boot seed =
    (let pooled = concat strata; point = iqm pooled in
     if pooled = [] \<or> n_boot = 0 then Some \<lparr>ci_point = point, ci_lo = point, ci_hi = point\<rparr>
     else Option.bind (replicates strata n_boot (stats_lcg_new seed)) (\<lambda>reps.
       let ordered = sort_by partial_cmp_or_equal reps in
       Option.bind (percentile ordered (lit (5/2))) (\<lambda>lo.
         map_option (\<lambda>hi. \<lparr>ci_point = point, ci_lo = lo, ci_hi = hi\<rparr>) (percentile ordered (lit (195/2))))))"

definition f64_epsilon :: f64 where
  "f64_epsilon = Fin (1 / 2 ^ 52)"

definition count_pair :: "f64 \<Rightarrow> f64 \<times> f64 \<Rightarrow> f64" where
  "count_pair wins = (\<lambda>(x, y). if y < x then wins + lit 1 else if fabs (x - y) < f64_epsilon then wins + lit (1/2) else wins)"

definition probability_of_improvement :: "f64 list \<Rightarrow> f64 list \<Rightarrow> f64" where
  "probability_of_improvement xs ys =
    (if xs = [] \<or> ys = [] then lit (1/2)
     else foldl count_pair 0 (List.product xs ys) / (rnd (of_nat (length xs)) * rnd (of_nat (length ys))))"

section \<open>Geometric dilution of precision\<close>

fun los_sums :: "position3d \<Rightarrow> f64 \<times> f64 \<times> f64 \<Rightarrow> position3d list \<Rightarrow> (f64 \<times> f64 \<times> f64) option" where
  "los_sums goal (a, b, d) [] = Some (a, b, d)"
| "los_sums goal (a, b, d) (obs # rest) =
    (let dx = px obs - px goal; dy = py obs - py goal; reach = fsqrt (dx * dx + dy * dy) in
     if reach < lit (1 / 1000000000) then None
     else let ux = dx / reach; uy = dy / reach in los_sums goal (a + ux * ux, b + ux * uy, d + uy * uy) rest)"

definition gdop :: "position3d list \<Rightarrow> position3d \<Rightarrow> f64 option" where
  "gdop observers goal =
    (if length observers < 2 then None
     else Option.bind (los_sums goal (0, 0, 0) observers) (\<lambda>(a, b, d).
       let det = a * d - b * b in
       if fabs det < lit (1 / 1000000000000) then None
       else let trace_inv = (a + d) / det in
         if trace_inv \<le> 0 \<or> \<not> is_finite trace_inv then None else Some (fsqrt trace_inv)))"

section \<open>Metrics\<close>

record episode_metrics =
  em_coverage_pct :: f64
  em_localization_error_m :: "f64 option"
  gdop_at_detection :: "f64 option"
  time_to_first_detection_s :: "f64 option"
  em_detected :: bool
  em_collisions :: u32
  overlap_ratio :: f64
  episodic_return :: f64

record aggregate_metrics =
  coverage_iqm :: confidence_interval
  localization_iqm :: confidence_interval
  agg_detection_rate :: f64
  mean_gdop :: f64
  return_iqm :: confidence_interval
  n_episodes :: nat

definition loc_strata :: "episode_metrics list list \<Rightarrow> f64 list list" where
  "loc_strata per_seed = filter (\<lambda>v. v \<noteq> []) (map (List.map_filter em_localization_error_m) per_seed)"

definition finite_gdops :: "episode_metrics list \<Rightarrow> f64 list" where
  "finite_gdops es = filter is_finite (List.map_filter gdop_at_detection es)"

definition from_strata :: "episode_metrics list list \<Rightarrow> u64 \<Rightarrow> aggregate_metrics option" where
  "from_strata per_seed boot_seed =
    (let es = concat per_seed; n = length es; detected = length (filter em_detected es); gs = finite_gdops es;
         rate = (if n = 0 then 0 else rnd (of_nat detected) / rnd (of_nat n));
         gd = (if gs = [] then 0 else foldl (+) 0 gs / rnd (of_nat (length gs)))
     in Option.bind (stratified_bootstrap_ci (map (map em_coverage_pct) per_seed) 1000 boot_seed) (\<lambda>c.
        Option.bind (stratified_bootstrap_ci (loc_strata per_seed) 1000 (boot_seed + 1)) (\<lambda>l.
        map_option (\<lambda>r. \<lparr>coverage_iqm = c, localization_iqm = l, agg_detection_rate = rate, mean_gdop = gd, return_iqm = r, n_episodes = n\<rparr>)
          (stratified_bootstrap_ci (map (map episodic_return) per_seed) 1000 (boot_seed + 2)))))"

section \<open>The bootstrap never panics\<close>

lemma draw_from_total: "stratum \<noteq> [] \<or> k = 0 \<Longrightarrow> \<exists>xs r'. draw_from stratum k r = Some (xs, r') \<and> length xs = k \<and> set xs \<subseteq> set stratum"
proof (induction k arbitrary: r)
  case (Suc k)
  obtain i r1 where i: "lcg_index r (length stratum) = (i, r1)" by fastforce
  then have "i < length stratum" using Suc.prems by (auto simp: lcg_index_def Let_def split: if_splits)
  moreover obtain xs r' where "draw_from stratum k r1 = Some (xs, r')" "length xs = k" "set xs \<subseteq> set stratum" using Suc by blast
  ultimately show ?case by (simp add: i)
qed simp

lemma resample_total: "\<exists>xs r'. resample strata r = Some (xs, r') \<and> length xs = length (concat strata) \<and> set xs \<subseteq> set (concat strata)"
proof (induction strata arbitrary: r)
  case (Cons s ss)
  obtain xs r1 where "draw_from s (length s) r = Some (xs, r1)" "length xs = length s" "set xs \<subseteq> set s"
    using draw_from_total[of s "length s" r] by auto
  moreover obtain ys r' where "resample ss r1 = Some (ys, r')" "length ys = length (concat ss)" "set ys \<subseteq> set (concat ss)"
    using Cons by blast
  ultimately show ?case by auto
qed simp

lemma replicates_total: "\<exists>reps. replicates strata n r = Some reps \<and> length reps = n"
proof (induction n arbitrary: r)
  case (Suc n)
  obtain xs r1 where "resample strata r = Some (xs, r1)" using resample_total by blast
  moreover obtain reps where "replicates strata n r1 = Some reps" "length reps = n" using Suc by blast
  ultimately show ?case by simp
qed simp

text \<open>The rank of a percentile lies between the first and the last index.\<close>

lemma ffloor_Fin: "0 \<le> q \<Longrightarrow> ffloor (Fin q) = Fin (of_int \<lfloor>q\<rfloor>)"
  by (auto simp: ffloor_def signed_int_def signed_zero_def ceiling_minus)

lemma index_of_count:
  assumes "0 \<le> i" "i \<le> int k" "k < 2 ^ 53"
  shows "unat (as_unsigned (Fin (of_int i) :: f64) :: u64) \<le> k"
proof -
  have t: "trunc (of_int i) = i" using assms(1) by (simp add: trunc_def)
  have "i < 2 ^ 64" using assms(2,3) by simp
  then have "unat (word_of_int i :: u64) = nat i" using assms(1)
    by (simp add: unat_eq_nat_uint uint_word_of_int_eq take_bit_int_eq_self)
  then show ?thesis using assms(1,2) \<open>i < 2 ^ 64\<close> by (simp add: t not_le)
qed

lemma index_bounds:
  assumes "0 \<le> x" "x \<le> (Fin (of_nat k) :: f64)" "k < 2 ^ 53"
  shows "unat (as_unsigned (ffloor x) :: u64) \<le> k \<and> unat (as_unsigned (fceil x) :: u64) \<le> k"
proof -
  consider "x = NZero" | q where "x = Fin q" "0 \<le> q" "q \<le> of_nat k" using assms(1,2) by (auto simp: flt_nonneg_cases)
  then show ?thesis
  proof cases
    case 1
    then show ?thesis by (simp add: ffloor_def trunc_def signed_int_def signed_zero_def)
  next
    case 2
    have "\<lfloor>q\<rfloor> \<le> int k" "\<lceil>q\<rceil> \<le> int k" using 2(3) by (simp_all add: ceiling_le_iff floor_le_iff)
    moreover have "fceil x = Fin (of_int \<lceil>q\<rceil>)" using 2 by (auto simp: signed_int_def signed_zero_def)
    ultimately show ?thesis using 2(1,2) assms(3) index_of_count[of "\<lfloor>q\<rfloor>" k] index_of_count[of "\<lceil>q\<rceil>" k]
      by (simp add: ffloor_Fin)
  qed
qed

lemma percentile_cases: "(xs = [] \<Longrightarrow> P) \<Longrightarrow> (\<And>x. xs = [x] \<Longrightarrow> P) \<Longrightarrow> (\<And>x y ys. xs = x # y # ys \<Longrightarrow> P) \<Longrightarrow> P"
  by (cases xs; cases "tl xs") auto

lemma mk_count: "m < 2 ^ 53 \<Longrightarrow> (mk False (of_nat m) :: f64) = Fin (of_nat m)"
  using lit_nat[of m] by (auto simp: mk_def signed_zero_def)

lemma one_times_count: "m < 2 ^ 53 \<Longrightarrow> 1 * Fin (of_nat m) = (Fin (of_nat m) :: f64)"
  using mk_count[of m] by (simp add: one_flt_def Fin_mult)

lemma percentile_total:
  assumes "0 \<le> p" "p \<le> Fin 100" "length xs < 2 ^ 53"
  shows "\<exists>y. percentile xs p = Some y"
proof (cases "length xs < 2")
  case True
  then show ?thesis by (cases xs rule: percentile_cases) (simp_all add: percentile_def)
next
  case False
  let ?n = "length xs" and ?t = "p / Fin 100"
  have n: "rnd (of_nat ?n) - lit 1 = (Fin (of_nat (?n - 1)) :: f64)"
  proof -
    have e: "(of_nat ?n :: rat) - 1 = of_nat (?n - 1)" using False by (simp add: of_nat_diff)
    have "rnd (of_nat ?n) - lit 1 = (mk False (of_nat (?n - 1)) :: f64)" unfolding lit_nat[OF assms(3)] e[symmetric] by (simp add: Fin_sub)
    also have "\<dots> = Fin (of_nat (?n - 1))" by (rule mk_count) (use assms(3) in simp)
    finally show ?thesis .
  qed
  have f: "is_finite p" using assms(1,2) finite_between[of 0 p "Fin 100"] by simp
  have t0: "0 \<le> ?t" using assms(1) by (rule flt_div_nonneg) simp
  have t1: "?t \<le> 1" using assms(1,2) flt_le_nan[OF t0] by (intro flt_quotient_le_one) simp_all
  let ?r = "?t * Fin (of_nat (?n - 1))"
  have r0: "0 \<le> ?r" using t0 False by (intro flt_mult_nonneg) simp_all
  have "?r \<le> 1 * Fin (of_nat (?n - 1))" using t0 t1 flt_le_nan[OF r0]
    by (intro flt_mult_mono) (simp_all add: one_flt_def Fin_mult)
  also have "1 * Fin (of_nat (?n - 1)) = (Fin (of_nat (?n - 1)) :: f64)"
    using assms(3) by (intro one_times_count) simp
  finally have "unat (as_unsigned (ffloor ?r) :: u64) \<le> ?n - 1" "unat (as_unsigned (fceil ?r) :: u64) \<le> ?n - 1"
    using index_bounds[OF r0] assms(3) by simp_all
  moreover have "?n - 1 < ?n" using False by simp
  ultimately have b: "unat (as_unsigned (ffloor ?r) :: u64) < ?n" "unat (as_unsigned (fceil ?r) :: u64) < ?n" by linarith+
  obtain x y ys where xs: "xs = x # y # ys" using False by (cases xs rule: percentile_cases) auto
  have "lit 100 = (Fin 100 :: f64)" by simp
  then show ?thesis using b unfolding percentile_def xs list.case Let_def n[unfolded xs] by simp
qed

text \<open>The confidence interval: for fewer than two to the 53 replicates it is computed without a panic.\<close>

lemma bootstrap_total:
  assumes "n_boot < 2 ^ 53"
  shows "\<exists>ci. stratified_bootstrap_ci strata n_boot seed = Some ci \<and> ci_point ci = iqm (concat strata)"
proof -
  obtain reps where reps: "replicates strata n_boot (stats_lcg_new seed) = Some reps" "length reps = n_boot"
    using replicates_total by blast
  let ?s = "sort_by partial_cmp_or_equal reps"
  obtain lo hi where "percentile ?s (lit (5/2)) = Some lo" "percentile ?s (lit (195/2)) = Some hi"
    using percentile_total[of "lit (5/2)" ?s] percentile_total[of "lit (195/2)" ?s] assms reps(2) by auto
  then show ?thesis using reps(1) by (simp add: stratified_bootstrap_ci_def Let_def)
qed

section \<open>The probability of improvement\<close>

lemma wins_bounded:
  "0 \<le> wins \<Longrightarrow> wins \<le> Fin (of_nat k) \<Longrightarrow> k + length ps < 2 ^ 53 \<Longrightarrow>
   0 \<le> foldl count_pair wins ps \<and> foldl count_pair wins ps \<le> Fin (of_nat (k + length ps))"
proof (induction ps arbitrary: wins k)
  case (Cons p ps)
  have step: "0 \<le> wins + w \<and> wins + w \<le> Fin (of_nat (Suc k))" if w: "w = Fin 1 \<or> w = Fin (1/2) \<or> w = Fin 0" for w
  proof -
    have k: "(Fin (of_nat k) + Fin 1 :: f64) = Fin (of_nat (Suc k))"
      using Cons.prems(3) lit_nat[of "Suc k"] by (simp add: Fin_add mk_def add.commute)
    have nn: "0 \<le> wins + w" using Cons.prems(1) w by (intro flt_add_nonneg) auto
    have "wins + w \<le> Fin (of_nat k) + Fin 1" using Cons.prems(2) w flt_le_nan[OF nn] by (intro flt_add_mono) (auto simp: k)
    with nn show ?thesis by (simp add: k)
  qed
  have "wins \<le> Fin (of_nat (Suc k))" using Cons.prems(2) by (rule flt_le_trans) simp
  then have "0 \<le> count_pair wins p \<and> count_pair wins p \<le> Fin (of_nat (Suc k))"
    using step[of "Fin 1"] step[of "Fin (1/2)"] Cons.prems(1) by (simp add: count_pair_def case_prod_beta representable_fraction)
  then show ?case using Cons.IH[of "count_pair wins p" "Suc k"] Cons.prems(3) by simp
qed simp

lemma probability_unit:
  assumes "length xs * length ys < 2 ^ 53"
  shows "0 \<le> probability_of_improvement xs ys \<and> probability_of_improvement xs ys \<le> 1"
proof (cases "xs = [] \<or> ys = []")
  case True
  then show ?thesis by (simp add: probability_of_improvement_def one_flt_def)
next
  case False
  let ?n = "length xs * length ys"
  have n: "0 < ?n" "length xs \<le> ?n" "length ys \<le> ?n" using False by (auto simp: Suc_le_eq)
  then have l: "length xs < 2 ^ 53" "length ys < 2 ^ 53" using assms by linarith+
  have d: "(rnd (of_nat (length xs)) * rnd (of_nat (length ys)) :: f64) = Fin (of_nat ?n)"
    using n(1) lit_nat[OF l(1)] lit_nat[OF l(2)] lit_nat[OF assms] by (simp add: Fin_mult mk_def)
  let ?w = "foldl count_pair 0 (List.product xs ys)"
  have w: "0 \<le> ?w \<and> ?w \<le> Fin (of_nat ?n)" using wins_bounded[of 0 0 "List.product xs ys"] assms by simp
  have q: "0 \<le> ?w / Fin (of_nat ?n)" using w n(1) by (intro flt_div_nonneg) simp_all
  moreover have "?w / Fin (of_nat ?n) \<le> 1" using w n(1) flt_le_nan[OF q] by (intro flt_quotient_le_one) simp_all
  ultimately show ?thesis using False by (simp add: probability_of_improvement_def d)
qed

text \<open>
  A difference below the machine epsilon is a win in one order and a tie in the other: the two probabilities of such a pair add up to
  one and a half.
\<close>

lemma near_tie_counts_more:
  "probability_of_improvement [Fin (1 / 2 ^ 53)] [0] = 1" "probability_of_improvement [0] [Fin (1 / 2 ^ 53)] = Fin (1/2)"
proof -
  have r: "representable TYPE(64) (1 / 9007199254740992)" unfolding representable_def
    by (rule exI[of _ 1], rule exI[of _ "- 53"]) (simp add: power_int_minus_divide)
  have "(rnd (- (1 / 9007199254740992)) :: f64) = Fin (- (1 / 9007199254740992))"
  proof (rule rnd_exact)
    show "representable TYPE(64) (- (1 / 9007199254740992))" unfolding representable_def
      by (rule exI[of _ "- 1"], rule exI[of _ "- 53"]) (simp add: power_int_minus_divide)
  qed
  then show "probability_of_improvement [Fin (1 / 2 ^ 53)] [0] = 1" "probability_of_improvement [0] [Fin (1 / 2 ^ 53)] = Fin (1/2)"
    by (simp_all add: probability_of_improvement_def count_pair_def f64_epsilon_def fin_arith)
qed

section \<open>What the metrics say\<close>

text \<open>A dilution is reported only for two or more observers, and is a non-negative finite number.\<close>

lemma gdop_finite: "gdop obs goal = Some g \<Longrightarrow> 2 \<le> length obs \<and> is_finite g \<and> 0 \<le> g"
proof -
  assume "gdop obs goal = Some g"
  then obtain t where t: "\<not> length obs < 2" "\<not> t \<le> 0" "is_finite t" "g = fsqrt t"
    by (auto simp: gdop_def Let_def bind_eq_Some_conv split: if_splits)
  then have "0 \<le> t" by (cases t) auto
  then show ?thesis using t fsqrt_nonneg[of t] by (cases t) auto
qed

text \<open>An observer above or at the target, within a nanometre in the plane, makes the dilution undefined.\<close>

lemma gdop_coincident: "px obs = Fin x \<Longrightarrow> py obs = Fin y \<Longrightarrow> px goal = Fin x \<Longrightarrow> py goal = Fin y \<Longrightarrow> gdop (obs # rest) goal = None"
proof -
  obtain r where "(lit (1 / 1000000000) :: f64) = Fin r" "0 < r"
    by (rule lit_pos[of "1 / 1073741824" 1 "1 / 1000000000"]) (auto intro: representable_fraction representable_numeral)
  then show "px obs = Fin x \<Longrightarrow> py obs = Fin y \<Longrightarrow> px goal = Fin x \<Longrightarrow> py goal = Fin y \<Longrightarrow> ?thesis"
    by (simp add: gdop_def Let_def fin_arith)
qed

text \<open>
  Aggregation returns: over whatever episodes no draw and no percentile leaves its array, every episode is counted, the detection rate is a
  fraction of one, and the point of each interval is the interquartile mean of all its samples; undetected episodes carry no error.
\<close>
theorem aggregation_is_total:
  assumes "length (concat per_seed) < 2 ^ 53"
  shows "\<exists>m. from_strata per_seed seed = Some m \<and> n_episodes m = length (concat per_seed) \<and>
    0 \<le> agg_detection_rate m \<and> agg_detection_rate m \<le> 1 \<and>
    ci_point (coverage_iqm m) = iqm (map em_coverage_pct (concat per_seed)) \<and>
    ci_point (localization_iqm m) = iqm (List.map_filter em_localization_error_m (concat per_seed)) \<and>
    ci_point (return_iqm m) = iqm (map episodic_return (concat per_seed))"
proof -
  have loc: "concat (loc_strata per_seed) = List.map_filter em_localization_error_m (concat per_seed)"
    unfolding loc_strata_def by (induction per_seed) (auto simp: map_filter_def)
  have t: "\<exists>ci. stratified_bootstrap_ci strata 1000 s = Some ci \<and> ci_point ci = iqm (concat strata)" for strata s
    by (rule bootstrap_total) simp
  obtain c l r where b: "stratified_bootstrap_ci (map (map em_coverage_pct) per_seed) 1000 seed = Some c"
      "stratified_bootstrap_ci (loc_strata per_seed) 1000 (seed + 1) = Some l"
      "stratified_bootstrap_ci (map (map episodic_return) per_seed) 1000 (seed + 2) = Some r"
      "ci_point c = iqm (concat (map (map em_coverage_pct) per_seed))" "ci_point l = iqm (concat (loc_strata per_seed))"
      "ci_point r = iqm (concat (map (map episodic_return) per_seed))"
    using t[of "map (map em_coverage_pct) per_seed" seed] t[of "loc_strata per_seed" "seed + 1"]
      t[of "map (map episodic_return) per_seed" "seed + 2"] by blast
  let ?n = "length (concat per_seed)" and ?d = "length (filter em_detected (concat per_seed))"
  have rate: "0 \<le> rate \<and> rate \<le> 1" if "rate = (if ?n = 0 then 0 else rnd (of_nat ?d) / rnd (of_nat ?n) :: f64)" for rate
  proof (cases "?n = 0")
    case False
    have le: "?d \<le> ?n" by (rule length_filter_le)
    then have "?d < 2 ^ 53" using assms by linarith
    then have q: "(rnd (of_nat ?d) :: f64) = Fin (of_nat ?d)" "(rnd (of_nat ?n) :: f64) = Fin (of_nat ?n)" using assms by (simp_all add: lit_nat)
    have p: "(0 :: f64) \<le> Fin (of_nat ?d) / Fin (of_nat ?n)" using False by (intro flt_div_nonneg) simp_all
    have "Fin (of_nat ?d) / Fin (of_nat ?n) \<le> (1 :: f64)" using False le flt_le_nan[OF p] by (intro flt_quotient_le_one) simp_all
    with p show ?thesis using that False by (simp add: q one_flt_def)
  qed (use that in \<open>simp add: one_flt_def\<close>)
  show ?thesis using b rate loc by (simp add: from_strata_def Let_def map_concat)
qed

definition demo_episode :: "f64 \<Rightarrow> f64 option \<Rightarrow> bool \<Rightarrow> episode_metrics" where
  "demo_episode cov loc found = \<lparr>em_coverage_pct = cov, em_localization_error_m = loc, gdop_at_detection = None,
     time_to_first_detection_s = None, em_detected = found, em_collisions = 0, overlap_ratio = 0, episodic_return = cov\<rparr>"

theorem aggregation_is_total_witness:
  "\<exists>m. from_strata [[demo_episode (lit (3/4)) (Some (lit 2)) True], [demo_episode (lit (1/2)) None False]] 7 = Some m \<and> n_episodes m = 2 \<and>
    agg_detection_rate m \<le> 1"
  using aggregation_is_total[of "[[demo_episode (lit (3/4)) (Some (lit 2)) True], [demo_episode (lit (1/2)) None False]]" 7] by auto

end
