(* ===== verification/EvalRunner.thy ===== *)
theory EvalRunner
  imports EvalStats Config
begin

text \<open>
  The kinematic rollouts of \<open>src/evals/runner.rs\<close>: one episode flies the drones of a configuration under a flight pattern over a
  coverage grid and records the first detection. The transcendental functions are parameters; casts saturate, counters saturate, an index
  out of bounds, an unordered \<open>clamp\<close> and a grid that exceeds the address space are panics.
\<close>

section \<open>Configuration and generator\<close>

record noise_level =
  nl_sigma :: f64
  nl_kappa :: f64

record eval_config =
  ev_flight :: flight_pattern
  ev_config :: swarm_config
  ev_drones :: nat
  ev_steps :: nat
  ev_seeds :: nat
  episodes_per_seed :: nat
  ev_victims :: "position3d list"
  ev_noise :: noise_level

definition sar_small :: "flight_pattern \<Rightarrow> eval_config" where
  "sar_small flight =
    \<lparr>ev_flight = flight, ev_config = sar_default, ev_drones = 4, ev_steps = 120, ev_seeds = 10, episodes_per_seed = 10,
     ev_victims = [\<lparr>px = lit 120, py = lit 90, pz = lit 0\<rparr>, \<lparr>px = lit 320, py = lit 280, pz = lit 0\<rparr>],
     ev_noise = \<lparr>nl_sigma = lit (5 / 100), nl_kappa = lit 8\<rparr>\<rparr>"

record eval_env =
  ev_math :: math_env
  ev_ln :: "f64 \<Rightarrow> f64"
  ev_atan2 :: "f64 \<Rightarrow> f64 \<Rightarrow> f64"

definition runner_lcg_new :: "u64 \<Rightarrow> u64" where
  "runner_lcg_new seed = xor seed 0xD1B54A32D192ED03"

definition draw_unit :: "u64 \<Rightarrow> f64 \<times> u64" where
  "draw_unit r = (unit_of (lcg r), lcg r)"

definition draw_normal :: "eval_env \<Rightarrow> u64 \<Rightarrow> f64 \<times> u64" where
  "draw_normal E r =
    (let (a, r1) = draw_unit r; (u2, r2) = draw_unit r1; u1 = fmax a (lit (1 / 1000000000000))
     in (fsqrt (- lit 2 * ev_ln E u1) * m_cos (ev_math E) (lit 2 * pi_f64 * u2), r2))"

section \<open>Fusing an estimate\<close>

definition horiz_dist :: "eval_env \<Rightarrow> position3d \<Rightarrow> position3d \<Rightarrow> f64" where
  "horiz_dist E a b = m_hypot (ev_math E) (px a - px b) (py a - py b)"

definition fuse_one :: "eval_env \<Rightarrow> noise_level \<Rightarrow> f64 \<Rightarrow> position3d \<Rightarrow> f64 \<times> f64 \<times> f64 \<times> u64 \<Rightarrow> position3d \<Rightarrow> f64 \<times> f64 \<times> f64 \<times> u64" where
  "fuse_one E noise phase_std victim = (\<lambda>(sx, sy, wsum, r) c.
    let reach = fmax (horiz_dist E c victim) (lit (1 / 1000000)); amp = nl_sigma noise * reach;
        (gx, r1) = draw_normal E r; (gy, r2) = draw_normal E r1;
        bearing = ev_atan2 E (py victim - py c) (px victim - px c);
        (gt, r3) = draw_normal E r2; dtheta = gt * phase_std;
        ex = px c + reach * m_cos (ev_math E) (bearing + dtheta) + gx * amp;
        ey = py c + reach * m_sin (ev_math E) (bearing + dtheta) + gy * amp;
        w = lit 1 / reach
    in (sx + ex * w, sy + ey * w, wsum + w, r3))"

definition fuse_estimate :: "eval_env \<Rightarrow> position3d list \<Rightarrow> position3d \<Rightarrow> noise_level \<Rightarrow> u64 \<Rightarrow> (position3d \<times> f64 option) \<times> u64" where
  "fuse_estimate E contributors victim noise r =
    (let phase_std = lit 1 / fsqrt (fmax (nl_kappa noise) (lit (1 / 1000)));
         (sx, sy, wsum, r') = foldl (fuse_one E noise phase_std victim) (0, 0, 0, r) contributors;
         w = fmax wsum (lit (1 / 1000000000))
     in ((\<lparr>px = sx / w, py = sy / w, pz = 0\<rparr>, gdop contributors victim), r'))"

section \<open>The state of an episode\<close>

record layout =
  lay_scan :: f64
  lay_min_sep :: f64
  lay_n :: nat
  lay_gx :: nat
  lay_gy :: nat
  lay_cell_w :: f64
  lay_cell_h :: f64

definition cell_count :: "f64 \<Rightarrow> f64 \<Rightarrow> nat" where
  "cell_count extent w = max (unat (as_unsigned (fceil (extent / w)) :: u64)) 1"

definition layout_of :: "eval_config \<Rightarrow> layout" where
  "layout_of cfg =
    (let m = cfg_mission (ev_config cfg); scan = fmax (csi_scan_width_m (cfg_planning (ev_config cfg))) (lit 1);
         gx = cell_count (area_width_m m) scan; gy = cell_count (area_height_m m) scan
     in \<lparr>lay_scan = scan, lay_min_sep = fmax (min_separation_m (cfg_formation (ev_config cfg))) (lit (1 / 10)), lay_n = max (ev_drones cfg) 1,
         lay_gx = gx, lay_gy = gy, lay_cell_w = area_width_m m / rnd (of_nat gx), lay_cell_h = area_height_m m / rnd (of_nat gy)\<rparr>)"

record episode =
  ep_rng :: u64
  ep_positions :: "position3d list"
  ep_cover :: "u32 list"
  ep_visited :: "position3d list"
  ep_collisions :: u32
  ep_detected :: bool
  ep_loc_error :: "f64 option"
  ep_gdop :: "f64 option"
  ep_t_detect :: "f64 option"

text \<open>Drones start along the bottom edge with a seeded jitter.\<close>

fun jittered_positions :: "eval_config \<Rightarrow> layout \<Rightarrow> nat list \<Rightarrow> u64 \<Rightarrow> (position3d list \<times> u64) option" where
  "jittered_positions cfg L [] r = Some ([], r)"
| "jittered_positions cfg L (i # is) r =
    (let m = cfg_mission (ev_config cfg); frac = (rnd (of_nat i) + lit (1/2)) / rnd (of_nat (lay_n L));
         (u, r1) = draw_unit r; (v, r2) = draw_unit r1
     in Option.bind (fclamp (frac * area_width_m m + (u - lit (1/2)) * lay_scan L) 0 (area_width_m m)) (\<lambda>x.
        Option.bind (fclamp (v * lay_scan L) 0 (area_height_m m)) (\<lambda>y.
          map_option (\<lambda>(ps, r'). (\<lparr>px = x, py = y, pz = - flight_altitude_m (cfg_planning (ev_config cfg))\<rparr> # ps, r'))
            (jittered_positions cfg L is r2))))"

text \<open>They are collected in one piece of 24 bytes a drone: more than \<open>isize::MAX\<close> bytes are a panic.\<close>

definition start_positions :: "eval_config \<Rightarrow> layout \<Rightarrow> u64 \<Rightarrow> (position3d list \<times> u64) option" where
  "start_positions cfg L r = (if 2 ^ 63 - 1 < 24 * lay_n L then None else jittered_positions cfg L [0..<lay_n L] r)"

definition context_for :: "eval_config \<Rightarrow> layout \<Rightarrow> position3d list \<Rightarrow> position3d list \<Rightarrow> nat \<Rightarrow> nat \<Rightarrow> position3d \<Rightarrow> pattern_context" where
  "context_for cfg L snapshot vis k i p =
    \<lparr>ctx_drone_id = of_nat i, swarm_size = lay_n L, ctx_current = p, area_w = area_width_m (cfg_mission (ev_config cfg)),
     area_h = area_height_m (cfg_mission (ev_config cfg)), altitude_z = - flight_altitude_m (cfg_planning (ev_config cfg)),
     scan_width_m = lay_scan L, ctx_step = of_nat k, visited = vis,
     ctx_peers = map snd (filter (\<lambda>(j, _). j \<noteq> i) (enumerate 0 snapshot))\<rparr>"

fun advance :: "eval_env \<Rightarrow> eval_config \<Rightarrow> layout \<Rightarrow> position3d list \<Rightarrow> position3d list \<Rightarrow> nat \<Rightarrow> nat \<Rightarrow> position3d list \<Rightarrow> position3d list option" where
  "advance E cfg L snapshot vis k i [] = Some []"
| "advance E cfg L snapshot vis k i (p # ps) =
    Option.bind (pattern_target (ev_math E) (ev_flight cfg) (context_for cfg L snapshot vis k i p)) (\<lambda>q.
      map_option (Cons q) (advance E cfg L snapshot vis k (Suc i) ps))"

text \<open>\<open>(floor as i64).clamp(0, n as i64 - 1) as usize\<close>\<close>

definition cell_coord :: "f64 \<Rightarrow> f64 \<Rightarrow> nat \<Rightarrow> nat option" where
  "cell_coord x w n =
    (let i = sint (as_signed (ffloor (x / w)) :: 64 word); hi = sint (of_nat n - 1 :: 64 word)
     in if hi < 0 then None else Some (nat (max 0 (min i hi))))"

definition mark_cover :: "layout \<Rightarrow> u32 list \<Rightarrow> position3d \<Rightarrow> u32 list option" where
  "mark_cover L cover p =
    Option.bind (cell_coord (px p) (lay_cell_w L) (lay_gx L)) (\<lambda>cx.
    Option.bind (cell_coord (py p) (lay_cell_h L) (lay_gy L)) (\<lambda>cy.
      let i = (cy * lay_gx L + cx) mod 2 ^ 64
      in if i < length cover then Some (cover[i := sat_add (cover ! i) 1]) else None))"

definition max_visited :: nat where
  "max_visited = 32"

definition remember :: "position3d list \<Rightarrow> position3d list \<Rightarrow> position3d list" where
  "remember vis ps = (let v = vis @ ps in drop (length v - max_visited) v)"

definition close_pairs_of :: "f64 \<Rightarrow> position3d list \<Rightarrow> nat" where
  "close_pairs_of min_sep ps =
    length (filter (\<lambda>(i, j). distance_to (ps ! i) (ps ! j) < min_sep) (concat (map (\<lambda>i. map (Pair i) [Suc i..<length ps]) [0..<length ps])))"

definition count_collisions :: "f64 \<Rightarrow> position3d list \<Rightarrow> u32 \<Rightarrow> u32" where
  "count_collisions min_sep ps c = foldl (\<lambda>c _. sat_add c 1) c (replicate (close_pairs_of min_sep ps) ())"

text \<open>The first victim with a drone in range, and the drones in its range.\<close>

definition contributors_of :: "eval_env \<Rightarrow> f64 \<Rightarrow> position3d list \<Rightarrow> position3d \<Rightarrow> position3d list" where
  "contributors_of E reach ps victim = filter (\<lambda>p. horiz_dist E p victim \<le> reach) ps"

definition step_seconds :: "eval_config \<Rightarrow> f64" where
  "step_seconds cfg =
    (let speed = fmax (max_speed_ms (cfg_planning (ev_config cfg))) (lit (1 / 10))
     in fmax (fmax (csi_scan_width_m (cfg_planning (ev_config cfg))) (lit 1) / speed) (lit (1 / 10)))"

definition detect_step :: "eval_env \<Rightarrow> eval_config \<Rightarrow> layout \<Rightarrow> nat \<Rightarrow> episode \<Rightarrow> episode" where
  "detect_step E cfg L k s =
    (if ep_detected s then s
     else case find (\<lambda>v. contributors_of E (lay_scan L) (ep_positions s) v \<noteq> []) (ev_victims cfg) of
         None \<Rightarrow> s
       | Some v \<Rightarrow>
           let ((est, g), r) = fuse_estimate E (contributors_of E (lay_scan L) (ep_positions s) v) v (ev_noise cfg) (ep_rng s)
           in s\<lparr>ep_rng := r, ep_loc_error := Some (horiz_dist E est v), ep_gdop := g,
                ep_t_detect := Some ((rnd (of_nat k) + lit 1) * step_seconds cfg), ep_detected := True\<rparr>)"

definition episode_step :: "eval_env \<Rightarrow> eval_config \<Rightarrow> layout \<Rightarrow> episode \<Rightarrow> nat \<Rightarrow> episode option" where
  "episode_step E cfg L s k =
    Option.bind (advance E cfg L (ep_positions s) (ep_visited s) k 0 (ep_positions s)) (\<lambda>ps.
    Option.bind (prun (mark_cover L) (ep_cover s) ps) (\<lambda>cover.
      let s1 = s\<lparr>ep_positions := ps, ep_cover := cover, ep_visited := remember (ep_visited s) ps,
                 ep_collisions := count_collisions (lay_min_sep L) ps (ep_collisions s)\<rparr>
      in Some (detect_step E cfg L k s1)))"

section \<open>The episode\<close>

definition score :: "f64 \<Rightarrow> f64 \<Rightarrow> episode \<Rightarrow> f64" where
  "score coverage overlap s =
    (let bonus = (if ep_detected s then lit 1 else 0);
         loc_term = (case ep_loc_error s of Some e \<Rightarrow> fmax (lit 1 / (lit 1 + e)) 0 | None \<Rightarrow> 0)
     in lit 100 * coverage + lit 30 * bonus + lit 20 * loc_term - lit 10 * overlap - lit 5 * of_unsigned (ep_collisions s))"

definition metrics_of :: "layout \<Rightarrow> episode \<Rightarrow> episode_metrics" where
  "metrics_of L s =
    (let cells_total = rnd (of_nat ((lay_gx L * lay_gy L) mod 2 ^ 64)); scanned = rnd (of_nat (length (filter (\<lambda>c. 0 < c) (ep_cover s))));
         overlapped = rnd (of_nat (length (filter (\<lambda>c. 1 < c) (ep_cover s))));
         coverage = (if 0 < cells_total then scanned / cells_total else 0); overlap = (if 0 < scanned then overlapped / scanned else 0)
     in \<lparr>em_coverage_pct = coverage, em_localization_error_m = ep_loc_error s, gdop_at_detection = ep_gdop s,
         time_to_first_detection_s = ep_t_detect s, em_detected = ep_detected s, em_collisions = ep_collisions s,
         overlap_ratio = overlap, episodic_return = score coverage overlap s\<rparr>)"

text \<open>The grid is a vector of \<open>gx * gy\<close> counters of four bytes; the product wraps, and more than \<open>isize::MAX\<close> bytes are refused.\<close>

definition new_cover :: "layout \<Rightarrow> u32 list option" where
  "new_cover L = (let n = (lay_gx L * lay_gy L) mod 2 ^ 64 in if 2 ^ 63 - 1 < 4 * n then None else Some (replicate n 0))"

definition run_episode :: "eval_env \<Rightarrow> eval_config \<Rightarrow> u64 \<Rightarrow> episode_metrics option" where
  "run_episode E cfg seed =
    (let L = layout_of cfg in
     Option.bind (new_cover L) (\<lambda>cover.
     Option.bind (start_positions cfg L (runner_lcg_new seed)) (\<lambda>(ps, r).
       map_option (metrics_of L)
         (prun (episode_step E cfg L)
           \<lparr>ep_rng = r, ep_positions = ps, ep_cover = cover, ep_visited = [], ep_collisions = 0, ep_detected = False,
            ep_loc_error = None, ep_gdop = None, ep_t_detect = None\<rparr> [0..<ev_steps cfg]))))"

definition cell_seed :: "nat \<Rightarrow> nat \<Rightarrow> u64" where
  "cell_seed s e = of_nat s * 0x1000000 + of_nat e + 0xABCD"

fun run_all :: "('a \<Rightarrow> 'b option) \<Rightarrow> 'a list \<Rightarrow> 'b list option" where
  "run_all f [] = Some []"
| "run_all f (x # xs) = Option.bind (f x) (\<lambda>y. map_option (Cons y) (run_all f xs))"

text \<open>
  The rows are collected in one piece of 24 bytes, a row's episodes in one piece of 80 bytes each: more than \<open>isize::MAX\<close> bytes are a panic.
\<close>

definition run_seed :: "eval_env \<Rightarrow> eval_config \<Rightarrow> nat \<Rightarrow> episode_metrics list option" where
  "run_seed E cfg s =
    (if 2 ^ 63 - 1 < 80 * episodes_per_seed cfg then None
     else run_all (\<lambda>e. run_episode E cfg (cell_seed s e)) [0..<episodes_per_seed cfg])"

definition run_matrix :: "eval_env \<Rightarrow> eval_config \<Rightarrow> episode_metrics list list option" where
  "run_matrix E cfg = (if 2 ^ 63 - 1 < 24 * ev_seeds cfg then None else run_all (run_seed E cfg) [0..<ev_seeds cfg])"

definition default_noise_sweep :: "noise_level list" where
  "default_noise_sweep =
    concat (map (\<lambda>s. map (\<lambda>k. \<lparr>nl_sigma = s, nl_kappa = k\<rparr>) [lit 16, lit 8, lit 4]) [lit (2 / 100), lit (5 / 100), lit (1 / 10)])"

section \<open>The layout of an evaluation\<close>

text \<open>An area of up to two to the 30 metres a side and fewer than two to the 53 drones, whatever the scan width and the speed.\<close>

definition side_ok :: "f64 \<Rightarrow> bool" where
  "side_ok x \<longleftrightarrow> valid x \<and> 0 \<le> x \<and> x \<le> Fin 1073741824"

definition eval_ok :: "eval_config \<Rightarrow> bool" where
  "eval_ok cfg \<longleftrightarrow> side_ok (area_width_m (cfg_mission (ev_config cfg))) \<and> side_ok (area_height_m (cfg_mission (ev_config cfg))) \<and> ev_drones cfg < 2 ^ 53"

lemma cells_bound:
  fixes extent w :: f64
  assumes "valid extent" "0 \<le> extent" "extent \<le> Fin (of_nat k)" "1 \<le> w" "k < 2 ^ 53"
  shows "unat (as_unsigned (fceil (extent / w)) :: u64) \<le> k"
proof (cases "is_nan (extent / w)")
  case True
  then show ?thesis by (cases "extent / w") simp_all
next
  case False
  have "0 < w" using assms(4) flt_less_le_trans[of 0 1 w] by (simp add: one_flt_def)
  then have q0: "0 \<le> extent / w" by (intro not_neg_number[OF not_neg_div[OF not_neg_nonneg[OF assms(2)]] False] disjI2)
  have q1: "extent / w \<le> extent" using assms(1,2,4) False by (rule flt_div_le)
  show ?thesis by (rule conjunct2[OF index_bounds[OF q0 flt_le_trans[OF q1 assms(3)] assms(5)]])
qed

lemma lawn_count_bound:
  assumes "valid extent" "0 \<le> extent" "extent \<le> Fin (of_nat k)" "1 \<le> w" "k < 2 ^ 53" "1 \<le> k"
  shows "unat (lawn_count extent w) \<le> k \<and> 0 < unat (lawn_count extent w)"
proof -
  have "unat (as_unsigned (fceil (fmax extent w / w)) :: u64) \<le> k"
  proof (cases "extent < w")
    case True
    have w: "0 < w" "w \<le> w" using assms(4) flt_less_le_trans[of 0 1 w] flt_le_nan[OF assms(4)] by (simp_all add: one_flt_def)
    have f: "fmax extent w = w" using True flt_less_nan[OF True] by (simp add: fmax_def)
    show ?thesis
    proof (cases "is_nan (w / w)")
      case True
      then show ?thesis unfolding f by (cases "w / w") simp_all
    next
      case False
      have q0: "0 \<le> w / w" using w(1) by (intro not_neg_number[OF not_neg_div[OF not_neg_nonneg[OF flt_less_imp_le[OF w(1)]]] False] disjI2)
      have q1: "w / w \<le> 1" using w False flt_less_imp_le[OF w(1)] by (intro flt_quotient_le_one)
      have k: "(1 :: f64) \<le> Fin (of_nat k)" using assms(6) by (simp add: one_flt_def)
      show ?thesis unfolding f by (rule conjunct2[OF index_bounds[OF q0 flt_le_trans[OF q1 k] assms(5)]])
    qed
  next
    case False
    then have "fmax extent w = extent" using flt_le_nan[OF assms(2)] flt_le_nan[OF assms(4)] by (simp add: fmax_def)
    then show ?thesis using cells_bound[OF assms(1-5)] by simp
  qed
  then show ?thesis using assms(6) by (simp add: lawn_count_def max_def word_le_nat_alt)
qed

lemma scan_ge_one: "1 \<le> lay_scan (layout_of cfg)"
  using fmax_not_nan(2)[of "lit 1 :: f64" "csi_scan_width_m (cfg_planning (ev_config cfg))"] by (simp add: layout_of_def Let_def one_flt_def)

lemma cell_count_bound: "side_ok x \<Longrightarrow> 1 \<le> w \<Longrightarrow> 1 \<le> cell_count x w \<and> cell_count x w \<le> 2 ^ 30"
  using cells_bound[of x "2 ^ 30" w] by (simp add: side_ok_def cell_count_def)

lemma layout_counts:
  assumes "eval_ok cfg"
  shows "1 \<le> lay_gx (layout_of cfg) \<and> lay_gx (layout_of cfg) \<le> 2 ^ 30 \<and> 1 \<le> lay_gy (layout_of cfg) \<and> lay_gy (layout_of cfg) \<le> 2 ^ 30 \<and>
    1 \<le> lay_n (layout_of cfg) \<and> lay_n (layout_of cfg) < 2 ^ 53"
  using assms scan_ge_one[of cfg] cell_count_bound by (simp add: layout_of_def Let_def eval_ok_def)

lemma cells_fit:
  assumes "eval_ok cfg"
  shows "lay_gx (layout_of cfg) * lay_gy (layout_of cfg) \<le> 2 ^ 60 \<and> 1 \<le> lay_gx (layout_of cfg) * lay_gy (layout_of cfg)"
proof -
  note c = layout_counts[OF assms]
  have "lay_gx (layout_of cfg) * lay_gy (layout_of cfg) \<le> 2 ^ 30 * 2 ^ 30" using c by (intro mult_le_mono) simp_all
  moreover have "1 * 1 \<le> lay_gx (layout_of cfg) * lay_gy (layout_of cfg)" using c by (intro mult_le_mono) simp_all
  ultimately show ?thesis by simp
qed

section \<open>The lawnmower cycles do not wrap\<close>

lemma product_no_wrap:
  fixes a b :: u64
  assumes "unat a \<le> 3221225472" "unat b \<le> 1073741824" "0 < unat a" "0 < unat b"
  shows "a * b \<noteq> 0"
proof -
  have "unat a * unat b \<le> 3221225472 * 1073741824" using assms(1,2) by (rule mult_le_mono)
  then have "unat (a * b) = unat a * unat b" by (intro unat_mult_lem[THEN iffD1]) simp
  then show ?thesis using assms(3,4) by (metis mult_is_0 not_less_zero unat_0)
qed

lemma rnd_u64: "n < 2 ^ 64 \<Longrightarrow> (rnd (of_nat n) :: f64) \<le> Fin (2 ^ 64)"
proof -
  assume "n < 2 ^ 64"
  then have "(of_nat n :: rat) \<le> of_nat (2 ^ 64)" by (simp only: of_nat_le_iff less_imp_le)
  then have "(rnd (of_nat n) :: f64) \<le> rnd (2 ^ 64)" by (intro rnd_mono) simp
  then show ?thesis using rnd_power[of 64] by simp
qed

lemma rval_mk_near: "is_finite (mk b q :: f64) \<Longrightarrow> \<bar>rval (mk b q :: f64) - q\<bar> \<le> \<bar>q\<bar> / 2 ^ 53 + 1 / 2 ^ 100"
  using rval_near[of q] by (simp add: mk_def signed_zero_def split: if_splits)

lemma strip_edge:
  assumes "side_ok (area_w c)" "swarm_size c < 2 ^ 64"
  shows "snd (strip c) \<le> Fin 3221225472"
proof -
  let ?n = "max (swarm_size c) 1" and ?i = "unat (ctx_drone_id c) mod max (swarm_size c) 1"
  have big: "?n < 2 ^ 64" "?i \<le> ?n" using assms(2) mod_less_divisor[of ?n "unat (ctx_drone_id c)"] by simp_all
  obtain n where n: "(rnd (of_nat ?n) :: f64) = Fin n" "1 \<le> n" using big(1) by (rule_tac rnd_count[of ?n]) auto
  have i64: "?i < 2 ^ 64" using big by linarith
  have n64: "n \<le> 2 ^ 64" using rnd_u64[OF big(1)] n(1) by simp
  obtain r where r: "(rnd (of_nat ?i) :: f64) = Fin r" "0 \<le> r" using count_number[OF i64] by blast
  have rn: "r \<le> n" using rnd_mono[of "of_nat ?i" "of_nat ?n", where 'a = 64] big(2) by (simp only: n(1) r(1) of_nat_le_iff Fin_ord)
  define a where "a = rval (area_w c)"
  have fa: "is_finite (area_w c)" using assms(1) finite_between[of 0 "area_w c" "Fin 1073741824"] by (simp add: side_ok_def)
  have a: "0 \<le> a" "a \<le> 1073741824" using assms(1) fa by (simp_all add: side_ok_def a_def finite_le_rval)
  define w where "w = area_w c / rnd (of_nat ?n)"
  have w_mk: "w = mk (neg_bit (area_w c)) (a / n)" using fa n by (simp add: w_def finite_div a_def)
  have an: "0 \<le> a / n" "a / n \<le> a" using a n(2) mult_left_mono[of 1 n a] by (simp_all add: divide_le_eq)
  have "is_finite (rnd (a / n) :: f64)" using an a by (intro rnd_finite[of _ 30]) simp_all
  then have fw: "is_finite w" unfolding w_mk by (simp add: mk_def signed_zero_def)
  have near: "\<bar>rval w - a / n\<bar> \<le> \<bar>a / n\<bar> / 2 ^ 53 + 1 / 2 ^ 100" using rval_mk_near fw unfolding w_mk by blast
  have w0: "0 \<le> w" unfolding w_mk using an(1) by (rule mk_nonneg)
  then have rw: "0 \<le> rval w" using fw by (simp add: finite_le_rval)
  have wa: "w \<le> Fin 1073741824" unfolding w_mk mk_le_rval
    using rnd_mono[of "a / n" 1073741824, where 'a = 64] an a by (simp add: rnd_exact representable_numeral)
  have "rval w \<le> a / n + (a / n / 2 ^ 53 + 1 / 2 ^ 100)" using near unfolding abs_of_nonneg[OF an(1)] by linarith
  then have "n * rval w \<le> n * (a / n + (a / n / 2 ^ 53 + 1 / 2 ^ 100))" using n(2) by (intro mult_left_mono) simp_all
  also have "\<dots> = a + a / 2 ^ 53 + n / 2 ^ 100" using n(2) by (simp add: field_simps)
  also have "\<dots> \<le> 2 ^ 31" using a n64 by simp
  finally have nw: "n * rval w \<le> 2 ^ 31" .
  have "r * rval w \<le> n * rval w" using rn rw by (rule mult_right_mono)
  with nw have rw31: "r * rval w \<le> 2 ^ 31" by linarith
  have "Fin r * w = mk (neg_bit (Fin r :: f64) \<noteq> neg_bit w) (r * rval w)" using fw by (simp add: finite_mult)
  then have x0: "Fin r * w \<le> Fin 2147483648"
    using rnd_mono[OF rw31, where 'a = 64] rnd_power[of 31] by (simp add: mk_le_rval)
  have "0 \<le> Fin r * w" using w0 r(2) fw by (cases w) (auto simp: times_flt_def is_zero_def mk_nonneg)
  then have nn: "\<not> is_nan (Fin r * w + w)" using flt_le_nan[OF flt_add_nonneg[OF _ w0]] by simp
  have "(Fin 2147483648 + Fin 1073741824 :: f64) = Fin 3221225472" by (simp add: Fin_add mk_def)
  then have "Fin r * w + w \<le> Fin 3221225472" using flt_add_mono[OF x0 wa nn] by simp
  then show ?thesis unfolding strip_def Let_def snd_conv w_def[symmetric] r(1) .
qed

lemma sub_mk: "is_finite x \<Longrightarrow> is_finite y \<Longrightarrow> \<exists>b. x - y = (mk b (rval x - rval y) :: 'a::len flt)"
  by (cases x; cases y) (auto simp: minus_flt_def plus_flt_def)

lemma cycles_do_not_wrap:
  assumes "side_ok (area_w c)" "side_ok (area_h c)" "swarm_size c < 2 ^ 64" "1 \<le> scan_width_m c"
  shows "\<not> cycle_wraps p c"
proof -
  have zero: "side_ok (x - 0) \<and> x - 0 \<le> Fin 1073741824" if "side_ok x" for x
    using that by (cases x) (auto simp: side_ok_def minus_flt_def zero_flt_def plus_flt_def mk_def signed_zero_def rnd_exact)
  have lawn: "unat (lawn_count (x - 0) (scan_width_m c)) \<le> 1073741824 \<and> 0 < unat (lawn_count (x - 0) (scan_width_m c))" if "side_ok x" for x
    using zero[OF that] assms(4) by (intro lawn_count_bound) (simp_all add: side_ok_def)
  have area: "is_finite (area_w c)" "valid (area_w c)" "0 \<le> area_w c"
    using assms(1) finite_between[of 0 "area_w c" "Fin 1073741824"] by (simp_all add: side_ok_def)
  note s = strip_facts[OF area assms(3)]
  let ?x0 = "fst (strip c)" and ?x1 = "snd (strip c)"
  have f1: "is_finite ?x1" using s strip_edge[OF assms(1,3)] flt_le_trans finite_between[of 0 ?x1 "Fin 3221225472"] by simp blast
  have f0: "is_finite ?x0" using s f1 finite_between[of 0 ?x0 ?x1] by simp
  have v: "\<not> is_nan (?x1 - ?x0)" using f0 f1 nan_difference[of ?x1 ?x0] by (auto simp: is_finite_iff)
  have "rval ?x0 \<le> rval ?x1" using s f0 f1 by (simp add: finite_le_rval)
  moreover obtain b where b: "?x1 - ?x0 = mk b (rval ?x1 - rval ?x0)" using sub_mk[OF f1 f0] by blast
  ultimately have d0: "0 \<le> ?x1 - ?x0" by (simp add: mk_nonneg)
  have "rval ?x1 \<le> 3221225472" "0 \<le> rval ?x0" using strip_edge[OF assms(1,3)] s f0 f1 by (simp_all add: finite_le_rval)
  then have "rval ?x1 - rval ?x0 \<le> 3221225472" by linarith
  then have d1: "?x1 - ?x0 \<le> Fin 3221225472"
    using rnd_mono[of "rval ?x1 - rval ?x0" 3221225472, where 'a = 64] unfolding b mk_le_rval by (simp add: rnd_exact representable_numeral)
  have "unat (lawn_count (?x1 - ?x0) (scan_width_m c)) \<le> 3221225472 \<and> 0 < unat (lawn_count (?x1 - ?x0) (scan_width_m c))"
    using lawn_count_bound[of "?x1 - ?x0" 3221225472 "scan_width_m c"] d0 d1 assms(4) by simp
  then show ?thesis using lawn[OF assms(1)] lawn[OF assms(2)] product_no_wrap by (cases p) auto
qed

section \<open>An episode returns\<close>

lemma eval_area: "eval_ok cfg \<Longrightarrow> 0 \<le> area_width_m (cfg_mission (ev_config cfg)) \<and> 0 \<le> area_height_m (cfg_mission (ev_config cfg))"
  by (simp add: eval_ok_def side_ok_def)

lemma jittered_positions_total:
  "eval_ok cfg \<Longrightarrow> \<exists>ps r'. jittered_positions cfg L is r = Some (ps, r') \<and> length ps = length is"
proof (induction "is" arbitrary: r)
  case (Cons i "is")
  obtain u r1 v r2 where d: "draw_unit r = (u, r1)" "draw_unit r1 = (v, r2)" by fastforce
  obtain ps r' where "jittered_positions cfg L is r2 = Some (ps, r')" "length ps = length is" using Cons by blast
  with eval_area[OF Cons.prems] show ?case by (simp add: d Let_def fclamp_clamp_lit)
qed simp

lemma start_positions_total:
  "eval_ok cfg \<Longrightarrow> \<exists>ps r'. start_positions cfg (layout_of cfg) r = Some (ps, r') \<and> length ps = lay_n (layout_of cfg)"
  using jittered_positions_total[of cfg "layout_of cfg" "[0..<lay_n (layout_of cfg)]" r] layout_counts[of cfg]
  by (simp add: start_positions_def)

lemma target_total:
  assumes "eval_ok cfg" "L = layout_of cfg"
  shows "\<exists>q. pattern_target M p (context_for cfg L snapshot vis k i pos) = Some q"
proof -
  let ?c = "context_for cfg L snapshot vis k i pos"
  have "\<not> cycle_wraps p ?c" using assms layout_counts[OF assms(1)] scan_ge_one[of cfg]
    by (intro cycles_do_not_wrap) (simp_all add: context_for_def eval_ok_def)
  moreover have "\<not> area_panics ?c" using eval_area[OF assms(1)] by (simp add: area_panics_def context_for_def)
  ultimately show ?thesis using pattern_target_spec[where M = M and p = p and c = ?c] by (auto split: option.splits)
qed

lemma advance_total:
  assumes "eval_ok cfg" "L = layout_of cfg"
  shows "\<exists>qs. advance E cfg L snapshot vis k i ps = Some qs \<and> length qs = length ps"
proof (induction ps arbitrary: i)
  case (Cons p ps)
  obtain q where "pattern_target (ev_math E) (ev_flight cfg) (context_for cfg L snapshot vis k i p) = Some q" using target_total[OF assms] by blast
  moreover obtain qs where "advance E cfg L snapshot vis k (Suc i) ps = Some qs" "length qs = length ps" using Cons by blast
  ultimately show ?case by simp
qed simp

lemma cell_coord_returns:
  assumes "1 \<le> n" "n < 2 ^ 63"
  shows "\<exists>j < n. cell_coord x w n = Some j"
proof -
  obtain m where m: "n = Suc m" using assms(1) by (cases n) simp_all
  have "int m < 2 ^ 63" using assms(2) by (simp add: m)
  then have "sint (of_nat m :: 64 word) = int m" by (simp add: signed_of_nat signed_take_bit_int_eq_self)
  then have hi: "sint (of_nat n - 1 :: 64 word) = int (n - 1)" by (simp add: m)
  then show ?thesis using assms(1) by (auto simp: cell_coord_def Let_def)
qed

lemma cell_coord_total: "1 \<le> n \<Longrightarrow> n \<le> 2 ^ 30 \<Longrightarrow> \<exists>j < n. cell_coord x w n = Some j"
  by (rule cell_coord_returns) simp_all

definition cover_ok :: "layout \<Rightarrow> u32 list \<Rightarrow> bool" where
  "cover_ok L cover \<longleftrightarrow> 1 \<le> lay_gx L \<and> lay_gx L \<le> 2 ^ 30 \<and> 1 \<le> lay_gy L \<and> lay_gy L \<le> 2 ^ 30 \<and> length cover = lay_gx L * lay_gy L"

lemma mark_cover_total: "cover_ok L cover \<Longrightarrow> \<exists>cover'. mark_cover L cover p = Some cover' \<and> cover_ok L cover'"
proof -
  assume ok: "cover_ok L cover"
  obtain cx where cx: "cx < lay_gx L" "cell_coord (px p) (lay_cell_w L) (lay_gx L) = Some cx"
    using ok cell_coord_total by (fastforce simp: cover_ok_def)
  obtain cy where cy: "cy < lay_gy L" "cell_coord (py p) (lay_cell_h L) (lay_gy L) = Some cy"
    using ok cell_coord_total by (fastforce simp: cover_ok_def)
  have "Suc cy * lay_gx L \<le> lay_gy L * lay_gx L" using cy(1) by (intro mult_le_mono1) simp
  then have i: "cy * lay_gx L + cx < lay_gx L * lay_gy L" using cx(1) by (simp add: mult.commute)
  have "lay_gx L * lay_gy L \<le> 2 ^ 30 * 2 ^ 30" using ok by (intro mult_le_mono) (simp_all add: cover_ok_def)
  then have "(cy * lay_gx L + cx) mod 2 ^ 64 = cy * lay_gx L + cx" using i by (intro mod_less) simp
  then show ?thesis using ok cx(2) cy(2) i by (simp add: mark_cover_def Let_def cover_ok_def)
qed

interpretation covers: op_total "mark_cover L" "cover_ok L" "\<lambda>_. True" "\<lambda>_ _. True"
  by unfold_locales (use mark_cover_total in auto)

text \<open>
  The state of an episode: a position per drone, a counter per cell, and a detection that is recorded as a whole. The first detection is
  never replaced.
\<close>

definition episode_ok :: "eval_config \<Rightarrow> episode \<Rightarrow> bool" where
  "episode_ok cfg s \<longleftrightarrow> eval_ok cfg \<and> cover_ok (layout_of cfg) (ep_cover s) \<and> length (ep_positions s) = lay_n (layout_of cfg) \<and>
     length (ep_visited s) \<le> max_visited \<and>
     (ep_detected s \<longleftrightarrow> ep_loc_error s \<noteq> None) \<and> (ep_detected s \<longleftrightarrow> ep_t_detect s \<noteq> None) \<and> (ep_gdop s \<noteq> None \<longrightarrow> ep_detected s)"

definition first_kept :: "episode \<Rightarrow> episode \<Rightarrow> bool" where
  "first_kept s t \<longleftrightarrow> (ep_detected s \<longrightarrow>
     ep_detected t \<and> ep_loc_error t = ep_loc_error s \<and> ep_gdop t = ep_gdop s \<and> ep_t_detect t = ep_t_detect s)"

lemma detect_step_ok: "episode_ok cfg s \<Longrightarrow> episode_ok cfg (detect_step E cfg L k s) \<and> first_kept s (detect_step E cfg L k s)"
  by (auto simp: detect_step_def episode_ok_def first_kept_def Let_def split: option.splits prod.splits)

lemma remember_length: "length (remember vis ps) \<le> max_visited"
  by (simp add: remember_def Let_def)

lemma episode_step_ok:
  assumes "episode_ok cfg s"
  shows "\<exists>t. episode_step E cfg (layout_of cfg) s k = Some t \<and> episode_ok cfg t \<and> first_kept s t"
proof -
  let ?L = "layout_of cfg"
  have e: "eval_ok cfg" using assms by (simp add: episode_ok_def)
  obtain ps where ps: "advance E cfg ?L (ep_positions s) (ep_visited s) k 0 (ep_positions s) = Some ps" "length ps = length (ep_positions s)"
    using advance_total[OF e refl] by blast
  obtain cover where cover: "prun (mark_cover ?L) (ep_cover s) ps = Some cover" "cover_ok ?L cover"
    using covers.run_total[of ?L "ep_cover s" ps] assms by (auto simp: episode_ok_def list_all_iff)
  let ?t = "s\<lparr>ep_positions := ps, ep_cover := cover, ep_visited := remember (ep_visited s) ps,
    ep_collisions := count_collisions (lay_min_sep ?L) ps (ep_collisions s)\<rparr>"
  have ok: "episode_ok cfg ?t" using assms ps(2) cover(2) by (auto simp: episode_ok_def remember_length)
  have "first_kept s (detect_step E cfg ?L k ?t)" using conjunct2[OF detect_step_ok[OF ok, of E ?L k]] by (simp add: first_kept_def)
  then show ?thesis using conjunct1[OF detect_step_ok[OF ok, of E ?L k]] by (simp add: episode_step_def ps(1) cover(1) Let_def)
qed

interpretation rollouts: op_total "episode_step E cfg (layout_of cfg)" "episode_ok cfg" "\<lambda>_. True" first_kept
  by unfold_locales (simp add: episode_step_ok, simp add: first_kept_def, simp add: first_kept_def)

section \<open>What an episode reports\<close>

definition sound_metrics :: "episode_metrics \<Rightarrow> bool" where
  "sound_metrics e \<longleftrightarrow> 0 \<le> em_coverage_pct e \<and> em_coverage_pct e \<le> 1 \<and> 0 \<le> overlap_ratio e \<and> overlap_ratio e \<le> 1 \<and>
     (em_detected e \<longleftrightarrow> em_localization_error_m e \<noteq> None) \<and> (em_detected e \<longleftrightarrow> time_to_first_detection_s e \<noteq> None) \<and>
     (gdop_at_detection e \<noteq> None \<longrightarrow> em_detected e)"

lemma ratio_unit:
  assumes "k \<le> n" "n < 2 ^ 64"
  shows "let x = rnd (of_nat k); y = rnd (of_nat n); z = (if 0 < y then x / y else 0) in 0 \<le> z \<and> z \<le> (1 :: f64)"
proof (cases "n = 0")
  case False
  then obtain q where q: "(rnd (of_nat n) :: f64) = Fin q" "1 \<le> q" using assms(2) by (rule_tac rnd_count[of n]) auto
  have x: "(0 :: f64) \<le> rnd (of_nat k)" "(rnd (of_nat k) :: f64) \<le> Fin q"
    using rnd_mono[of "of_nat k" "of_nat n", where 'a = 64] assms(1) q(1) by (simp_all add: rnd_nonneg)
  have z: "(0 :: f64) \<le> rnd (of_nat k) / Fin q" using x(1) q(2) by (intro flt_div_nonneg) simp_all
  moreover have "rnd (of_nat k) / Fin q \<le> (1 :: f64)" using x q(2) flt_le_nan[OF z] by (intro flt_quotient_le_one) simp_all
  ultimately show ?thesis using q by (simp add: Let_def)
qed (simp add: Let_def one_flt_def)

lemma twice_covered: "length (filter (\<lambda>c. 1 < c) xs) \<le> length (filter (\<lambda>c. 0 < c) (xs :: u32 list))"
  by (induction xs) (auto simp: word_less_nat_alt)

lemma metrics_sound:
  assumes "episode_ok cfg s"
  shows "sound_metrics (metrics_of (layout_of cfg) s)"
proof -
  let ?L = "layout_of cfg"
  let ?n = "lay_gx ?L * lay_gy ?L" and ?s = "length (filter (\<lambda>c. 0 < c) (ep_cover s))" and ?o = "length (filter (\<lambda>c. 1 < c) (ep_cover s))"
  have e: "eval_ok cfg" and len: "length (ep_cover s) = ?n" using assms by (simp_all add: episode_ok_def cover_ok_def)
  have n: "?n \<le> 2 ^ 60" using cells_fit[OF e] by simp
  then have m: "?n mod 2 ^ 64 = ?n" by simp
  have s: "?s \<le> ?n" using length_filter_le[of "\<lambda>c. 0 < c" "ep_cover s"] len by simp
  have o': "?o \<le> ?s" by (rule twice_covered)
  have b: "?s < 2 ^ 64" "?n < 2 ^ 64" using n s by simp_all
  have det: "ep_detected s \<longleftrightarrow> ep_loc_error s \<noteq> None" "ep_detected s \<longleftrightarrow> ep_t_detect s \<noteq> None" "ep_gdop s \<noteq> None \<longrightarrow> ep_detected s"
    using assms unfolding episode_ok_def by blast+
  show ?thesis unfolding sound_metrics_def metrics_of_def Let_def m episode_metrics.simps
    using ratio_unit[OF s b(2)] ratio_unit[OF o' b(1)] det unfolding Let_def by blast
qed

lemma run_episode_total:
  assumes "eval_ok cfg"
  shows "\<exists>m. run_episode E cfg seed = Some m \<and> sound_metrics m"
proof -
  let ?L = "layout_of cfg"
  note c = layout_counts[OF assms] cells_fit[OF assms]
  obtain ps r where ps: "start_positions cfg ?L (runner_lcg_new seed) = Some (ps, r)" "length ps = lay_n ?L"
    using start_positions_total[OF assms, of "runner_lcg_new seed"] by auto
  let ?n = "lay_gx ?L * lay_gy ?L"
  have m: "?n mod 2 ^ 64 = ?n" "\<not> 2 ^ 63 - 1 < 4 * ?n" using c(2) by simp_all
  then have cover: "new_cover ?L = Some (replicate ?n 0)" by (simp add: new_cover_def)
  let ?s = "\<lparr>ep_rng = r, ep_positions = ps, ep_cover = replicate ?n 0, ep_visited = [], ep_collisions = 0, ep_detected = False,
    ep_loc_error = None, ep_gdop = None, ep_t_detect = None\<rparr>"
  have "episode_ok cfg ?s" using assms c(1) ps(2) by (simp add: episode_ok_def cover_ok_def)
  then obtain t where "prun (episode_step E cfg ?L) ?s [0..<ev_steps cfg] = Some t" "episode_ok cfg t"
    using rollouts.run_total[of cfg ?s "[0..<ev_steps cfg]" E] by (auto simp: list_all_iff)
  then show ?thesis using metrics_sound by (simp add: run_episode_def Let_def cover ps(1))
qed

lemma run_all_total:
  "(\<And>x. x \<in> set xs \<Longrightarrow> \<exists>y. f x = Some y \<and> P y) \<Longrightarrow> \<exists>ys. run_all f xs = Some ys \<and> length ys = length xs \<and> (\<forall>y \<in> set ys. P y)"
proof (induction xs)
  case (Cons x xs)
  obtain y where "f x = Some y" "P y" using Cons.prems[of x] by auto
  moreover obtain ys where "run_all f xs = Some ys" "length ys = length xs" "\<forall>y \<in> set ys. P y" using Cons by auto
  ultimately show ?case by simp
qed simp

lemma matrix_filled:
  assumes "eval_ok cfg" "ev_seeds cfg * max 1 (episodes_per_seed cfg) < 2 ^ 53"
  shows "\<exists>m. run_matrix E cfg = Some m \<and> length m = ev_seeds cfg \<and>
    (\<forall>es \<in> set m. length es = episodes_per_seed cfg \<and> (\<forall>e \<in> set es. sound_metrics e))"
proof -
  have seeds: "24 * ev_seeds cfg \<le> 2 ^ 63 - 1" using assms(2) by (cases "episodes_per_seed cfg") auto
  have row: "\<exists>es. run_seed E cfg s = Some es \<and> length es = episodes_per_seed cfg \<and> (\<forall>e \<in> set es. sound_metrics e)"
    if "s < ev_seeds cfg" for s
  proof -
    have "1 * episodes_per_seed cfg \<le> ev_seeds cfg * max 1 (episodes_per_seed cfg)" using that by (intro mult_le_mono) simp_all
    then have "80 * episodes_per_seed cfg \<le> 2 ^ 63 - 1" using assms(2) by simp
    then show ?thesis
      using run_all_total[of "[0..<episodes_per_seed cfg]" "\<lambda>e. run_episode E cfg (cell_seed s e)" sound_metrics]
        run_episode_total[OF assms(1)] by (simp add: run_seed_def)
  qed
  show ?thesis unfolding run_matrix_def
    using run_all_total[of "[0..<ev_seeds cfg]" "run_seed E cfg"
        "\<lambda>es. length es = episodes_per_seed cfg \<and> (\<forall>e \<in> set es. sound_metrics e)"] row seeds by simp
qed

text \<open>Too many seeds are a panic before the first rollout.\<close>

lemma too_many_seeds_panic: "2 ^ 63 - 1 < 24 * ev_seeds cfg \<Longrightarrow> run_matrix E cfg = None"
  by (simp add: run_matrix_def)

text \<open>
  C27. An evaluation over an area of up to two to the 30 metres a side, of fewer than two to the 53 drones and rollouts,
  never panics, whatever the flight pattern, the scan width, the noise, the
  victims and the number of steps: it fills the whole matrix of seeds and episodes, coverage and overlap are fractions of one, and an episode
  that detects reports the error and the time of the detection, and only then.
\<close>
theorem evaluation_fills_its_matrix:
  assumes "eval_ok cfg" "ev_seeds cfg * max 1 (episodes_per_seed cfg) < 2 ^ 53"
  shows "\<exists>m. run_matrix E cfg = Some m \<and> length m = ev_seeds cfg \<and>
    (\<forall>es \<in> set m. length es = episodes_per_seed cfg \<and> (\<forall>e \<in> set es. sound_metrics e))"
  using assms by (rule matrix_filled)

definition demo_eval_env :: eval_env where
  "demo_eval_env = \<lparr>ev_math = \<lparr>m_cos = (\<lambda>_. lit 1), m_sin = (\<lambda>_. 0), m_hypot = (\<lambda>x y. fsqrt (x * x + y * y)), m_powf = (\<lambda>x _. x)\<rparr>,
     ev_ln = (\<lambda>_. - lit 1), ev_atan2 = (\<lambda>_ _. 0)\<rparr>"

theorem evaluation_fills_its_matrix_witness:
  "\<exists>m. run_matrix demo_eval_env (sar_small LevyFlight) = Some m \<and> length m = 10 \<and>
    (\<forall>es \<in> set m. length es = 10 \<and> (\<forall>e \<in> set es. sound_metrics e))"
  using evaluation_fills_its_matrix[of "sar_small LevyFlight" demo_eval_env]
  by (simp add: eval_ok_def side_ok_def sar_small_def sar_default_def representable_numeral)

end
