(* ===== verification/Learning.thy ===== *)
theory Learning
  imports EvalRunner
begin

text \<open>
  The strategy layer of the learning component: \<open>src/marl/learning.rs\<close> with its patterns, the count-based curiosity and the fast
  weights, \<open>reward.rs\<close>, and the presets of \<open>trainer.rs\<close>. Strings are over the first 256 code points; counters wrap as in the release
  profile.
\<close>

section \<open>Learning patterns\<close>

datatype learning_pattern = Mappo | Ippo | MappoCuriosity | MetaRl

definition learning_default :: learning_pattern where
  "learning_default = Mappo"

text \<open>\<open>str::trim\<close>: the white space of the first 256 code points.\<close>

definition white_space :: "char \<Rightarrow> bool" where
  "white_space c = (let n = (of_char c :: nat) in 9 \<le> n \<and> n \<le> 13 \<or> n = 32 \<or> n = 133 \<or> n = 160)"

definition trimmed :: "string \<Rightarrow> string" where
  "trimmed s = rev (dropWhile white_space (rev (dropWhile white_space s)))"

definition learning_from_str :: "string \<Rightarrow> learning_pattern" where
  "learning_from_str s = (let l = lowercase (trimmed s) in
    if l = ''mappo'' then Mappo
    else if l = ''ippo'' then Ippo
    else if l = ''curiosity'' \<or> l = ''mappocuriosity'' \<or> l = ''mappo_curiosity'' then MappoCuriosity
    else if l = ''meta'' \<or> l = ''metarl'' \<or> l = ''meta_rl'' then MetaRl
    else learning_default)"

fun learning_name :: "learning_pattern \<Rightarrow> string" where
  "learning_name Mappo = ''mappo''"
| "learning_name Ippo = ''ippo''"
| "learning_name MappoCuriosity = ''curiosity''"
| "learning_name MetaRl = ''meta''"

fun centralized_critic :: "learning_pattern \<Rightarrow> bool" where
  "centralized_critic Ippo = False"
| "centralized_critic _ = True"

fun uses_curiosity :: "learning_pattern \<Rightarrow> bool" where
  "uses_curiosity MappoCuriosity = True"
| "uses_curiosity _ = False"

definition shaped_reward :: "learning_pattern \<Rightarrow> f32 \<Rightarrow> f32 \<Rightarrow> f32" where
  "shaped_reward p base bonus = (if uses_curiosity p then base + bonus else base)"

section \<open>Curiosity\<close>

record curiosity_module =
  cur_counts :: "u32 list"
  cur_grid :: u32
  cur_cell_w :: f64
  cur_cell_h :: f64
  cur_beta :: f32

text \<open>A grid of more than \<open>isize::MAX\<close> bytes is refused with a panic.\<close>

definition curiosity_new :: "f64 \<Rightarrow> f64 \<Rightarrow> u32 \<Rightarrow> f32 \<Rightarrow> curiosity_module option" where
  "curiosity_new w h grid beta =
    (let g = max grid 1; cells = unat g * unat g
     in if 2 ^ 63 - 1 < 4 * cells then None
        else Some \<lparr>cur_counts = replicate cells 0, cur_grid = g, cur_cell_w = (if 0 < w then w / of_unsigned g else lit 1),
          cur_cell_h = (if 0 < h then h / of_unsigned g else lit 1), cur_beta = beta\<rparr>)"

definition cell_index :: "curiosity_module \<Rightarrow> f64 \<times> f64 \<Rightarrow> nat option" where
  "cell_index m = (\<lambda>(x, y).
    Option.bind (cell_coord x (cur_cell_w m) (unat (cur_grid m))) (\<lambda>gx.
      map_option (\<lambda>gy. gy * unat (cur_grid m) + gx) (cell_coord y (cur_cell_h m) (unat (cur_grid m)))))"

definition visit_bonus :: "curiosity_module \<Rightarrow> f64 \<times> f64 \<Rightarrow> (f32 \<times> curiosity_module) option" where
  "visit_bonus m p =
    Option.bind (cell_index m p) (\<lambda>i.
      if length (cur_counts m) \<le> i then None
      else let prior = cur_counts m ! i + 1; bonus = cur_beta m / fsqrt (of_unsigned prior)
        in Some (bonus, m\<lparr>cur_counts := (cur_counts m)[i := sat_add (cur_counts m ! i) 1]\<rparr>))"

definition total_visits :: "curiosity_module \<Rightarrow> u64" where
  "total_visits m = sum_list (map ucast (cur_counts m))"

fun explore :: "curiosity_module \<Rightarrow> (f64 \<times> f64) list \<Rightarrow> (f32 list \<times> curiosity_module) option" where
  "explore m [] = Some ([], m)"
| "explore m (p # ps) =
    Option.bind (visit_bonus m p) (\<lambda>(b, m'). map_option (\<lambda>(bs, m''). (b # bs, m'')) (explore m' ps))"

section \<open>Fast weights\<close>

record meta_adapter =
  ma_base :: "f32 list"
  ma_fast :: "f32 list"
  inner_lr :: f32

definition meta_new :: "nat \<Rightarrow> f32 \<Rightarrow> meta_adapter" where
  "meta_new d lr = \<lparr>ma_base = replicate d 0, ma_fast = replicate d 0, inner_lr = lr\<rparr>"

definition adapt :: "f32 \<Rightarrow> f32 list \<Rightarrow> meta_adapter \<Rightarrow> meta_adapter" where
  "adapt advantage grad m =
    (let n = min (length (ma_fast m)) (length grad)
     in m\<lparr>ma_fast := map (\<lambda>(f, g). f + inner_lr m * advantage * g) (take n (zip (ma_fast m) grad)) @ drop n (ma_fast m)\<rparr>)"

definition effective :: "meta_adapter \<Rightarrow> f32 list" where
  "effective m = map (\<lambda>(b, f). b + f) (zip (ma_base m) (ma_fast m))"

definition reset_fast :: "meta_adapter \<Rightarrow> meta_adapter" where
  "reset_fast m = m\<lparr>ma_fast := map (\<lambda>_. 0) (ma_fast m)\<rparr>"

definition consolidate :: "meta_adapter \<Rightarrow> meta_adapter" where
  "consolidate m =
    reset_fast (m\<lparr>ma_base := map (\<lambda>(b, f). b + f) (zip (ma_base m) (ma_fast m)) @ drop (length (ma_fast m)) (ma_base m)\<rparr>)"

datatype meta_event = Adapt f32 "f32 list" | ResetFast | Consolidate

fun meta_exec :: "meta_adapter \<Rightarrow> meta_event \<Rightarrow> meta_adapter" where
  "meta_exec m (Adapt a g) = adapt a g m"
| "meta_exec m ResetFast = reset_fast m"
| "meta_exec m Consolidate = consolidate m"

section \<open>Rewards\<close>

record reward_calculator =
  coverage_reward :: f32
  detection_reward :: f32
  triangulation_reward :: f32
  idle_penalty :: f32
  collision_penalty :: f32
  geofence_penalty :: f32
  battery_depletion_penalty :: f32
  rc_min_separation_m :: f64

definition reward_default :: reward_calculator where
  "reward_default = \<lparr>coverage_reward = lit 10, detection_reward = lit 50, triangulation_reward = lit 5, idle_penalty = - lit 2,
     collision_penalty = - lit 100, geofence_penalty = - lit 50, battery_depletion_penalty = - lit 30, rc_min_separation_m = lit (3/2)\<rparr>"

record reward_context =
  rx_state :: drone_state
  new_cells_covered :: u32
  victim_confirmed :: bool
  contributed_to_triangulation :: bool
  nearest_neighbor_dist :: f64
  geofence_breached :: bool
  battery_depleted_without_rth :: bool

definition add_if :: "bool \<Rightarrow> f32 \<Rightarrow> f32 \<Rightarrow> f32" where
  "add_if b x reward = (if b then reward + x else reward)"

definition compute_reward :: "reward_calculator \<Rightarrow> reward_context \<Rightarrow> f32" where
  "compute_reward c x =
    (let r0 = 0 + of_unsigned (new_cells_covered x) * coverage_reward c;
         r1 = add_if (victim_confirmed x) (detection_reward c) r0;
         r2 = add_if (contributed_to_triangulation x) (triangulation_reward c) r1;
         r3 = add_if (new_cells_covered x = 0 \<and> \<not> victim_confirmed x) (idle_penalty c) r2;
         r4 = add_if (nearest_neighbor_dist x < rc_min_separation_m c) (collision_penalty c) r3;
         r5 = add_if (geofence_breached x) (geofence_penalty c) r4
     in add_if (battery_depleted_without_rth x) (battery_depletion_penalty c) r5)"

section \<open>Training presets\<close>

datatype training_mode = Simulation | GazeboPx4Sitl string "16 word" | HardwareInTheLoop | Demo

record domain_randomization_config =
  wind_max_ms :: f64
  dr_csi_noise_std :: f64
  motor_thrust_variation :: f64
  packet_loss_pct :: f64
  extra_latency_max_ms :: u64

definition domain_rand_default :: domain_randomization_config where
  "domain_rand_default = \<lparr>wind_max_ms = lit 6, dr_csi_noise_std = lit (5 / 100), motor_thrust_variation = lit (10 / 100),
     packet_loss_pct = lit 15, extra_latency_max_ms = 100\<rparr>"

record training_config =
  tr_mode :: training_mode
  num_drones :: nat
  num_episodes :: nat
  max_steps_per_episode :: nat
  tr_clip_epsilon :: f32
  tr_gae_lambda :: f32
  tr_lr :: f32
  tr_entropy_coeff :: f32
  batch_size :: nat
  ppo_epochs :: nat
  domain_rand :: domain_randomization_config

definition training_default :: training_config where
  "training_default = \<lparr>tr_mode = Demo, num_drones = 4, num_episodes = 1000, max_steps_per_episode = 2000, tr_clip_epsilon = lit (2 / 10),
     tr_gae_lambda = lit (95 / 100), tr_lr = lit (3 / 10000), tr_entropy_coeff = lit (1 / 100), batch_size = 2048, ppo_epochs = 10,
     domain_rand = domain_rand_default\<rparr>"

definition quick_demo :: training_config where
  "quick_demo = training_default\<lparr>tr_mode := Demo, num_drones := 4, num_episodes := 10, max_steps_per_episode := 200\<rparr>"

definition full_training :: training_config where
  "full_training = training_default\<lparr>num_episodes := 5000, max_steps_per_episode := 5000,
     domain_rand := \<lparr>wind_max_ms = lit 12, dr_csi_noise_std = lit (1 / 10), motor_thrust_variation = lit (15 / 100),
       packet_loss_pct = lit 30, extra_latency_max_ms = 200\<rparr>\<rparr>"

section \<open>Names\<close>

lemma learning_names: "learning_from_str (learning_name p) = p"
  by (cases p) (simp_all add: learning_from_str_def trimmed_def lowercase_def lower_char_def white_space_def)

lemma patterns_split: "centralized_critic p \<longleftrightarrow> p \<noteq> Ippo" "shaped_reward p base bonus = base \<or> p = MappoCuriosity"
  by (cases p; simp add: shaped_reward_def)+

section \<open>Novelty decays\<close>

definition counters_fit :: "curiosity_module \<Rightarrow> bool" where
  "counters_fit m \<longleftrightarrow> 1 \<le> cur_grid m \<and> length (cur_counts m) = unat (cur_grid m) * unat (cur_grid m)"

text \<open>
  The counters after a history of cells: one per cell of the grid, each the number of its visits, while no counter can be full.
\<close>

definition counted :: "curiosity_module \<Rightarrow> nat list \<Rightarrow> bool" where
  "counted m hist \<longleftrightarrow> counters_fit m \<and>
     (\<forall>i < length (cur_counts m). unat (cur_counts m ! i) = count_list hist i) \<and> sum_list (map unat (cur_counts m)) = length hist"

lemma cell_index_total:
  assumes "counters_fit m"
  shows "\<exists>i < length (cur_counts m). cell_index m p = Some i"
proof -
  let ?n = "unat (cur_grid m)"
  have n: "1 \<le> ?n" "?n < 2 ^ 63" using assms unat_bound[of "cur_grid m"] by (simp_all add: counters_fit_def word_le_nat_alt)
  obtain gx gy where g: "gx < ?n" "cell_coord (fst p) (cur_cell_w m) ?n = Some gx" "gy < ?n" "cell_coord (snd p) (cur_cell_h m) ?n = Some gy"
    using cell_coord_returns[OF n] by metis
  have "gy * ?n + gx < ?n * ?n" using mult_le_mono1[of "Suc gy" ?n ?n] g by simp
  then show ?thesis using g assms by (auto simp: cell_index_def counters_fit_def split: prod.splits)
qed

lemma counted_fit: "counted m hist \<Longrightarrow> counters_fit m"
  by (simp add: counted_def)

lemma of_unsigned_unat: "(of_unsigned w :: 'a::len flt) = rnd (of_nat (unat w))"
  by (simp add: of_unsigned_def)

lemma count_list_le: "count_list xs x \<le> length xs"
  by (induction xs) auto

lemma visit_counted:
  assumes "counted m hist" "length hist < 2 ^ 32 - 1" "cell_index m p = Some i"
  shows "visit_bonus m p = Some (cur_beta m / fsqrt (rnd (of_nat (Suc (count_list hist i)))), m\<lparr>cur_counts := (cur_counts m)[i := cur_counts m ! i + 1]\<rparr>)"
    and "counted (m\<lparr>cur_counts := (cur_counts m)[i := cur_counts m ! i + 1]\<rparr>) (hist @ [i])"
proof -
  have i: "i < length (cur_counts m)" using cell_index_total[OF counted_fit[OF assms(1)], of p] assms(3) by auto
  have c: "unat (cur_counts m ! i) = count_list hist i" using assms(1) i by (simp add: counted_def)
  have "count_list hist i < 2 ^ 32 - 1" using count_list_le[of hist i] assms(2) by linarith
  with c have u: "unat (cur_counts m ! i + 1) = Suc (count_list hist i)" "sat_add (cur_counts m ! i) 1 = cur_counts m ! i + 1"
    by (simp_all add: unat_word_ariths sat_add_def)
  have b: "(of_unsigned (cur_counts m ! i + 1) :: f32) = rnd (of_nat (Suc (count_list hist i)))" by (simp only: of_unsigned_unat u(1))
  show "visit_bonus m p = Some (cur_beta m / fsqrt (rnd (of_nat (Suc (count_list hist i)))), m\<lparr>cur_counts := (cur_counts m)[i := cur_counts m ! i + 1]\<rparr>)"
    using i by (simp add: visit_bonus_def assms(3) u Let_def b del: of_nat_Suc)
  have "sum_list (map unat ((cur_counts m)[i := cur_counts m ! i + 1])) = Suc (sum_list (map unat (cur_counts m)))"
    using i u(1) c by (simp add: map_update sum_list_update member_le_sum_list)
  then show "counted (m\<lparr>cur_counts := (cur_counts m)[i := cur_counts m ! i + 1]\<rparr>) (hist @ [i])"
    using assms(1) i u(1) by (auto simp: counted_def counters_fit_def nth_list_update)
qed

definition novelty :: "f32 \<Rightarrow> nat list \<Rightarrow> nat \<Rightarrow> f32" where
  "novelty beta cells k = beta / fsqrt (rnd (of_nat (Suc (count_list (take k cells) (cells ! k)))))"

lemma explore_counted:
  assumes "counted m hist" "length hist + length ps < 2 ^ 32"
  shows "\<exists>cells bs m'. map (cell_index m) ps = map Some cells \<and> explore m ps = Some (bs, m') \<and> counted m' (hist @ cells) \<and>
    bs = map (novelty (cur_beta m) (hist @ cells)) [length hist..<length hist + length ps]"
  using assms
proof (induction ps arbitrary: m hist)
  case (Cons p ps)
  obtain i where i: "cell_index m p = Some i" using cell_index_total[OF counted_fit[OF Cons.prems(1)]] by blast
  let ?m = "m\<lparr>cur_counts := (cur_counts m)[i := cur_counts m ! i + 1]\<rparr>"
  have h: "length hist < 2 ^ 32 - 1" using Cons.prems(2) by simp
  note v = visit_counted[OF Cons.prems(1) h i]
  have same: "cell_index ?m = cell_index m" by (simp add: cell_index_def fun_eq_iff)
  obtain cells bs m' where ih: "map (cell_index ?m) ps = map Some cells" "explore ?m ps = Some (bs, m')" "counted m' ((hist @ [i]) @ cells)"
      "bs = map (novelty (cur_beta ?m) ((hist @ [i]) @ cells)) [length (hist @ [i])..<length (hist @ [i]) + length ps]"
    using Cons.IH[OF v(2)] Cons.prems(2) by auto
  have "novelty (cur_beta m) (hist @ i # cells) (length hist) = cur_beta m / fsqrt (rnd (of_nat (Suc (count_list hist i))))"
    by (simp add: novelty_def)
  then have "bs' = map (novelty (cur_beta m) (hist @ i # cells)) [length hist..<length hist + length (p # ps)]"
    if "bs' = cur_beta m / fsqrt (rnd (of_nat (Suc (count_list hist i)))) # bs" for bs'
    using that ih(4) by (simp add: upt_conv_Cons del: upt_Suc)
  then show ?case using ih v(1) i by (intro exI[of _ "i # cells"] exI) (auto simp: same)
qed simp

lemma curiosity_new_counted: "curiosity_new w h grid beta = Some m \<Longrightarrow> counted m [] \<and> cur_beta m = beta"
  by (auto simp: curiosity_new_def Let_def counted_def counters_fit_def sum_list_replicate word_le_nat_alt max_def split: if_splits)

lemma unat_sum_list: "sum_list (map unat (cs :: u32 list)) < 2 ^ 64 \<Longrightarrow> unat (sum_list (map ucast cs) :: u64) = sum_list (map unat cs)"
proof (induction cs)
  case (Cons c cs)
  then have "unat (ucast c :: u64) + unat (sum_list (map ucast cs) :: u64) < 2 ^ 64" by (simp add: unat_ucast_up)
  then show ?case using Cons by (simp add: unat_ucast_up unat_add_lem[THEN iffD1])
qed simp

text \<open>
  Over any run of visits, to whatever coordinates, a curiosity module never panics; the bonus of a visit is the scale divided by the root of
  one more than the earlier visits of its cell, so it decays with every return; and the module has counted every visit.
\<close>
theorem novelty_decays:
  assumes "curiosity_new w h grid beta = Some m" "length ps < 2 ^ 32"
  shows "\<exists>cells bs m'. map (cell_index m) ps = map Some cells \<and> explore m ps = Some (bs, m') \<and>
    bs = map (novelty beta cells) [0..<length ps] \<and> unat (total_visits m') = length ps"
proof -
  note n = curiosity_new_counted[OF assms(1)]
  obtain cells bs m' where e: "map (cell_index m) ps = map Some cells" "explore m ps = Some (bs, m')" "counted m' ([] @ cells)"
      "bs = map (novelty (cur_beta m) ([] @ cells)) [length []..<length [] + length ps]"
    using explore_counted[of m "[]" ps] n assms(2) by auto
  have l: "length cells = length ps" using arg_cong[OF e(1), of length] by simp
  have "unat (total_visits m') = length cells" using e(3) l assms(2) unat_sum_list[of "cur_counts m'"] by (simp add: total_visits_def counted_def)
  then show ?thesis using e n l by simp
qed

theorem novelty_decays_witness:
  "\<exists>m bs m'. curiosity_new (lit 100) (lit 100) 10 1 = Some m \<and> explore m [(lit 50, lit 50), (lit 50, lit 50), (0, NaN)] = Some (bs, m') \<and>
     length bs = 3 \<and> unat (total_visits m') = 3"
proof -
  obtain m where m: "curiosity_new (lit 100) (lit 100) 10 1 = Some m" by (simp add: curiosity_new_def Let_def max_def word_le_nat_alt)
  show ?thesis using novelty_decays[OF m, of "[(lit 50, lit 50), (lit 50, lit 50), (0, NaN)]"] m by auto
qed

text \<open>A bonus lies between zero and the scale.\<close>

lemma novelty_bounded:
  assumes "0 \<le> beta" "valid beta" "\<not> is_nan (novelty beta cells k)"
  shows "0 \<le> novelty beta cells k \<and> novelty beta cells k \<le> beta"
proof -
  have "(1 :: f32) \<le> rnd (of_nat (Suc (count_list (take k cells) (cells ! k))))"
    using rnd_mono[of 1 "of_nat (Suc (count_list (take k cells) (cells ! k)))", where 'a = 32] by (simp add: one_flt_def)
  then have r: "(1 :: f32) \<le> fsqrt (rnd (of_nat (Suc (count_list (take k cells) (cells ! k)))))" by (rule fsqrt_ge_one)
  have "(0 :: f32) < 1" by (simp add: one_flt_def)
  then have "0 < fsqrt (rnd (of_nat (Suc (count_list (take k cells) (cells ! k)))) :: f32)" using r by (rule flt_less_le_trans)
  then have "0 \<le> novelty beta cells k"
    using assms(3) unfolding novelty_def by (intro not_neg_number[OF not_neg_div[OF not_neg_nonneg[OF assms(1)]]] disjI2) simp_all
  moreover have "novelty beta cells k \<le> beta" using assms r unfolding novelty_def by (intro flt_div_le) simp_all
  ultimately show ?thesis ..
qed

text \<open>
  The counter itself saturates, but the count before the visit is taken with a plain addition: the visit of a cell with a full counter
  divides by the root of zero.
\<close>

lemma full_counter_bonus_is_infinite:
  "visit_bonus \<lparr>cur_counts = [- 1], cur_grid = 1, cur_cell_w = 1, cur_cell_h = 1, cur_beta = 1\<rparr> (0, 0) =
   Some (PInf, \<lparr>cur_counts = [- 1], cur_grid = 1, cur_cell_w = 1, cur_cell_h = 1, cur_beta = 1\<rparr>)"
proof -
  have "cell_coord 0 1 (unat (1 :: u32)) = Some 0" using cell_coord_returns[of 1 0 1] by auto
  moreover have "sat_add (- 1) 1 = (- 1 :: u32)" by (simp add: sat_add_def unat_max_word)
  ultimately show ?thesis by (simp add: visit_bonus_def cell_index_def Let_def of_unsigned_def fin_arith divide_flt_def is_zero_def signed_inf_def)
qed

section \<open>Fast weights and their base\<close>

definition same_number :: "f32 \<Rightarrow> f32 \<Rightarrow> bool" where
  "same_number x y \<longleftrightarrow> x = y \<or> is_zero x \<and> is_zero y"

lemma add_zero_same: "valid x \<Longrightarrow> same_number (x + 0) x"
  by (cases x) (auto simp: same_number_def plus_flt_def zero_flt_def mk_def is_zero_def signed_zero_def rnd_exact)

definition adapter_ok :: "nat \<Rightarrow> meta_adapter \<Rightarrow> bool" where
  "adapter_ok d m \<longleftrightarrow> length (ma_base m) = d \<and> length (ma_fast m) = d"

interpretation adapters: op_invariant meta_exec "adapter_ok d"
proof
  fix m e
  assume "adapter_ok d m"
  then show "adapter_ok d (meta_exec m e)"
    by (cases e) (auto simp: adapter_ok_def adapt_def reset_fast_def consolidate_def Let_def)
qed

lemma adapter_keeps_its_size: "adapter_ok d (foldl meta_exec (meta_new d lr) es)"
  by (rule adapters.run_inv) (simp add: adapter_ok_def meta_new_def)

lemma consolidation_keeps_the_weights:
  assumes "adapter_ok d m"
  shows "list_all2 same_number (effective (consolidate m)) (effective m) \<and> ma_fast (consolidate m) = replicate d 0"
  using assms by (auto simp: adapter_ok_def effective_def consolidate_def reset_fast_def list_all2_conv_all_nth add_zero_same map_replicate_const)

lemma reset_restores_the_base:
  "adapter_ok d m \<Longrightarrow> list_all valid (ma_base m) \<Longrightarrow> list_all2 same_number (effective (reset_fast m)) (ma_base m)"
  by (auto simp: adapter_ok_def effective_def reset_fast_def list_all2_conv_all_nth list_all_length add_zero_same)

section \<open>The reward is exact\<close>

definition points :: "reward_context \<Rightarrow> int" where
  "points x = 10 * uint (new_cells_covered x) + (if victim_confirmed x then 50 else 0) + (if contributed_to_triangulation x then 5 else 0)
     - (if new_cells_covered x = 0 \<and> \<not> victim_confirmed x then 2 else 0) - (if nearest_neighbor_dist x < lit (3/2) then 100 else 0)
     - (if geofence_breached x then 50 else 0) - (if battery_depleted_without_rth x then 30 else 0)"

lemma exact_add: "\<bar>a + b\<bar> < 2 ^ 24 \<Longrightarrow> Fin (of_int a) + Fin (of_int b) = (Fin (of_int (a + b)) :: f32)"
  by (simp add: Fin_add mk_def signed_zero_def rnd_exact representable_int flip: of_int_add)

lemma exact_step:
  assumes "\<bar>a\<bar> \<le> k" "k + \<bar>b\<bar> < 2 ^ 24"
  shows "add_if c (Fin (of_int b)) (Fin (of_int a)) = (Fin (of_int (a + (if c then b else 0))) :: f32) \<and> \<bar>a + (if c then b else 0)\<bar> \<le> k + \<bar>b\<bar>"
  using exact_add[of a b] assms by (auto simp: add_if_def)

text \<open>
  The reward of the default weights is accumulated without a rounding error: for less than two to the 20 new cells it is the integer of the
  points; so without a confirmed victim a collision outweighs up to nine new cells.
\<close>
theorem reward_is_exact:
  assumes "new_cells_covered x < 2 ^ 20"
  shows "compute_reward reward_default x = Fin (of_int (points x)) \<and>
    (nearest_neighbor_dist x < lit (3/2) \<and> new_cells_covered x < 10 \<and> \<not> victim_confirmed x \<longrightarrow> compute_reward reward_default x < 0)"
proof -
  define n where "n = uint (new_cells_covered x)"
  have n: "0 \<le> n" "n < 1048576" using assms by (simp_all add: n_def word_less_def)
  have e: "(rnd (of_int k) :: f32) = Fin (of_int k)" if "\<bar>k\<bar> < 2 ^ 24" for k using that by (intro rnd_exact representable_int) simp
  have u: "(of_unsigned (new_cells_covered x) :: f32) = Fin (of_int n)" unfolding of_unsigned_def n_def[symmetric] using n by (intro e) simp
  have "\<bar>10 * n\<bar> < 2 ^ 24" using n by simp
  from e[OF this] have "Fin (of_int n) * lit 10 = (Fin (of_int (10 * n)) :: f32) \<or> n = 0 \<and> Fin (of_int n) * lit 10 = (Fin 0 :: f32)"
    using n(1) by (auto simp: fin_arith mult.commute)
  then have "0 + of_unsigned (new_cells_covered x) * lit 10 = (Fin (of_int (10 * n)) :: f32)"
    unfolding u using exact_add[of 0 "10 * n"] n by (auto simp: zero_flt_def)
  note r0 = this
  have c: "detection_reward reward_default = Fin (of_int 50)" "triangulation_reward reward_default = Fin (of_int 5)"
      "idle_penalty reward_default = Fin (of_int (- 2))" "collision_penalty reward_default = Fin (of_int (- 100))"
      "geofence_penalty reward_default = Fin (of_int (- 50))" "battery_depletion_penalty reward_default = Fin (of_int (- 30))"
      "coverage_reward reward_default = lit 10" "rc_min_separation_m reward_default = lit (3/2)"
    by (simp_all add: reward_default_def)
  have b0: "\<bar>10 * n\<bar> \<le> 10485760" using n by simp
  have lim: "10485760 + \<bar>50 :: int\<bar> < 2 ^ 24" "10485760 + \<bar>50\<bar> + \<bar>5 :: int\<bar> < 2 ^ 24" "10485760 + \<bar>50\<bar> + \<bar>5\<bar> + \<bar>- 2 :: int\<bar> < 2 ^ 24"
      "10485760 + \<bar>50\<bar> + \<bar>5\<bar> + \<bar>- 2\<bar> + \<bar>- 100 :: int\<bar> < 2 ^ 24" "10485760 + \<bar>50\<bar> + \<bar>5\<bar> + \<bar>- 2\<bar> + \<bar>- 100\<bar> + \<bar>- 50 :: int\<bar> < 2 ^ 24"
      "10485760 + \<bar>50\<bar> + \<bar>5\<bar> + \<bar>- 2\<bar> + \<bar>- 100\<bar> + \<bar>- 50\<bar> + \<bar>- 30 :: int\<bar> < 2 ^ 24" by simp_all
  note s1 = exact_step[OF b0 lim(1), where c = "victim_confirmed x"]
  note s2 = exact_step[OF conjunct2[OF s1] lim(2), where c = "contributed_to_triangulation x"]
  note s3 = exact_step[OF conjunct2[OF s2] lim(3), where c = "new_cells_covered x = 0 \<and> \<not> victim_confirmed x"]
  note s4 = exact_step[OF conjunct2[OF s3] lim(4), where c = "nearest_neighbor_dist x < lit (3/2)"]
  note s5 = exact_step[OF conjunct2[OF s4] lim(5), where c = "geofence_breached x"]
  note s6 = exact_step[OF conjunct2[OF s5] lim(6), where c = "battery_depleted_without_rth x"]
  have sum: "compute_reward reward_default x = Fin (of_int (points x))"
    unfolding compute_reward_def Let_def c r0 conjunct1[OF s1] conjunct1[OF s2] conjunct1[OF s3] conjunct1[OF s4] conjunct1[OF s5]
      conjunct1[OF s6] by (simp add: points_def n_def)
  have "points x < 0" if "nearest_neighbor_dist x < lit (3/2)" "new_cells_covered x < 10" "\<not> victim_confirmed x"
    using that by (auto simp: points_def word_less_def)
  with sum show ?thesis by simp
qed

definition demo_reward_context :: reward_context where
  "demo_reward_context = \<lparr>rx_state = default_at_origin 0, new_cells_covered = 3, victim_confirmed = False, contributed_to_triangulation = False,
     nearest_neighbor_dist = lit 1, geofence_breached = False, battery_depleted_without_rth = False\<rparr>"

theorem reward_is_exact_witness: "compute_reward reward_default demo_reward_context = Fin (- 70)"
proof -
  have "points demo_reward_context = - 70" by (simp add: points_def demo_reward_context_def one_flt_def)
  then show ?thesis using conjunct1[OF reward_is_exact[of demo_reward_context]] by (simp add: demo_reward_context_def)
qed

end
