(* ===== verification/Actor.thy ===== *)
theory Actor
  imports Learning Allocation
begin

text \<open>
  The policy of \<open>src/marl\<close>: the observation of a drone (\<open>observation.rs\<close>), the network that turns it into an action (\<open>actor.rs\<close>), and the
  attention over roles (\<open>role_attention.rs\<close>). Arrays are lists; \<open>tanh\<close>, \<open>exp\<close> and the generator are parameters; an index out of bounds
  is a panic (\<open>None\<close>). \<open>relu\<close> and \<open>sigmoid\<close> are the functions of \<open>Allocation\<close>.
\<close>

section \<open>Observations\<close>

record local_observation =
  own_state :: "f32 list"
  neighbor_relative_pos :: "f32 list"
  obs_grid_tile :: "f32 list"
  csi_reading :: "f32 list"
  task_encoding :: "f32 list"

definition obs_dim :: nat where
  "obs_dim = 9 + 18 + 25 + 5 + 7"

definition obs_zeros :: local_observation where
  "obs_zeros = \<lparr>own_state = replicate 9 0, neighbor_relative_pos = replicate 18 0, obs_grid_tile = replicate 25 0,
     csi_reading = replicate 5 0, task_encoding = replicate 7 0\<rparr>"

definition obs_to_vec :: "local_observation \<Rightarrow> f32 list" where
  "obs_to_vec x = own_state x @ neighbor_relative_pos x @ obs_grid_tile x @ csi_reading x @ task_encoding x"

definition pi_f32 :: f32 where
  "pi_f32 = Fin (13176795 / 4194304)"

text \<open>The array of 18 floats: three per neighbour, of at most six, and zeros after them.\<close>

definition neighbor_slots :: "(position3d \<Rightarrow> f32 list) \<Rightarrow> (node_id \<times> position3d) list \<Rightarrow> f32 list" where
  "neighbor_slots f ns = (let xs = concat (map (\<lambda>(_, p). f p) (take 6 ns)) in xs @ replicate (18 - length xs) 0)"

definition csi_slots :: "drone_state \<Rightarrow> csi_detection option \<Rightarrow> f32 list" where
  "csi_slots st d =
    (case d of Some det \<Rightarrow>
       let vp = (case victim_position det of Some p \<Rightarrow> p | None \<Rightarrow> ds_position st)
       in [det_confidence det, fcast (px vp / lit 100), fcast (py vp / lit 100), fcast (pz vp / lit 10), lit 1]
     | None \<Rightarrow> replicate 5 0)"

definition task_slots :: "position3d option \<Rightarrow> f32 list" where
  "task_slots t =
    (case t of Some p \<Rightarrow> [fcast (px p / lit 100), fcast (py p / lit 100), fcast (pz p / lit 10), lit 1, lit 1, 0, 0] | None \<Rightarrow> replicate 7 0)"

definition obs_from_state ::
  "drone_state \<Rightarrow> (node_id \<times> position3d) list \<Rightarrow> grid_cell list list \<Rightarrow> csi_detection option \<Rightarrow> position3d option \<Rightarrow> local_observation" where
  "obs_from_state st ns tile det task =
    (let p = ds_position st; v = ds_velocity st
     in \<lparr>own_state = [fcast (px p) / lit 1000, fcast (py p) / lit 1000, fcast (pz p) / lit 100, fcast (vx v) / lit 20, fcast (vy v) / lit 20,
           fcast (vz v) / lit 5, fcast (heading_rad st) / pi_f32, battery_pct st / lit 100, link_quality st],
         neighbor_relative_pos =
           neighbor_slots (\<lambda>q. [fcast (px q - px p) / lit 100, fcast (py q - py p) / lit 100, fcast (pz q - pz p) / lit 10]) ns,
         obs_grid_tile = concat (map (map victim_probability) tile), csi_reading = csi_slots st det, task_encoding = task_slots task\<rparr>)"

definition obs_from_state_no_grid ::
  "drone_state \<Rightarrow> (node_id \<times> position3d) list \<Rightarrow> csi_detection option \<Rightarrow> position3d option \<Rightarrow> local_observation" where
  "obs_from_state_no_grid st ns det task =
    (let p = ds_position st; v = ds_velocity st
     in \<lparr>own_state = [fcast (px p / lit 1000), fcast (py p / lit 1000), fcast (pz p / lit 100), fcast (vx v / lit 20), fcast (vy v / lit 20),
           fcast (vz v / lit 5), fcast (heading_rad st / pi_f64), battery_pct st / lit 100, link_quality st],
         neighbor_relative_pos =
           neighbor_slots (\<lambda>q. [fcast ((px q - px p) / lit 100), fcast ((py q - py p) / lit 100), fcast ((pz q - pz p) / lit 10)]) ns,
         obs_grid_tile = replicate 25 0, csi_reading = csi_slots st det, task_encoding = task_slots task\<rparr>)"

section \<open>The network\<close>

record actor_action =
  delta_heading_rad :: f32
  delta_altitude_m :: f32
  act_speed_ms :: f32
  trigger_csi_scan :: bool

record actor_config =
  hidden_dims :: "nat list"
  ac_max_speed_ms :: f32
  max_heading_delta_rad :: f32
  max_altitude_delta_m :: f32

definition actor_config_default :: actor_config where
  "actor_config_default = \<lparr>hidden_dims = [128, 64], ac_max_speed_ms = lit 8, max_heading_delta_rad = pi_f32 / lit 6, max_altitude_delta_m = lit 1\<rparr>"

definition matmul_vec :: "f32 list list \<Rightarrow> f32 list \<Rightarrow> f32 list \<Rightarrow> f32 list" where
  "matmul_vec weights input bias = map (\<lambda>(row, b). fsum (map (\<lambda>(w, x). w * x) (zip row input)) + b) (zip weights bias)"

record mappo_actor =
  act_config :: actor_config
  act_w1 :: "f32 list list"
  act_b1 :: "f32 list"
  act_w2 :: "f32 list list"
  act_b2 :: "f32 list"
  act_w_out :: "f32 list list"
  act_b_out :: "f32 list"

text \<open>The weights are drawn row by row; \<open>gen\<close> is \<open>gen_range(-0.1..0.1)\<close> of the thread's generator.\<close>

fun draw_row :: "('r \<Rightarrow> f32 \<times> 'r) \<Rightarrow> nat \<Rightarrow> 'r \<Rightarrow> f32 list \<times> 'r" where
  "draw_row gen 0 r = ([], r)"
| "draw_row gen (Suc n) r = (let (x, r1) = gen r; (xs, r2) = draw_row gen n r1 in (x # xs, r2))"

fun draw_matrix :: "('r \<Rightarrow> f32 \<times> 'r) \<Rightarrow> nat \<Rightarrow> nat \<Rightarrow> 'r \<Rightarrow> f32 list list \<times> 'r" where
  "draw_matrix gen 0 cols r = ([], r)"
| "draw_matrix gen (Suc n) cols r = (let (row, r1) = draw_row gen cols r; (rows, r2) = draw_matrix gen n cols r1 in (row # rows, r2))"

definition random_init_with_dim :: "('r \<Rightarrow> f32 \<times> 'r) \<Rightarrow> nat \<Rightarrow> actor_config \<Rightarrow> 'r \<Rightarrow> (mappo_actor \<times> 'r) option" where
  "random_init_with_dim gen d cfg r =
    (case hidden_dims cfg of [] \<Rightarrow> None
     | h1 # rest \<Rightarrow>
         let h2 = (case rest of [] \<Rightarrow> 64 | h # _ \<Rightarrow> h);
             (m1, r1) = draw_matrix gen h1 d r; (m2, r2) = draw_matrix gen h2 h1 r1; (m3, r3) = draw_matrix gen 4 h2 r2
         in Some (\<lparr>act_config = cfg, act_w1 = m1, act_b1 = replicate h1 0, act_w2 = m2, act_b2 = replicate h2 0,
                   act_w_out = m3, act_b_out = replicate 4 0\<rparr>, r3))"

definition random_init :: "('r \<Rightarrow> f32 \<times> 'r) \<Rightarrow> actor_config \<Rightarrow> 'r \<Rightarrow> (mappo_actor \<times> 'r) option" where
  "random_init gen cfg r = random_init_with_dim gen obs_dim cfg r"

definition actor_forward :: "(f32 \<Rightarrow> f32) \<Rightarrow> (f32 \<Rightarrow> f32) \<Rightarrow> mappo_actor \<Rightarrow> local_observation \<Rightarrow> actor_action option" where
  "actor_forward tanh_f32 exp_f32 a x =
    (let h1 = map relu (matmul_vec (act_w1 a) (obs_to_vec x) (act_b1 a));
         h2 = map relu (matmul_vec (act_w2 a) h1 (act_b2 a));
         out = matmul_vec (act_w_out a) h2 (act_b_out a); c = act_config a
     in if length out < 4 then None
        else Some \<lparr>delta_heading_rad = tanh_f32 (out ! 0) * max_heading_delta_rad c, delta_altitude_m = tanh_f32 (out ! 1) * max_altitude_delta_m c,
          act_speed_ms = sigmoid exp_f32 (out ! 2) * ac_max_speed_ms c, trigger_csi_scan = lit (1/2) < sigmoid exp_f32 (out ! 3)\<rparr>)"

section \<open>Attention over roles\<close>

datatype node_role = SensorRole | RelayRole | ClusterHeadRole

fun role_embedding :: "node_role \<Rightarrow> f32 list" where
  "role_embedding SensorRole = [lit 1, 0, 0]"
| "role_embedding RelayRole = [0, lit 1, 0]"
| "role_embedding ClusterHeadRole = [0, 0, lit 1]"

record role_attention =
  relay_floor :: f32
  temperature :: f32

definition role_attention_default :: role_attention where
  "role_attention_default = \<lparr>relay_floor = lit (5 / 100), temperature = lit 1\<rparr>"

definition softmax_exps :: "(f32 \<Rightarrow> f32) \<Rightarrow> f32 \<Rightarrow> f32 list \<Rightarrow> f32 list" where
  "softmax_exps exp_f32 t scores = (let top = foldl fmax (Fin (- max_fin TYPE(32))) scores in map (\<lambda>s. exp_f32 ((s - top) / t)) scores)"

definition role_weights :: "(f32 \<Rightarrow> f32) \<Rightarrow> role_attention \<Rightarrow> f32 list \<Rightarrow> node_role list \<Rightarrow> f32 list" where
  "role_weights exp_f32 a scores roles =
    (if scores = [] then []
     else
       let exps = softmax_exps exp_f32 (temperature a) scores; total = fsum exps; w = map (\<lambda>e. e / total) exps;
           n = length (zip w roles);
           floored = map (\<lambda>(wi, role). if role = RelayRole \<and> wi < relay_floor a then relay_floor a else wi) (zip w roles) @ drop n w;
           s = fsum floored
       in if 0 < s then map (\<lambda>wi. wi / s) floored else floored)"

text \<open>One pool: its scores are read, then its share of the mass is written to its places.\<close>

definition weigh_pool :: "(f32 \<Rightarrow> f32) \<Rightarrow> f32 \<Rightarrow> f32 list \<Rightarrow> f32 list \<Rightarrow> nat list \<times> f32 \<Rightarrow> f32 list option" where
  "weigh_pool exp_f32 t scores out = (\<lambda>(idx, mass).
    if idx = [] then Some out
    else if \<exists>i \<in> set idx. length scores \<le> i then None
    else let exps = softmax_exps exp_f32 t (map (\<lambda>i. scores ! i) idx); total = fsum exps
      in Some (foldl (\<lambda>w (i, e). w[i := mass * e / total]) out (zip idx exps)))"

definition segmented_weights :: "(f32 \<Rightarrow> f32) \<Rightarrow> role_attention \<Rightarrow> f32 list \<Rightarrow> node_role list \<Rightarrow> f32 list option" where
  "segmented_weights exp_f32 a scores roles =
    (let sensors = filter (\<lambda>i. roles ! i \<noteq> RelayRole) [0..<length roles]; relays = filter (\<lambda>i. roles ! i = RelayRole) [0..<length roles];
         both = sensors \<noteq> [] \<and> relays \<noteq> []
     in prun (weigh_pool exp_f32 (temperature a) scores) (replicate (length scores) 0)
          [(sensors, if both then lit (6 / 10) else lit 1), (relays, if both then lit (4 / 10) else lit 1)])"

definition triangulation_geometry_penalty :: "node_role \<Rightarrow> f32 list \<Rightarrow> f32 \<Rightarrow> f32 \<Rightarrow> f32" where
  "triangulation_geometry_penalty role angles min_angle penalty =
    (if role \<noteq> SensorRole then 0 else rnd (of_nat (length (filter (\<lambda>a. a < min_angle) angles))) * penalty)"

section \<open>The shape of an observation\<close>

lemma neighbor_slots_length: "(\<And>q. length (f q) = 3) \<Longrightarrow> length (neighbor_slots f ns) = 18"
proof -
  assume f: "\<And>q. length (f q) = 3"
  have "length (concat (map (\<lambda>(_, p). f p) xs)) = 3 * length xs" for xs :: "(node_id \<times> position3d) list"
    using f by (induction xs) auto
  then have "length (concat (map (\<lambda>(_, p). f p) (take 6 ns))) \<le> 18" by simp
  then show ?thesis by (simp add: neighbor_slots_def Let_def)
qed

definition obs_shape :: "local_observation \<Rightarrow> bool" where
  "obs_shape x \<longleftrightarrow> length (own_state x) = 9 \<and> length (neighbor_relative_pos x) = 18 \<and> length (obs_grid_tile x) = 25 \<and>
     length (csi_reading x) = 5 \<and> length (task_encoding x) = 7"

lemma obs_shape_dim: "obs_shape x \<Longrightarrow> length (obs_to_vec x) = obs_dim"
  by (simp add: obs_shape_def obs_to_vec_def obs_dim_def)

lemma observations_have_the_shape:
  "obs_shape obs_zeros" "obs_shape (obs_from_state_no_grid st ns det task)"
  "length tile = 5 \<Longrightarrow> list_all (\<lambda>row. length row = 5) tile \<Longrightarrow> obs_shape (obs_from_state st ns tile det task)"
proof -
  have flat: "length (concat (map (map victim_probability) t)) = 5 * length t" if "list_all (\<lambda>row. length row = 5) t" for t
    using that by (induction t) auto
  show "obs_shape obs_zeros" by (simp add: obs_shape_def obs_zeros_def)
  have c: "length (csi_slots st det) = 5" "length (task_slots task) = 7"
    by (auto simp: csi_slots_def task_slots_def Let_def split: option.splits)
  then show "obs_shape (obs_from_state_no_grid st ns det task)"
    by (simp add: obs_shape_def obs_from_state_no_grid_def Let_def neighbor_slots_length)
  show "length tile = 5 \<Longrightarrow> list_all (\<lambda>row. length row = 5) tile \<Longrightarrow> obs_shape (obs_from_state st ns tile det task)"
    using c by (simp add: obs_shape_def obs_from_state_def Let_def neighbor_slots_length flat)
qed

section \<open>Bounded sums\<close>

definition bounded :: "f32 \<Rightarrow> rat \<Rightarrow> bool" where
  "bounded x b \<longleftrightarrow> is_finite x \<and> \<bar>rval x\<bar> \<le> b"

lemma representable_scaled: "n < 2 ^ 24 \<Longrightarrow> k \<le> 100 \<Longrightarrow> representable TYPE(32) (of_nat n * 2 ^ k)"
  unfolding representable_def by (intro exI[of _ "int n"] exI[of _ "int k"]) simp

lemma bounded_mono: "bounded x a \<Longrightarrow> a \<le> b \<Longrightarrow> bounded x b"
  by (auto simp: bounded_def)

lemma bounded_mk:
  assumes "\<bar>q\<bar> \<le> b" "representable TYPE(32) b"
  shows "bounded (mk s q) b"
proof -
  obtain n e where "b = of_int n * 2 powi e" "\<bar>n\<bar> < 2 ^ prec TYPE(32)" "emin TYPE(32) \<le> e" "e \<le> emax TYPE(32)"
    using assms(2) unfolding representable_def by blast
  then have m: "representable TYPE(32) (- b)" unfolding representable_def by (intro exI[of _ "- n"] exI[of _ e]) simp
  have "(Fin (- b) :: f32) \<le> mk s q" "mk s q \<le> (Fin b :: f32)"
    using assms m by (simp_all add: mk_ge_rval mk_le_rval rnd_le_valid rnd_ge_valid abs_le_iff)
  then show ?thesis using finite_between[of "Fin (- b)" "mk s q :: f32" "Fin b"] by (simp add: bounded_def finite_le_rval abs_le_iff)
qed

lemma bounded_add: "bounded x a \<Longrightarrow> bounded y b \<Longrightarrow> representable TYPE(32) (a + b) \<Longrightarrow> bounded (x + y) (a + b)"
  using abs_triangle_ineq[of "rval x" "rval y"] by (simp add: bounded_def[of x] bounded_def[of y] finite_add) (intro bounded_mk; linarith)

lemma bounded_mult:
  assumes "bounded x a" "bounded y b" "representable TYPE(32) (a * b)"
  shows "bounded (x * y) (a * b)"
proof -
  have x: "is_finite x" "\<bar>rval x\<bar> \<le> a" and y: "is_finite y" "\<bar>rval y\<bar> \<le> b" using assms by (simp_all add: bounded_def)
  have "0 \<le> a" using x(2) abs_ge_zero[of "rval x"] by linarith
  then have "\<bar>rval x * rval y\<bar> \<le> a * b" unfolding abs_mult using x(2) y(2) by (intro mult_mono) simp_all
  then show ?thesis unfolding finite_mult[OF x(1) y(1)] using assms(3) by (rule bounded_mk)
qed

lemma bounded_foldl:
  assumes "\<forall>x \<in> set xs. bounded x (2 ^ k)" "bounded acc (of_nat n * 2 ^ k)" "n + length xs < 2 ^ 24" "k \<le> 100"
  shows "bounded (foldl (+) acc xs) (of_nat (n + length xs) * 2 ^ k)"
  using assms
proof (induction xs arbitrary: acc n)
  case (Cons x xs)
  have e: "of_nat n * 2 ^ k + 2 ^ k = (of_nat (Suc n) * 2 ^ k :: rat)" by (simp add: algebra_simps)
  have "representable TYPE(32) (of_nat n * 2 ^ k + 2 ^ k)" unfolding e using Cons.prems by (intro representable_scaled) simp_all
  then have "bounded (acc + x) (of_nat n * 2 ^ k + 2 ^ k)" using Cons.prems(1,2) by (intro bounded_add) simp_all
  then have "bounded (acc + x) (of_nat (Suc n) * 2 ^ k)" unfolding e .
  then show ?case using Cons.IH[of "acc + x" "Suc n"] Cons.prems by simp
qed simp

lemma bounded_fsum:
  assumes "\<forall>x \<in> set xs. bounded x (2 ^ k)" "length xs \<le> 2 ^ j" "j < 24" "k \<le> 70"
  shows "bounded (fsum xs) (2 ^ (j + k))"
proof -
  have j: "2 ^ j < (2 ^ 24 :: nat)" using assms(3) by (intro power_strict_increasing) simp_all
  have "bounded NZero (of_nat 0 * 2 ^ k)" by (simp add: bounded_def)
  from bounded_foldl[OF assms(1) this] have "bounded (fsum xs) (of_nat (length xs) * 2 ^ k)" using assms j by (simp add: fsum_def)
  moreover have "(of_nat (length xs) * 2 ^ k :: rat) \<le> of_nat (2 ^ j) * 2 ^ k" using assms(2) by (intro mult_right_mono) (simp_all only: of_nat_le_iff zero_le_power zero_le_numeral)
  ultimately show ?thesis by (auto simp: power_add intro: bounded_mono)
qed

text \<open>A layer of weights of at most one, without a bias, on bounded inputs.\<close>

lemma layer_bounded:
  assumes "\<forall>row \<in> set w. \<forall>x \<in> set row. bounded x 1" "\<forall>x \<in> set xs. bounded x (2 ^ k)" "length xs \<le> 2 ^ j" "j < 24" "k \<le> 70"
    "\<forall>b \<in> set bias. b = 0" "y \<in> set (matmul_vec w xs bias)"
  shows "bounded y (2 ^ (j + k))"
proof -
  obtain row b where rb: "(row, b) \<in> set (zip w bias)" "y = fsum (map (\<lambda>(w, x). w * x) (zip row xs)) + b"
    using assms(7) by (auto simp: matmul_vec_def)
  then have row: "row \<in> set w" "y = fsum (map (\<lambda>(w, x). w * x) (zip row xs)) + 0"
    using assms(6) set_zip_leftD[OF rb(1)] set_zip_rightD[OF rb(1)] by auto
  let ?ps = "map (\<lambda>(w, x). w * x) (zip row xs)"
  have "bounded (u * v) (2 ^ k)" if "(u, v) \<in> set (zip row xs)" for u v
    using bounded_mult[of u 1 v "2 ^ k"] assms(1,2,5) row(1) that representable_scaled[of 1 k] by (auto dest: set_zip_leftD set_zip_rightD)
  then have "bounded (fsum ?ps) (2 ^ (j + k))" using assms(3-5) by (intro bounded_fsum) auto
  then have "bounded (fsum ?ps + 0) (2 ^ (j + k) + 0)"
    using representable_scaled[of 1 "j + k"] assms(4,5) by (intro bounded_add) (simp_all add: bounded_def[of "Fin 0"] zero_flt_def)
  then show ?thesis using row(2) by simp
qed

lemma relu_bounded: "bounded x b \<Longrightarrow> bounded (relu x) b"
  by (cases x) (auto simp: bounded_def relu_def fmax_def)

lemma layers_bounded:
  assumes "\<forall>row \<in> set w. \<forall>x \<in> set row. bounded x 1" "\<forall>x \<in> set xs. bounded x (2 ^ k)" "length xs \<le> 2 ^ 10" "k \<le> 70"
  shows "\<forall>v \<in> set (matmul_vec w xs (replicate n 0)). bounded v (2 ^ (10 + k))"
    and "\<forall>v \<in> set (map relu (matmul_vec w xs (replicate n 0))). bounded v (2 ^ (10 + k))"
proof -
  show "\<forall>v \<in> set (matmul_vec w xs (replicate n 0)). bounded v (2 ^ (10 + k))"
  proof
    fix v
    assume "v \<in> set (matmul_vec w xs (replicate n 0))"
    then show "bounded v (2 ^ (10 + k))" using assms(4) by (intro layer_bounded[OF assms(1-3)]) (simp_all add: set_replicate_conv_if)
  qed
  then show "\<forall>v \<in> set (map relu (matmul_vec w xs (replicate n 0))). bounded v (2 ^ (10 + k))" by (simp add: relu_bounded)
qed

section \<open>Actions stay within the limits\<close>

text \<open>
  What the network relies on: \<open>tanh\<close> and \<open>exp\<close> give numbers for numbers, in the unit interval around zero and not negative, and
  \<open>gen_range\<close> draws from its range.
\<close>

definition tanh_laws :: "(f32 \<Rightarrow> f32) \<Rightarrow> bool" where
  "tanh_laws th \<longleftrightarrow> (\<forall>x. \<not> is_nan x \<longrightarrow> - 1 \<le> th x \<and> th x \<le> 1)"

definition draws_small :: "('r \<Rightarrow> f32 \<times> 'r) \<Rightarrow> bool" where
  "draws_small gen \<longleftrightarrow> (\<forall>r. - lit (1 / 10) \<le> fst (gen r) \<and> fst (gen r) < lit (1 / 10))"

definition limits_ok :: "actor_config \<Rightarrow> bool" where
  "limits_ok c \<longleftrightarrow> (\<forall>m \<in> {ac_max_speed_ms c, max_heading_delta_rad c, max_altitude_delta_m c}. is_finite m \<and> valid m \<and> 0 \<le> m)"

lemma draw_row_small: "draws_small gen \<Longrightarrow> draw_row gen n r = (xs, r') \<Longrightarrow> length xs = n \<and> (\<forall>x \<in> set xs. bounded x 1)"
proof (induction n arbitrary: r xs)
  case (Suc n)
  obtain x r1 ys where d: "gen r = (x, r1)" "draw_row gen n r1 = (ys, r')" "xs = x # ys" using Suc.prems(2) by (auto split: prod.splits)
  have l: "(lit (1 / 10) :: f32) \<le> 1" using rnd_mono[of "1 / 10" 1, where 'a = 32] by (simp add: lit_def one_flt_def)
  then have l': "(- 1 :: f32) \<le> - lit (1 / 10)" by (rule flt_uminus_mono)
  have "- lit (1 / 10) \<le> x" "x \<le> lit (1 / 10)" using Suc.prems(1) d(1) flt_less_imp_le unfolding draws_small_def by (metis fst_conv)+
  then have "- 1 \<le> x" "x \<le> 1" using l l' flt_le_trans by blast+
  then have "bounded x 1" using finite_between[of "- 1" x 1] by (auto simp: bounded_def one_flt_def finite_le_rval abs_le_iff)
  then show ?case using Suc.IH[OF Suc.prems(1) d(2)] d(3) by simp
qed simp

lemma draw_matrix_small:
  "draws_small gen \<Longrightarrow> draw_matrix gen n d r = (w, r') \<Longrightarrow> length w = n \<and> (\<forall>row \<in> set w. \<forall>x \<in> set row. bounded x 1)"
proof (induction n arbitrary: r w)
  case (Suc n)
  obtain row r1 rows where s: "draw_row gen d r = (row, r1)" "draw_matrix gen n d r1 = (rows, r')" "w = row # rows"
    using Suc.prems(2) by (auto split: prod.splits)
  then show ?case using Suc.IH[OF Suc.prems(1) s(2)] draw_row_small[OF Suc.prems(1) s(1)] by simp
qed simp

lemma scaled_within:
  fixes t m :: f32
  assumes "- 1 \<le> t" "t \<le> 1" "is_finite m" "valid m" "0 \<le> m"
  shows "- m \<le> t * m \<and> t * m \<le> m" and "0 \<le> t \<Longrightarrow> 0 \<le> t * m"
proof -
  have t: "is_finite t" "\<bar>rval t\<bar> \<le> 1" using assms(1,2) finite_between[of "- 1" t 1] by (auto simp: one_flt_def finite_le_rval abs_le_iff)
  have m: "0 \<le> rval m" "representable TYPE(32) (rval m)" using assms(3-5) by (cases m; simp add: representable_numeral)+
  have "bounded (mk (neg_bit t \<noteq> neg_bit m) (rval t * rval m)) (rval m)"
    using t(2) m mult_right_mono[of "\<bar>rval t\<bar>" 1 "rval m"] by (intro bounded_mk) (simp_all add: abs_mult)
  then have "bounded (t * m) (rval m)" unfolding finite_mult[OF t(1) assms(3)] .
  then show "- m \<le> t * m \<and> t * m \<le> m"
    using assms(3) m(1) by (cases m) (auto simp: bounded_def finite_le_rval abs_le_iff)
  show "0 \<le> t * m" if "0 \<le> t"
    unfolding finite_mult[OF t(1) assms(3)] using that t(1) m(1) by (intro mk_nonneg mult_nonneg_nonneg) (simp_all add: finite_le_rval)
qed

text \<open>
  C30. An actor with freshly drawn weights and up to two hidden layers of up to 1024 units each turns every observation of up to 1024 entries
  between minus and plus 1024 into an action: no panic, no intermediate overflow and no value that is not a number, the turn and the climb
  within their limits in both directions and the speed between zero and its limit.
\<close>
theorem actions_stay_within_limits:
  assumes "draws_small gen" "tanh_laws th" "exp_laws e" "limits_ok cfg"
    "random_init_with_dim gen d cfg r = Some (a, r')" "\<forall>h \<in> set (take 2 (hidden_dims cfg)). h \<le> 2 ^ 10"
    "\<forall>v \<in> set (obs_to_vec x). bounded v (2 ^ 10)" "length (obs_to_vec x) \<le> 2 ^ 10"
  shows "\<exists>act. actor_forward th e a x = Some act \<and>
    - max_heading_delta_rad cfg \<le> delta_heading_rad act \<and> delta_heading_rad act \<le> max_heading_delta_rad cfg \<and>
    - max_altitude_delta_m cfg \<le> delta_altitude_m act \<and> delta_altitude_m act \<le> max_altitude_delta_m cfg \<and>
    0 \<le> act_speed_ms act \<and> act_speed_ms act \<le> ac_max_speed_ms cfg"
proof -
  obtain h1 rest where hd: "hidden_dims cfg = h1 # rest" using assms(5) by (cases "hidden_dims cfg") (simp_all add: random_init_with_dim_def)
  let ?h2 = "case rest of [] \<Rightarrow> 64 | h # _ \<Rightarrow> h"
  have h: "h1 \<le> 2 ^ 10" "?h2 \<le> 2 ^ 10" using assms(6) hd by (auto split: list.splits)
  obtain m1 r1 m2 r2 m3 r3 where m: "draw_matrix gen h1 d r = (m1, r1)" "draw_matrix gen ?h2 h1 r1 = (m2, r2)" "draw_matrix gen 4 ?h2 r2 = (m3, r3)"
    by (metis surj_pair)
  have a: "a = \<lparr>act_config = cfg, act_w1 = m1, act_b1 = replicate h1 0, act_w2 = m2, act_b2 = replicate ?h2 0, act_w_out = m3, act_b_out = replicate 4 0\<rparr>"
    using assms(5) by (simp add: random_init_with_dim_def hd m Let_def)
  note w = draw_matrix_small[OF assms(1) m(1)] draw_matrix_small[OF assms(1) m(2)] draw_matrix_small[OF assms(1) m(3)]
  define l1 where "l1 = map relu (matmul_vec m1 (obs_to_vec x) (replicate h1 0))"
  define l2 where "l2 = map relu (matmul_vec m2 l1 (replicate ?h2 0))"
  define out where "out = matmul_vec m3 l2 (replicate 4 0)"
  have n: "length l1 \<le> 2 ^ 10" "length l2 \<le> 2 ^ 10" "length out = 4" using w h by (simp_all add: l1_def l2_def out_def matmul_vec_def)
  have b1: "\<forall>v \<in> set l1. bounded v (2 ^ 20)" using layers_bounded(2)[OF _ assms(7,8), of m1 h1] w(1) by (simp add: l1_def)
  have b2: "\<forall>v \<in> set l2. bounded v (2 ^ 30)" using layers_bounded(2)[OF _ b1 n(1), of m2 ?h2] w(2) by (simp add: l2_def)
  have b3: "\<forall>v \<in> set out. bounded v (2 ^ 40)" using layers_bounded(1)[OF _ b2 n(2), of m3 4] w(3) by (simp add: out_def)
  have nn: "\<not> is_nan (out ! i)" if "i < 4" for i
    using b3 n(3) that nth_mem[of i out] by (auto simp: bounded_def is_finite_not_nan)
  have sg: "0 \<le> sigmoid e (out ! i) \<and> sigmoid e (out ! i) \<le> 1" if "i < 4" for i
    using assms(3) nn[OF that] by (intro sigmoid_unit) (auto simp: exp_laws_def)
  have th: "- 1 \<le> th (out ! i) \<and> th (out ! i) \<le> 1" if "i < 4" for i using assms(2) nn[OF that] by (simp add: tanh_laws_def)
  have lim: "is_finite k \<and> valid k \<and> 0 \<le> k" if "k \<in> {ac_max_speed_ms cfg, max_heading_delta_rad cfg, max_altitude_delta_m cfg}" for k
    using assms(4) that unfolding limits_ok_def by blast
  have neg: "(- 1 :: f32) \<le> 0" by (simp add: one_flt_def zero_flt_def)
  have "actor_forward th e a x = Some \<lparr>delta_heading_rad = th (out ! 0) * max_heading_delta_rad cfg, delta_altitude_m = th (out ! 1) * max_altitude_delta_m cfg,
      act_speed_ms = sigmoid e (out ! 2) * ac_max_speed_ms cfg, trigger_csi_scan = lit (1/2) < sigmoid e (out ! 3)\<rparr>"
    using n(3) by (simp add: actor_forward_def Let_def a l1_def l2_def out_def)
  then show ?thesis
    using scaled_within[of "th (out ! 0)" "max_heading_delta_rad cfg"] scaled_within[of "th (out ! 1)" "max_altitude_delta_m cfg"]
      scaled_within[of "sigmoid e (out ! 2)" "ac_max_speed_ms cfg"] th[of 0] th[of 1] sg[of 2] flt_le_trans[OF neg, of "sigmoid e (out ! 2)"] lim
    by simp
qed

lemma random_init_returns: "hidden_dims cfg \<noteq> [] \<Longrightarrow> \<exists>a r'. random_init_with_dim gen d cfg r = Some (a, r')"
  by (cases "hidden_dims cfg") (simp_all add: random_init_with_dim_def Let_def case_prod_beta)

lemma default_limits_ok: "limits_ok actor_config_default"
proof -
  have "bounded (mk False (13176795 / 4194304 / 6)) 1" by (rule bounded_mk) (simp_all add: representable_numeral)
  then have "is_finite (pi_f32 / lit 6)" by (simp add: bounded_def pi_f32_def Fin_div)
  moreover have "(0 :: f32) \<le> pi_f32 / lit 6" unfolding pi_f32_def by (simp add: Fin_div mk_nonneg)
  ultimately show ?thesis by (simp add: limits_ok_def actor_config_default_def one_flt_def representable_numeral zero_flt_def)
qed

theorem actions_stay_within_limits_witness:
  "\<exists>a act. random_init_with_dim (\<lambda>r. (0, r)) obs_dim actor_config_default () = Some (a, ()) \<and>
     actor_forward (\<lambda>x. if x < 0 then - 1 else 1) (\<lambda>x. if is_nan x then NaN else 1) a obs_zeros = Some act \<and>
     0 \<le> act_speed_ms act \<and> act_speed_ms act \<le> lit 8"
proof -
  let ?g = "\<lambda>r :: unit. (0 :: f32, r)"
  obtain a where a: "random_init_with_dim ?g obs_dim actor_config_default () = Some (a, ())"
    using random_init_returns[of actor_config_default ?g obs_dim "()"] by (auto simp: actor_config_default_def)
  obtain q where l: "(lit (1 / 10) :: f32) = Fin q" "0 < q"
    by (rule lit_pos[where 'a = 32 and a = "1 / 16" and b = 1 and q = "1 / 10"]) (auto intro: representable_fraction representable_numeral)
  then have "draws_small ?g" using l by (simp add: draws_small_def)
  moreover have "tanh_laws (\<lambda>x. if x < 0 then - 1 else 1)" by (simp add: tanh_laws_def one_flt_def)
  moreover have "exp_laws (\<lambda>x. if is_nan x then NaN else 1)" by (simp add: exp_laws_def one_flt_def)
  moreover have "length (obs_to_vec obs_zeros) = 64" "\<forall>v \<in> set (obs_to_vec obs_zeros). bounded v (2 ^ 10)"
    by (auto simp: obs_to_vec_def obs_zeros_def bounded_def zero_flt_def set_replicate_conv_if)
  ultimately show ?thesis
    using actions_stay_within_limits[OF _ _ _ default_limits_ok a, of "\<lambda>x. if x < 0 then - 1 else 1" "\<lambda>x. if is_nan x then NaN else 1" obs_zeros] a
    by (auto simp: actor_config_default_def)
qed

section \<open>Attention\<close>

lemma role_weights_length: "length (role_weights e a scores roles) = length scores"
  by (simp add: role_weights_def softmax_exps_def Let_def)

lemma weigh_pool_None: "weigh_pool e t scores out (idx, mass) = None \<longleftrightarrow> (\<exists>i \<in> set idx. length scores \<le> i)"
  by (auto simp: weigh_pool_def Let_def)

text \<open>The segmented attention panics exactly when there are more roles than scores.\<close>

lemma segmented_weights_panics: "segmented_weights e a scores roles = None \<longleftrightarrow> length scores < length roles"
proof -
  let ?s = "filter (\<lambda>i. roles ! i \<noteq> RelayRole) [0..<length roles]" and ?r = "filter (\<lambda>i. roles ! i = RelayRole) [0..<length roles]"
  have "segmented_weights e a scores roles = None \<longleftrightarrow> (\<exists>i \<in> set ?s \<union> set ?r. length scores \<le> i)"
    unfolding segmented_weights_def Let_def prun.simps bind_eq_None_conv weigh_pool_None by blast
  also have "set ?s \<union> set ?r = {0..<length roles}" by auto
  finally show ?thesis by (auto intro!: bexI[of _ "length scores"])
qed

text \<open>A pool whose scores are all minus infinity has no weights: the largest score is taken from the smallest finite number up.\<close>

lemma masked_scores_give_nan: "e NInf = 0 \<Longrightarrow> role_weights e role_attention_default [NInf] [SensorRole] = [NaN]"
  by (simp add: role_weights_def softmax_exps_def role_attention_default_def Let_def fmax_def fsum_def minus_flt_def plus_flt_def
      divide_flt_def is_zero_def signed_inf_def zero_flt_def mk_def signed_zero_def)

text \<open>The geometry penalty is for sensors alone.\<close>

lemma geometry_penalty_is_gated: "role \<noteq> SensorRole \<Longrightarrow> triangulation_geometry_penalty role angles m p = 0"
  by (simp add: triangulation_geometry_penalty_def)

end
