(* ===== verification/Training.thy ===== *)
theory Training
  imports Actor
begin

text \<open>
  The training step of \<open>src/marl/training_loop.rs\<close>: the replay buffer, discounted returns and the update statistics; and the advantage
  estimation of \<open>candle_ppo.rs\<close>, whose network and update are in \<open>Candle\<close>. \<open>ln\<close> is a parameter; \<open>powi(2)\<close> is a product; an index out
  of bounds and \<open>remove(0)\<close> of an empty vector are panics (\<open>None\<close>).
\<close>

section \<open>The replay buffer\<close>

record transition =
  tn_obs :: local_observation
  tn_action :: actor_action
  tn_reward :: f32
  tn_next_obs :: local_observation
  tn_done :: bool

record replay_buffer =
  rb_transitions :: "transition list"
  rb_capacity :: nat

definition replay_new :: "nat \<Rightarrow> replay_buffer" where
  "replay_new n = \<lparr>rb_transitions = [], rb_capacity = n\<rparr>"

definition replay_push :: "replay_buffer \<Rightarrow> transition \<Rightarrow> replay_buffer option" where
  "replay_push b t =
    (if rb_capacity b \<le> length (rb_transitions b)
     then if rb_transitions b = [] then None else Some (b\<lparr>rb_transitions := tl (rb_transitions b) @ [t]\<rparr>)
     else Some (b\<lparr>rb_transitions := rb_transitions b @ [t]\<rparr>))"

definition replay_is_full :: "replay_buffer \<Rightarrow> bool" where
  "replay_is_full b \<longleftrightarrow> rb_capacity b \<le> length (rb_transitions b)"

definition replay_len :: "replay_buffer \<Rightarrow> nat" where
  "replay_len b = length (rb_transitions b)"

definition replay_is_empty :: "replay_buffer \<Rightarrow> bool" where
  "replay_is_empty b \<longleftrightarrow> rb_transitions b = []"

section \<open>Returns\<close>

definition alive :: "bool \<Rightarrow> f32" where
  "alive done = (if done then 0 else lit 1)"

definition return_step :: "f32 \<Rightarrow> transition list \<Rightarrow> f32 list \<times> f32 \<Rightarrow> nat \<Rightarrow> f32 list \<times> f32" where
  "return_step gamma ts = (\<lambda>(returns, running) i.
    let running' = tn_reward (ts ! i) + gamma * running * alive (tn_done (ts ! i)) in (returns[i := running'], running'))"

definition compute_returns :: "replay_buffer \<Rightarrow> f32 \<Rightarrow> f32 list" where
  "compute_returns b gamma =
    (let ts = rb_transitions b; n = length ts in fst (foldl (return_step gamma ts) (replicate n 0, 0) (rev [0..<n])))"

definition compute_mean_return :: "replay_buffer \<Rightarrow> f32 \<Rightarrow> f32" where
  "compute_mean_return b gamma = (let rs = compute_returns b gamma in if rs = [] then 0 else mean_of rs)"

section \<open>The update\<close>

record ppo_config =
  ppo_lr :: f32
  ppo_clip_epsilon :: f32
  ppo_gamma :: f32
  ppo_gae_lambda :: f32
  ppo_entropy_coeff :: f32
  ppo_cfg_epochs :: nat

definition ppo_config_default :: ppo_config where
  "ppo_config_default = \<lparr>ppo_lr = lit (3 / 10000), ppo_clip_epsilon = lit (2 / 10), ppo_gamma = lit (99 / 100), ppo_gae_lambda = lit (95 / 100),
     ppo_entropy_coeff = lit (1 / 100), ppo_cfg_epochs = 10\<rparr>"

record update_stats =
  mean_return :: f32
  policy_loss :: f32
  us_entropy :: f32
  us_updates :: nat

definition update_stats_default :: update_stats where
  "update_stats_default = \<lparr>mean_return = 0, policy_loss = 0, us_entropy = 0, us_updates = 0\<rparr>"

definition loss_step :: "(local_observation \<Rightarrow> actor_action option) \<Rightarrow> (f32 \<Rightarrow> f32) \<Rightarrow> f32 \<Rightarrow> transition \<times> f32 \<Rightarrow> f32 option" where
  "loss_step policy ln_f32 acc = (\<lambda>(t, advantage).
    map_option (\<lambda>predicted.
      let log_prob = ln_f32 (fabs (delta_heading_rad predicted + lit (1 / 100000000))) in acc + - log_prob * advantage)
      (policy (tn_obs t)))"

text \<open>The actor is borrowed mutably, but nothing is written to it: it comes back as it went in.\<close>

definition ppo_update ::
  "(f32 \<Rightarrow> f32) \<Rightarrow> (f32 \<Rightarrow> f32) \<Rightarrow> (f32 \<Rightarrow> f32) \<Rightarrow> mappo_actor \<Rightarrow> replay_buffer \<Rightarrow> ppo_config \<Rightarrow> (mappo_actor \<times> update_stats) option" where
  "ppo_update tanh_f32 exp_f32 ln_f32 actor b cfg =
    (if replay_is_empty b then Some (actor, update_stats_default)
     else
       let returns = compute_returns b (ppo_gamma cfg); mean = mean_of returns; var = mean_of (map (\<lambda>r. (r - mean) * (r - mean)) returns);
           std = fmax (fsqrt var) (lit (1 / 100000000)); advantages = map (\<lambda>r. (r - mean) / std) returns
       in map_option (\<lambda>total_loss. (actor, \<lparr>mean_return = mean, policy_loss = total_loss / rnd (of_nat (replay_len b)),
             us_entropy = ppo_entropy_coeff cfg * lit (1/2), us_updates = ppo_cfg_epochs cfg\<rparr>))
            (prun (loss_step (actor_forward tanh_f32 exp_f32 actor) ln_f32) 0 (zip (rb_transitions b) advantages)))"

section \<open>Generalised advantage estimation\<close>

record candle_ppo_config =
  cp_lr :: f64
  cp_clip_epsilon :: f32
  cp_gamma :: f32
  cp_gae_lambda :: f32
  cp_entropy_coeff :: f32
  cp_value_coeff :: f32
  cp_epochs :: nat
  minibatch :: nat

definition candle_ppo_default :: candle_ppo_config where
  "candle_ppo_default = \<lparr>cp_lr = lit (3 / 10000), cp_clip_epsilon = lit (2 / 10), cp_gamma = lit (99 / 100), cp_gae_lambda = lit (95 / 100),
     cp_entropy_coeff = lit (1 / 100), cp_value_coeff = lit (1/2), cp_epochs = 10, minibatch = 64\<rparr>"

definition gae_step ::
  "f32 \<Rightarrow> f32 \<Rightarrow> f32 list \<Rightarrow> f32 list \<Rightarrow> bool list \<Rightarrow> f32 list \<times> f32 list \<times> f32 \<Rightarrow> nat \<Rightarrow> (f32 list \<times> f32 list \<times> f32) option" where
  "gae_step gamma lam rewards values dones = (\<lambda>(advantages, returns, gae) t.
    if Suc t < length rewards \<and> length values \<le> Suc t \<or> length dones \<le> t \<or> length values \<le> t then None
    else
      let next_value = (if Suc t < length rewards then values ! Suc t else 0); nonterminal = alive (dones ! t);
          delta = rewards ! t + gamma * next_value * nonterminal - values ! t;
          gae' = delta + gamma * lam * nonterminal * gae
      in Some (advantages[t := gae'], returns[t := gae' + values ! t], gae'))"

definition compute_gae :: "candle_ppo_config \<Rightarrow> f32 list \<Rightarrow> f32 list \<Rightarrow> bool list \<Rightarrow> (f32 list \<times> f32 list) option" where
  "compute_gae cfg rewards values dones =
    (let n = length rewards in
     map_option (\<lambda>(advantages, returns, _). (advantages, returns))
       (prun (gae_step (cp_gamma cfg) (cp_gae_lambda cfg) rewards values dones) (replicate n 0, replicate n 0, 0) (rev [0..<n])))"

section \<open>The buffer keeps the newest transitions\<close>

text \<open>
  Over any run of pushes a buffer with a capacity holds the newest transitions, in the order of their arrival: as many as fit, and all of
  them before it is full. No push panics.
\<close>
theorem replay_keeps_the_newest:
  assumes "0 < n"
  shows "prun replay_push (replay_new n) ts = Some \<lparr>rb_transitions = drop (length ts - n) ts, rb_capacity = n\<rparr>"
proof (induction ts rule: rev_induct)
  case (snoc t ts)
  have "replay_push \<lparr>rb_transitions = drop (length ts - n) ts, rb_capacity = n\<rparr> t =
      Some \<lparr>rb_transitions = drop (length (ts @ [t]) - n) (ts @ [t]), rb_capacity = n\<rparr>"
  proof (cases "n \<le> length ts")
    case True
    then have "drop (length ts - n) ts \<noteq> []" "Suc (length ts) - n = Suc (length ts - n)" using assms by auto
    with True show ?thesis by (simp add: replay_push_def drop_Suc tl_drop)
  next
    case False
    then show ?thesis by (simp add: replay_push_def)
  qed
  with snoc.IH show ?case by (simp add: prun_append)
qed (simp add: replay_new_def)

theorem replay_keeps_the_newest_witness:
  "prun replay_push (replay_new 2) [t1, t2, t3] = Some \<lparr>rb_transitions = [t2, t3], rb_capacity = 2\<rparr>"
  using replay_keeps_the_newest[of 2 "[t1, t2, t3]"] by simp

lemma buffer_without_capacity_panics: "replay_push (replay_new 0) t = None"
  by (simp add: replay_push_def replay_new_def)

section \<open>Returns as a recursion\<close>

definition next_return :: "f32 list \<Rightarrow> f32" where
  "next_return rs = (case rs of [] \<Rightarrow> 0 | r # _ \<Rightarrow> r)"

fun discounted :: "f32 \<Rightarrow> transition list \<Rightarrow> f32 list" where
  "discounted gamma [] = []"
| "discounted gamma (t # ts) =
    (let rs = discounted gamma ts in (tn_reward t + gamma * next_return rs * alive (tn_done t)) # rs)"

lemma length_discounted [simp]: "length (discounted gamma ts) = length ts"
  by (induction ts) (simp_all add: Let_def)

lemma return_loop:
  "foldl (return_step gamma (xs @ ys)) (replicate (length xs) 0 @ discounted gamma ys, next_return (discounted gamma ys)) (rev [0..<length xs]) =
   (discounted gamma (xs @ ys), next_return (discounted gamma (xs @ ys)))"
proof (induction xs arbitrary: ys rule: rev_induct)
  case (snoc x xs)
  have "return_step gamma (xs @ x # ys) (replicate (length xs) 0 @ 0 # discounted gamma ys, next_return (discounted gamma ys)) (length xs) =
      (replicate (length xs) 0 @ discounted gamma (x # ys), next_return (discounted gamma (x # ys)))"
    by (simp add: return_step_def Let_def list_update_append next_return_def)
  then show ?case using snoc.IH[of "x # ys"] by (simp add: replicate_append_same[symmetric])
qed simp

lemma compute_returns_discounted: "compute_returns b gamma = discounted gamma (rb_transitions b)"
  using return_loop[of gamma "rb_transitions b" "[]"] by (simp add: compute_returns_def Let_def next_return_def)

lemma same_number_add: "same_number a b \<Longrightarrow> same_number (x + a) (x + b)" "same_number a b \<Longrightarrow> same_number (a + x) (b + x)"
  by (cases a; cases b; cases x; auto simp: same_number_def is_zero_def plus_flt_def mk_def signed_zero_def)+

lemma same_number_mult: "same_number a b \<Longrightarrow> same_number (x * a) (x * b)" "same_number a b \<Longrightarrow> same_number (a * x) (b * x)"
  by (cases a; cases b; cases x; auto simp: same_number_def is_zero_def times_flt_def mk_def signed_zero_def)+

lemma same_number_refl [simp]: "same_number x x"
  by (simp add: same_number_def)

lemma zero_times_alive: "is_finite x \<Longrightarrow> is_zero (x * alive True)"
  by (cases x) (simp_all add: alive_def times_flt_def zero_flt_def is_zero_def mk_def signed_zero_def)

lemma discounted_same:
  assumes "list_all2 same_number rs (discounted gamma ys)" "\<not> tn_done x \<Longrightarrow> True"
  shows "same_number (tn_reward x + gamma * next_return rs * alive d) (tn_reward x + gamma * next_return (discounted gamma ys) * alive d)"
  using assms by (intro same_number_add same_number_mult) (auto simp: next_return_def split: list.splits)

lemma discounted_append:
  assumes "xs \<noteq> []" "tn_done (last xs)" "is_finite gamma" "is_finite (gamma * next_return (discounted gamma ys))"
  shows "list_all2 same_number (discounted gamma (xs @ ys)) (discounted gamma xs @ discounted gamma ys)"
  using assms(1,2)
proof (induction xs)
  case (Cons x xs)
  show ?case
  proof (cases "xs = []")
    case True
    have "is_zero (gamma * 0 * alive True)" using assms(3) by (intro zero_times_alive) (cases gamma; simp add: times_flt_def zero_flt_def mk_def signed_zero_def)
    then have "same_number (gamma * next_return (discounted gamma ys) * alive True) (gamma * next_return [] * alive True)"
      using zero_times_alive[OF assms(4)] by (simp add: same_number_def next_return_def)
    then show ?thesis using True Cons.prems(2) by (simp add: Let_def same_number_add list.rel_refl)
  next
    case False
    then have ih: "list_all2 same_number (discounted gamma (xs @ ys)) (discounted gamma xs @ discounted gamma ys)" using Cons by simp
    moreover have "next_return (discounted gamma xs @ discounted gamma ys) = next_return (discounted gamma xs)"
      using False by (cases xs) (simp_all add: next_return_def Let_def)
    moreover have "same_number (next_return (discounted gamma (xs @ ys))) (next_return (discounted gamma xs @ discounted gamma ys))"
      using ih by (auto simp: next_return_def split: list.splits)
    ultimately show ?thesis by (simp add: Let_def same_number_add same_number_mult)
  qed
qed simp

text \<open>
  The returns are discounted sums taken from the end, and an episode's end cuts them: when the last transition of a prefix is done, the
  returns of the whole buffer are those of the prefix followed by those of the rest, as numbers, provided that the first return of the rest
  does not overflow when it is discounted.
\<close>
theorem returns_stop_at_the_end_of_an_episode:
  assumes "rb_transitions b = xs @ ys" "xs \<noteq> []" "tn_done (last xs)" "is_finite gamma"
    "is_finite (gamma * next_return (compute_returns (b\<lparr>rb_transitions := ys\<rparr>) gamma))"
  shows "list_all2 same_number (compute_returns b gamma)
    (compute_returns (b\<lparr>rb_transitions := xs\<rparr>) gamma @ compute_returns (b\<lparr>rb_transitions := ys\<rparr>) gamma)"
  using assms discounted_append by (simp add: compute_returns_discounted)

definition demo_transition :: "f32 \<Rightarrow> bool \<Rightarrow> transition" where
  "demo_transition r d = \<lparr>tn_obs = obs_zeros, tn_action = \<lparr>delta_heading_rad = 0, delta_altitude_m = 0, act_speed_ms = 0, trigger_csi_scan = False\<rparr>,
     tn_reward = r, tn_next_obs = obs_zeros, tn_done = d\<rparr>"

theorem returns_stop_at_the_end_of_an_episode_witness:
  "let b = \<lparr>rb_transitions = [demo_transition 1 True, demo_transition 1 False], rb_capacity = 2\<rparr> in
    list_all2 same_number (compute_returns b (lit (1/2)))
      (compute_returns (b\<lparr>rb_transitions := [demo_transition 1 True]\<rparr>) (lit (1/2)) @
       compute_returns (b\<lparr>rb_transitions := [demo_transition 1 False]\<rparr>) (lit (1/2)))"
  unfolding Let_def
  by (rule returns_stop_at_the_end_of_an_episode)
    (simp_all add: compute_returns_discounted demo_transition_def next_return_def alive_def fin_arith Let_def representable_fraction rnd_exact)

section \<open>The update reports, and trains nothing\<close>

lemma ppo_update_keeps_the_actor: "ppo_update th e lnf a b cfg = Some (a', stats) \<Longrightarrow> a' = a"
  by (auto simp: ppo_update_def Let_def split: if_splits)

section \<open>Advantages as a recursion\<close>

fun gae_spec :: "f32 \<Rightarrow> f32 \<Rightarrow> (f32 \<times> f32 \<times> bool) list \<Rightarrow> f32 list" where
  "gae_spec gamma lam [] = []"
| "gae_spec gamma lam ((r, v, d) # rest) =
    (let gs = gae_spec gamma lam rest; next_value = (case rest of [] \<Rightarrow> 0 | (_, v', _) # _ \<Rightarrow> v')
     in ((r + gamma * next_value * alive d - v) + gamma * lam * alive d * next_return gs) # gs)"

lemma length_gae_spec [simp]: "length (gae_spec gamma lam xs) = length xs"
  by (induction xs) (auto simp: Let_def)

definition gae_returns :: "f32 \<Rightarrow> f32 \<Rightarrow> (f32 \<times> f32 \<times> bool) list \<Rightarrow> f32 list" where
  "gae_returns gamma lam zs = map (\<lambda>(a, _, v, _). a + v) (zip (gae_spec gamma lam zs) zs)"

lemma gae_loop:
  "prun (gae_step gamma lam (map fst (xs @ ys)) (map (fst \<circ> snd) (xs @ ys) @ ve) (map (snd \<circ> snd) (xs @ ys) @ de))
     (replicate (length xs) 0 @ gae_spec gamma lam ys, replicate (length xs) 0 @ gae_returns gamma lam ys, next_return (gae_spec gamma lam ys))
     (rev [0..<length xs]) =
   Some (gae_spec gamma lam (xs @ ys), gae_returns gamma lam (xs @ ys), next_return (gae_spec gamma lam (xs @ ys)))"
proof (induction xs arbitrary: ys rule: rev_induct)
  case (snoc x xs)
  obtain r v d where x: "x = (r, v, d)" by (cases x)
  have "gae_step gamma lam (map fst (xs @ x # ys)) (map (fst \<circ> snd) (xs @ x # ys) @ ve) (map (snd \<circ> snd) (xs @ x # ys) @ de)
      (replicate (length xs) 0 @ 0 # gae_spec gamma lam ys, replicate (length xs) 0 @ 0 # gae_returns gamma lam ys, next_return (gae_spec gamma lam ys))
      (length xs) =
    Some (replicate (length xs) 0 @ gae_spec gamma lam (x # ys), replicate (length xs) 0 @ gae_returns gamma lam (x # ys),
      next_return (gae_spec gamma lam (x # ys)))"
    by (cases ys) (auto simp: x gae_step_def gae_returns_def Let_def list_update_append next_return_def nth_append)
  then show ?case using snoc.IH[of "x # ys"] by (simp add: replicate_append_same[symmetric] comp_def)
qed simp

text \<open>
  The advantages of generalised advantage estimation are those of the recursion from the end, and each return is its advantage and its
  value; the estimation panics exactly when there are more rewards than values or than marks of an episode's end.
\<close>
theorem advantages_are_a_recursion:
  "compute_gae cfg rewards values dones =
    (let zs = zip rewards (zip values dones); g = cp_gamma cfg; l = cp_gae_lambda cfg in
     if length values < length rewards \<or> length dones < length rewards then None else Some (gae_spec g l zs, gae_returns g l zs))"
proof (cases "length values < length rewards \<or> length dones < length rewards")
  case True
  then obtain n where n: "length rewards = Suc n" by (cases "length rewards") auto
  then have "gae_step g l rewards values dones s n = None" for g l s using True by (auto simp: gae_step_def split: prod.splits)
  then show ?thesis using True n by (simp add: compute_gae_def Let_def)
next
  case False
  let ?zs = "zip rewards (zip values dones)" and ?n = "length rewards"
  have "map fst ?zs = rewards" "map (fst \<circ> snd) ?zs = take ?n values" "map (snd \<circ> snd) ?zs = take ?n dones"
    using False by (auto intro!: nth_equalityI)
  then show ?thesis
    using False gae_loop[of "cp_gamma cfg" "cp_gae_lambda cfg" ?zs "[]" "drop ?n values" "drop ?n dones"]
    by (simp add: compute_gae_def Let_def next_return_def gae_returns_def)
qed

text \<open>At the end of an episode the advantage is what the reward exceeds the value by.\<close>

lemma terminal_advantage:
  assumes "is_finite (gamma * v')" "is_finite (next_return (gae_spec gamma lam ((r', v', d') # rest)))" "is_finite (gamma * lam)"
    "valid r"
  shows "same_number (hd (gae_spec gamma lam ((r, v, True) # (r', v', d') # rest))) (r - v)"
proof -
  have z: "is_zero (gamma * v' * alive True)" "is_zero (gamma * lam * alive True)" using assms by (simp_all add: zero_times_alive)
  have add: "same_number (x + a) x" if "is_zero a" "valid x" for x a :: f32
    using that by (cases a; cases x) (auto simp: same_number_def is_zero_def plus_flt_def mk_def signed_zero_def rnd_exact)
  have mult: "is_zero (a * x)" if "is_zero a" "is_finite x" for x a :: f32
    using that by (cases a; cases x) (auto simp: is_zero_def times_flt_def mk_def signed_zero_def)
  have tr: "same_number x y \<Longrightarrow> same_number y w \<Longrightarrow> same_number x w" for x y w by (auto simp: same_number_def)
  have "same_number (r + gamma * v' * alive True - v) (r - v)" unfolding minus_flt_def by (intro same_number_add(2) add z(1) assms(4))
  moreover have "same_number ((r + gamma * v' * alive True - v) + gamma * lam * alive True * next_return (gae_spec gamma lam ((r', v', d') # rest)))
      (r + gamma * v' * alive True - v)" by (intro add mult z(2) assms(2)) simp
  ultimately show ?thesis using tr by (fastforce simp: Let_def)
qed

end
