(* ===== verification/Format.thy ===== *)
theory Format
  imports Ieee
begin

text \<open>
  Numbers as text, as the standard library formats and parses them: decimal digits of an integer, a float with a fixed number of decimals,
  and the parsing of a \<open>usize\<close>.
\<close>

section \<open>Formatting\<close>

fun decimal :: "nat \<Rightarrow> string" where
  "decimal n = (if n < 10 then [char_of (48 + n)] else decimal (n div 10) @ [char_of (48 + n mod 10)])"

declare decimal.simps [simp del]

text \<open>\<open>{:.d}\<close> of a float: the exact value rounded to \<open>d\<close> decimals, ties to even, with the sign of a negative number or zero.\<close>

definition padded :: "nat \<Rightarrow> nat \<Rightarrow> string" where
  "padded d n = replicate (d - length (decimal n)) (CHR ''0'') @ decimal n"

definition fixed_digits :: "nat \<Rightarrow> nat \<Rightarrow> string" where
  "fixed_digits d n = decimal (n div 10 ^ d) @ (if d = 0 then [] else ''.'' @ padded d (n mod 10 ^ d))"

fun fixed :: "nat \<Rightarrow> 'a::len flt \<Rightarrow> string" where
  "fixed d NaN = ''NaN''"
| "fixed d PInf = ''inf''"
| "fixed d NInf = ''-inf''"
| "fixed d NZero = ''-'' @ fixed_digits d 0"
| "fixed d (Fin q) = (if q < 0 then ''-'' else []) @ fixed_digits d (nat (rne (\<bar>q\<bar> * 10 ^ d)))"

definition newline :: char where
  "newline = CHR 0x0A"

section \<open>Parsing\<close>

definition digit :: "char \<Rightarrow> bool" where
  "digit c \<longleftrightarrow> (let n = (of_char c :: nat) in 48 \<le> n \<and> n \<le> 57)"

text \<open>\<open>str::parse::<usize>\<close>: digits after an optional plus sign, below two to the 64.\<close>

definition digits_value :: "string \<Rightarrow> nat" where
  "digits_value ds = foldl (\<lambda>n c. 10 * n + (of_char c - 48)) 0 ds"

definition parse_usize :: "string \<Rightarrow> nat option" where
  "parse_usize s =
    (let ds = (case s of [] \<Rightarrow> [] | c # cs \<Rightarrow> if c = CHR ''+'' then cs else s)
     in if ds \<noteq> [] \<and> list_all digit ds \<and> digits_value ds < 2 ^ 64 then Some (digits_value ds) else None)"

text \<open>
  The loop of a program over its arguments: \<open>upd\<close> stores the value of a known flag, the next argument whatever it is, or none at the end;
  an unknown argument is skipped; \<open>None\<close> is a request for help.
\<close>

fun flag_loop :: "(string \<Rightarrow> bool) \<Rightarrow> (string \<Rightarrow> string option \<Rightarrow> 'a \<Rightarrow> 'a option) \<Rightarrow> 'a \<Rightarrow> string list \<Rightarrow> 'a option" where
  "flag_loop ask upd a [] = Some a"
| "flag_loop ask upd a [f] = (if ask f then None else Some (case upd f None a of Some a' \<Rightarrow> a' | None \<Rightarrow> a))"
| "flag_loop ask upd a (f # v # rest) =
    (if ask f then None else case upd f (Some v) a of Some a' \<Rightarrow> flag_loop ask upd a' rest | None \<Rightarrow> flag_loop ask upd a (v # rest))"

definition is_help :: "string \<Rightarrow> bool" where
  "is_help f \<longleftrightarrow> f = ''-h'' \<or> f = ''--help''"

definition parsed_or :: "nat \<Rightarrow> string \<Rightarrow> nat" where
  "parsed_or n s = (case parse_usize s of Some k \<Rightarrow> k | None \<Rightarrow> n)"

lemma flag_loop_keeps:
  assumes "\<And>f v a a'. P a \<Longrightarrow> upd f v a = Some a' \<Longrightarrow> P a'" "P a" "flag_loop ask upd a argv = Some b"
  shows "P b"
  using assms
proof (induction ask upd a argv rule: flag_loop.induct)
  case (2 ask upd a f)
  then show ?case by (cases "upd f None a") (auto split: if_splits)
next
  case (3 ask upd a f v rest)
  then show ?case by (cases "upd f (Some v) a") (auto split: if_splits)
qed simp

section \<open>Digits\<close>

lemma digit_char: "n < 10 \<Longrightarrow> digit (char_of (48 + n :: nat))"
  by (simp add: digit_def Let_def)

lemma zero_char: "char_of (48 :: nat) = CHR ''0''"
  by code_simp

lemma decimal_digits: "list_all digit (decimal n) \<and> decimal n \<noteq> []"
  by (induction n rule: decimal.induct) (subst decimal.simps, subst (2) decimal.simps, auto simp: digit_char)

lemma decimal_hd: "0 < n \<Longrightarrow> hd (decimal n) \<noteq> CHR ''0''"
proof (induction n rule: decimal.induct)
  case (1 n)
  show ?case
  proof (cases "n < 10")
    case True
    have "(of_char (char_of (48 + n) :: char) :: nat) \<noteq> of_char (CHR ''0'')" using True 1(2) by simp
    then have "char_of (48 + n) \<noteq> CHR ''0''" by metis
    then show ?thesis using True by (subst decimal.simps) simp
  next
    case False
    then have "hd (decimal (n div 10)) \<noteq> CHR ''0''" by (intro 1(1)) simp_all
    then show ?thesis using False decimal_digits[of "n div 10"] by (subst decimal.simps) simp
  qed
qed

lemma padded_digits: "list_all digit (padded d n) \<and> padded d n \<noteq> []"
  using decimal_digits[of n] by (auto simp: padded_def list_all_iff digit_def Let_def)

lemma ties_to_even: "fixed 1 (Fin (1/4) :: f64) = ''0.2''" "fixed 1 (Fin (3/4) :: f64) = ''0.8''" "fixed 2 (Fin (- 1/1024) :: f64) = ''-0.00''"
  by code_simp+

section \<open>A formatted number is parsed back\<close>

lemma digits_value_snoc: "digits_value (ds @ [c]) = 10 * digits_value ds + (of_char c - 48)"
  by (simp add: digits_value_def)

lemma digits_value_decimal: "digits_value (decimal n) = n"
proof (induction n rule: decimal.induct)
  case (1 n)
  then show ?case by (subst decimal.simps) (simp add: digits_value_snoc, simp add: digits_value_def)
qed

lemma parse_decimal: "n < 2 ^ 64 \<Longrightarrow> parse_usize (decimal n) = Some n"
proof -
  assume n: "n < 2 ^ 64"
  obtain c cs where d: "decimal n = c # cs" "digit c" using decimal_digits[of n] by (cases "decimal n") auto
  then have "c \<noteq> CHR ''+''" by (auto simp: digit_def)
  then show ?thesis using n decimal_digits[of n] digits_value_decimal[of n] by (simp add: parse_usize_def d(1))
qed

lemma parse_bound: "parse_usize s = Some n \<Longrightarrow> n < 2 ^ 64"
  by (simp add: parse_usize_def Let_def split: if_splits)

end
