(* ===== verification/Ruflo.thy ===== *)
theory Ruflo
  imports Types Format "HOL-Library.Sublist"
begin

text \<open>
  The memory backend of \<open>src/ruflo\<close>: the types of \<open>backend.rs\<close> and the in-memory double of \<open>mock_backend.rs\<close>. A string is the list of its
  bytes; every call of the double succeeds, one at a time behind its mutexes.
\<close>

section \<open>The interface\<close>

datatype ruflo_error = Network string | Tool string | Serialize string

record mission_memory_entry =
  me_key :: string
  me_value :: string
  me_score :: f32

record pattern_entry =
  pe_pattern :: string
  pe_pattern_type :: string
  pe_confidence :: f32
  pe_score :: f32

record mavlink_scan_result =
  scan_is_safe :: bool
  threats :: "string list"

text \<open>
  What a client of a memory may rely on: an item list that stores extend, and searches that report the first items within the limit, each
  once and in order.
\<close>

locale memory_backend =
  fixes items :: "'s \<Rightarrow> 'i list"
    and store :: "'i \<Rightarrow> 's \<Rightarrow> 's"
    and search :: "'q \<Rightarrow> nat \<Rightarrow> 's \<Rightarrow> 'i list"
    and matches :: "'q \<Rightarrow> 'i \<Rightarrow> bool"
  assumes items_store: "items (store i s) = items s @ [i]"
    and search_items: "search q n s = take n (filter (matches q) (items s))"
begin

lemma search_within_limit: "length (search q n s) \<le> n"
  by (simp add: search_items)

lemma search_stored: "set (search q n s) \<subseteq> set (items s)" "i \<in> set (search q n s) \<Longrightarrow> matches q i"
  by (auto simp: search_items dest: in_set_takeD)

lemma items_stores: "items (foldl (\<lambda>s i. store i s) s is) = items s @ is"
  by (induction "is" arbitrary: s) (simp_all add: items_store)

lemma stored_is_found: "matches q i \<Longrightarrow> length (items s) < n \<Longrightarrow> i \<in> set (search q n (store i s))"
proof -
  assume a: "matches q i" "length (items s) < n"
  have "length (filter (matches q) (items s @ [i])) \<le> n"
    using length_filter_le[of "matches q" "items s @ [i]"] a(2) unfolding length_append list.size by linarith
  then show ?thesis using a(1) by (simp add: search_items items_store)
qed

lemma full_answer_ignores_stores: "n \<le> length (filter (matches q) (items s)) \<Longrightarrow> search q n (store i s) = search q n s"
  by (simp add: search_items items_store)

end

section \<open>The double\<close>

record mock_ruflo =
  missions :: "(string \<times> string) list"
  patterns :: "(string \<times> string \<times> f32) list"
  mock_scan_safe :: bool
  traj_ids :: "string list"

definition mock_new :: mock_ruflo where
  "mock_new = \<lparr>missions = [], patterns = [], mock_scan_safe = True, traj_ids = []\<rparr>"

definition store_mission :: "string \<times> string \<Rightarrow> mock_ruflo \<Rightarrow> mock_ruflo" where
  "store_mission kv m = m\<lparr>missions := missions m @ [kv]\<rparr>"

definition store_pattern :: "string \<times> string \<times> f32 \<Rightarrow> mock_ruflo \<Rightarrow> mock_ruflo" where
  "store_pattern p m = m\<lparr>patterns := patterns m @ [p]\<rparr>"

definition reject_next :: "mock_ruflo \<Rightarrow> mock_ruflo" where
  "reject_next m = m\<lparr>mock_scan_safe := False\<rparr>"

definition mission_entry :: "string \<Rightarrow> string \<times> string \<Rightarrow> mission_memory_entry" where
  "mission_entry query = (\<lambda>(k, v). \<lparr>me_key = k, me_value = v, me_score = (if sublist query v then lit (9 / 10) else lit (1/2))\<rparr>)"

definition search_missions :: "string \<Rightarrow> nat \<Rightarrow> mock_ruflo \<Rightarrow> mission_memory_entry list" where
  "search_missions query limit m = map (mission_entry query) (take limit (missions m))"

definition pattern_of :: "string \<times> string \<times> f32 \<Rightarrow> pattern_entry" where
  "pattern_of = (\<lambda>(p, t, c). \<lparr>pe_pattern = p, pe_pattern_type = t, pe_confidence = c, pe_score = c\<rparr>)"

definition search_patterns :: "nat \<Rightarrow> f32 \<Rightarrow> mock_ruflo \<Rightarrow> pattern_entry list" where
  "search_patterns top_k min_conf m = map pattern_of (take top_k (filter (\<lambda>(_, _, c). min_conf \<le> c) (patterns m)))"

definition mavlink_is_safe :: "mock_ruflo \<Rightarrow> bool" where
  "mavlink_is_safe m = mock_scan_safe m"

definition mavlink_scan :: "mock_ruflo \<Rightarrow> mavlink_scan_result" where
  "mavlink_scan m = \<lparr>scan_is_safe = mock_scan_safe m, threats = (if mock_scan_safe m then [] else [''suspicious_coordinates''])\<rparr>"

definition mock_trajectory_start :: "string \<Rightarrow> mock_ruflo \<Rightarrow> string \<times> mock_ruflo" where
  "mock_trajectory_start task m = (let i = ''mock-traj-'' @ decimal (length task) in (i, m\<lparr>traj_ids := traj_ids m @ [i]\<rparr>))"

section \<open>The double is a memory\<close>

definition found_missions :: "string \<Rightarrow> nat \<Rightarrow> mock_ruflo \<Rightarrow> (string \<times> string) list" where
  "found_missions query n m = map (\<lambda>e. (me_key e, me_value e)) (search_missions query n m)"

definition found_patterns :: "f32 \<Rightarrow> nat \<Rightarrow> mock_ruflo \<Rightarrow> (string \<times> string \<times> f32) list" where
  "found_patterns c n m = map (\<lambda>e. (pe_pattern e, pe_pattern_type e, pe_confidence e)) (search_patterns n c m)"

interpretation mission_memory: memory_backend missions store_mission found_missions "\<lambda>_ _. True"
  by unfold_locales (simp_all add: store_mission_def found_missions_def search_missions_def mission_entry_def comp_def case_prod_beta)

interpretation pattern_memory: memory_backend patterns store_pattern found_patterns "\<lambda>c (_, _, y). c \<le> y"
  by unfold_locales (simp_all add: store_pattern_def found_patterns_def search_patterns_def pattern_of_def comp_def case_prod_beta)

text \<open>
  A mission stored in a memory below the limit is found again, whatever the query; a pattern only within the confidence asked for. The query
  does not select: it only scores.
\<close>

lemma stored_mission_is_found: "length (missions m) < n \<Longrightarrow> kv \<in> set (found_missions query n (store_mission kv m))"
  by (rule mission_memory.stored_is_found) simp_all

lemma found_patterns_are_confident: "p \<in> set (found_patterns c n m) \<Longrightarrow> c \<le> snd (snd p)"
  using pattern_memory.search_stored(2)[of p c n m] by auto

text \<open>The searches answer with the oldest missions: a memory with as many missions as the limit never reports a newer one.\<close>

lemma newest_mission_is_not_found: "n \<le> length (missions m) \<Longrightarrow> found_missions query n (store_mission kv m) = found_missions query n m"
  by (rule mission_memory.full_answer_ignores_stores) simp

text \<open>Trajectories of tasks with names of one length share their identifier.\<close>

lemma trajectory_ids_collide: "length t = length t' \<Longrightarrow> fst (mock_trajectory_start t m) = fst (mock_trajectory_start t' m')"
  by (simp add: mock_trajectory_start_def Let_def)

end
