(* ===== verification/Candle.thy ===== *)
theory Candle
  imports Training
begin

text \<open>
  The trainer of \<open>src/marl/candle_ppo.rs\<close>: the network of an actor with a critic, its forward pass, and the update over a rollout. Tensors, layers,
  the optimizer and the variables belong to the candle crates and are parameters: every call of them returns its \<open>CandleResult\<close>, an error or a
  value. A layer reads the variables when it is applied, and the backward step of the optimizer changes them, so both take their contents.
\<close>

section \<open>The crates\<close>

record ('t, 'l, 's, 'd, 'o, 'e) candle_api =
  cd_cpu :: 'd
  cd_cuda :: "'e + 'd"
  cd_varmap :: 's
  cd_linear :: "nat \<Rightarrow> nat \<Rightarrow> string \<Rightarrow> 'd \<Rightarrow> 's \<Rightarrow> ('e + 'l) \<times> 's"
  cd_get :: "nat \<Rightarrow> string \<Rightarrow> 'd \<Rightarrow> 's \<Rightarrow> ('e + 't) \<times> 's"
  cd_adamw :: "'s \<Rightarrow> f64 \<Rightarrow> 'e + 'o"
  cd_from_vec :: "f32 list \<Rightarrow> nat list \<Rightarrow> 'd \<Rightarrow> 'e + 't"
  cd_forward :: "'l \<Rightarrow> 's \<Rightarrow> 't \<Rightarrow> 'e + 't"
  cd_relu :: "'t \<Rightarrow> 'e + 't"
  cd_squeeze :: "nat \<Rightarrow> 't \<Rightarrow> 'e + 't"
  cd_narrow :: "nat \<Rightarrow> nat \<Rightarrow> nat \<Rightarrow> 't \<Rightarrow> 'e + 't"
  cd_sub :: "'t \<Rightarrow> 't \<Rightarrow> 'e + 't"
  cd_mul :: "'t \<Rightarrow> 't \<Rightarrow> 'e + 't"
  cd_add :: "'t \<Rightarrow> 't \<Rightarrow> 'e + 't"
  cd_sqr :: "'t \<Rightarrow> 'e + 't"
  cd_neg :: "'t \<Rightarrow> 'e + 't"
  cd_mean_all :: "'t \<Rightarrow> 'e + 't"
  cd_affine :: "f64 \<Rightarrow> f64 \<Rightarrow> 't \<Rightarrow> 'e + 't"
  cd_backward_step :: "'t \<Rightarrow> 'o \<Rightarrow> 's \<Rightarrow> ('e + unit) \<times> 'o \<times> 's"
  cd_to_scalar :: "'t \<Rightarrow> 'e + f32"

section \<open>The network\<close>

record ('t, 'l, 's, 'd) candle_actor_critic =
  ac_l1 :: 'l
  ac_l2 :: 'l
  action_head :: 'l
  value_head :: 'l
  ac_log_std :: 't
  ac_device :: 'd
  ac_varmap :: 's

text \<open>\<open>cuda\<close> is the feature of that name.\<close>

definition select_device :: "bool \<Rightarrow> ('t, 'l, 's, 'd, 'o, 'e) candle_api \<Rightarrow> 'd" where
  "select_device cuda C = (if cuda then (case cd_cuda C of Inr d \<Rightarrow> d | Inl _ \<Rightarrow> cd_cpu C) else cd_cpu C)"

text \<open>A call that registers variables, and what follows it.\<close>

definition registered :: "('e + 'a) \<times> 's \<Rightarrow> ('a \<Rightarrow> 's \<Rightarrow> 'e + 'b) \<Rightarrow> 'e + 'b" where
  "registered r f = bindE (fst r) (\<lambda>x. f x (snd r))"

definition actor_critic_new ::
  "('t, 'l, 's, 'd, 'o, 'e) candle_api \<Rightarrow> 'd \<Rightarrow> 'e + ('t, 'l, 's, 'd) candle_actor_critic" where
  "actor_critic_new C d =
    registered (cd_linear C obs_dim 128 ''l1'' d (cd_varmap C)) (\<lambda>l1 s1.
    registered (cd_linear C 128 64 ''l2'' d s1) (\<lambda>l2 s2.
    registered (cd_linear C 64 4 ''action'' d s2) (\<lambda>action s3.
    registered (cd_linear C 64 1 ''value'' d s3) (\<lambda>value s4.
    registered (cd_get C 3 ''log_std'' d s4) (\<lambda>log_std s5.
      Inr \<lparr>ac_l1 = l1, ac_l2 = l2, action_head = action, value_head = value, ac_log_std = log_std, ac_device = d, ac_varmap = s5\<rparr>)))))"

definition actor_critic_forward ::
  "('t, 'l, 's, 'd, 'o, 'e) candle_api \<Rightarrow> ('t, 'l, 's, 'd) candle_actor_critic \<Rightarrow> 't \<Rightarrow> 'e + ('t \<times> 't)" where
  "actor_critic_forward C net obs =
    (let s = ac_varmap net in
     bindE (cd_forward C (ac_l1 net) s obs) (\<lambda>a1. bindE (cd_relu C a1) (\<lambda>h1.
     bindE (cd_forward C (ac_l2 net) s h1) (\<lambda>a2. bindE (cd_relu C a2) (\<lambda>h2.
     bindE (cd_forward C (action_head net) s h2) (\<lambda>action_mean.
     bindE (cd_forward C (value_head net) s h2) (\<lambda>value. Inr (action_mean, value))))))))"

section \<open>The trainer\<close>

record ('t, 'l, 's, 'd, 'o) candle_trainer =
  ct_net :: "('t, 'l, 's, 'd) candle_actor_critic"
  ct_optimizer :: 'o
  ct_config :: candle_ppo_config

definition candle_trainer_new ::
  "bool \<Rightarrow> ('t, 'l, 's, 'd, 'o, 'e) candle_api \<Rightarrow> candle_ppo_config \<Rightarrow> 'e + ('t, 'l, 's, 'd, 'o) candle_trainer" where
  "candle_trainer_new cuda C cfg =
    bindE (actor_critic_new C (select_device cuda C)) (\<lambda>net.
    bindE (cd_adamw C (ac_varmap net) (cp_lr cfg)) (\<lambda>optimizer.
      Inr \<lparr>ct_net = net, ct_optimizer = optimizer, ct_config = cfg\<rparr>))"

text \<open>The losses of an epoch: of the policy, of the value, and their weighted sum.\<close>

definition epoch_losses ::
  "('t, 'l, 's, 'd, 'o, 'e) candle_api \<Rightarrow> ('t, 'l, 's, 'd, 'o) candle_trainer \<Rightarrow> 't \<Rightarrow> 't \<Rightarrow> 't \<Rightarrow> 'e + ('t \<times> 't \<times> 't)" where
  "epoch_losses C tr obs_t adv_t ret_t =
    bindE (actor_critic_forward C (ct_net tr) obs_t) (\<lambda>(action_mean, value0).
    bindE (cd_squeeze C 1 value0) (\<lambda>value.
    bindE (cd_sub C value ret_t) (\<lambda>diff. bindE (cd_sqr C diff) (\<lambda>sq. bindE (cd_mean_all C sq) (\<lambda>vloss.
    bindE (cd_narrow C 1 0 1 action_mean) (\<lambda>column. bindE (cd_squeeze C 1 column) (\<lambda>pred_action.
    bindE (cd_mul C adv_t pred_action) (\<lambda>weighted. bindE (cd_mean_all C weighted) (\<lambda>surrogate.
    bindE (cd_neg C surrogate) (\<lambda>ploss.
    bindE (cd_affine C (fcast (cp_value_coeff (ct_config tr))) 0 vloss) (\<lambda>scaled.
    bindE (cd_add C ploss scaled) (\<lambda>total_loss. Inr (ploss, vloss, total_loss)))))))))))))"

definition scalar_or_zero :: "('t, 'l, 's, 'd, 'o, 'e) candle_api \<Rightarrow> 't \<Rightarrow> f32" where
  "scalar_or_zero C x = (case cd_to_scalar C x of Inr v \<Rightarrow> v | Inl _ \<Rightarrow> 0)"

fun update_epochs ::
  "('t, 'l, 's, 'd, 'o, 'e) candle_api \<Rightarrow> 't \<Rightarrow> 't \<Rightarrow> 't \<Rightarrow> nat \<Rightarrow> f32 \<times> f32 \<times> f32 \<Rightarrow> ('t, 'l, 's, 'd, 'o) candle_trainer
     \<Rightarrow> ('e + f32 \<times> f32 \<times> f32) \<times> ('t, 'l, 's, 'd, 'o) candle_trainer" where
  "update_epochs C obs_t adv_t ret_t 0 latest tr = (Inr latest, tr)"
| "update_epochs C obs_t adv_t ret_t (Suc n) latest tr =
    (case epoch_losses C tr obs_t adv_t ret_t of
       Inl e \<Rightarrow> (Inl e, tr)
     | Inr (ploss, vloss, total_loss) \<Rightarrow>
         (case cd_backward_step C total_loss (ct_optimizer tr) (ac_varmap (ct_net tr)) of
            (r, optimizer, vars) \<Rightarrow>
              let tr' = tr\<lparr>ct_optimizer := optimizer, ct_net := (ct_net tr)\<lparr>ac_varmap := vars\<rparr>\<rparr>
              in (case r of Inl e \<Rightarrow> (Inl e, tr')
                  | Inr _ \<Rightarrow> update_epochs C obs_t adv_t ret_t n (scalar_or_zero C ploss, scalar_or_zero C vloss, 0) tr')))"

text \<open>The actions and the earlier log-probabilities are not used.\<close>

definition candle_update ::
  "('t, 'l, 's, 'd, 'o, 'e) candle_api \<Rightarrow> local_observation list \<Rightarrow> (f32 \<times> f32 \<times> f32 \<times> f32) list \<Rightarrow> f32 list \<Rightarrow> f32 list \<Rightarrow> f32 list
     \<Rightarrow> ('t, 'l, 's, 'd, 'o) candle_trainer \<Rightarrow> ('e + f32 \<times> f32 \<times> f32) \<times> ('t, 'l, 's, 'd, 'o) candle_trainer" where
  "candle_update C obs_batch _ advantages returns _ tr =
    (let b = length obs_batch; d = ac_device (ct_net tr) in
     if b = 0 then (Inr (0, 0, 0), tr)
     else
       case bindE (cd_from_vec C (concat (map obs_to_vec obs_batch)) [b, obs_dim] d) (\<lambda>obs_t.
            bindE (cd_from_vec C advantages [b] d) (\<lambda>adv_t.
            bindE (cd_from_vec C returns [b] d) (\<lambda>ret_t. Inr (obs_t, adv_t, ret_t)))) of
         Inl e \<Rightarrow> (Inl e, tr)
       | Inr (obs_t, adv_t, ret_t) \<Rightarrow> update_epochs C obs_t adv_t ret_t (cp_epochs (ct_config tr)) (0, 0, 0) tr)"

section \<open>What an update keeps\<close>

text \<open>An update changes the variables and the optimizer only: layers, device and configuration of the trainer stay.\<close>

definition same_network :: "('t, 'l, 's, 'd, 'o) candle_trainer \<Rightarrow> ('t, 'l, 's, 'd, 'o) candle_trainer \<Rightarrow> bool" where
  "same_network tr tr' \<longleftrightarrow> ct_config tr' = ct_config tr \<and> (\<exists>vars. ct_net tr' = (ct_net tr)\<lparr>ac_varmap := vars\<rparr>)"

lemma same_network_refl: "same_network tr tr"
  by (auto simp: same_network_def intro!: exI[of _ "ac_varmap (ct_net tr)"])

lemma update_epochs_keep: "same_network tr (snd (update_epochs C obs_t adv_t ret_t n latest tr))"
proof (induction n arbitrary: latest tr)
  case (Suc n)
  have "same_network tr (snd (update_epochs C obs_t adv_t ret_t n l (tr\<lparr>ct_optimizer := optimizer, ct_net := (ct_net tr)\<lparr>ac_varmap := vars\<rparr>\<rparr>)))"
    for l optimizer vars
    using Suc.IH[of "tr\<lparr>ct_optimizer := optimizer, ct_net := (ct_net tr)\<lparr>ac_varmap := vars\<rparr>\<rparr>" l]
    by (auto simp: same_network_def)
  then show ?case
    by (auto simp: Let_def same_network_refl same_network_def[of tr "tr\<lparr>ct_optimizer := _, ct_net := _\<rparr>"] split: sum.splits prod.splits)
qed (simp add: same_network_refl)

lemma candle_update_keeps: "same_network tr (snd (candle_update C obs actions advantages returns old tr))"
  by (auto simp: candle_update_def Let_def same_network_refl update_epochs_keep split: sum.splits)

lemma empty_batch_keeps_the_trainer: "candle_update C [] actions advantages returns old tr = (Inr (0, 0, 0), tr)"
  by (simp add: candle_update_def)

end
