(* ===== verification/Telemetry.thy ===== *)
theory Telemetry
  imports Mavlink Format
begin

text \<open>
  The recorder of \<open>src/integration/telemetry.rs\<close>: the three kinds of JSON lines it writes. Strings are over the first 256
  code points; the buffered file is a parameter. The frames of a drone are in \<open>Mavlink\<close>.
\<close>

section \<open>The lines\<close>

definition quote_mark :: char where
  "quote_mark = CHR 0x22"

definition quoted :: "string \<Rightarrow> string" where
  "quoted s = [quote_mark] @ s @ [quote_mark]"

fun joined :: "string list \<Rightarrow> string" where
  "joined [] = []"
| "joined [s] = s"
| "joined (s # t # ss) = s @ '','' @ joined (t # ss)"

definition json_array :: "string list \<Rightarrow> string" where
  "json_array vs = ''['' @ joined vs @ '']''"

definition json_object :: "(string \<times> string) list \<Rightarrow> string" where
  "json_object ms = ''{'' @ joined (map (\<lambda>(k, v). quoted k @ '':'' @ v) ms) @ ''}''"

definition sanitize :: "string \<Rightarrow> string" where
  "sanitize s = filter (\<lambda>c. c \<noteq> quote_mark \<and> c \<noteq> CHR 0x5C \<and> c \<noteq> newline) s"

definition show_bool :: "bool \<Rightarrow> string" where
  "show_bool b = (if b then ''true'' else ''false'')"

definition meta_json :: "string \<Rightarrow> nat \<Rightarrow> f64 \<Rightarrow> f64 \<Rightarrow> position3d list \<Rightarrow> string" where
  "meta_json name drones w h victims =
    json_object [(''type'', quoted ''meta''), (''profile'', quoted (sanitize name)), (''drones'', decimal drones),
      (''area_w'', fixed 2 w), (''area_h'', fixed 2 h),
      (''victims'', json_array (map (\<lambda>v. json_array [fixed 2 (px v), fixed 2 (py v)]) victims))]"

definition frame_json :: "drone_frame \<Rightarrow> string" where
  "frame_json d =
    json_object [(''id'', decimal (unat (fr_id d))), (''x'', fixed 2 (fr_x d)), (''y'', fixed 2 (fr_y d)),
      (''hdg'', fixed 3 (fr_heading_rad d)), (''batt'', fixed 1 (fr_battery_pct d)), (''det'', show_bool (fr_detected d))]"

definition step_json :: "nat \<Rightarrow> nat \<Rightarrow> f64 \<Rightarrow> drone_frame list \<Rightarrow> f64 \<Rightarrow> string" where
  "step_json ep k t frames coverage =
    json_object [(''type'', quoted ''step''), (''ep'', decimal ep), (''step'', decimal k), (''t'', fixed 2 t),
      (''coverage'', fixed 4 coverage), (''drones'', json_array (map frame_json frames))]"

definition episode_json :: "nat \<Rightarrow> f32 \<Rightarrow> f32 \<Rightarrow> f32 \<Rightarrow> nat \<Rightarrow> string" where
  "episode_json ep ret ploss vloss found =
    json_object [(''type'', quoted ''episode''), (''ep'', decimal ep), (''mean_return'', fixed 4 ret),
      (''policy_loss'', fixed 4 ploss), (''value_loss'', fixed 4 vloss), (''victims_found'', decimal found)]"

section \<open>The recorder\<close>

text \<open>\<open>put\<close> is the write of a formatted text to the buffered file, with its result and the file afterwards.\<close>

type_synonym ('w, 'e) put = "string \<Rightarrow> 'w \<Rightarrow> ('e + unit) \<times> 'w"

datatype telemetry_record =
    MetaRecord string nat f64 f64 "position3d list"
  | StepRecord nat nat f64 "drone_frame list" f64
  | EpisodeRecord nat f32 f32 f32 nat

fun record_json :: "telemetry_record \<Rightarrow> string" where
  "record_json (MetaRecord name drones w h victims) = meta_json name drones w h victims"
| "record_json (StepRecord ep k t frames coverage) = step_json ep k t frames coverage"
| "record_json (EpisodeRecord ep ret ploss vloss found) = episode_json ep ret ploss vloss found"

definition write_record :: "('w, 'e) put \<Rightarrow> telemetry_record \<Rightarrow> 'w \<Rightarrow> ('e + unit) \<times> 'w" where
  "write_record put r w = put (record_json r @ [newline]) w"

text \<open>A file that takes every write.\<close>

definition append_put :: "(string, unit) put" where
  "append_put s w = (Inr (), w @ s)"

definition recorded :: "telemetry_record list \<Rightarrow> string" where
  "recorded rs = foldl (\<lambda>w r. snd (write_record append_put r w)) [] rs"

section \<open>JSON\<close>

text \<open>The grammar of JSON texts without white space and escapes (RFC 8259).\<close>

definition json_int :: "string \<Rightarrow> bool" where
  "json_int s \<longleftrightarrow> s = ''0'' \<or> s \<noteq> [] \<and> hd s \<noteq> CHR ''0'' \<and> list_all digit s"

definition json_fraction :: "string \<Rightarrow> bool" where
  "json_fraction s \<longleftrightarrow> s = [] \<or> (\<exists>ds. s = ''.'' @ ds \<and> ds \<noteq> [] \<and> list_all digit ds)"

definition json_number :: "string \<Rightarrow> bool" where
  "json_number s \<longleftrightarrow> (\<exists>m i f. s = m @ i @ f \<and> m \<in> {[], ''-''} \<and> json_int i \<and> json_fraction f)"

definition unescaped :: "char \<Rightarrow> bool" where
  "unescaped c \<longleftrightarrow> (of_char c :: nat) \<ge> 32 \<and> c \<noteq> quote_mark \<and> c \<noteq> CHR 0x5C"

definition plain_text :: "string \<Rightarrow> bool" where
  "plain_text s \<longleftrightarrow> list_all unescaped s"

inductive json :: "string \<Rightarrow> bool" where
  json_num: "json_number s \<Longrightarrow> json s"
| json_text: "plain_text s \<Longrightarrow> json (quoted s)"
| json_bool: "json (show_bool b)"
| json_list: "(\<And>v. v \<in> set vs \<Longrightarrow> json v) \<Longrightarrow> json (json_array vs)"
| json_map: "(\<And>k v. (k, v) \<in> set ms \<Longrightarrow> plain_text k \<and> json v) \<Longrightarrow> json (json_object ms)"

lemma decimal_int: "json_int (decimal n)"
proof (cases "n = 0")
  case True
  then show ?thesis by (subst decimal.simps) (simp add: json_int_def zero_char)
next
  case False
  then show ?thesis using decimal_hd[of n] decimal_digits[of n] by (simp add: json_int_def)
qed

lemma fixed_digits_number: "m \<in> {[], ''-''} \<Longrightarrow> json_number (m @ fixed_digits d n)"
  unfolding json_number_def
  by (rule exI[of _ m], rule exI[of _ "decimal (n div 10 ^ d)"], rule exI[of _ "if d = 0 then [] else ''.'' @ padded d (n mod 10 ^ d)"])
    (auto simp: fixed_digits_def decimal_int json_fraction_def padded_digits)

lemma fixed_number: "is_finite x \<Longrightarrow> json_number (fixed d x)"
  using fixed_digits_number[of "[]" d] fixed_digits_number[of "''-''" d] by (cases x) simp_all

lemma decimal_number: "json_number (decimal n)"
  unfolding json_number_def by (rule exI[of _ "[]"], rule exI[of _ "decimal n"], rule exI[of _ "[]"]) (simp add: decimal_int json_fraction_def)

lemmas json_numbers = json_num[OF decimal_number] json_num[OF fixed_number]

lemma sanitized: "list_all (\<lambda>c. 32 \<le> (of_char c :: nat) \<or> c = newline) s \<Longrightarrow> plain_text (sanitize s)"
  by (auto simp: sanitize_def plain_text_def list_all_iff unescaped_def)

definition finite_frame :: "drone_frame \<Rightarrow> bool" where
  "finite_frame d \<longleftrightarrow> is_finite (fr_x d) \<and> is_finite (fr_y d) \<and> is_finite (fr_heading_rad d) \<and> is_finite (fr_battery_pct d)"

fun finite_record :: "telemetry_record \<Rightarrow> bool" where
  "finite_record (MetaRecord name drones w h victims) \<longleftrightarrow> is_finite w \<and> is_finite h \<and> (\<forall>v \<in> set victims. is_finite (px v) \<and> is_finite (py v))"
| "finite_record (StepRecord ep k t frames coverage) \<longleftrightarrow> is_finite t \<and> is_finite coverage \<and> (\<forall>d \<in> set frames. finite_frame d)"
| "finite_record (EpisodeRecord ep ret ploss vloss found) \<longleftrightarrow> is_finite ret \<and> is_finite ploss \<and> is_finite vloss"

fun clean_name :: "telemetry_record \<Rightarrow> bool" where
  "clean_name (MetaRecord name drones w h victims) \<longleftrightarrow> list_all (\<lambda>c. 32 \<le> (of_char c :: nat) \<or> c = newline) name"
| "clean_name _ \<longleftrightarrow> True"

lemma names_unescaped:
  "plain_text ''type''" "plain_text ''profile''" "plain_text ''drones''" "plain_text ''area_w''"
  "plain_text ''area_h''" "plain_text ''victims''" "plain_text ''meta''" "plain_text ''step''"
  "plain_text ''ep''" "plain_text ''t''" "plain_text ''coverage''" "plain_text ''episode''"
  "plain_text ''mean_return''" "plain_text ''policy_loss''" "plain_text ''value_loss''"
  "plain_text ''victims_found''" "plain_text ''id''" "plain_text ''x''" "plain_text ''y''"
  "plain_text ''hdg''" "plain_text ''batt''" "plain_text ''det''"
  by (simp_all add: plain_text_def unescaped_def quote_mark_def)

lemma frame_is_json: "finite_frame d \<Longrightarrow> json (frame_json d)"
  unfolding frame_json_def by (rule json_map) (auto simp: names_unescaped finite_frame_def intro: json_numbers json_bool)

lemma record_is_json: "finite_record r \<Longrightarrow> clean_name r \<Longrightarrow> json (record_json r)"
proof (cases r)
  case (MetaRecord name drones w h victims)
  assume a: "finite_record r" "clean_name r"
  have "json (json_array (map (\<lambda>v. json_array [fixed 2 (px v), fixed 2 (py v)]) victims))"
    using a(1) MetaRecord by (intro json_list) (auto intro!: json_list json_numbers)
  then show ?thesis using a unfolding MetaRecord record_json.simps meta_json_def
    by (intro json_map) (auto simp: names_unescaped sanitized intro: json_numbers json_text)
next
  case (StepRecord ep k t frames coverage)
  assume a: "finite_record r"
  have "json (json_array (map frame_json frames))" using a StepRecord by (intro json_list) (auto intro: frame_is_json)
  then show ?thesis using a unfolding StepRecord record_json.simps step_json_def
    by (intro json_map) (auto simp: names_unescaped intro: json_numbers json_text)
next
  case (EpisodeRecord ep ret ploss vloss found)
  assume a: "finite_record r"
  then show ?thesis unfolding EpisodeRecord record_json.simps episode_json_def
    by (intro json_map) (auto simp: names_unescaped intro: json_numbers json_text)
qed

section \<open>Lines\<close>

lemma joined_keeps: "P (CHR '','') \<Longrightarrow> (\<And>s. s \<in> set ss \<Longrightarrow> list_all P s) \<Longrightarrow> list_all P (joined ss)"
  by (induction ss rule: joined.induct) auto

definition printable :: "char \<Rightarrow> bool" where
  "printable c \<longleftrightarrow> 32 \<le> (of_char c :: nat)"

lemma printable_marks: "printable quote_mark" "printable (CHR '':'')" "printable (CHR '','')" "printable (CHR ''['')" "printable (CHR '']'')"
  "printable (CHR ''{'')" "printable (CHR ''}'')" "printable (CHR ''-'')" "printable (CHR ''.'')" "printable (CHR ''0'')"
  "list_all printable (show_bool b)"
  by (simp_all add: printable_def quote_mark_def show_bool_def)

lemma unescaped_printable: "plain_text s \<Longrightarrow> list_all printable s"
  by (auto simp: plain_text_def list_all_iff unescaped_def printable_def)

lemma digits_printable: "list_all digit s \<Longrightarrow> list_all printable s"
  by (auto simp: list_all_iff digit_def printable_def Let_def)

lemma number_printable: "json_number s \<Longrightarrow> list_all printable s"
  by (auto simp: json_number_def json_int_def json_fraction_def digits_printable printable_marks)

lemma json_printable: "json s \<Longrightarrow> list_all printable s"
proof (induction rule: json.induct)
  case (json_list vs)
  then show ?case by (simp add: json_array_def printable_marks joined_keeps)
next
  case (json_map ms)
  have "list_all printable (quoted k @ '':'' @ v)" if "(k, v) \<in> set ms" for k v
    using json_map[OF that] unescaped_printable[of k] by (simp add: quoted_def printable_marks)
  then have "list_all printable (joined (map (\<lambda>(k, v). quoted k @ '':'' @ v) ms))"
    by (intro joined_keeps) (auto simp: printable_marks)
  then show ?case by (simp add: json_object_def printable_marks)
qed (simp_all add: number_printable unescaped_printable quoted_def printable_marks)

lemma json_one_line: "json s \<Longrightarrow> newline \<notin> set s"
  using json_printable[of s] by (auto simp: list_all_iff printable_def newline_def)

lemma recorded_lines: "recorded rs = concat (map (\<lambda>r. record_json r @ [newline]) rs)"
proof -
  have "foldl (\<lambda>w r. snd (write_record append_put r w)) w rs = w @ concat (map (\<lambda>r. record_json r @ [newline]) rs)" for w
    by (induction rs arbitrary: w) (simp_all add: write_record_def append_put_def)
  then show ?thesis by (simp add: recorded_def)
qed

text \<open>
  C33. A recorder whose file takes every write leaves one line per record, and each line is a JSON text, provided that every number is finite
  and the profile's name has no control character but line feeds, which are stripped with quotes and backslashes.
\<close>
theorem telemetry_is_json:
  assumes "list_all finite_record rs" "list_all clean_name rs"
  shows "\<exists>texts. recorded rs = concat (map (\<lambda>l. l @ [newline]) texts) \<and> length texts = length rs \<and>
    (\<forall>l \<in> set texts. json l \<and> newline \<notin> set l)"
  using assms record_is_json json_one_line
  by (intro exI[of _ "map record_json rs"]) (auto simp: recorded_lines comp_def list_all_iff)

definition demo_records :: "telemetry_record list" where
  "demo_records = [MetaRecord (quote_mark # ''sar'') 2 (lit 400) (lit 400) [position_zero], StepRecord 0 0 0 [frame_of (default_at_origin 0) True] (lit (1/2)),
     EpisodeRecord 0 (lit 2) 0 0 1]"

theorem telemetry_is_json_witness:
  "\<exists>texts. recorded demo_records = concat (map (\<lambda>l. l @ [newline]) texts) \<and> length texts = 3 \<and> (\<forall>l \<in> set texts. json l)"
proof -
  have "list_all finite_record demo_records" "list_all clean_name demo_records"
    by (simp_all add: demo_records_def finite_frame_def frame_of_def default_at_origin_def position_zero_def quote_mark_def)
  moreover have "length demo_records = 3" by (simp add: demo_records_def)
  ultimately show ?thesis using telemetry_is_json[of demo_records] by auto
qed

section \<open>What is not JSON\<close>

text \<open>A value that is not finite is written as \<open>NaN\<close>, \<open>inf\<close> or \<open>-inf\<close>, and a tab in the profile's name is kept: neither is a JSON text.\<close>

lemma nan_is_not_json: "\<not> json (fixed d NaN)"
proof
  assume "json (fixed d NaN)"
  then show False
    by cases (auto simp: json_number_def json_int_def quoted_def quote_mark_def show_bool_def json_array_def json_object_def digit_def Cons_eq_append_conv split: if_splits)
qed

lemma tab_is_not_json: "\<not> json (meta_json [CHR 0x09] n w h vs)"
proof
  assume "json (meta_json [CHR 0x09] n w h vs)"
  then have "printable (CHR 0x09)"
    by (auto dest!: json_printable simp: meta_json_def json_object_def sanitize_def quote_mark_def newline_def quoted_def list_all_append)
  then show False by (simp add: printable_def)
qed

end
