(* ===== verification/Rollout.thy ===== *)
theory Rollout
  imports Candle Telemetry
begin

text \<open>
  The training program \<open>src/bin/train_marl.rs\<close>: its arguments, the rollout of an episode under a flight pattern with shaped rewards,
  and the loop that feeds the rollouts to the trainer. The candle crates, the files and the transcendental functions are parameters;
  strings are over the first 256 code points, and what is printed is left out; an \<open>exit\<close> for the help text and a panic are \<open>None\<close>.
\<close>

section \<open>Arguments\<close>

record args =
  arg_episodes :: nat
  arg_drones :: nat
  arg_profile :: string
  arg_steps :: nat
  arg_checkpoint_dir :: string
  arg_checkpoint_every :: nat
  arg_telemetry :: "string option"
  arg_telemetry_episode :: nat
  arg_flight :: string
  arg_learn :: string

definition args_default :: args where
  "args_default = \<lparr>arg_episodes = 1000, arg_drones = 4, arg_profile = ''sar'', arg_steps = 200, arg_checkpoint_dir = ''./marl-checkpoints'',
     arg_checkpoint_every = 100, arg_telemetry = None, arg_telemetry_episode = 0, arg_flight = ''partitioned'', arg_learn = ''mappo''\<rparr>"



definition config_for :: "string \<Rightarrow> swarm_config" where
  "config_for p =
    (if p = ''inspection'' then inspection_default else if p = ''mine'' then mine_default
     else if p = ''agriculture'' then agriculture_default else wi2sar_reference)"

section \<open>Scanned cells\<close>

definition cell_of :: "f64 \<Rightarrow> f64 \<Rightarrow> f64 \<Rightarrow> u32 \<times> u32" where
  "cell_of x y res = (as_unsigned (fmax (ffloor (x / res)) 0), as_unsigned (fmax (ffloor (y / res)) 0))"

text \<open>The offsets \<open>-span..=span\<close>; the set of scanned cells is a list without repetitions, the latest first.\<close>

definition offsets :: "i64 \<Rightarrow> i64 list" where
  "offsets reach = map word_of_int [sint (- reach)..sint reach]"

definition mark_cell ::
  "(f64 \<Rightarrow> f64 \<Rightarrow> f64) \<Rightarrow> position3d \<Rightarrow> f64 \<Rightarrow> f64 \<Rightarrow> i64 \<times> i64 \<Rightarrow> (u32 \<times> u32) list \<times> u32 \<Rightarrow> i64 \<times> i64 \<Rightarrow> (u32 \<times> u32) list \<times> u32" where
  "mark_cell hyp p r res = (\<lambda>(cols, rows) (scanned, n) (gx, gy).
    if sint gx < 0 \<or> sint gy < 0 \<or> sint cols \<le> sint gx \<or> sint rows \<le> sint gy then (scanned, n)
    else
      let mx = (of_signed gx + lit (1/2)) * res; my = (of_signed gy + lit (1/2)) * res; c = (ucast gx, ucast gy)
      in if hyp (mx - px p) (my - py p) \<le> r \<and> c \<notin> set scanned then (c # scanned, n + 1) else (scanned, n))"

definition mark_footprint ::
  "(f64 \<Rightarrow> f64 \<Rightarrow> f64) \<Rightarrow> (u32 \<times> u32) list \<Rightarrow> position3d \<Rightarrow> f64 \<Rightarrow> f64 \<Rightarrow> f64 \<Rightarrow> f64 \<Rightarrow> (u32 \<times> u32) list \<times> u32" where
  "mark_footprint hyp scanned p scan_w res w h =
    (let r = scan_w * lit (1/2); cols = as_signed (fceil (w / res)); rows = as_signed (fceil (h / res));
         (cx, cy) = cell_of (px p) (py p) res; reach = as_signed (fceil (r / res))
     in foldl (mark_cell hyp p r res (cols, rows)) (scanned, 0)
          (map (\<lambda>(dx, dy). (ucast cx + dx, ucast cy + dy)) (List.product (offsets reach) (offsets reach))))"

section \<open>The set-up of a run\<close>

record run_setup =
  su_area_w :: f64
  su_area_h :: f64
  su_grid_res :: f64
  su_scan_w :: f64
  su_max_speed :: f64
  su_altitude :: f64
  su_total_cells :: f64
  su_victims :: "position3d list"

definition setup_of :: "swarm_config \<Rightarrow> run_setup" where
  "setup_of cfg =
    (let m = cfg_mission cfg; w = area_width_m m; h = area_height_m m; res = fmax (grid_resolution_m m) (lit 1)
     in \<lparr>su_area_w = w, su_area_h = h, su_grid_res = res, su_scan_w = csi_scan_width_m (cfg_planning cfg),
         su_max_speed = fmax (max_speed_ms (cfg_planning cfg)) (lit (1 / 10)), su_altitude = flight_altitude_m (cfg_planning cfg),
         su_total_cells = fmax (fceil (w / res) * fceil (h / res)) (lit 1),
         su_victims = [\<lparr>px = w * lit (2 / 10), py = h * lit (3 / 10), pz = lit 0\<rparr>, \<lparr>px = w * lit (6 / 10), py = h * lit (45 / 100), pz = lit 0\<rparr>]\<rparr>)"

definition start_state :: "run_setup \<Rightarrow> nat \<Rightarrow> nat \<Rightarrow> drone_state" where
  "start_state S cols d = (default_at_origin (of_nat d))
     \<lparr>ds_position := \<lparr>px = lit 10 + rnd (of_nat (d mod cols)) * (su_area_w S / rnd (of_nat cols)),
        py = lit 10 + rnd (of_nat (d div cols)) * (su_area_h S / rnd (of_nat (max cols 1))), pz = - su_altitude S\<rparr>,
      altitude_agl_m := su_altitude S\<rparr>"

text \<open>The states are collected in one piece of 88 bytes a drone: more than \<open>isize::MAX\<close> bytes are a panic.\<close>

definition start_states :: "run_setup \<Rightarrow> nat \<Rightarrow> drone_state list option" where
  "start_states S n =
    (if 2 ^ 63 - 1 < 88 * n then None
     else Some (map (start_state S (unat (as_unsigned (fmax (fceil (fsqrt (rnd (of_nat n) :: f64))) (lit 1)) :: u64))) [0..<n]))"

section \<open>One drone, one tick\<close>

record 'w rollout =
  ro_states :: "drone_state list"
  ro_scanned :: "(u32 \<times> u32) list"
  ro_visited :: "position3d list"
  ro_curiosity :: curiosity_module
  ro_obs :: "local_observation list"
  ro_actions :: "(f32 \<times> f32 \<times> f32 \<times> f32) list"
  ro_rewards :: "f32 list"
  ro_values :: "f32 list"
  ro_dones :: "bool list"
  ro_telem :: "'w option"

record trainer_env =
  te_eval :: eval_env
  te_setup :: run_setup
  te_flight :: flight_pattern
  te_learn :: learning_pattern
  te_drones :: nat
  te_steps :: nat

definition detects :: "run_setup \<Rightarrow> position3d \<Rightarrow> bool" where
  "detects S p \<longleftrightarrow> list_ex (\<lambda>v. distance_to p v < su_scan_w S) (su_victims S)"

definition training_context :: "trainer_env \<Rightarrow> position3d list \<Rightarrow> position3d list \<Rightarrow> nat \<Rightarrow> drone_state \<Rightarrow> pattern_context" where
  "training_context T vis peers k st =
    \<lparr>ctx_drone_id = ds_id st, swarm_size = te_drones T, ctx_current = ds_position st, area_w = su_area_w (te_setup T),
     area_h = su_area_h (te_setup T), altitude_z = - su_altitude (te_setup T), scan_width_m = su_scan_w (te_setup T),
     ctx_step = of_nat k, visited = vis, ctx_peers = peers\<rparr>"

text \<open>One tick of at most \<open>max_speed\<close> metres towards the waypoint.\<close>

definition move_drone :: "trainer_env \<Rightarrow> drone_state \<Rightarrow> position3d \<Rightarrow> drone_state" where
  "move_drone T st goal =
    (let p = ds_position st; dx = px goal - px p; dy = py goal - py p; d = m_hypot (ev_math (te_eval T)) dx dy;
         far = lit (1 / 1000000000) < d; stepd = fmin d (su_max_speed (te_setup T));
         q = (if far then \<lparr>px = px p + dx / d * stepd, py = py p + dy / d * stepd, pz = - su_altitude (te_setup T)\<rparr> else p)
     in st\<lparr>ds_velocity := \<lparr>vx = px q - px p, vy = py q - py p, vz = 0\<rparr>, ds_position := q,
           heading_rad := (if far then ev_atan2 (te_eval T) dy dx else heading_rad st), timestamp_ms := sat_add (timestamp_ms st) 1000\<rparr>)"

definition reward_of :: "trainer_env \<Rightarrow> drone_state \<Rightarrow> u32 \<Rightarrow> position3d list \<Rightarrow> f32" where
  "reward_of T st new_cells peers =
    compute_reward reward_default
      \<lparr>rx_state = st, new_cells_covered = new_cells, victim_confirmed = detects (te_setup T) (ds_position st),
       contributed_to_triangulation = False,
       nearest_neighbor_dist = foldl fmin (Fin (max_fin TYPE(64))) (map (distance_to (ds_position st)) peers),
       geofence_breached = False, battery_depleted_without_rth = False\<rparr>"

definition shape_reward :: "learning_pattern \<Rightarrow> curiosity_module \<Rightarrow> position3d \<Rightarrow> f32 \<Rightarrow> (f32 \<times> curiosity_module) option" where
  "shape_reward p m q base =
    (if uses_curiosity p
     then map_option (\<lambda>(bonus, m'). (shaped_reward p base bonus, m')) (visit_bonus m (px q, py q))
     else Some (base, m))"

definition drone_step :: "trainer_env \<Rightarrow> (node_id \<times> position3d) list \<Rightarrow> nat \<Rightarrow> 'w rollout \<Rightarrow> nat \<Rightarrow> 'w rollout option" where
  "drone_step T snapshot k s i =
    (let st = ro_states s ! i; S = te_setup T; neighbors = filter (\<lambda>(j, _). j \<noteq> ds_id st) snapshot; peers = map snd neighbors
     in Option.bind (pattern_target (ev_math (te_eval T)) (te_flight T) (training_context T (ro_visited s) peers k st)) (\<lambda>goal.
       let st' = move_drone T st goal; q = ds_position st';
           (scanned, n) = mark_footprint (m_hypot (ev_math (te_eval T))) (ro_scanned s) q (su_scan_w S) (su_grid_res S) (su_area_w S) (su_area_h S);
           moved = distance_to (ds_position st) q
       in map_option (\<lambda>(reward, m).
            s\<lparr>ro_states := (ro_states s)[i := st'], ro_scanned := scanned, ro_visited := ro_visited s @ [q], ro_curiosity := m,
              ro_obs := ro_obs s @ [obs_from_state_no_grid st neighbors None None],
              ro_actions := ro_actions s @ [(fcast (heading_rad st'), fcast (altitude_agl_m st'), fcast (moved / lit 1), 0)],
              ro_rewards := ro_rewards s @ [reward], ro_values := ro_values s @ [0], ro_dones := ro_dones s @ [k = te_steps T - 1]\<rparr>)
            (shape_reward (te_learn T) (ro_curiosity s) q (reward_of T st' n peers))))"

definition trail_cap :: nat where
  "trail_cap = 200"

definition step_record :: "trainer_env \<Rightarrow> nat \<Rightarrow> nat \<Rightarrow> 'w rollout \<Rightarrow> telemetry_record" where
  "step_record T ep k s =
    StepRecord ep k (rnd (of_nat k)) (map (\<lambda>st. frame_of st (detects (te_setup T) (ds_position st))) (ro_states s))
      (rnd (of_nat (length (ro_scanned s))) / su_total_cells (te_setup T))"

text \<open>The selected episode is recorded; a failed write is ignored.\<close>

definition tick_all :: "trainer_env \<Rightarrow> ('w, 'e) put \<Rightarrow> nat \<Rightarrow> bool \<Rightarrow> 'w rollout \<Rightarrow> nat \<Rightarrow> 'w rollout option" where
  "tick_all T put ep selected s k =
    map_option (\<lambda>s1.
      let s2 = s1\<lparr>ro_visited := drop (length (ro_visited s1) - trail_cap) (ro_visited s1)\<rparr>
      in if selected then s2\<lparr>ro_telem := map_option (\<lambda>w. snd (write_record put (step_record T ep k s2) w)) (ro_telem s2)\<rparr> else s2)
      (prun (drone_step T (map (\<lambda>st. (ds_id st, ds_position st)) (ro_states s)) k) s [0..<length (ro_states s)])"

definition rollout_start :: "'w option \<Rightarrow> curiosity_module \<Rightarrow> drone_state list \<Rightarrow> 'w rollout" where
  "rollout_start telem m states =
    \<lparr>ro_states = states, ro_scanned = [], ro_visited = [], ro_curiosity = m, ro_obs = [], ro_actions = [],
     ro_rewards = [], ro_values = [], ro_dones = [], ro_telem = telem\<rparr>"

definition rollout_episode :: "trainer_env \<Rightarrow> ('w, 'e) put \<Rightarrow> nat \<Rightarrow> bool \<Rightarrow> 'w option \<Rightarrow> 'w rollout option" where
  "rollout_episode T put ep selected telem =
    Option.bind (curiosity_new (su_area_w (te_setup T)) (su_area_h (te_setup T)) 32 (lit (1/2))) (\<lambda>m.
    Option.bind (start_states (te_setup T) (te_drones T)) (\<lambda>states.
      prun (tick_all T put ep selected) (rollout_start telem m states) [0..<te_steps T]))"

section \<open>The training loop\<close>








definition trainer_env_of :: "eval_env \<Rightarrow> args \<Rightarrow> trainer_env" where
  "trainer_env_of E a =
    \<lparr>te_eval = E, te_setup = setup_of (config_for (arg_profile a)), te_flight = flight_from_str (arg_flight a),
     te_learn = learning_from_str (arg_learn a), te_drones = arg_drones a, te_steps = arg_steps a\<rparr>"





section \<open>A rollout is complete\<close>

definition setup_ok :: "run_setup \<Rightarrow> bool" where
  "setup_ok S \<longleftrightarrow> side_ok (su_area_w S) \<and> side_ok (su_area_h S) \<and> 1 \<le> su_scan_w S"

lemma config_for_ok: "setup_ok (setup_of (config_for p))"
  by (simp add: config_for_def setup_ok_def setup_of_def side_ok_def profile_defs representable_numeral one_flt_def)

lemma training_target:
  assumes "setup_ok (te_setup T)" "te_drones T < 2 ^ 64"
  shows "\<exists>q. pattern_target M p (training_context T vis peers k st) = Some q"
proof -
  let ?c = "training_context T vis peers k st"
  have "\<not> cycle_wraps p ?c" using assms by (intro cycles_do_not_wrap) (simp_all add: training_context_def setup_ok_def)
  moreover have "\<not> area_panics ?c" using assms(1) by (simp add: area_panics_def training_context_def setup_ok_def side_ok_def)
  ultimately show ?thesis using pattern_target_spec[where M = M and p = p and c = ?c] by (auto split: option.splits)
qed

lemma visit_bonus_fits: "counters_fit m \<Longrightarrow> \<exists>b m'. visit_bonus m p = Some (b, m') \<and> counters_fit m'"
  using cell_index_total[of m p] by (auto simp: visit_bonus_def Let_def counters_fit_def)

lemma shape_reward_fits: "counters_fit m \<Longrightarrow> \<exists>r m'. shape_reward p m q base = Some (r, m') \<and> counters_fit m'"
  using visit_bonus_fits[of m "(px q, py q)"] by (auto simp: shape_reward_def)

text \<open>What a tick keeps: a drone per state, each at the flight altitude; and what it adds to the buffers.\<close>

definition rollout_ok :: "trainer_env \<Rightarrow> 'w rollout \<Rightarrow> bool" where
  "rollout_ok T s \<longleftrightarrow> setup_ok (te_setup T) \<and> te_drones T < 2 ^ 64 \<and> counters_fit (ro_curiosity s) \<and> length (ro_states s) = te_drones T \<and>
     list_all (\<lambda>st. pz (ds_position st) = - su_altitude (te_setup T)) (ro_states s)"

definition grown :: "bool list \<Rightarrow> 'w rollout \<Rightarrow> 'w rollout \<Rightarrow> bool" where
  "grown ends s t \<longleftrightarrow> length (ro_obs t) = length (ro_obs s) + length ends \<and> length (ro_actions t) = length (ro_actions s) + length ends \<and>
     length (ro_rewards t) = length (ro_rewards s) + length ends \<and> ro_values t = ro_values s @ replicate (length ends) 0 \<and>
     ro_dones t = ro_dones s @ ends"

lemma grown_refl: "grown [] s s"
  by (simp add: grown_def)

lemma grown_trans: "grown xs s t \<Longrightarrow> grown ys t u \<Longrightarrow> grown (xs @ ys) s u"
  by (simp add: grown_def replicate_add)

lemma move_keeps_altitude: "pz (ds_position st) = - su_altitude (te_setup T) \<Longrightarrow> pz (ds_position (move_drone T st goal)) = - su_altitude (te_setup T)"
  by (simp add: move_drone_def Let_def)

lemma drone_step_ok:
  assumes "rollout_ok T s" "i < te_drones T"
  shows "\<exists>t. drone_step T snap k s i = Some t \<and> rollout_ok T t \<and> grown [k = te_steps T - 1] s t"
proof -
  let ?st = "ro_states s ! i"
  let ?peers = "map snd (filter (\<lambda>(j, _). j \<noteq> ds_id ?st) snap)"
  obtain goal where g: "pattern_target (ev_math (te_eval T)) (te_flight T) (training_context T (ro_visited s) ?peers k ?st) = Some goal"
    using training_target assms(1) by (fastforce simp: rollout_ok_def)
  let ?st' = "move_drone T ?st goal"
  obtain scanned n where f: "mark_footprint (m_hypot (ev_math (te_eval T))) (ro_scanned s) (ds_position ?st') (su_scan_w (te_setup T))
      (su_grid_res (te_setup T)) (su_area_w (te_setup T)) (su_area_h (te_setup T)) = (scanned, n)" by fastforce
  obtain r m where m: "shape_reward (te_learn T) (ro_curiosity s) (ds_position ?st') (reward_of T ?st' n ?peers) = Some (r, m)" "counters_fit m"
    using shape_reward_fits assms(1) by (fastforce simp: rollout_ok_def)
  have "pz (ds_position ?st) = - su_altitude (te_setup T)" using assms by (auto simp: rollout_ok_def list_all_length)
  then have "list_all (\<lambda>st. pz (ds_position st) = - su_altitude (te_setup T)) ((ro_states s)[i := ?st'])"
    using assms by (auto simp: rollout_ok_def list_all_length nth_list_update move_keeps_altitude)
  then show ?thesis using assms m(2) by (simp add: drone_step_def Let_def g f m(1) rollout_ok_def grown_def)
qed

lemma drones_ok:
  assumes "rollout_ok T s" "\<forall>i \<in> set is. i < te_drones T"
  shows "\<exists>t. prun (drone_step T snap k) s is = Some t \<and> rollout_ok T t \<and> grown (replicate (length is) (k = te_steps T - 1)) s t"
  using assms
proof (induction "is" arbitrary: s)
  case (Cons i "is")
  obtain t where t: "drone_step T snap k s i = Some t" "rollout_ok T t" "grown [k = te_steps T - 1] s t"
    using drone_step_ok[OF Cons.prems(1), of i] Cons.prems(2) by (metis list.set_intros(1))
  obtain u where "prun (drone_step T snap k) t is = Some u" "rollout_ok T u" "grown (replicate (length is) (k = te_steps T - 1)) t u"
    using Cons.IH[OF t(2)] Cons.prems(2) by auto
  then show ?case using t grown_trans[OF t(3)] by auto
qed (simp add: grown_refl)

lemma tick_ok:
  assumes "rollout_ok T s"
  shows "\<exists>t. tick_all T put ep selected s k = Some t \<and> rollout_ok T t \<and> grown (replicate (te_drones T) (k = te_steps T - 1)) s t \<and>
    length (ro_visited t) \<le> trail_cap"
proof -
  have n: "length (ro_states s) = te_drones T" using assms by (simp add: rollout_ok_def)
  obtain t where t: "prun (drone_step T (map (\<lambda>st. (ds_id st, ds_position st)) (ro_states s)) k) s [0..<te_drones T] = Some t" "rollout_ok T t"
      "grown (replicate (te_drones T) (k = te_steps T - 1)) s t"
    using drones_ok[OF assms, of "[0..<te_drones T]"] by fastforce
  then show ?thesis by (simp add: tick_all_def n Let_def rollout_ok_def grown_def)
qed





lemma start_ok:
  assumes "setup_ok (te_setup T)" "start_states (te_setup T) (te_drones T) = Some states" "counters_fit m"
  shows "rollout_ok T (rollout_start telem m states)"
  using assms by (auto simp: rollout_ok_def rollout_start_def start_states_def start_state_def Let_def list_all_length split: if_splits)


lemma episode_curiosity:
  obtains m where "curiosity_new (su_area_w (te_setup T)) (su_area_h (te_setup T)) 32 (lit (1/2)) = Some m" "counters_fit m"
proof -
  obtain m where m: "curiosity_new (su_area_w (te_setup T)) (su_area_h (te_setup T)) 32 (lit (1/2)) = Some m"
    by (simp add: curiosity_new_def Let_def max_def word_le_nat_alt)
  then have "counters_fit m" by (rule counted_fit[OF conjunct1[OF curiosity_new_counted]])
  with m show thesis by (rule that)
qed



section \<open>When training panics\<close>





section \<open>The footprint of a scan\<close>

definition in_footprint :: "(f64 \<Rightarrow> f64 \<Rightarrow> f64) \<Rightarrow> position3d \<Rightarrow> f64 \<Rightarrow> f64 \<Rightarrow> i64 \<times> i64 \<Rightarrow> i64 \<times> i64 \<Rightarrow> bool" where
  "in_footprint hyp p r res = (\<lambda>(cols, rows) (gx, gy).
    0 \<le> sint gx \<and> sint gx < sint cols \<and> 0 \<le> sint gy \<and> sint gy < sint rows \<and>
    hyp ((of_signed gx + lit (1/2)) * res - px p) ((of_signed gy + lit (1/2)) * res - py p) \<le> r)"

lemma mark_cell_cases:
  "mark_cell hyp p r res ext (scanned, n) g =
    (let c = (ucast (fst g), ucast (snd g)) in
     if in_footprint hyp p r res ext g \<and> c \<notin> set scanned then (c # scanned, n + 1) else (scanned, n))"
  by (cases g; cases ext) (auto simp: mark_cell_def in_footprint_def Let_def not_less not_le)

lemma mark_cells:
  assumes "distinct scanned"
  shows "\<exists>new. foldl (mark_cell hyp p r res ext) (scanned, n) gs = (new @ scanned, n + of_nat (length new)) \<and> distinct (new @ scanned) \<and>
    set (new @ scanned) = set scanned \<union> (\<lambda>g. (ucast (fst g), ucast (snd g))) ` {g \<in> set gs. in_footprint hyp p r res ext g}"
  using assms
proof (induction gs arbitrary: scanned n)
  case (Cons g gs)
  let ?c = "(ucast (fst g), ucast (snd g)) :: u32 \<times> u32"
  show ?case
  proof (cases "in_footprint hyp p r res ext g \<and> ?c \<notin> set scanned")
    case True
    then obtain new where "foldl (mark_cell hyp p r res ext) (?c # scanned, n + 1) gs = (new @ ?c # scanned, n + 1 + of_nat (length new))"
        "distinct (new @ ?c # scanned)"
        "set (new @ ?c # scanned) = set (?c # scanned) \<union> (\<lambda>g. (ucast (fst g), ucast (snd g))) ` {g \<in> set gs. in_footprint hyp p r res ext g}"
      using Cons.IH[of "?c # scanned" "n + 1"] Cons.prems by auto
    with True show ?thesis by (intro exI[of _ "new @ [?c]"]) (auto simp: mark_cell_cases Let_def ac_simps)
  next
    case False
    then obtain new where "foldl (mark_cell hyp p r res ext) (scanned, n) gs = (new @ scanned, n + of_nat (length new))" "distinct (new @ scanned)"
        "set (new @ scanned) = set scanned \<union> (\<lambda>g. (ucast (fst g), ucast (snd g))) ` {g \<in> set gs. in_footprint hyp p r res ext g}"
      using Cons.IH[of scanned n] Cons.prems by auto
    with False show ?thesis by (intro exI[of _ new]) (auto simp: mark_cell_cases Let_def)
  qed
qed simp

definition grid_size :: "f64 \<Rightarrow> f64 \<Rightarrow> f64 \<Rightarrow> i64 \<times> i64" where
  "grid_size w h res = (as_signed (fceil (w / res)), as_signed (fceil (h / res)))"

definition candidates :: "position3d \<Rightarrow> f64 \<Rightarrow> f64 \<Rightarrow> (i64 \<times> i64) list" where
  "candidates p r res =
    (let (cx, cy) = cell_of (px p) (py p) res; reach = as_signed (fceil (r / res))
     in map (\<lambda>(dx, dy). (ucast cx + dx, ucast cy + dy)) (List.product (offsets reach) (offsets reach)))"

text \<open>
  A scan adds exactly the cells of the grid around the drone whose centres lie within half the scan width, each once, and counts the new ones.
\<close>
theorem footprint_counts_new_cells:
  assumes "distinct scanned"
  shows "\<exists>new. mark_footprint hyp scanned p scan_w res w h = (new @ scanned, of_nat (length new)) \<and> distinct (new @ scanned) \<and>
    set (new @ scanned) = set scanned \<union> (\<lambda>g. (ucast (fst g), ucast (snd g))) `
      {g \<in> set (candidates p (scan_w * lit (1/2)) res). in_footprint hyp p (scan_w * lit (1/2)) res (grid_size w h res) g}"
proof -
  have "mark_footprint hyp scanned p scan_w res w h =
      foldl (mark_cell hyp p (scan_w * lit (1/2)) res (grid_size w h res)) (scanned, 0) (candidates p (scan_w * lit (1/2)) res)"
    by (simp add: mark_footprint_def candidates_def grid_size_def Let_def case_prod_beta)
  then show ?thesis using mark_cells[OF assms, of hyp p "scan_w * lit (1/2)" res "grid_size w h res" 0] by simp
qed

theorem footprint_counts_new_cells_witness:
  "\<exists>new. mark_footprint (\<lambda>_ _. 0) [(0, 0)] position_zero (lit 2) 1 (lit 2) (lit 2) = (new @ [(0, 0)], of_nat (length new)) \<and>
     distinct (new @ [(0, 0)])"
  using footprint_counts_new_cells[of "[(0, 0)]" "\<lambda>_ _. 0" position_zero "lit 2" 1 "lit 2" "lit 2"] by auto

section \<open>Victims are out of sight\<close>

lemma not_neg_square: "not_neg (x * x :: 'a::len flt)"
  using square_nonneg[of x] by (cases "is_nan x") (auto simp: not_neg_def)

lemma distance_at_least_height:
  assumes "pz a - pz b = Fin (of_int k)" "0 \<le> m" "m \<le> \<bar>k\<bar>" "\<bar>k\<bar> \<le> 2 ^ 26"
  shows "\<not> distance_to a b < Fin (of_int m)"
proof -
  let ?s = "(px a - px b) * (px a - px b) + (py a - py b) * (py a - py b)"
  have kk: "\<bar>k\<^sup>2\<bar> < 2 ^ 53" using power_mono[OF assms(4), of 2] by simp
  then have e: "(rnd (of_int (k\<^sup>2)) :: f64) = Fin (of_int (k\<^sup>2))" by (intro rnd_exact representable_int) simp
  have dz: "(pz a - pz b) * (pz a - pz b) = Fin (of_int (k\<^sup>2))"
    using e by (simp add: assms(1) Fin_mult mk_def signed_zero_def power2_eq_square)
  have d: "distance_to a b = fsqrt (?s + Fin (of_int (k\<^sup>2)))" by (simp only: distance_to_def Let_def dz)
  have "not_neg ?s" by (intro not_neg_add not_neg_square)
  then consider "is_nan ?s" | "0 \<le> ?s" by (auto simp: not_neg_def)
  then show ?thesis
  proof cases
    case 1
    then have "is_nan (distance_to a b)" unfolding d by simp
    then show ?thesis using flt_less_nan by blast
  next
    case 2
    define w where "w = (Fin (of_int (k\<^sup>2)) :: f64)"
    have w0: "0 \<le> w" by (simp add: w_def)
    then have sw: "\<not> is_nan (?s + w)" using flt_le_nan[OF flt_add_nonneg[OF 2]] by blast
    have zw: "0 + w = w" using e by (simp add: w_def zero_flt_def Fin_add mk_def signed_zero_def)
    have "\<not> is_nan w" by (simp add: w_def)
    then have "0 + w \<le> ?s + w" by (intro flt_add_mono[OF 2 _ _ sw]) (simp_all add: zw)
    then have ws: "w \<le> ?s + w" by (simp only: zw)
    have "m\<^sup>2 \<le> k\<^sup>2" using assms(2,3) by (metis power2_abs power_mono)
    then have "Fin (of_int (m\<^sup>2)) \<le> w" by (simp only: w_def Fin_ord of_int_le_iff)
    then have "Fin (of_int (m\<^sup>2)) \<le> ?s + w" by (rule flt_le_trans[OF _ ws])
    then have "Fin (of_int m) \<le> fsqrt (?s + w)" using assms(2-4) by (intro fsqrt_ge_int) simp_all
    then show ?thesis unfolding d w_def by (rule flt_le_not_less)
  qed
qed

text \<open>The same run over an area without victims.\<close>

definition without_victims :: "trainer_env \<Rightarrow> trainer_env" where
  "without_victims T = T\<lparr>te_setup := (te_setup T)\<lparr>su_victims := []\<rparr>\<rparr>"

definition blind :: "run_setup \<Rightarrow> bool" where
  "blind S \<longleftrightarrow> (\<forall>p. pz p = - su_altitude S \<longrightarrow> \<not> detects S p)"

lemma reference_is_blind:
  assumes "p \<notin> {''inspection'', ''mine'', ''agriculture''}" "\<forall>v \<in> set vs. pz v = 0"
  shows "blind ((setup_of (config_for p))\<lparr>su_victims := vs\<rparr>)"
proof -
  have "\<not> distance_to q v < Fin (of_int 28)" if "pz q = Fin (- 30)" "pz v = 0" for q v
    by (rule distance_at_least_height[of _ _ "- 30"]) (simp_all add: that minus_flt_def plus_flt_def zero_flt_def mk_def signed_zero_def rnd_exact representable_numeral)
  then have far: "\<not> distance_to q v < Fin 28" if "pz q = Fin (- 30)" "pz v = 0" for q v using that by simp
  have "su_altitude (setup_of (config_for p)) = Fin 30" "su_scan_w (setup_of (config_for p)) = Fin 28"
    using assms(1) by (simp_all add: config_for_def setup_of_def profile_defs)
  then show ?thesis using assms(2) far by (auto simp: blind_def detects_def list_ex_iff)
qed

lemma blind_fields:
  "te_eval (without_victims T) = te_eval T" "te_flight (without_victims T) = te_flight T" "te_learn (without_victims T) = te_learn T"
  "te_drones (without_victims T) = te_drones T" "te_steps (without_victims T) = te_steps T"
  "su_area_w (te_setup (without_victims T)) = su_area_w (te_setup T)" "su_area_h (te_setup (without_victims T)) = su_area_h (te_setup T)"
  "su_grid_res (te_setup (without_victims T)) = su_grid_res (te_setup T)" "su_scan_w (te_setup (without_victims T)) = su_scan_w (te_setup T)"
  "su_altitude (te_setup (without_victims T)) = su_altitude (te_setup T)" "su_max_speed (te_setup (without_victims T)) = su_max_speed (te_setup T)"
  "su_total_cells (te_setup (without_victims T)) = su_total_cells (te_setup T)" "su_victims (te_setup (without_victims T)) = []"
  by (simp_all add: without_victims_def)

lemma blind_env:
  "\<not> detects (te_setup (without_victims T)) q" "training_context (without_victims T) = training_context T"
  "move_drone (without_victims T) = move_drone T" "start_states (te_setup (without_victims T)) = start_states (te_setup T)"
  by (simp_all only: detects_def training_context_def[abs_def] move_drone_def[abs_def] start_states_def[abs_def] start_state_def[abs_def] blind_fields list_ex_Nil_iff
      simp_thms)

lemma blind_reward:
  assumes "blind (te_setup T)" "pz (ds_position st) = - su_altitude (te_setup T)"
  shows "reward_of (without_victims T) st n peers = reward_of T st n peers"
  using assms by (simp add: reward_of_def blind_env blind_def)

lemma blind_drone:
  assumes "blind (te_setup T)" "rollout_ok T s" "i < te_drones T"
  shows "drone_step (without_victims T) snap k s i = drone_step T snap k s i"
proof -
  have "pz (ds_position (ro_states s ! i)) = - su_altitude (te_setup T)" using assms(2,3) by (auto simp: rollout_ok_def list_all_length)
  then have r: "reward_of (without_victims T) (move_drone T (ro_states s ! i) goal) n peers = reward_of T (move_drone T (ro_states s ! i) goal) n peers"
    for goal n peers by (intro blind_reward assms(1) move_keeps_altitude)
  show ?thesis by (simp only: drone_step_def Let_def blind_fields blind_env r)
qed

lemma drone_step_keeps: "rollout_ok T s \<Longrightarrow> i < te_drones T \<Longrightarrow> drone_step T snap k s i = Some t \<Longrightarrow> rollout_ok T t"
  using drone_step_ok[of T s i snap k] by auto

lemma blind_tick:
  assumes "blind (te_setup T)" "rollout_ok T s"
  shows "tick_all (without_victims T) put ep selected s k = tick_all T put ep selected s k"
proof -
  let ?snap = "map (\<lambda>st. (ds_id st, ds_position st)) (ro_states s)"
  have n: "length (ro_states s) = te_drones T" using assms(2) by (simp add: rollout_ok_def)
  have same: "prun (drone_step (without_victims T) ?snap k) s [0..<te_drones T] = prun (drone_step T ?snap k) s [0..<te_drones T]"
    by (rule prun_cong[where P = "rollout_ok T"]) (auto simp: blind_drone[OF assms(1)] assms(2) intro: drone_step_keeps)
  obtain t where t: "prun (drone_step T ?snap k) s [0..<te_drones T] = Some t" "rollout_ok T t"
    using drones_ok[OF assms(2), of "[0..<te_drones T]" ?snap k] by auto
  have "step_record (without_victims T) ep k s2 = step_record T ep k s2" if "rollout_ok T s2" for s2 :: "'a rollout"
    using assms(1) that by (auto simp: step_record_def blind_fields blind_env blind_def rollout_ok_def list_all_iff intro!: map_cong)
  then show ?thesis using t by (simp add: tick_all_def n same Let_def rollout_ok_def)
qed

text \<open>
  Under the default profile, and every other name that is none of the three special profiles, no victim is ever seen: the drones fly 30
  metres up and a scan reaches less than 28. Whatever victims lie on the ground, an episode is the one without any, its rewards and its
  telemetry included.
\<close>
theorem default_training_sees_no_victims:
  assumes "te_setup T = (setup_of (config_for p))\<lparr>su_victims := vs\<rparr>" "p \<notin> {''inspection'', ''mine'', ''agriculture''}"
    "\<forall>v \<in> set vs. pz v = 0"
  shows "rollout_episode T put ep selected telem = rollout_episode (without_victims T) put ep selected telem"
proof -
  have b: "blind (te_setup T)" unfolding assms(1) by (rule reference_is_blind[OF assms(2,3)])
  have ok: "setup_ok (te_setup T)" using config_for_ok[of p] by (simp add: assms(1) setup_ok_def)
  obtain m where m: "curiosity_new (su_area_w (te_setup T)) (su_area_h (te_setup T)) 32 (lit (1/2)) = Some m" "counters_fit m"
    by (rule episode_curiosity)
  have keeps: "rollout_ok T t" if "rollout_ok T s" "tick_all T put ep selected s k = Some t" for s k t
    using tick_ok[OF that(1), of put ep selected k] that(2) by auto
  have "prun (tick_all T put ep selected) (rollout_start telem m states) [0..<te_steps T] =
      prun (tick_all (without_victims T) put ep selected) (rollout_start telem m states) [0..<te_steps T]"
    if "start_states (te_setup T) (te_drones T) = Some states" for states
    using start_ok[OF ok that m(2)]
    by (intro prun_cong[where P = "rollout_ok T"]) (auto simp: blind_tick[OF b] intro: keeps)
  then show ?thesis
    by (cases "start_states (te_setup T) (te_drones T)") (simp_all only: rollout_episode_def m(1) Option.bind.simps blind_fields blind_env)
qed

definition demo_trainer_env :: "position3d list \<Rightarrow> trainer_env" where
  "demo_trainer_env vs = (trainer_env_of demo_eval_env args_default)\<lparr>te_setup := (setup_of (config_for ''sar''))\<lparr>su_victims := vs\<rparr>\<rparr>"

theorem default_training_sees_no_victims_witness:
  "rollout_episode (demo_trainer_env [position_zero]) append_put 0 True None = rollout_episode (demo_trainer_env []) append_put 0 True None"
proof -
  have "without_victims (demo_trainer_env [position_zero]) = demo_trainer_env []" by (simp add: without_victims_def demo_trainer_env_def)
  then show ?thesis
    using default_training_sees_no_victims[where T = "demo_trainer_env [position_zero]" and p = "''sar''" and vs = "[position_zero]" and
        put = append_put and ep = 0 and selected = True and telem = None]
    by (simp add: demo_trainer_env_def position_zero_def trainer_env_of_def args_default_def)
qed

section \<open>Advantages over the interleaved buffer\<close>

text \<open>
  The buffers hold the transitions of all drones in turn, while the advantage estimation takes the next entry for the next transition of the
  same drone. With two drones and two ticks, a reward of the second drone alone raises the return of the first.
\<close>

lemma lit_half_one:
  assumes "1 / 2 \<le> q" "q \<le> 1"
  obtains g where "(lit q :: f32) = Fin g" "1 / 2 \<le> g" "g \<le> 1"
proof -
  have "(rnd (1 / 2) :: f32) \<le> lit q" "(lit q :: f32) \<le> rnd 1" using assms rnd_mono by (auto simp only: lit_def)
  then show thesis using that by (cases "lit q :: f32") (auto simp: zero_flt_def)
qed

lemma returns_mix_drones:
  "\<exists>advantages returns. compute_gae candle_ppo_default [0, lit 8, 0, 0] (replicate 4 0) [False, False, True, True] = Some (advantages, returns) \<and>
     1 \<le> returns ! 0"
proof -
  obtain g where g: "(lit (99 / 100) :: f32) = Fin g" "1 / 2 \<le> g" "g \<le> 1" by (rule lit_half_one[of "99 / 100"]) simp_all
  obtain l where l: "(lit (19 / 20) :: f32) = Fin l" "1 / 2 \<le> l" "l \<le> 1" by (rule lit_half_one[of "19 / 20"]) simp_all
  have gl: "1 / 4 \<le> g * l" "g * l \<le> 1" using mult_mono[of "1 / 2" g "1 / 2" l] mult_mono[of g 1 l 1] g l by simp_all
  have "(rnd (1 / 4) :: f32) \<le> rnd (g * l)" "(rnd (g * l) :: f32) \<le> rnd 1" using rnd_mono[OF gl(1)] rnd_mono[OF gl(2)] by this+
  then obtain m where m: "(rnd (g * l) :: f32) = Fin m" "1 / 4 \<le> m" "m \<le> 1" "(rnd m :: f32) = Fin m"
    using valid_rnd[of "g * l", where 'a = 32] by (cases "rnd (g * l) :: f32") (auto simp: zero_flt_def rnd_exact)
  have "(rnd (1 / 4 * 8) :: f32) \<le> rnd (m * 8)" "(rnd (m * 8) :: f32) \<le> rnd (1 * 8)" using m(2,3) by (intro rnd_mono; simp)+
  then obtain r where r: "(rnd (m * 8) :: f32) = Fin r" "2 \<le> r" "(rnd r :: f32) = Fin r"
    using valid_rnd[of "m * 8", where 'a = 32] by (cases "rnd (m * 8) :: f32") (auto simp: zero_flt_def rnd_exact)
  have "0 < m" "0 < g" "0 < l" "0 < r" using m g l r by simp_all
  then show ?thesis using r(2)
    by (simp add: advantages_are_a_recursion Let_def gae_returns_def next_return_def alive_def candle_ppo_default_def g l fin_arith m(1,4) r(1,3) numeral_eq_Suc)
qed

end
