(* ===== verification/RufloHttp.thy ===== *)
theory RufloHttp
  imports Ruflo
begin

text \<open>
  The HTTP client of \<open>src/ruflo/http_backend.rs\<close>: JSON-RPC calls of the memory daemon. The HTTP client and the JSON values of the crates
  are parameters: a request takes the world to a result and the world afterwards. The request counter wraps. Nothing here panics.
\<close>

section \<open>Parameters\<close>

text \<open>
  JSON values: what the source builds with \<open>json!\<close> and reads with the accessors of \<open>serde_json::Value\<close>; \<open>jv_index\<close> gives the null value for
  a missing member.
\<close>

record 'v json_api =
  jv_object :: "(string \<times> 'v) list \<Rightarrow> 'v"
  jv_string :: "string \<Rightarrow> 'v"
  jv_bool :: "bool \<Rightarrow> 'v"
  jv_number :: "nat \<Rightarrow> 'v"
  jv_f32 :: "f32 \<Rightarrow> 'v"
  jv_get :: "'v \<Rightarrow> string \<Rightarrow> 'v option"
  jv_index :: "'v \<Rightarrow> string \<Rightarrow> 'v"
  jv_text :: "'v \<Rightarrow> string"
  jv_as_bool :: "'v \<Rightarrow> bool option"
  jv_as_str :: "'v \<Rightarrow> string option"
  jv_as_array :: "'v \<Rightarrow> 'v list option"
  jv_missions :: "'v \<Rightarrow> mission_memory_entry list option"
  jv_patterns :: "'v \<Rightarrow> pattern_entry list option"

text \<open>A POST of a JSON body, and the decoding of its response; errors are their texts.\<close>

record ('v, 'r, 'w) http_api =
  ha_json :: "'v json_api"
  ha_post :: "string \<Rightarrow> 'v \<Rightarrow> 'w \<Rightarrow> (string + 'r) \<times> 'w"
  ha_decode :: "'r \<Rightarrow> 'w \<Rightarrow> (string + 'v) \<times> 'w"

section \<open>The client\<close>

record http_backend =
  hb_base_url :: string
  hb_request_id :: u64

text \<open>\<open>trim_end_matches('/')\<close>\<close>

definition trim_slashes :: "string \<Rightarrow> string" where
  "trim_slashes s = rev (dropWhile (\<lambda>c. c = CHR ''/'') (rev s))"

definition http_new :: "string \<Rightarrow> http_backend" where
  "http_new url = \<lparr>hb_base_url = trim_slashes url, hb_request_id = 1\<rparr>"

definition http_localhost :: http_backend where
  "http_localhost = http_new ''http://localhost:3000''"

definition rpc_body :: "'v json_api \<Rightarrow> u64 \<Rightarrow> string \<Rightarrow> 'v \<Rightarrow> 'v" where
  "rpc_body J i tool args =
    jv_object J [(''jsonrpc'', jv_string J ''2.0''), (''method'', jv_string J ''tools/call''), (''id'', jv_number J (unat i)),
      (''params'', jv_object J [(''name'', jv_string J tool), (''arguments'', args)])]"

definition call_tool ::
  "('v, 'r, 'w) http_api \<Rightarrow> string \<Rightarrow> 'v \<Rightarrow> http_backend \<times> 'w \<Rightarrow> (ruflo_error + 'v) \<times> http_backend \<times> 'w" where
  "call_tool H tool args = (\<lambda>(b, w).
    let b' = b\<lparr>hb_request_id := hb_request_id b + 1\<rparr>; J = ha_json H
    in case ha_post H (hb_base_url b @ ''/rpc'') (rpc_body J (hb_request_id b) tool args) w of
         (Inl e, w1) \<Rightarrow> (Inl (Network e), b', w1)
       | (Inr resp, w1) \<Rightarrow>
           (case ha_decode H resp w1 of
              (Inl e, w2) \<Rightarrow> (Inl (Serialize e), b', w2)
            | (Inr v, w2) \<Rightarrow>
                (case jv_get J v ''error'' of
                   Some err \<Rightarrow> (Inl (Tool (jv_text J err)), b', w2)
                 | None \<Rightarrow> (Inr (jv_index J v ''result''), b', w2))))"

text \<open>A call whose result is read by \<open>f\<close>.\<close>

definition tool_result ::
  "('v, 'r, 'w) http_api \<Rightarrow> string \<Rightarrow> (string \<times> 'v) list \<Rightarrow> ('v \<Rightarrow> 'a) \<Rightarrow> http_backend \<times> 'w \<Rightarrow> (ruflo_error + 'a) \<times> http_backend \<times> 'w" where
  "tool_result H tool args f s =
    (case call_tool H tool (jv_object (ha_json H) args) s of (Inl e, s') \<Rightarrow> (Inl e, s') | (Inr v, s') \<Rightarrow> (Inr (f v), s'))"

definition or_else :: "'a option \<Rightarrow> 'a \<Rightarrow> 'a" where
  "or_else x d = (case x of Some v \<Rightarrow> v | None \<Rightarrow> d)"

definition http_store_mission :: "('v, 'r, 'w) http_api \<Rightarrow> string \<Rightarrow> string \<Rightarrow> string \<Rightarrow> http_backend \<times> 'w \<Rightarrow> (ruflo_error + unit) \<times> http_backend \<times> 'w" where
  "http_store_mission H key val namespace =
    (let J = ha_json H in
     tool_result H ''memory_store'' [(''key'', jv_string J key), (''value'', jv_string J val), (''namespace'', jv_string J namespace)] (\<lambda>_. ()))"

definition http_search_missions ::
  "('v, 'r, 'w) http_api \<Rightarrow> string \<Rightarrow> nat \<Rightarrow> string \<Rightarrow> http_backend \<times> 'w \<Rightarrow> (ruflo_error + mission_memory_entry list) \<times> http_backend \<times> 'w" where
  "http_search_missions H query limit namespace =
    (let J = ha_json H in
     tool_result H ''memory_search'' [(''query'', jv_string J query), (''namespace'', jv_string J namespace), (''limit'', jv_number J limit)]
       (\<lambda>v. or_else (jv_missions J v) []))"

definition http_store_pattern :: "('v, 'r, 'w) http_api \<Rightarrow> string \<Rightarrow> string \<Rightarrow> f32 \<Rightarrow> http_backend \<times> 'w \<Rightarrow> (ruflo_error + unit) \<times> http_backend \<times> 'w" where
  "http_store_pattern H pat ptype confidence =
    (let J = ha_json H in
     tool_result H ''agentdb_pattern-store'' [(''pattern'', jv_string J pat), (''type'', jv_string J ptype), (''confidence'', jv_f32 J confidence)]
       (\<lambda>_. ()))"

definition http_search_patterns ::
  "('v, 'r, 'w) http_api \<Rightarrow> string \<Rightarrow> nat \<Rightarrow> f32 \<Rightarrow> http_backend \<times> 'w \<Rightarrow> (ruflo_error + pattern_entry list) \<times> http_backend \<times> 'w" where
  "http_search_patterns H query top_k min_confidence =
    (let J = ha_json H in
     tool_result H ''agentdb_pattern-search'' [(''query'', jv_string J query), (''topK'', jv_number J top_k), (''minConfidence'', jv_f32 J min_confidence)]
       (\<lambda>v. or_else (jv_patterns J (jv_index J v ''results'')) []))"

definition http_mavlink_is_safe :: "('v, 'r, 'w) http_api \<Rightarrow> string \<Rightarrow> http_backend \<times> 'w \<Rightarrow> (ruflo_error + bool) \<times> http_backend \<times> 'w" where
  "http_mavlink_is_safe H msg =
    (let J = ha_json H in
     tool_result H ''aidefence_is_safe'' [(''input'', jv_string J msg)] (\<lambda>v. or_else (jv_as_bool J (jv_index J v ''safe'')) True))"

definition http_mavlink_scan :: "('v, 'r, 'w) http_api \<Rightarrow> string \<Rightarrow> http_backend \<times> 'w \<Rightarrow> (ruflo_error + mavlink_scan_result) \<times> http_backend \<times> 'w" where
  "http_mavlink_scan H msg =
    (let J = ha_json H in
     tool_result H ''aidefence_scan'' [(''input'', jv_string J msg), (''quick'', jv_bool J False)]
       (\<lambda>v. \<lparr>scan_is_safe = or_else (jv_as_bool J (jv_index J v ''safe'')) True,
             threats = or_else (map_option (List.map_filter (\<lambda>t. jv_as_str J (jv_index J t ''type''))) (jv_as_array J (jv_index J v ''threats''))) []\<rparr>))"

definition http_trajectory_start :: "('v, 'r, 'w) http_api \<Rightarrow> string \<Rightarrow> string \<Rightarrow> http_backend \<times> 'w \<Rightarrow> (ruflo_error + string) \<times> http_backend \<times> 'w" where
  "http_trajectory_start H task agent =
    (let J = ha_json H in
     tool_result H ''hooks_intelligence_trajectory-start'' [(''task'', jv_string J task), (''agent'', jv_string J agent)]
       (\<lambda>v. or_else (jv_as_str J (jv_index J v ''trajectoryId'')) ''unknown-traj''))"

definition http_trajectory_step ::
  "('v, 'r, 'w) http_api \<Rightarrow> string \<Rightarrow> string \<Rightarrow> string \<Rightarrow> f32 \<Rightarrow> http_backend \<times> 'w \<Rightarrow> (ruflo_error + unit) \<times> http_backend \<times> 'w" where
  "http_trajectory_step H traj action outcome quality =
    (let J = ha_json H in
     tool_result H ''hooks_intelligence_trajectory-step''
       [(''trajectoryId'', jv_string J traj), (''action'', jv_string J action), (''result'', jv_string J outcome), (''quality'', jv_f32 J quality)]
       (\<lambda>_. ()))"

definition http_trajectory_end ::
  "('v, 'r, 'w) http_api \<Rightarrow> string \<Rightarrow> bool \<Rightarrow> string option \<Rightarrow> http_backend \<times> 'w \<Rightarrow> (ruflo_error + unit) \<times> http_backend \<times> 'w" where
  "http_trajectory_end H traj success feedback =
    (let J = ha_json H in
     tool_result H ''hooks_intelligence_trajectory-end''
       ([(''trajectoryId'', jv_string J traj), (''success'', jv_bool J success)] @
        (case feedback of Some fb \<Rightarrow> [(''feedback'', jv_string J fb)] | None \<Rightarrow> []))
       (\<lambda>_. ()))"

section \<open>Requests\<close>

text \<open>Every call, whatever its outcome, takes the next request number and leaves the address alone.\<close>

lemma call_tool_counts:
  "call_tool H tool args (b, w) = (r, b', w') \<Longrightarrow> hb_request_id b' = hb_request_id b + 1 \<and> hb_base_url b' = hb_base_url b"
  by (auto simp: call_tool_def Let_def split: prod.splits sum.splits option.splits)

lemma tool_result_counts:
  "tool_result H tool args f (b, w) = (r, b', w') \<Longrightarrow> hb_request_id b' = hb_request_id b + 1 \<and> hb_base_url b' = hb_base_url b"
  by (auto simp: tool_result_def split: prod.splits sum.splits dest: call_tool_counts)

text \<open>The address of a new client does not end in a slash.\<close>

lemma trimmed_address: "hb_base_url (http_new url) = [] \<or> last (hb_base_url (http_new url)) \<noteq> CHR ''/''"
proof -
  have "dropWhile (\<lambda>c. c = CHR ''/'') (rev url) = [] \<or> hd (dropWhile (\<lambda>c. c = CHR ''/'') (rev url)) \<noteq> CHR ''/''"
    using hd_dropWhile[of "\<lambda>c. c = CHR ''/''" "rev url"] by auto
  then show ?thesis by (auto simp: http_new_def trim_slashes_def last_rev)
qed

section \<open>The safety check of a message\<close>

text \<open>
  A message is held back only by an explicit verdict: whenever the daemon answers without an error, a message is unsafe exactly when the
  answer says so; an answer without a verdict, of whatever shape, passes the message.
\<close>

theorem only_a_verdict_holds_a_message:
  assumes "call_tool H ''aidefence_is_safe'' (jv_object (ha_json H) [(''input'', jv_string (ha_json H) msg)]) s = (Inr v, s')"
  shows "http_mavlink_is_safe H msg s = (Inr (jv_as_bool (ha_json H) (jv_index (ha_json H) v ''safe'') \<noteq> Some False), s')"
  using assms by (auto simp: http_mavlink_is_safe_def tool_result_def Let_def or_else_def split: option.splits)

text \<open>Scan and check read the verdict alike; threats do not make a message unsafe.\<close>

lemma threats_without_verdict_are_safe:
  assumes "call_tool H ''aidefence_scan'' (jv_object (ha_json H) [(''input'', jv_string (ha_json H) msg), (''quick'', jv_bool (ha_json H) False)]) s = (Inr v, s')"
    "jv_as_bool (ha_json H) (jv_index (ha_json H) v ''safe'') = None"
  shows "\<exists>ts. http_mavlink_scan H msg s = (Inr \<lparr>scan_is_safe = True, threats = ts\<rparr>, s')"
  using assms by (simp add: http_mavlink_scan_def tool_result_def Let_def or_else_def)

end
