(* ===== verification/Leaderboard.thy ===== *)
theory Leaderboard
  imports EvalRunner Format
begin

text \<open>
  The evaluation program \<open>src/bin/eval_swarm.rs\<close> and the report of \<open>src/evals/report.rs\<close>: every flight pattern is evaluated, the patterns are
  ranked by coverage, and the table is rendered as Markdown. Text is the list of its UTF-8 bytes. A request for help and a panic are
  \<open>None\<close>; the file that is written is the result.
\<close>

section \<open>The report\<close>

definition em_dash :: string where
  "em_dash = [CHR 0xE2, CHR 0x80, CHR 0x94]"

definition times_sign :: string where
  "times_sign = [CHR 0xC3, CHR 0x97]"

definition section_sign :: string where
  "section_sign = [CHR 0xC2, CHR 0xA7]"

definition text_lines :: "string list \<Rightarrow> string" where
  "text_lines ls = concat (map (\<lambda>l. l @ [newline]) ls)"

definition fmt_ci :: "confidence_interval \<Rightarrow> string" where
  "fmt_ci ci = fixed 3 (ci_point ci) @ '' ['' @ fixed 3 (ci_lo ci) @ '', '' @ fixed 3 (ci_hi ci) @ '']''"

definition wi2sar_localization_m :: f64 where
  "wi2sar_localization_m = lit 5"

definition report_head :: "nat \<Rightarrow> string list" where
  "report_head n =
    [''# ruview-swarm Evaluation Results (ADR-171 Stage 1, kinematic)'',
     '''',
     ''Statistically-rigorous evaluation harness: seeded multi-run rollouts with IQM + 95% stratified-bootstrap confidence intervals '' @
       ''(Agarwal et al., NeurIPS 2021).'',
     '''',
     ''## Run configuration'',
     '''',
     ''- **Stage**: 1 (kinematic, self-contained, deterministic per seed)'',
     ''- **Episodes per pattern**: '' @ decimal n @ '' (seed '' @ times_sign @ '' episode matrix)'',
     ''- **CI method**: 95% stratified bootstrap of the IQM, stratified by seed'',
     ''- **GDOP**: 2-D geometric dilution of precision at first detection'',
     '''',
     ''> **Stage 2 pending**: high-fidelity Gazebo/PX4 SITL evaluation (false-alarm rate, real collision rate on the median seeds) is a '' @
       ''follow-on '' @ em_dash @ '' see ADR-171 '' @ section_sign @ ''6.1. The collision figures below are a kinematic min-separation '' @
       ''proxy, not SITL physics.'',
     '''',
     ''## Flight-pattern leaderboard'',
     '''',
     ''| Flight pattern | Coverage IQM [95% CI] | Localization (m) IQM [95% CI] | Detection rate | Mean GDOP |'',
     ''|----------------|-----------------------|-------------------------------|----------------|-----------|'']"

definition report_row :: "string \<times> aggregate_metrics \<Rightarrow> string" where
  "report_row = (\<lambda>(name, agg).
    ''| '' @ name @ '' | '' @ fmt_ci (coverage_iqm agg) @ '' | '' @ fmt_ci (localization_iqm agg) @ '' | '' @
    fixed 1 (agg_detection_rate agg * lit 100) @ ''% | '' @ fixed 3 (mean_gdop agg) @ '' |'')"

definition report_foot :: "string list" where
  "report_foot =
    [''| _Wi2SAR (paper baseline)_ | _n/a_ | _'' @ fixed 1 wi2sar_localization_m @ '' (paper)_ | _n/a_ | _n/a_ |'',
     '''',
     ''_Wi2SAR row is the published single-drone localization figure (arxiv 2604.09115), shown paper-to-paper for reference only '' @ em_dash @
       '' it was not re-run through this kinematic harness._'']"

definition render_results_md :: "(string \<times> aggregate_metrics) list \<Rightarrow> string" where
  "render_results_md rows =
    text_lines (report_head (case rows of [] \<Rightarrow> 0 | (_, agg) # _ \<Rightarrow> n_episodes agg) @ map report_row rows @ report_foot)"

section \<open>The program\<close>

record eval_args =
  ea_seeds :: nat
  ea_episodes :: nat
  ea_out :: string

definition eval_args_default :: eval_args where
  "eval_args_default = \<lparr>ea_seeds = 10, ea_episodes = 10, ea_out = ''crates/ruview-swarm/evals/RESULTS.md''\<rparr>"

definition set_eval_flag :: "string \<Rightarrow> string option \<Rightarrow> eval_args \<Rightarrow> eval_args option" where
  "set_eval_flag f next a =
    (if f = ''--seeds'' then Some (case next of Some s \<Rightarrow> a\<lparr>ea_seeds := parsed_or (ea_seeds a) s\<rparr> | None \<Rightarrow> a)
     else if f = ''--episodes'' then Some (case next of Some s \<Rightarrow> a\<lparr>ea_episodes := parsed_or (ea_episodes a) s\<rparr> | None \<Rightarrow> a)
     else if f = ''--out'' then Some (case next of Some s \<Rightarrow> a\<lparr>ea_out := s\<rparr> | None \<Rightarrow> a)
     else None)"

definition eval_pattern :: "eval_env \<Rightarrow> nat \<Rightarrow> nat \<Rightarrow> nat \<times> flight_pattern \<Rightarrow> (string \<times> aggregate_metrics) option" where
  "eval_pattern E seeds episodes = (\<lambda>(idx, p).
    Option.bind (run_matrix E ((sar_small p)\<lparr>ev_seeds := seeds, episodes_per_seed := episodes\<rparr>)) (\<lambda>m.
      map_option (Pair (flight_name p)) (from_strata m (xor 0x0149 (of_nat idx)))))"

definition coverage_point :: "string \<times> aggregate_metrics \<Rightarrow> f64" where
  "coverage_point r = ci_point (coverage_iqm (snd r))"

definition by_coverage :: "string \<times> aggregate_metrics \<Rightarrow> string \<times> aggregate_metrics \<Rightarrow> ordering" where
  "by_coverage a b = partial_cmp_or_equal (coverage_point b) (coverage_point a)"

definition leaderboard :: "eval_env \<Rightarrow> nat \<Rightarrow> nat \<Rightarrow> (string \<times> aggregate_metrics) list option" where
  "leaderboard E seeds episodes = map_option (sort_by by_coverage) (run_all (eval_pattern E seeds episodes) (enumerate 0 flight_all))"

definition eval_main :: "eval_env \<Rightarrow> string list \<Rightarrow> (string \<times> string) option" where
  "eval_main E argv =
    Option.bind (flag_loop is_help set_eval_flag eval_args_default (drop 1 argv)) (\<lambda>a.
      map_option (\<lambda>rows. (ea_out a, render_results_md rows)) (leaderboard E (ea_seeds a) (ea_episodes a)))"

section \<open>Means of coverages\<close>

lemma fsum_nonneg: "(\<And>x. x \<in> set xs \<Longrightarrow> 0 \<le> x) \<Longrightarrow> 0 \<le> (fsum xs :: f64)"
proof -
  have "0 \<le> acc \<Longrightarrow> (\<And>x. x \<in> set xs \<Longrightarrow> 0 \<le> x) \<Longrightarrow> 0 \<le> foldl (+) acc (xs :: f64 list)" for acc
    by (induction xs arbitrary: acc) (simp_all add: flt_add_nonneg)
  then show "(\<And>x. x \<in> set xs \<Longrightarrow> 0 \<le> x) \<Longrightarrow> 0 \<le> (fsum xs :: f64)" by (simp add: fsum_def)
qed

lemma mean_nonneg:
  assumes "\<And>x. x \<in> set xs \<Longrightarrow> 0 \<le> x" "xs \<noteq> []" "length xs < 2 ^ 64"
  shows "0 \<le> (mean_of xs :: f64)"
proof -
  obtain q where "(rnd (of_nat (length xs)) :: f64) = Fin q" "1 \<le> q" using rnd_count[of "length xs"] assms(2,3) by auto
  then show ?thesis using fsum_nonneg[OF assms(1)] by (simp add: mean_of_def flt_div_nonneg)
qed

lemma iqm_nonneg:
  assumes "\<And>x. x \<in> set xs \<Longrightarrow> 0 \<le> x" "length xs < 2 ^ 64"
  shows "0 \<le> iqm xs"
proof -
  let ?o = "sort_by partial_cmp_or_equal xs"
  let ?mid = "take (length ?o - length ?o div 4 - length ?o div 4) (drop (length ?o div 4) ?o)"
  have "0 \<le> mean_of ?mid" if "?mid \<noteq> []"
    using that assms set_take_subset set_drop_subset by (intro mean_nonneg) (fastforce dest: in_set_takeD in_set_dropD)+
  moreover have "0 \<le> mean_of xs" if "xs \<noteq> []"
    using that assms by (intro mean_nonneg) simp_all
  moreover have "0 \<le> mean_of ?o" if "xs \<noteq> []"
  proof (rule mean_nonneg)
    show "?o \<noteq> []" using that by (metis length_0_conv length_sort_by)
  qed (use assms in simp_all)
  ultimately show ?thesis by (auto simp: iqm_def Let_def mean_of_def)
qed

section \<open>The leaderboard is ranked\<close>

lemma eval_pattern_returns:
  assumes "seeds * max 1 episodes < 2 ^ 53"
  shows "\<exists>agg. eval_pattern E seeds episodes (idx, p) = Some (flight_name p, agg) \<and> 0 \<le> ci_point (coverage_iqm agg) \<and>
    n_episodes agg = seeds * episodes \<and> 0 \<le> agg_detection_rate agg \<and> agg_detection_rate agg \<le> 1"
proof -
  let ?cfg = "(sar_small p)\<lparr>ev_seeds := seeds, episodes_per_seed := episodes\<rparr>"
  have "eval_ok ?cfg" by (simp add: eval_ok_def side_ok_def sar_small_def sar_default_def representable_numeral)
  then obtain m where m: "run_matrix E ?cfg = Some m" "length m = seeds"
      "\<forall>es \<in> set m. length es = episodes \<and> (\<forall>e \<in> set es. sound_metrics e)"
    using matrix_filled[of ?cfg E] assms by auto
  have "map length m = map (\<lambda>_. episodes) m" using m(3) by simp
  then have len: "length (concat m) = seeds * episodes" by (simp only: length_concat sum_list_triv m(2) of_nat_id)
  then have "seeds * episodes \<le> seeds * max 1 episodes" by (intro mult_le_mono) simp_all
  then have small: "length (concat m) < 2 ^ 53" using assms len by (simp only:)
  obtain agg where a: "from_strata m (xor 0x0149 (of_nat idx)) = Some agg" "n_episodes agg = length (concat m)"
      "0 \<le> agg_detection_rate agg" "agg_detection_rate agg \<le> 1" "ci_point (coverage_iqm agg) = iqm (map em_coverage_pct (concat m))"
    using aggregation_is_total[OF small] by blast
  have "0 \<le> iqm (map em_coverage_pct (concat m))"
    using m(3) small by (intro iqm_nonneg) (auto simp: sound_metrics_def simp del: length_concat)
  then show ?thesis using a by (simp add: eval_pattern_def m(1) len)
qed

lemma evaluated_rows:
  assumes "seeds * max 1 episodes < 2 ^ 53"
  shows "\<exists>rows. run_all (eval_pattern E seeds episodes) ps = Some rows \<and> map fst rows = map (\<lambda>(_, p). flight_name p) ps \<and>
    (\<forall>r \<in> set rows. 0 \<le> coverage_point r \<and> n_episodes (snd r) = seeds * episodes)"
proof (induction ps)
  case (Cons x ps)
  obtain idx p where x: "x = (idx, p)" by fastforce
  obtain agg where "eval_pattern E seeds episodes x = Some (flight_name p, agg)" "0 \<le> coverage_point (flight_name p, agg)"
      "n_episodes agg = seeds * episodes"
    using eval_pattern_returns[OF assms, of E idx p] by (auto simp: x coverage_point_def)
  with Cons show ?case by (auto simp: x)
qed simp

lemma flipped_comparator: "comparator_on P cmp \<Longrightarrow> comparator_on P (\<lambda>x y. cmp y x)"
  unfolding comparator_on_def by blast

interpretation coverages: comparator_on "\<lambda>r. \<not> is_nan (coverage_point r)" by_coverage
  using flipped_comparator[OF partial_cmp_comparator[of coverage_point]] by (simp add: by_coverage_def[abs_def])

text \<open>
  C34. The leaderboard of an evaluation of fewer than two to the 53 rollouts (and seeds), whatever the transcendental functions, lists each flight pattern exactly once, with all its episodes, in
  descending order of the coverage, which is a non-negative number.
\<close>
theorem leaderboard_is_ranked:
  assumes "seeds * max 1 episodes < 2 ^ 53"
  shows "\<exists>rows. leaderboard E seeds episodes = Some rows \<and> mset (map fst rows) = mset (map flight_name flight_all) \<and>
    sorted_wrt (\<lambda>a b. coverage_point b \<le> coverage_point a) rows \<and>
    (\<forall>r \<in> set rows. 0 \<le> coverage_point r \<and> n_episodes (snd r) = seeds * episodes)"
proof -
  obtain rows where r: "run_all (eval_pattern E seeds episodes) (enumerate 0 flight_all) = Some rows"
      "map fst rows = map (\<lambda>(_, p). flight_name p) (enumerate 0 flight_all)"
      "\<forall>r \<in> set rows. 0 \<le> coverage_point r \<and> n_episodes (snd r) = seeds * episodes"
    using evaluated_rows[OF assms] by blast
  have num: "\<forall>r \<in> set rows. \<not> is_nan (coverage_point r)" using r(3) flt_le_nan by blast
  have "sorted_wrt (\<lambda>a b. by_coverage a b \<noteq> Greater) (sort_by by_coverage rows)" using num by (rule coverages.sort_by_sorted)
  then have "sorted_wrt (\<lambda>a b. coverage_point b \<le> coverage_point a) (sort_by by_coverage rows)"
    using num by (auto simp: by_coverage_def partial_cmp_not_greater elim!: sorted_wrt_mono_rel[rotated])
  moreover have "mset (map fst (sort_by by_coverage rows)) = mset (map flight_name flight_all)"
  proof -
    have "mset (map fst (sort_by by_coverage rows)) = mset (map fst rows)" by (simp only: mset_map mset_sort_by)
    also have "map fst rows = map flight_name flight_all" by (simp add: r(2) flight_all_def)
    finally show ?thesis .
  qed
  ultimately show ?thesis using r by (simp add: leaderboard_def)
qed

theorem leaderboard_is_ranked_witness:
  "\<exists>rows. leaderboard demo_eval_env 10 10 = Some rows \<and> mset (map fst rows) = mset (map flight_name flight_all) \<and>
     sorted_wrt (\<lambda>a b. coverage_point b \<le> coverage_point a) rows"
  using leaderboard_is_ranked[of 10 10 demo_eval_env] by auto

text \<open>The report has a line per pattern between its head and its foot; the table ends with the published baseline.\<close>

lemma rendered_rows:
  "rows \<noteq> [] \<Longrightarrow> render_results_md rows =
    text_lines (report_head (n_episodes (snd (hd rows)))) @ concat (map (\<lambda>r. report_row r @ [newline]) rows) @ text_lines report_foot"
  by (cases rows) (auto simp: render_results_md_def text_lines_def comp_def)

lemma baseline_text: "fixed 1 wi2sar_localization_m = ''5.0''"
proof -
  have "fixed 1 (Fin 5 :: f64) = ''5.0''" by code_simp
  then show ?thesis by (simp add: wi2sar_localization_m_def)
qed

end
