(* ===== verification/Support.thy ===== *)
theory Support
  imports Sensing
begin

text \<open>
  The synthetic inputs of \<open>src/bench_support.rs\<close>: drones on a square grid and positions on a circle; cosine and sine are parameters.
\<close>

definition grid_drone_states :: "nat \<Rightarrow> f64 \<Rightarrow> drone_state list" where
  "grid_drone_states n spacing =
    (let side = unat (as_unsigned (fceil (fsqrt (rnd (of_nat n) :: f64))) :: u64)
     in map (\<lambda>i. \<lparr>ds_id = of_nat i,
          ds_position = \<lparr>px = rnd (of_nat (i mod side)) * spacing, py = rnd (of_nat (i div side)) * spacing, pz = - lit 30\<rparr>,
          ds_velocity = velocity_default, heading_rad = 0, altitude_agl_m = lit 30, battery_pct = lit 80, link_quality = lit (9 / 10),
          timestamp_ms = 0\<rparr>) [0..<n])"

definition circle_positions :: "(f64 \<Rightarrow> f64) \<Rightarrow> (f64 \<Rightarrow> f64) \<Rightarrow> nat \<Rightarrow> f64 \<Rightarrow> (node_id \<times> position3d) list" where
  "circle_positions cos_f sin_f n radius =
    map (\<lambda>i. let angle = lit 2 * pi_f64 * rnd (of_nat i) / rnd (of_nat n)
         in (of_nat i, \<lparr>px = radius * cos_f angle, py = radius * sin_f angle, pz = - lit 30\<rparr>)) [0..<n]"

text \<open>Every drone has its own identifier, and is charged and airborne.\<close>

lemma distinct_ids: "n \<le> 2 ^ 32 \<Longrightarrow> distinct (map of_nat [0..<n] :: u32 list)"
  by (auto simp: distinct_map inj_on_def word_of_nat_eq_iff take_bit_nat_eq_self)

lemma grid_drones: "n \<le> 2 ^ 32 \<Longrightarrow> distinct (map ds_id (grid_drone_states n spacing)) \<and> length (grid_drone_states n spacing) = n"
  using distinct_ids by (simp add: grid_drone_states_def Let_def comp_def)

lemma circle_drones: "n \<le> 2 ^ 32 \<Longrightarrow> distinct (map fst (circle_positions c s n r)) \<and> length (circle_positions c s n r) = n"
  using distinct_ids by (simp add: circle_positions_def Let_def comp_def)

end
