(* ===== verification/Spec2Isabelle.thy ===== *)
theory Spec2Isabelle
  imports FailSafe Raft Gossip Mesh Allocation Delivery PolicySafety Metrics Node Transport Forecast Geofence AntiJam LinkSecurity JellyControl
    SwarmSim Rrt Formation Mavlink EvalRunner Training Ruflo Rollout RufloHttp Leaderboard Support
begin

text \<open>
  A verification development for ruv-drone, a Rust library for cooperating drones (crate \<open>src/\<close>, workspace crate
  \<open>crates/ruv-jellyfish\<close>): a model of the program's own logic, function by function, and the theorems that make it correct.
  Paths below are relative to the repository.

  \<^bold>\<open>The program and its parts.\<close> One orchestrator per drone (\<open>src/orchestrator\<close>) advances a mission in steps: fail-safe checks, a
  grid of victim probabilities, a sweep over the area, scans of the payload, peers merged by gossip. Beside it run the election of a
  cluster head and the allocation of tasks, and the advisory channel: a shared radio link over which drones exchange signed, encoded
  snapshots and forecasts, which can only ever advise. Geofence, radio hopping and signing of commands guard the vehicle. Simulations
  fly several orchestrators in one process. The jellyfish crate steers a swimmer by energy, gait and bloom detection.

  \<^bold>\<open>Foundations.\<close>
  \<^item> \<open>Prelude\<close>: machine integers, results (\<open>error + 'a\<close>; a panic is \<open>None\<close>), the ordered map \<open>BTreeMap\<close> as a sorted association list
    and \<open>HashMap\<close> as an association list in iteration order, sorting by a comparator, and the locales for runs of operations:
    \<open>op_invariant\<close>, \<open>op_progress\<close>, \<open>op_total\<close>. Every session of the model interprets one of them.
  \<^item> \<open>Ieee\<close>, \<open>Floats\<close>: IEEE-754 \<open>f32\<close> and \<open>f64\<close> as rationals with infinities, NaN and signed zero, rounded to nearest even; monotonicity
    of the operations, bounds, casts that saturate, \<open>clamp\<close> that panics.
  \<^item> \<open>Format\<close>: numbers as text, and the arguments of a program. \<open>Support\<close>: the synthetic inputs of \<open>src/bench_support.rs\<close>.
  \<^item> \<open>Types\<close>: \<open>src/types.rs\<close>. \<open>Config\<close>: \<open>src/config\<close> with its profiles.

  \<^bold>\<open>The mission.\<close>
  \<^item> \<open>FailSafe\<close> (\<open>src/failsafe\<close>): the states and transitions of one drone; a drone with a fresh link, battery and map goes on, and a
    silent link leads to loiter, autonomy and return in the documented order.
  \<^item> \<open>Grid\<close>, \<open>Coverage\<close> (\<open>src/planning/probability_grid.rs\<close>, \<open>coverage.rs\<close>, \<open>pheromone.rs\<close>): the grid stays a map of probabilities and a
    sweep covers it.
  \<^item> \<open>Sensing\<close> (\<open>src/sensing\<close>): payloads, multi-view fusion, which fails closed, and the scan of the synthetic payload.
  \<^item> \<open>Orchestrator\<close> (\<open>src/orchestrator\<close>): state, step, peers, detections; missions never panic, a close peer stops the mission, nothing
    advisory steers it. \<open>Scenario\<close>, \<open>SwarmSim\<close> (\<open>src/demo\<close>, \<open>src/integration/swarm_sim.rs\<close>, \<open>mission_report.rs\<close>): the scripted and the
    multi-drone simulations and what their reports say. \<open>Summary\<close>: \<open>src/ruflo/mission_summary.rs\<close>.
  \<^item> \<open>Raft\<close>, \<open>Gossip\<close>, \<open>Mesh\<close> (\<open>src/topology\<close>), \<open>Allocation\<close> (\<open>src/allocation\<close>): election, convergence of gossip, nearest neighbours,
    auction.

  \<^bold>\<open>The advisory channel\<close> (\<open>src/latentmesh\<close>).
  \<^item> \<open>AirState\<close> (\<open>state.rs\<close>): the fixed-point schema and its round trip. \<open>AirLink\<close>, \<open>Transmit\<close>, \<open>Receive\<close> (\<open>protocol.rs\<close>): the shared link, the
    transmit and the receive session; \<open>TransmitSafety\<close>: sequence numbers are never reused; \<open>ReceiveSafety\<close>: no replay, only authentic and
    fresh snapshots, bounded memory; \<open>Delivery\<close>: sender, wire and receiver composed, an honest advisory arrives.
  \<^item> \<open>Policy\<close>, \<open>PolicySafety\<close> (\<open>policy.rs\<close>): the admission gate and the scheduler. \<open>Metrics\<close> (\<open>metrics.rs\<close>), \<open>Node\<close> (\<open>node.rs\<close>): one node's
    bookkeeping.
  \<^item> \<open>Forecast\<close> (\<open>src/forecast\<close>): forecasts of a drone's own telemetry, which decide only whether it is eligible for new
    work; they can take that eligibility away and never add to it.

  \<^bold>\<open>The vehicle's guards\<close> (\<open>src/security\<close>).
  \<^item> \<open>Geofence\<close> (fails closed), \<open>AntiJam\<close> (hopping; a tick returns), \<open>LinkSecurity\<close> (MAVLink signing, ultra-wideband ranging, Remote ID).

  \<^bold>\<open>The jellyfish crate\<close> (\<open>crates/ruv-jellyfish\<close>): \<open>JellyEnergy\<close>, \<open>JellyGait\<close>, \<open>JellyBloom\<close>, \<open>JellyControl\<close>.

  \<^bold>\<open>Where to fly.\<close>
  \<^item> \<open>Patterns\<close> (\<open>src/planning/patterns.rs\<close>): the six flight patterns; every coordinate of a waypoint stays in the area or is not a number, a partitioned drone in its strip, and over
    one cycle the lawnmower visits each cell of its lattice once, in order. \<open>Rrt\<close> (\<open>rrt_apf.rs\<close>): the random tree with repulsion; planning returns a path.
  \<^item> \<open>Formation\<close> (\<open>src/formation\<close>): virtual structure, leader and followers, flocking; the slots of a grid keep their spacing.

  \<^bold>\<open>Messages and evaluation.\<close>
  \<^item> \<open>Mavlink\<close> (\<open>src/integration/mavlink_messages.rs\<close>, \<open>flight_controller.rs\<close>, \<open>telemetry.rs\<close>): the custom messages, their bytes and what a
    report keeps of a detection; the simulated flight controller. \<open>Telemetry\<close>: the recorder, whose lines are JSON texts.
  \<^item> \<open>EvalStats\<close>, \<open>EvalRunner\<close> (\<open>src/evals\<close>): robust statistics with their generator, dilution of precision, and the seeded rollouts; an
    evaluation fills its matrix. \<open>Leaderboard\<close> (\<open>report.rs\<close>, \<open>src/bin/eval_swarm.rs\<close>): the report ranks the patterns.
    \<open>Rounding\<close>: the error of one rounded operation, which these proofs and the radio's use.
  \<^item> \<open>Transport\<close> (\<open>src/latentmesh/transport.rs\<close>): the loopback pair over a store of channels and its runs as a step relation, whose frames arrive once and
    in order over channels that keep the order, and the checks the datagram socket makes around the calls of the operating system.

  \<^bold>\<open>Learning\<close> (\<open>src/marl\<close>).
  \<^item> \<open>Learning\<close> (\<open>learning.rs\<close>, \<open>reward.rs\<close>, \<open>trainer.rs\<close>): the bank of patterns, the curiosity bonus, which decays with visits, the reward.
  \<^item> \<open>Actor\<close> (\<open>observation.rs\<close>, \<open>actor.rs\<close>, \<open>role_attention.rs\<close>): the observation vector, the policy network, whose actions stay within the
    vehicle's limits. \<open>Training\<close> (\<open>training_loop.rs\<close>, the advantages of \<open>candle_ppo.rs\<close>): replay, episodes, returns and advantages.
    \<open>Candle\<close> (\<open>candle_ppo.rs\<close>): the network and the trainer, over the calls of the candle crates.
  \<^item> \<open>Rollout\<close> (\<open>src/bin/train_marl.rs\<close>): the training program: when it panics, and what a run that succeeds has done; under its
    default profile no victim is ever seen.

  \<^bold>\<open>Memory.\<close> \<open>Ruflo\<close> (\<open>src/ruflo/backend.rs\<close>, \<open>mock_backend.rs\<close>): the backend's interface as the locale \<open>memory_backend\<close>, interpreted on the
  two memories of the in-process double. \<open>RufloHttp\<close> (\<open>http_backend.rs\<close>): the client of the daemon.

  \<^bold>\<open>Correspondence.\<close> A struct is a record with the code's fields (prefixed where a name is taken), an enum a datatype, a method that
  mutates \<open>self\<close> a function from state to state, a trait object a record of its methods. Every early return, error and panic is a branch.
  Counters wrap as in the release profile. Loops over collections are recursions over lists; the simulations are structural in their number
  of steps. The two loops of the source without a bound, the choice of the next radio channel and the trace of a path to the root of its tree, are
  \<open>partial_function\<close>s whose value \<open>None\<close> is not returning; that they return is proved.

  \<^bold>\<open>Parameters.\<close> Code outside the repository appears as an argument: the codec of latentmesh\_air\_core, ed25519\_dalek, hmac and sha2, the
  forecaster of ruforecast\_core, the generator of rand (with the contract of \<open>gen_range\<close> as a hypothesis, which a concrete generator
  satisfies), the calls of a socket, the channels of tokio, the HTTP client with the JSON
  values of serde\_json, the tensors, layers and optimizer of the candle crates, the files, \<open>exp\<close>, \<open>ln\<close>, \<open>tanh\<close>, \<open>acos\<close>, \<open>atan2\<close> and the other transcendental functions, and every clock.

  \<^bold>\<open>Not modelled.\<close> The binding of sockets, benches, examples, the TOML reader, the texts of errors and descriptions, printing and logging.
  Arguments of the programs are Unicode.

  \<^bold>\<open>Allocations.\<close> An allocation that fails is not modelled. A vector built in one piece of more than \<open>isize::MAX\<close> bytes is a panic before it is
  requested; that is modelled where the length comes from outside: the cells of an evaluation, its drones, seeds and episodes, the drones of a simulation
  and of a training run, the cells of the curiosity bonus. It is not modelled for the widths of a new actor and the dimension of a new adapter, which
  only tests and benches pass, and not for vectors that grow by pushing, which exhaust the memory first.
\<close>

end
